(* ===== verification/Prelude.thy ===== *)
theory Prelude
  imports
    Main
    "HOL-Library.Word"
    "HOL-Library.Product_Lexorder"
    "HOL-Library.Option_ord"
    "HOL-Library.Char_ord"
    "HOL-Library.List_Lexorder"
begin

text \<open>
  Shared vocabulary of the development: the result type of fallible operations, the
  fixed-width arithmetic of the program on \<^typ>\<open>nat\<close> with every wrap-around written
  out, and the key-value store that stands for one database of the node.

  \<^item> A Rust \<open>Result<T, E>\<close> is \<open>('e, 't) result\<close> with \<open>Inl\<close> for the error;
    \<open>?\<close> is \<open>rbind\<close>, and a \<open>for\<close> loop whose body uses \<open>?\<close> is \<open>try_fold\<close>.
  \<^item> Unsigned integers are \<^typ>\<open>nat\<close>. \<open>checked_*\<close>, \<open>saturating_*\<close> and the plain
    operators (which wrap in the release profile of \<open>Cargo.toml\<close>, where overflow checks
    are off) are separate functions that take the width.
  \<^item> A database (\<open>sneed::DatabaseUnique\<close>) is the type \<open>('k, 'v) db\<close>: a finite map
    with \<open>try_get\<close>, \<open>put\<close>, \<open>delete\<close>, \<open>clear\<close> and \<open>iter\<close>. Its entries are kept
    sorted by key, so two databases that answer every lookup alike are equal. Reads and
    writes do not fail: the I/O errors of the storage engine are outside the model.
\<close>

named_theorems arith_defs \<open>definitions of the fixed-width operations\<close>
named_theorems store_simps \<open>rewriting lookups through store updates\<close>

section \<open>Results\<close>

type_synonym ('e, 'a) result = "'e + 'a"

fun rbind :: "('e, 'a) result \<Rightarrow> ('a \<Rightarrow> ('e, 'b) result) \<Rightarrow> ('e, 'b) result" where
  "rbind (Inl e) f = Inl e"
| "rbind (Inr x) f = f x"

definition ok_or :: "'a option \<Rightarrow> 'e \<Rightarrow> ('e, 'a) result" where
  "ok_or x e = (case x of None \<Rightarrow> Inl e | Some v \<Rightarrow> Inr v)"

fun map_err :: "('e \<Rightarrow> 'f) \<Rightarrow> ('e, 'a) result \<Rightarrow> ('f, 'a) result" where
  "map_err f (Inl e) = Inl (f e)"
| "map_err f (Inr x) = Inr x"

definition unwrap_or :: "'a \<Rightarrow> 'a option \<Rightarrow> 'a" where
  "unwrap_or d x = (case x of None \<Rightarrow> d | Some v \<Rightarrow> v)"

definition ensure :: "bool \<Rightarrow> 'e \<Rightarrow> ('e, unit) result" where
  "ensure b e = (if b then Inr () else Inl e)"

fun try_fold :: "('a \<Rightarrow> 's \<Rightarrow> ('e, 's) result) \<Rightarrow> 'a list \<Rightarrow> 's \<Rightarrow> ('e, 's) result" where
  "try_fold f [] s = Inr s"
| "try_fold f (x # xs) s = rbind (f x s) (try_fold f xs)"

definition is_ok :: "('e, 'a) result \<Rightarrow> bool" where
  "is_ok r = (case r of Inl _ \<Rightarrow> False | Inr _ \<Rightarrow> True)"

section \<open>Fixed-width unsigned arithmetic\<close>

definition wrapping_add :: "nat \<Rightarrow> nat \<Rightarrow> nat \<Rightarrow> nat" where
  [arith_defs]: "wrapping_add w a b = (a + b) mod 2 ^ w"

definition wrapping_sub :: "nat \<Rightarrow> nat \<Rightarrow> nat \<Rightarrow> nat" where
  [arith_defs]: "wrapping_sub w a b = (if b \<le> a then a - b else (a + 2 ^ w) - b)"

definition wrapping_mul :: "nat \<Rightarrow> nat \<Rightarrow> nat \<Rightarrow> nat" where
  [arith_defs]: "wrapping_mul w a b = (a * b) mod 2 ^ w"

definition as_u :: "nat \<Rightarrow> nat \<Rightarrow> nat" where
  [arith_defs]: "as_u w a = a mod 2 ^ w"

definition checked_add :: "nat \<Rightarrow> nat \<Rightarrow> nat \<Rightarrow> nat option" where
  [arith_defs]: "checked_add w a b = (if a + b < 2 ^ w then Some (a + b) else None)"

definition checked_sub :: "nat \<Rightarrow> nat \<Rightarrow> nat option" where
  [arith_defs]: "checked_sub a b = (if b \<le> a then Some (a - b) else None)"

definition checked_mul :: "nat \<Rightarrow> nat \<Rightarrow> nat \<Rightarrow> nat option" where
  [arith_defs]: "checked_mul w a b = (if a * b < 2 ^ w then Some (a * b) else None)"

definition checked_div :: "nat \<Rightarrow> nat \<Rightarrow> nat option" where
  [arith_defs]: "checked_div a b = (if b = 0 then None else Some (a div b))"

definition saturating_add :: "nat \<Rightarrow> nat \<Rightarrow> nat \<Rightarrow> nat" where
  [arith_defs]: "saturating_add w a b = (if a + b < 2 ^ w then a + b else 2 ^ w - 1)"

definition saturating_sub :: "nat \<Rightarrow> nat \<Rightarrow> nat" where
  [arith_defs]: "saturating_sub a b = a - b"

definition saturating_mul :: "nat \<Rightarrow> nat \<Rightarrow> nat \<Rightarrow> nat" where
  [arith_defs]: "saturating_mul w a b = (if a * b < 2 ^ w then a * b else 2 ^ w - 1)"

definition range_incl :: "nat \<Rightarrow> nat \<Rightarrow> nat list" where
  "range_incl a b = [a..<Suc b]"

section \<open>Stores\<close>

fun entries_put :: "'k::linorder \<Rightarrow> 'v \<Rightarrow> ('k \<times> 'v) list \<Rightarrow> ('k \<times> 'v) list" where
  "entries_put k v [] = [(k, v)]"
| "entries_put k v (e # es) =
     (if fst e < k then e # entries_put k v es
      else if fst e = k then (k, v) # es
      else (k, v) # e # es)"

definition entries_delete :: "'k \<Rightarrow> ('k \<times> 'v) list \<Rightarrow> ('k \<times> 'v) list" where
  "entries_delete k es = filter (\<lambda>e. fst e \<noteq> k) es"

lemma set_entries_put_keys: "fst ` set (entries_put k v es) = insert k (fst ` set es)"
  by (induction es) auto

lemma sorted_entries_put:
  "sorted_wrt (<) (map fst es) \<Longrightarrow> sorted_wrt (<) (map fst (entries_put k v es))"
proof (induction es)
  case (Cons e es)
  have "\<forall>y \<in> fst ` set (entries_put k v es). fst e < y" if "fst e < k"
    using Cons.prems that by (auto simp: set_entries_put_keys)
  with Cons show ?case by auto
qed simp

lemma map_of_entries_put:
  "sorted_wrt (<) (map fst es) \<Longrightarrow> map_of (entries_put k v es) = (map_of es)(k \<mapsto> v)"
  by (induction es) (auto simp: fun_eq_iff)

lemma map_of_entries_delete: "map_of (entries_delete k es) = (map_of es)(k := None)"
  by (induction es) (auto simp: entries_delete_def fun_eq_iff)

lemma sorted_entries_delete:
  "sorted_wrt (<) (map fst es) \<Longrightarrow> sorted_wrt (<) (map fst (entries_delete k es))"
  by (induction es) (auto simp: entries_delete_def)

lemma distinct_sorted_keys: "sorted_wrt (<) (map fst es) \<Longrightarrow> distinct (map fst es)"
  for es :: "('k::linorder \<times> 'v) list"
  using strict_sorted_iff by blast

lemma entries_of_map:
  "distinct (map fst es) \<Longrightarrow> map (\<lambda>k. (k, the (map_of es k))) (map fst es) = es"
  by (simp add: o_def) (rule map_idI, force)

lemma sorted_entries_ext:
  fixes es es' :: "('k::linorder \<times> 'v) list"
  assumes s: "sorted_wrt (<) (map fst es)" and s': "sorted_wrt (<) (map fst es')"
    and eq: "map_of es = map_of es'"
  shows "es = es'"
proof -
  have "fst ` set es = fst ` set es'"
    using eq by (metis dom_map_of_conv_image_fst)
  with s s' have "map fst es = map fst es'"
    by (metis list.set_map strict_sorted_equal)
  moreover note eq
  ultimately show ?thesis
    using entries_of_map [OF distinct_sorted_keys [OF s]]
      entries_of_map [OF distinct_sorted_keys [OF s']] by simp
qed

typedef (overloaded) ('k::linorder, 'v) db = "{es :: ('k \<times> 'v) list. sorted_wrt (<) (map fst es)}"
  morphisms db_entries Abs_db
  by (rule exI [of _ "[]"]) simp

setup_lifting type_definition_db

lift_definition db_empty :: "('k::linorder, 'v) db" is "[]" by simp

lift_definition db_get :: "('k::linorder, 'v) db \<Rightarrow> 'k \<Rightarrow> 'v option" is map_of .

lift_definition db_put :: "('k::linorder, 'v) db \<Rightarrow> 'k \<Rightarrow> 'v \<Rightarrow> ('k, 'v) db" is
  "\<lambda>es k v. entries_put k v es" by (rule sorted_entries_put)

lift_definition db_delete :: "('k::linorder, 'v) db \<Rightarrow> 'k \<Rightarrow> ('k, 'v) db" is
  "\<lambda>es k. entries_delete k es" by (rule sorted_entries_delete)

definition db_keys :: "('k::linorder, 'v) db \<Rightarrow> 'k list" where
  "db_keys d = map fst (db_entries d)"

definition db_contains :: "('k::linorder, 'v) db \<Rightarrow> 'k \<Rightarrow> bool" where
  "db_contains d k = (db_get d k \<noteq> None)"

fun db_put_all :: "('k::linorder \<times> 'v) list \<Rightarrow> ('k, 'v) db \<Rightarrow> ('k, 'v) db" where
  "db_put_all [] d = d"
| "db_put_all (e # es) d = db_put_all es (db_put d (fst e) (snd e))"

fun db_delete_all :: "'k::linorder list \<Rightarrow> ('k, 'v) db \<Rightarrow> ('k, 'v) db" where
  "db_delete_all [] d = d"
| "db_delete_all (k # ks) d = db_delete_all ks (db_delete d k)"

text \<open>An ordered set (\<open>BTreeSet\<close>) is a store without values.\<close>

type_synonym 'a oset = "('a, unit) db"

definition oset_elems :: "'a::linorder oset \<Rightarrow> 'a list" where
  "oset_elems s = db_keys s"

definition oset_insert :: "'a::linorder \<Rightarrow> 'a oset \<Rightarrow> 'a oset" where
  "oset_insert x s = db_put s x ()"

definition oset_remove :: "'a::linorder \<Rightarrow> 'a oset \<Rightarrow> 'a oset" where
  "oset_remove x s = db_delete s x"

definition oset_member :: "'a::linorder \<Rightarrow> 'a oset \<Rightarrow> bool" where
  "oset_member x s = db_contains s x"

definition oset_retain :: "('a::linorder \<Rightarrow> bool) \<Rightarrow> 'a oset \<Rightarrow> 'a oset" where
  "oset_retain P s = db_delete_all (filter (\<lambda>x. \<not> P x) (db_keys s)) s"

fun oset_of_list :: "'a::linorder list \<Rightarrow> 'a oset" where
  "oset_of_list [] = db_empty"
| "oset_of_list (x # xs) = oset_insert x (oset_of_list xs)"

instantiation db :: (linorder, equal) equal
begin

definition equal_db :: "('a, 'b) db \<Rightarrow> ('a, 'b) db \<Rightarrow> bool" where
  "equal_db d d' = (db_entries d = db_entries d')"

instance
  by standard (simp add: equal_db_def db_entries_inject)

end

section \<open>The store contract\<close>

text \<open>
  What the components rely on of a database: lookups after an insert or a delete, and
  that a store is determined by its lookups.
\<close>

locale store =
  fixes empty :: 'm
    and get :: "'m \<Rightarrow> 'k \<Rightarrow> 'v option"
    and put :: "'m \<Rightarrow> 'k \<Rightarrow> 'v \<Rightarrow> 'm"
    and delete :: "'m \<Rightarrow> 'k \<Rightarrow> 'm"
  assumes get_empty: "get empty k = None"
    and get_put: "get (put m k v) k' = (if k' = k then Some v else get m k')"
    and get_delete: "get (delete m k) k' = (if k' = k then None else get m k')"
    and ext: "(\<And>k. get m k = get m' k) \<Longrightarrow> m = m'"
begin

lemma put_put: "put (put m k v) k v' = put m k v'"
  by (rule ext) (simp add: get_put)

lemma put_commute: "k \<noteq> k' \<Longrightarrow> put (put m k v) k' v' = put (put m k' v') k v"
  by (rule ext) (simp add: get_put)

lemma put_same: "get m k = Some v \<Longrightarrow> put m k v = m"
  by (rule ext) (simp add: get_put)

lemma put_delete: "put (delete m k) k v = put m k v"
  by (rule ext) (simp add: get_put get_delete)

lemma delete_put: "delete (put m k v) k = delete m k"
  by (rule ext) (simp add: get_put get_delete)

lemma delete_absent: "get m k = None \<Longrightarrow> delete m k = m"
  by (rule ext) (simp add: get_delete)

lemma delete_put_fresh: "get m k = None \<Longrightarrow> delete (put m k v) k = m"
  by (simp add: delete_put delete_absent)

lemma put_delete_present: "get m k = Some v \<Longrightarrow> put (delete m k) k v = m"
  by (simp add: put_delete put_same)

lemma delete_put_other: "k \<noteq> k' \<Longrightarrow> delete (put m k v) k' = put (delete m k') k v"
  by (rule ext) (simp add: get_put get_delete)

end

lemma db_ext: "(\<And>k. db_get d k = db_get d' k) \<Longrightarrow> d = d'"
  by transfer (auto intro: sorted_entries_ext)

interpretation kv: store db_empty db_get db_put db_delete
proof
  show "db_get db_empty k = None" for k :: "'a::linorder"
    by transfer simp
  show "db_get (db_put m k v) k' = (if k' = k then Some v else db_get m k')"
    for m :: "('a::linorder, 'b) db" and k v k'
    by transfer (simp add: map_of_entries_put)
  show "db_get (db_delete m k) k' = (if k' = k then None else db_get m k')"
    for m :: "('a::linorder, 'b) db" and k k'
    by transfer (simp add: map_of_entries_delete)
  show "m = m'" if "\<And>k. db_get m k = db_get m' k" for m m' :: "('a::linorder, 'b) db"
    using that by (rule db_ext)
qed

declare kv.get_empty [simp, store_simps] kv.get_put [simp, store_simps]
  kv.get_delete [simp, store_simps]

section \<open>Lemmas on results\<close>

lemma rbind_eq_Inr [simp]: "rbind r f = Inr y \<longleftrightarrow> (\<exists>x. r = Inr x \<and> f x = Inr y)"
  by (cases r) auto

lemma rbind_eq_Inl: "rbind r f = Inl e \<longleftrightarrow> r = Inl e \<or> (\<exists>x. r = Inr x \<and> f x = Inl e)"
  by (cases r) auto

lemma rbind_assoc: "rbind (rbind r f) g = rbind r (\<lambda>x. rbind (f x) g)"
  by (cases r) auto

lemma ok_or_simps [simp]: "ok_or None e = Inl e" "ok_or (Some v) e = Inr v"
  by (simp_all add: ok_or_def)

lemma ok_or_eq_Inr [simp]: "ok_or x e = Inr v \<longleftrightarrow> x = Some v"
  by (cases x) auto

lemma ok_or_eq_Inl [simp]: "ok_or x e = Inl e' \<longleftrightarrow> x = None \<and> e' = e"
  by (cases x) auto

lemma map_err_eq_Inr [simp]: "map_err f r = Inr v \<longleftrightarrow> r = Inr v"
  by (cases r) auto

lemma unwrap_or_simps [simp]: "unwrap_or d None = d" "unwrap_or d (Some v) = v"
  by (simp_all add: unwrap_or_def)

lemma ensure_eq_Inr [simp]: "ensure b e = Inr u \<longleftrightarrow> b"
  by (simp add: ensure_def)

lemma ensure_eq_Inl [simp]: "ensure b e = Inl e' \<longleftrightarrow> \<not> b \<and> e' = e"
  by (auto simp: ensure_def)

lemma ensure_True [simp]: "ensure True e = Inr ()"
  by (simp add: ensure_def)

lemma ensure_False [simp]: "ensure False e = Inl e"
  by (simp add: ensure_def)

lemma is_ok_simps [simp]: "is_ok (Inr x)" "\<not> is_ok (Inl e)"
  by (simp_all add: is_ok_def)

lemma is_ok_iff: "is_ok r \<longleftrightarrow> (\<exists>x. r = Inr x)"
  by (cases r) auto

lemma try_fold_append: "try_fold f (xs @ ys) s = rbind (try_fold f xs s) (try_fold f ys)"
proof (induction xs arbitrary: s)
  case (Cons x xs)
  then have "try_fold f (xs @ ys) = (\<lambda>s. rbind (try_fold f xs s) (try_fold f ys))" by blast
  then show ?case by (simp add: rbind_assoc)
qed simp

lemma try_fold_invariant:
  assumes "try_fold f xs s = Inr s'" and "P s"
    and "\<And>x t t'. x \<in> set xs \<Longrightarrow> P t \<Longrightarrow> f x t = Inr t' \<Longrightarrow> P t'"
  shows "P s'"
  using assms by (induction xs arbitrary: s) auto

section \<open>Lemmas on fixed-width arithmetic\<close>

lemma wrapping_add_exact [simp]: "a + b < 2 ^ w \<Longrightarrow> wrapping_add w a b = a + b"
  by (simp add: wrapping_add_def)

lemma wrapping_sub_exact [simp]: "b \<le> a \<Longrightarrow> wrapping_sub w a b = a - b"
  by (simp add: wrapping_sub_def)

lemma wrapping_mul_exact [simp]: "a * b < 2 ^ w \<Longrightarrow> wrapping_mul w a b = a * b"
  by (simp add: wrapping_mul_def)

lemma foldl_wrapping_add_exact:
  "acc + sum_list vs < 2 ^ 64 \<Longrightarrow> foldl (wrapping_add 64) acc vs = acc + sum_list vs"
  by (induction vs arbitrary: acc) (auto simp: add.assoc)

lemma as_u_exact [simp]: "a < 2 ^ w \<Longrightarrow> as_u w a = a"
  by (simp add: as_u_def)

lemma checked_add_eq_Some [simp]: "checked_add w a b = Some c \<longleftrightarrow> c = a + b \<and> a + b < 2 ^ w"
  by (auto simp: checked_add_def)

lemma checked_sub_eq_Some [simp]: "checked_sub a b = Some c \<longleftrightarrow> b \<le> a \<and> c = a - b"
  by (auto simp: checked_sub_def)

lemma checked_mul_eq_Some [simp]: "checked_mul w a b = Some c \<longleftrightarrow> c = a * b \<and> a * b < 2 ^ w"
  by (auto simp: checked_mul_def)

lemma saturating_mul_mono:
  assumes "a \<le> b" shows "saturating_mul w a c \<le> saturating_mul w b c"
proof (cases "b * c < 2 ^ w")
  case True
  moreover have "a * c \<le> b * c" using assms by simp
  ultimately have "a * c < 2 ^ w" by linarith
  with True \<open>a * c \<le> b * c\<close> show ?thesis unfolding saturating_mul_def by presburger
next
  case False
  have "saturating_mul w a c < 2 ^ w" by (simp add: saturating_mul_def)
  with False show ?thesis by (simp add: saturating_mul_def [of w b])
qed

lemma saturating_mul_less: "saturating_mul w a b < 2 ^ w"
  by (simp add: saturating_mul_def)

lemma saturating_add_less: "saturating_add w a b < 2 ^ w"
  by (simp add: saturating_add_def)

lemma set_range_incl [simp]: "set (range_incl a b) = {a..b}"
  by (auto simp: range_incl_def)

lemma distinct_range_incl [simp]: "distinct (range_incl a b)"
  by (simp add: range_incl_def)

section \<open>Lemmas on stores\<close>

lemma db_get_iff_entries: "db_get d k = Some v \<longleftrightarrow> (k, v) \<in> set (db_entries d)"
  by transfer (simp add: distinct_sorted_keys)

lemma set_db_keys: "set (db_keys d) = dom (db_get d)"
  unfolding db_keys_def by transfer (simp add: dom_map_of_conv_image_fst)

lemma distinct_db_keys [simp]: "distinct (db_keys d)"
  unfolding db_keys_def by transfer (rule distinct_sorted_keys)

lemma finite_dom_db [simp]: "finite (dom (db_get d))"
  by (metis List.finite_set set_db_keys)

lemma db_contains_iff: "db_contains d k \<longleftrightarrow> k \<in> set (db_keys d)"
  by (auto simp: db_contains_def set_db_keys)

lemma db_get_put_all: "db_get (db_put_all es d) = db_get d ++ map_of (rev es)"
proof (induction es arbitrary: d)
  case (Cons e es)
  then show ?case
    by (cases e) (auto simp: fun_eq_iff map_add_def split: option.splits)
qed simp

lemma map_of_rev_distinct: "distinct (map fst es) \<Longrightarrow> map_of (rev es) = map_of es"
  by (rule map_of_eqI) (auto simp: rev_map [symmetric])

lemma db_get_put_all_distinct:
  "distinct (map fst es) \<Longrightarrow> db_get (db_put_all es d) = db_get d ++ map_of es"
  by (simp add: db_get_put_all map_of_rev_distinct)

lemma db_get_delete_all:
  "db_get (db_delete_all ks d) k = (if k \<in> set ks then None else db_get d k)"
  by (induction ks arbitrary: d) auto

lemma db_entries_empty [simp]: "db_entries db_empty = []"
  by transfer simp

lemma db_entries_put [simp]: "db_entries (db_put d k v) = entries_put k v (db_entries d)"
  by transfer simp

lemma db_entries_delete [simp]: "db_entries (db_delete d k) = entries_delete k (db_entries d)"
  by transfer simp

lemma entries_delete_simps [simp]:
  "entries_delete k [] = []"
  "entries_delete k (e # es) = (if fst e = k then entries_delete k es else e # entries_delete k es)"
  by (simp_all add: entries_delete_def)

lemma db_contains_eq: "db_contains d k \<longleftrightarrow> (\<exists>v. db_get d k = Some v)"
  by (auto simp: db_contains_def)

lemma db_empty_iff: "db_keys d = [] \<longleftrightarrow> d = db_empty"
proof
  assume "db_keys d = []"
  then have "\<And>k. db_get d k = None" using set_db_keys [of d] by auto
  then show "d = db_empty" by (intro db_ext) simp
qed (simp add: db_keys_def)

lemma sorted_db_keys: "sorted_wrt (<) (db_keys d)"
  unfolding db_keys_def by transfer

section \<open>Lemmas on ordered sets\<close>

lemma db_get_unit: "db_get (s :: 'a::linorder oset) x = (if x \<in> set (oset_elems s) then Some () else None)"
  by (cases "db_get s x") (auto simp: oset_elems_def set_db_keys)

lemma oset_ext: "set (oset_elems s) = set (oset_elems t) \<Longrightarrow> s = t"
  by (rule db_ext) (simp add: db_get_unit)

lemma oset_member_iff [simp]: "oset_member x s \<longleftrightarrow> x \<in> set (oset_elems s)"
  by (simp add: oset_member_def oset_elems_def db_contains_iff)

lemma set_oset_insert [simp]: "set (oset_elems (oset_insert x s)) = insert x (set (oset_elems s))"
  by (auto simp: oset_elems_def oset_insert_def set_db_keys)

lemma set_oset_remove [simp]: "set (oset_elems (oset_remove x s)) = set (oset_elems s) - {x}"
  by (auto simp: oset_elems_def oset_remove_def set_db_keys split: if_splits)

lemma set_oset_empty [simp]: "set (oset_elems db_empty) = {}"
  by (simp add: oset_elems_def set_db_keys dom_def)

lemma oset_elems_empty [simp]: "oset_elems db_empty = []"
  using set_oset_empty by blast

lemma oset_elems_Nil_iff: "oset_elems s = [] \<longleftrightarrow> s = db_empty"
  by (simp add: oset_elems_def db_empty_iff)

lemma set_oset_of_list [simp]: "set (oset_elems (oset_of_list xs)) = set xs"
  by (induction xs) auto

lemma set_oset_retain [simp]: "set (oset_elems (oset_retain P s)) = {x \<in> set (oset_elems s). P x}"
  unfolding oset_elems_def oset_retain_def set_db_keys
  by (auto simp: db_get_delete_all domIff set_db_keys split: if_splits)

lemma distinct_oset_elems [simp]: "distinct (oset_elems s)"
  by (simp add: oset_elems_def)

lemma sorted_oset_elems: "sorted_wrt (<) (oset_elems s)"
  by (simp add: oset_elems_def sorted_db_keys)

lemma map_of_db_entries: "map_of (db_entries d) = db_get d"
  by transfer simp

lemma map_of_map_values:
  "map_of (map (\<lambda>e. (fst e, f (snd e))) es) = map_option f \<circ> map_of es"
  by (induction es) (auto simp: fun_eq_iff)

lemma set_map_filter_eq: "set (List.map_filter f xs) = {y. \<exists>x \<in> set xs. f x = Some y}"
  by (induction xs) (auto simp: map_filter_simps split: option.splits)

section \<open>Reversible loops\<close>

text \<open>
  A loop of fallible steps and the loop that undoes them in the reverse order. The predicate
  \<open>ready xs s\<close> says that the remaining items \<open>xs\<close> may be processed from the state \<open>s\<close>.
\<close>

locale reversible =
  fixes act :: "'x \<Rightarrow> 's \<Rightarrow> ('e, 's) result"
    and undo :: "'x \<Rightarrow> 's \<Rightarrow> ('e, 's) result"
    and ready :: "'x list \<Rightarrow> 's \<Rightarrow> bool"
  assumes undo_act: "ready (x # xs) s \<Longrightarrow> act x s = Inr s' \<Longrightarrow> undo x s' = Inr s"
    and ready_act: "ready (x # xs) s \<Longrightarrow> act x s = Inr s' \<Longrightarrow> ready xs s'"
begin

lemma fold_undo:
  "ready xs s \<Longrightarrow> try_fold act xs s = Inr t \<Longrightarrow> try_fold undo (rev xs) t = Inr s"
proof (induction xs arbitrary: s)
  case (Cons x xs)
  from Cons.prems(2) obtain s' where s': "act x s = Inr s'" "try_fold act xs s' = Inr t" by auto
  have "try_fold undo (rev xs) t = Inr s'"
    using Cons.IH ready_act [OF Cons.prems(1) s'(1)] s'(2) by blast
  then show ?case using undo_act [OF Cons.prems(1) s'(1)] by (simp add: try_fold_append)
qed simp

lemma fold_ready:
  "ready (xs @ ys) s \<Longrightarrow> try_fold act xs s = Inr t \<Longrightarrow> ready ys t"
  by (induction xs arbitrary: s) (auto dest: ready_act)

end

section \<open>Sums over a store\<close>

definition db_sum :: "('v \<Rightarrow> nat) \<Rightarrow> ('k::linorder, 'v) db \<Rightarrow> nat" where
  "db_sum f d = sum_list (map (\<lambda>e. f (snd e)) (db_entries d))"

lemma sum_entries_put_fresh:
  "map_of es k = None \<Longrightarrow> sum_list (map (\<lambda>e. f (snd e)) (entries_put k v es))
     = sum_list (map (\<lambda>e. f (snd e)) es) + f v" for f :: "'v \<Rightarrow> nat"
  by (induction es) (auto split: if_splits)

lemma db_sum_empty [simp]: "db_sum f db_empty = 0"
  by (simp add: db_sum_def)

lemma db_sum_put_fresh: "db_get d k = None \<Longrightarrow> db_sum f (db_put d k v) = db_sum f d + f v"
  by (simp add: db_sum_def sum_entries_put_fresh map_of_db_entries)

lemma db_sum_put_all_fresh:
  "distinct (map fst es) \<Longrightarrow> (\<And>k. k \<in> fst ` set es \<Longrightarrow> db_get d k = None) \<Longrightarrow>
     db_sum f (db_put_all es d) = db_sum f d + sum_list (map (\<lambda>e. f (snd e)) es)"
proof (induction es arbitrary: d)
  case (Cons e es)
  have "db_sum f (db_put_all es (db_put d (fst e) (snd e)))
      = db_sum f (db_put d (fst e) (snd e)) + sum_list (map (\<lambda>e. f (snd e)) es)"
    using Cons.prems by (intro Cons.IH) (auto simp: image_iff)
  also have "db_sum f (db_put d (fst e) (snd e)) = db_sum f d + f (snd e)"
    using Cons.prems by (intro db_sum_put_fresh) simp
  finally show ?case by simp
qed simp

lemma distinct_entries: "distinct (map fst (db_entries d))"
  using distinct_db_keys [of d] by (simp add: db_keys_def)

end
