(* ===== verification/StateTypes.thy ===== *)
theory StateTypes
  imports Prelude
begin

text \<open>
  The data types that every component of the state shares: identifiers, outpoints,
  outputs, and the error type of \<open>lib/state/error.rs\<close>.

  Hashes, addresses and market identifiers are fixed-width words (big-endian readings of
  the byte arrays, so that their order is the byte order); amounts are satoshis in \<^typ>\<open>nat\<close>.
  A mainchain address is its script as a byte string. Error values keep the variant and
  a fixed text; the interpolated values of the messages are left out, and so are the variants
  that wrap an error of a library or of a component outside the model. \<open>Panic\<close> is a failed
  assertion.
\<close>

type_synonym address = "160 word"
type_synonym hash = "256 word"
type_synonym txid = hash
type_synonym m6id = hash
type_synonym block_hash = hash
type_synonym market_id = "48 word"
type_synonym main_address = string

section \<open>Decision identifiers\<close>

datatype decision_id = DecisionId "8 word" "8 word" "8 word"

fun decision_id_key :: "decision_id \<Rightarrow> 8 word \<times> 8 word \<times> 8 word" where
  "decision_id_key (DecisionId a b c) = (a, b, c)"

lemma decision_id_key_inj: "decision_id_key x = decision_id_key y \<Longrightarrow> x = y"
  by (cases x; cases y) simp

instantiation decision_id :: linorder
begin

definition less_eq_decision_id :: "decision_id \<Rightarrow> decision_id \<Rightarrow> bool" where
  "less_eq_decision_id x y = (decision_id_key x \<le> decision_id_key y)"

definition less_decision_id :: "decision_id \<Rightarrow> decision_id \<Rightarrow> bool" where
  "less_decision_id x y = (decision_id_key x < decision_id_key y)"

instance
  by standard (auto simp: less_eq_decision_id_def less_decision_id_def less_le_not_le
      simp del: less_prod_simp less_eq_prod_simp intro: order_trans decision_id_key_inj antisym)

end

section \<open>Outpoints and outputs\<close>

datatype outpoint =
    Regular txid nat
  | Coinbase txid nat
  | Deposit txid nat
  | MarketFundsPoint market_id nat bool
  | Payout hash nat

fun outpoint_key :: "outpoint \<Rightarrow> nat \<times> nat \<times> nat \<times> nat" where
  "outpoint_key (Regular t v) = (0, unat t, v, 0)"
| "outpoint_key (Coinbase t v) = (1, unat t, v, 0)"
| "outpoint_key (Deposit t v) = (2, unat t, v, 0)"
| "outpoint_key (MarketFundsPoint m h f) = (3, unat m, h, if f then 1 else 0)"
| "outpoint_key (Payout t v) = (4, unat t, v, 0)"

lemma outpoint_key_inj: "outpoint_key x = outpoint_key y \<Longrightarrow> x = y"
  by (cases x; cases y) (auto simp: word_unat_eq_iff split: if_splits)

instantiation outpoint :: linorder
begin

definition less_eq_outpoint :: "outpoint \<Rightarrow> outpoint \<Rightarrow> bool" where
  "less_eq_outpoint x y = (outpoint_key x \<le> outpoint_key y)"

definition less_outpoint :: "outpoint \<Rightarrow> outpoint \<Rightarrow> bool" where
  "less_outpoint x y = (outpoint_key x < outpoint_key y)"

instance
  by standard (auto simp: less_eq_outpoint_def less_outpoint_def less_le_not_le
      simp del: less_prod_simp less_eq_prod_simp intro: order_trans outpoint_key_inj antisym)

end

datatype inpoint =
    RegularIn txid nat
  | WithdrawalIn m6id
  | Redistribution

record withdrawal_content =
  w_value :: nat
  w_main_fee :: nat
  w_main_address :: main_address

datatype output_content =
    Bitcoin nat
  | Withdrawal withdrawal_content
  | MarketFunds market_id nat bool

datatype filled_content =
    FilledBitcoin nat
  | BitcoinWithdrawal withdrawal_content
  | FilledMarketFunds market_id nat bool

record tx_output =
  o_address :: address
  o_content :: output_content
  o_memo :: string

record filled_output =
  fo_address :: address
  fo_content :: filled_content
  fo_memo :: string

record spent_output =
  so_output :: filled_output
  so_inpoint :: inpoint

definition withdrawal_bitcoin_value :: "withdrawal_content \<Rightarrow> nat" where
  "withdrawal_bitcoin_value w =
     unwrap_or (2 ^ 64 - 1) (checked_add 64 (w_value w) (w_main_fee w))"

fun content_bitcoin_value :: "output_content \<Rightarrow> nat" where
  "content_bitcoin_value (Bitcoin value) = value"
| "content_bitcoin_value (Withdrawal w) = withdrawal_bitcoin_value w"
| "content_bitcoin_value (MarketFunds _ amount _) = amount"

section \<open>Errors\<close>

datatype error =
    Panic string
  | AmountOverflow
  | AmountUnderflow
  | AuthorizationError
  | BadCoinbaseOutputContent
  | InvalidScaled string
  | InvalidDecisionId string
  | InvalidDecisionState string
  | InvalidTransaction string
  | InvalidVoteValue string
  | DecisionAlreadyClaimed decision_id
  | DecisionNotAvailable decision_id string
  | TimestampOutOfRange
  | BundleTooHeavy nat nat
  | BodyTooLarge
  | DatabaseError string
  | FillTxOutputContents
  | InvalidBody hash hash
  | InvalidHeaderBlockHash hash hash
  | InvalidHeaderPrevSideHash "hash option" "hash option"
  | NoDepositBlock
  | NotEnoughFees
  | NotEnoughValueIn
  | NoTip
  | NoStxo outpoint
  | NoUtxo outpoint
  | SpendWithdrawalOutput outpoint
  | NoWithdrawalBundleEventBlock
  | UnknownWithdrawalBundle m6id
  | UnknownWithdrawalBundleConfirmed block_hash m6id
  | UnknownWithdrawalBundleReconfirmed block_hash m6id
  | UnexpectedWithdrawalBundleInsolvency block_hash m6id outpoint
  | UtxoDoubleSpent
  | DuplicateDecisionClaim decision_id
  | WrongPubKeyForAddress
  | ConsensusNotYetCalculated nat
  | ConsensusConservationViolation
  | ReputationAnchorViolation

end
