(* ===== verification/F64.thy ===== *)
theory F64
  imports Complex_Main Prelude
begin

text \<open>
  The IEEE 754 double of the program (\<open>f64\<close>), as far as the modelled code uses it:
  signed zeros, infinities, one quiet NaN (payloads are not observed by the code) and the
  finite nonzero values as rationals. Arithmetic computes the exact rational result and
  rounds it to 53 bits, ties to even, with gradual underflow and overflow to infinity.
  Comparisons are the partial order of the language (\<open>f_lt\<close>, \<open>f_le\<close>, \<open>f_eq\<close>: false on
  NaN); the class instance \<open>linorder\<close> is \<open>f64::total_cmp\<close>.
\<close>

datatype f64 = F_NaN | F_Inf bool | F_Zero bool | F_Num rat

section \<open>Rounding\<close>

definition pow2 :: "int \<Rightarrow> rat" where
  "pow2 e = (if 0 \<le> e then 2 ^ nat e else 1 / 2 ^ nat (- e))"

fun bit_len :: "nat \<Rightarrow> nat" where
  "bit_len n = (if n = 0 then 0 else Suc (bit_len (n div 2)))"

declare bit_len.simps [simp del]

definition floor_log2 :: "rat \<Rightarrow> int" where
  "floor_log2 a =
     (let k = (case quotient_of a of
                 (n, d) \<Rightarrow> int (bit_len (nat n)) - int (bit_len (nat d)))
      in if pow2 k \<le> a then k else k - 1)"

definition round_half_even :: "rat \<Rightarrow> int" where
  "round_half_even x =
     (let f = \<lfloor>x\<rfloor>; r = x - of_int f
      in if r < 1 / 2 then f else if r > 1 / 2 then f + 1
         else if even f then f else f + 1)"

text \<open>\<open>round_mag neg a\<close> rounds the magnitude \<open>a \<ge> 0\<close> and attaches the sign.\<close>

definition round_mag :: "bool \<Rightarrow> rat \<Rightarrow> f64" where
  "round_mag neg a =
     (if a = 0 then F_Zero neg
      else let e = max (- 1074) (floor_log2 a - 52);
               m = round_half_even (a / pow2 e);
               v = of_int m * pow2 e
           in if m = 0 then F_Zero neg
              else if v \<ge> 2 ^ 1024 then F_Inf neg
              else F_Num (if neg then - v else v))"

section \<open>Classification and comparison\<close>

fun f_is_nan :: "f64 \<Rightarrow> bool" where
  "f_is_nan F_NaN = True"
| "f_is_nan _ = False"

fun f_is_finite :: "f64 \<Rightarrow> bool" where
  "f_is_finite F_NaN = False"
| "f_is_finite (F_Inf _) = False"
| "f_is_finite _ = True"

fun f_val :: "f64 \<Rightarrow> rat" where
  "f_val (F_Num q) = q"
| "f_val _ = 0"

fun f_neg :: "f64 \<Rightarrow> bool" where
  "f_neg F_NaN = False"
| "f_neg (F_Inf s) = s"
| "f_neg (F_Zero s) = s"
| "f_neg (F_Num q) = (q < 0)"

fun f_lt :: "f64 \<Rightarrow> f64 \<Rightarrow> bool" where
  "f_lt F_NaN _ = False"
| "f_lt _ F_NaN = False"
| "f_lt (F_Inf s) (F_Inf t) = (s \<and> \<not> t)"
| "f_lt (F_Inf s) _ = s"
| "f_lt _ (F_Inf t) = (\<not> t)"
| "f_lt a b = (f_val a < f_val b)"

fun f_eq :: "f64 \<Rightarrow> f64 \<Rightarrow> bool" where
  "f_eq F_NaN _ = False"
| "f_eq _ F_NaN = False"
| "f_eq (F_Inf s) (F_Inf t) = (s = t)"
| "f_eq (F_Inf s) _ = False"
| "f_eq _ (F_Inf t) = False"
| "f_eq a b = (f_val a = f_val b)"

definition f_le :: "f64 \<Rightarrow> f64 \<Rightarrow> bool" where
  "f_le a b = (f_lt a b \<or> f_eq a b)"

section \<open>Arithmetic\<close>

fun f_minus :: "f64 \<Rightarrow> f64" where
  "f_minus F_NaN = F_NaN"
| "f_minus (F_Inf s) = F_Inf (\<not> s)"
| "f_minus (F_Zero s) = F_Zero (\<not> s)"
| "f_minus (F_Num q) = F_Num (- q)"

definition f_abs :: "f64 \<Rightarrow> f64" where
  "f_abs a = (if f_neg a then f_minus a else a)"

fun f_add :: "f64 \<Rightarrow> f64 \<Rightarrow> f64" where
  "f_add F_NaN _ = F_NaN"
| "f_add _ F_NaN = F_NaN"
| "f_add (F_Inf s) (F_Inf t) = (if s = t then F_Inf s else F_NaN)"
| "f_add (F_Inf s) _ = F_Inf s"
| "f_add _ (F_Inf t) = F_Inf t"
| "f_add a b =
     (let q = f_val a + f_val b
      in if q = 0 then F_Zero (f_neg a \<and> f_neg b) else round_mag (q < 0) \<bar>q\<bar>)"

definition f_sub :: "f64 \<Rightarrow> f64 \<Rightarrow> f64" where
  "f_sub a b = f_add a (f_minus b)"

fun f_is_zero :: "f64 \<Rightarrow> bool" where
  "f_is_zero (F_Zero _) = True"
| "f_is_zero _ = False"

fun f_is_inf :: "f64 \<Rightarrow> bool" where
  "f_is_inf (F_Inf _) = True"
| "f_is_inf _ = False"

definition f_mul :: "f64 \<Rightarrow> f64 \<Rightarrow> f64" where
  "f_mul a b =
     (let s = (f_neg a \<noteq> f_neg b)
      in if f_is_nan a \<or> f_is_nan b \<or> f_is_inf a \<and> f_is_zero b \<or> f_is_zero a \<and> f_is_inf b
         then F_NaN
         else if f_is_inf a \<or> f_is_inf b then F_Inf s
         else round_mag s \<bar>f_val a * f_val b\<bar>)"

definition f_div :: "f64 \<Rightarrow> f64 \<Rightarrow> f64" where
  "f_div a b =
     (let s = (f_neg a \<noteq> f_neg b)
      in if f_is_nan a \<or> f_is_nan b \<or> f_is_inf a \<and> f_is_inf b \<or> f_is_zero a \<and> f_is_zero b
         then F_NaN
         else if f_is_inf a \<or> f_is_zero b then F_Inf s
         else if f_is_inf b then F_Zero s
         else round_mag s \<bar>f_val a / f_val b\<bar>)"

text \<open>\<open>f64::round\<close>: to the nearest integer, halves away from zero.\<close>

fun f_round :: "f64 \<Rightarrow> f64" where
  "f_round (F_Num q) =
     (let r = \<lfloor>\<bar>q\<bar> + 1 / 2\<rfloor>
      in if r = 0 then F_Zero (q < 0) else F_Num (if q < 0 then - of_int r else of_int r))"
| "f_round a = a"

definition f_max :: "f64 \<Rightarrow> f64 \<Rightarrow> f64" where
  "f_max a b = (if f_is_nan a then b else if f_is_nan b then a else if f_lt a b then b else a)"

definition f_of_nat :: "nat \<Rightarrow> f64" where
  "f_of_nat n = round_mag False (of_nat n)"

text \<open>\<open>as usize\<close>: truncation towards zero, saturating, NaN to zero.\<close>

definition f_to_u64 :: "f64 \<Rightarrow> nat" where
  "f_to_u64 a =
     (case a of F_NaN \<Rightarrow> 0
      | F_Inf s \<Rightarrow> (if s then 0 else 2 ^ 64 - 1)
      | F_Zero _ \<Rightarrow> 0
      | F_Num q \<Rightarrow> (if q \<le> 0 then 0 else min (nat \<lfloor>q\<rfloor>) (2 ^ 64 - 1)))"

section \<open>The total order\<close>

fun f64_key :: "f64 \<Rightarrow> int \<times> rat \<times> int" where
  "f64_key (F_Inf s) = (if s then - 1 else 1, 0, 0)"
| "f64_key (F_Zero s) = (0, 0, if s then 0 else 1)"
| "f64_key (F_Num q) = (0, q, 2)"
| "f64_key F_NaN = (2, 0, 0)"

lemma f64_key_inj: "f64_key a = f64_key b \<Longrightarrow> a = b"
  by (cases a; cases b) (auto split: if_splits)

instantiation f64 :: linorder
begin

definition less_eq_f64 :: "f64 \<Rightarrow> f64 \<Rightarrow> bool" where
  "less_eq_f64 a b = (f64_key a \<le> f64_key b)"

definition less_f64 :: "f64 \<Rightarrow> f64 \<Rightarrow> bool" where
  "less_f64 a b = (f64_key a < f64_key b)"

instance
proof
  fix a b c :: f64
  show "a < b \<longleftrightarrow> a \<le> b \<and> \<not> b \<le> a"
    by (simp only: less_f64_def less_eq_f64_def less_le_not_le)
  show "a \<le> a" by (simp add: less_eq_f64_def)
  show "a \<le> b \<Longrightarrow> b \<le> c \<Longrightarrow> a \<le> c"
    unfolding less_eq_f64_def by (rule order_trans)
  show "a \<le> b \<Longrightarrow> b \<le> a \<Longrightarrow> a = b"
    unfolding less_eq_f64_def by (rule f64_key_inj) (rule antisym)
  show "a \<le> b \<or> b \<le> a" unfolding less_eq_f64_def by (rule linear)
qed

end

section \<open>Facts about comparisons\<close>

lemma f_lt_irrefl [simp]: "\<not> f_lt a a"
  by (cases a) auto

lemma f_lt_trans: "f_lt a b \<Longrightarrow> f_lt b c \<Longrightarrow> f_lt a c"
  by (cases a; cases b; cases c) auto

lemma f_eq_refl: "f_eq a a \<longleftrightarrow> \<not> f_is_nan a"
  by (cases a) auto

lemma f_le_lt_total: "\<not> f_is_nan a \<Longrightarrow> \<not> f_is_nan b \<Longrightarrow> f_lt a b \<or> f_le b a"
  by (cases a; cases b) (auto simp: f_le_def)

lemma f_lt_not_nan: "f_lt a b \<Longrightarrow> \<not> f_is_nan a \<and> \<not> f_is_nan b"
  by (cases a; cases b) auto

end
