(* ===== verification/DecisionMath.thy ===== *)
theory DecisionMath
  imports Prelude
begin

text \<open>
  The listing-fee mathematics of \<open>lib/math/decisions.rs\<close>: the map from a decision index to
  its tier, the unlocking of slots by mints, tier prices, and the repricing curve
  \<open>p * 2 ^ (2 * sales / available - 1)\<close> in 32-bit and 62-bit fixed point.
  The curve is shown to be a floor of \<open>p\<close> times a factor between one half and two that
  grows with the sales; the exceptional cases of the code (no sales, all sold, half sold)
  are the values of that factor at the ends and in the middle.
\<close>

section \<open>Constants and errors\<close>

definition TIER_COUNT :: nat where
  "TIER_COUNT = 5"

definition SLOTS_PER_TIER_PER_MINT :: nat where
  "SLOTS_PER_TIER_PER_MINT = 5"

definition SLOTS_PER_TIER :: nat where
  "SLOTS_PER_TIER = 100"

definition SLOTS_PER_PERIOD_MAX :: nat where
  "SLOTS_PER_PERIOD_MAX = SLOTS_PER_TIER * TIER_COUNT"

definition MID_PERIOD_REPRICES :: nat where
  "MID_PERIOD_REPRICES = 5"

definition TIER_MULTIPLIERS_NUM :: "nat list" where
  "TIER_MULTIPLIERS_NUM = [1, 2, 4, 8, 16]"

definition TIER_MULTIPLIERS_DEN :: nat where
  "TIER_MULTIPLIERS_DEN = 4"

definition GENESIS_P_PERIOD_SATS :: nat where
  "GENESIS_P_PERIOD_SATS = 10000"

definition SECONDS_PER_BLOCK :: nat where
  "SECONDS_PER_BLOCK = 600"

lemmas decision_consts = TIER_COUNT_def SLOTS_PER_TIER_PER_MINT_def SLOTS_PER_TIER_def
  SLOTS_PER_PERIOD_MAX_def MID_PERIOD_REPRICES_def TIER_MULTIPLIERS_NUM_def
  TIER_MULTIPLIERS_DEN_def GENESIS_P_PERIOD_SATS_def SECONDS_PER_BLOCK_def

text \<open>\<open>TierPanic\<close> stands for the index panic of \<open>TIER_MULTIPLIERS_NUM[tier]\<close>.\<close>

datatype listing_fee_error =
    IndexOutOfRange nat
  | SlotNotUnlocked nat nat
  | FeeOverflow
  | TierPanic nat

section \<open>Periods, tiers and slot prices\<close>

definition reprice_interval_blocks :: "nat \<Rightarrow> nat" where
  "reprice_interval_blocks blocks = max (blocks div MID_PERIOD_REPRICES) 1"

definition blocks_per_period :: "bool \<Rightarrow> nat \<Rightarrow> nat" where
  "blocks_per_period is_blocks quantity =
     (if is_blocks then quantity else as_u 32 (quantity div SECONDS_PER_BLOCK))"

definition tier_for_index :: "nat \<Rightarrow> (listing_fee_error, nat) result" where
  "tier_for_index decision_index =
     (if decision_index \<ge> SLOTS_PER_PERIOD_MAX then Inl (IndexOutOfRange decision_index)
      else Inr (decision_index div SLOTS_PER_TIER))"

definition position_in_tier :: "nat \<Rightarrow> nat" where
  "position_in_tier decision_index = decision_index mod SLOTS_PER_TIER"

definition slot_unlocked :: "nat \<Rightarrow> nat \<Rightarrow> bool" where
  "slot_unlocked decision_index mints =
     (if decision_index \<ge> SLOTS_PER_PERIOD_MAX then False
      else position_in_tier decision_index < wrapping_mul 64 mints SLOTS_PER_TIER_PER_MINT)"

definition slot_price :: "nat \<Rightarrow> nat \<Rightarrow> (listing_fee_error, nat) result" where
  "slot_price p_period tier =
     (if tier < length TIER_MULTIPLIERS_NUM
      then Inr (unwrap_or (2 ^ 64 - 1)
             (checked_div (saturating_mul 64 p_period (TIER_MULTIPLIERS_NUM ! tier))
                TIER_MULTIPLIERS_DEN))
      else Inl (TierPanic tier))"

fun tier_prices_from :: "nat \<Rightarrow> nat list \<Rightarrow> (listing_fee_error, nat list) result" where
  "tier_prices_from p_period [] = Inr []"
| "tier_prices_from p_period (tier # tiers) =
     rbind (slot_price p_period tier) (\<lambda>price.
     rbind (tier_prices_from p_period tiers) (\<lambda>prices. Inr (price # prices)))"

definition tier_prices :: "nat \<Rightarrow> (listing_fee_error, nat list) result" where
  "tier_prices p_period = tier_prices_from p_period [0..<TIER_COUNT]"

definition fee_for_index :: "nat \<Rightarrow> nat \<Rightarrow> nat \<Rightarrow> (listing_fee_error, nat) result" where
  "fee_for_index p_period mints decision_index =
     rbind (tier_for_index decision_index) (\<lambda>tier.
       if \<not> slot_unlocked decision_index mints
       then Inl (SlotNotUnlocked decision_index mints)
       else slot_price p_period tier)"

section \<open>The repricing curve in fixed point\<close>

definition LN2_Q62 :: nat where
  "LN2_Q62 = 3196577161300663915"

definition pow2_next_term :: "nat \<Rightarrow> nat \<Rightarrow> nat \<Rightarrow> nat" where
  "pow2_next_term x_q62 k trm = (wrapping_mul 128 trm x_q62 div 2 ^ 62) div k"

fun pow2_frac_loop :: "nat \<Rightarrow> nat list \<Rightarrow> nat \<Rightarrow> nat \<Rightarrow> nat" where
  "pow2_frac_loop x_q62 [] trm acc = acc"
| "pow2_frac_loop x_q62 (k # ks) trm acc =
     pow2_frac_loop x_q62 ks (pow2_next_term x_q62 k trm)
       (wrapping_add 128 acc (pow2_next_term x_q62 k trm))"

definition pow2_frac_q62 :: "nat \<Rightarrow> nat" where
  "pow2_frac_q62 frac_q32 =
     (let frac_q62 = as_u 128 (frac_q32 * 2 ^ 30);
          x_q62 = wrapping_mul 128 frac_q62 LN2_Q62 div 2 ^ 62
      in pow2_frac_loop x_q62 [1..<12] (2 ^ 62) (2 ^ 62))"

definition pow2_fixed_q32 :: "int \<Rightarrow> nat" where
  "pow2_fixed_q32 e_fp =
     (let exp_int = e_fp div 2 ^ 32;
          frac = nat (e_fp mod 2 ^ 32);
          result_q32 = pow2_frac_q62 frac div 2 ^ 30
      in if exp_int \<ge> 0
         then (if exp_int \<ge> 64 then 2 ^ 128 - 1
               else as_u 128 (result_q32 * 2 ^ nat exp_int))
         else (if - exp_int \<ge> 64 then 0
               else result_q32 div 2 ^ nat (- exp_int)))"

definition reprice :: "nat \<Rightarrow> nat \<Rightarrow> nat \<Rightarrow> nat" where
  "reprice p_old sales available_at_open =
     (if available_at_open = 0 then p_old
      else if sales = 0 then p_old div 2
      else if sales = available_at_open then saturating_mul 64 p_old 2
      else if saturating_mul 64 sales 2 = available_at_open then p_old
      else let e_fp = int (sales * 2 * 2 ^ 32 div available_at_open) - 2 ^ 32
           in as_u 64 (wrapping_mul 128 p_old (pow2_fixed_q32 e_fp) div 2 ^ 32))"

section \<open>Tiers and fees\<close>

lemma tier_for_index_bound: "tier_for_index i = Inr t \<Longrightarrow> t < TIER_COUNT"
  by (auto simp: tier_for_index_def decision_consts split: if_splits)

lemma slot_price_ok: "t < TIER_COUNT \<Longrightarrow> \<exists>v. slot_price p t = Inr v"
  by (simp add: slot_price_def decision_consts)

lemma slot_price_value:
  assumes "t < TIER_COUNT" and "p * 16 < 2 ^ 64"
  shows "slot_price p t = Inr (p * 2 ^ t div 4)"
proof -
  have "t = 0 \<or> t = 1 \<or> t = 2 \<or> t = 3 \<or> t = 4"
    using assms(1) by (auto simp: decision_consts)
  with assms(2) show ?thesis
    by (auto simp: slot_price_def decision_consts saturating_mul_def checked_div_def)
qed

lemma slot_unlocked_iff:
  "mints * 5 < 2 ^ 64 \<Longrightarrow> slot_unlocked i mints \<longleftrightarrow> i < 500 \<and> i mod 100 < mints * 5"
  by (auto simp: slot_unlocked_def position_in_tier_def decision_consts)

lemma fee_for_index_eq_Inr:
  "fee_for_index p mints i = Inr fee \<longleftrightarrow>
     i < 500 \<and> slot_unlocked i mints \<and> slot_price p (i div 100) = Inr fee"
  by (auto simp: fee_for_index_def tier_for_index_def decision_consts split: if_splits)

text \<open>
  C34. the listing fee of a slot. Within the price range where no multiplication saturates,
  the fee is exactly the period price times the multiplier of the slot's tier (a quarter,
  a half, one, two, four); a locked slot and an index past 499 are refused with their own
  errors, and no call runs into the index panic of the multiplier table.
\<close>

theorem fee_for_index_spec:
  assumes "p * 16 < 2 ^ 64" and "mints * 5 < 2 ^ 64"
  shows "fee_for_index p mints i =
     (if 500 \<le> i then Inl (IndexOutOfRange i)
      else if mints * 5 \<le> i mod 100 then Inl (SlotNotUnlocked i mints)
      else Inr (p * 2 ^ (i div 100) div 4))"
proof (cases "500 \<le> i")
  case True
  then show ?thesis by (simp add: fee_for_index_def tier_for_index_def decision_consts)
next
  case False
  then have "i div 100 < TIER_COUNT" by (simp add: decision_consts)
  from slot_price_value [OF this assms(1)] False show ?thesis
    by (simp add: fee_for_index_def tier_for_index_def slot_unlocked_iff [OF assms(2)]
        decision_consts not_less)
qed

theorem fee_for_index_spec_witness:
  "(10000::nat) * 16 < 2 ^ 64 \<and> (1::nat) * 5 < 2 ^ 64 \<and>
   fee_for_index 10000 1 404 = Inr 40000 \<and> fee_for_index 10000 1 99 = Inl (SlotNotUnlocked 99 1)"
  using fee_for_index_spec [of 10000 1 404] fee_for_index_spec [of 10000 1 99] by simp

section \<open>The factor of the repricing curve\<close>

definition reprice_factor :: "nat \<Rightarrow> nat \<Rightarrow> nat" where
  "reprice_factor sales available =
     (if sales = 0 then 2 ^ 31
      else if sales = available then 2 ^ 33
      else if 2 * sales = available then 2 ^ 32
      else pow2_fixed_q32 (int (sales * 2 * 2 ^ 32 div available) - 2 ^ 32))"

lemma pow2_frac_term:
  assumes "trm \<le> 2 ^ 62" and "x \<le> 2 ^ 62"
  shows "pow2_next_term x k trm = trm * x div 2 ^ 62 div k"
    and "trm * x div 2 ^ 62 div k \<le> 2 ^ 62"
proof -
  have le: "trm * x \<le> 2 ^ 62 * 2 ^ 62"
    using assms by (rule mult_le_mono)
  then have "trm * x < 2 ^ 128" by simp
  then show "pow2_next_term x k trm = trm * x div 2 ^ 62 div k"
    by (simp add: pow2_next_term_def)
  from le have "trm * x div 2 ^ 62 \<le> 2 ^ 62 * 2 ^ 62 div 2 ^ 62" by (rule div_le_mono)
  then have "trm * x div 2 ^ 62 \<le> 2 ^ 62" by simp
  then show "trm * x div 2 ^ 62 div k \<le> 2 ^ 62"
    by (meson div_le_dividend le_trans)
qed

lemma pow2_frac_loop_mono:
  assumes "x \<le> y" and "y \<le> 2 ^ 62"
  shows "s \<le> t \<Longrightarrow> t \<le> 2 ^ 62 \<Longrightarrow> a \<le> b \<Longrightarrow> b + length ks * 2 ^ 62 < 2 ^ 128 \<Longrightarrow>
    pow2_frac_loop x ks s a \<le> pow2_frac_loop y ks t b"
proof (induction ks arbitrary: s t a b)
  case (Cons k ks)
  let ?s = "s * x div 2 ^ 62 div k" and ?t = "t * y div 2 ^ 62 div k"
  have "s * x \<le> t * y" using Cons.prems(1) assms(1) by (rule mult_le_mono)
  then have st: "?s \<le> ?t" by (intro div_le_mono)
  have t: "?t \<le> 2 ^ 62" using pow2_frac_term(2) Cons.prems(2) assms(2) .
  have room: "(b + ?t) + length ks * 2 ^ 62 < 2 ^ 128" using Cons.prems(4) t by simp
  have steps: "pow2_next_term x k s = ?s" "pow2_next_term y k t = ?t"
    by (rule pow2_frac_term(1); use Cons.prems(1,2) assms in linarith)+
  have "pow2_frac_loop x ks ?s (a + ?s) \<le> pow2_frac_loop y ks ?t (b + ?t)"
    using Cons.IH [OF st t _ room] Cons.prems(3) st by simp
  moreover have "a + ?s < 2 ^ 128" "b + ?t < 2 ^ 128"
    using room st Cons.prems(3) by linarith+
  ultimately show ?case
    unfolding pow2_frac_loop.simps steps by (simp only: wrapping_add_exact)
qed simp

lemma pow2_frac_arg:
  assumes "f \<le> 2 ^ 32"
  shows "wrapping_mul 128 (as_u 128 (f * 2 ^ 30)) LN2_Q62 div 2 ^ 62
       = f * 2 ^ 30 * LN2_Q62 div 2 ^ 62"
    and "f * 2 ^ 30 * LN2_Q62 div 2 ^ 62 \<le> 2 ^ 62"
proof -
  have f: "f * 2 ^ 30 \<le> 2 ^ 62" using assms by simp
  then have fit: "as_u 128 (f * 2 ^ 30) = f * 2 ^ 30" by simp
  have ln2: "LN2_Q62 \<le> 2 ^ 62" by (simp add: LN2_Q62_def)
  show "wrapping_mul 128 (as_u 128 (f * 2 ^ 30)) LN2_Q62 div 2 ^ 62
      = f * 2 ^ 30 * LN2_Q62 div 2 ^ 62"
    using pow2_frac_term(1) [OF f ln2, of 1] unfolding fit pow2_next_term_def by (simp only: div_by_1)
  show "f * 2 ^ 30 * LN2_Q62 div 2 ^ 62 \<le> 2 ^ 62"
    using pow2_frac_term(2) [OF f ln2, of 1] by (simp only: div_by_1)
qed

lemma pow2_frac_q62_mono:
  assumes "f \<le> g" and "g \<le> 2 ^ 32"
  shows "pow2_frac_q62 f \<le> pow2_frac_q62 g"
proof -
  have f: "f \<le> 2 ^ 32" using assms by (rule le_trans)
  have "f * 2 ^ 30 * LN2_Q62 div 2 ^ 62 \<le> g * 2 ^ 30 * LN2_Q62 div 2 ^ 62"
    using assms(1) by (intro div_le_mono mult_le_mono) auto
  then show ?thesis
    unfolding pow2_frac_q62_def Let_def pow2_frac_arg(1) [OF f] pow2_frac_arg(1) [OF assms(2)]
    using pow2_frac_arg(2) [OF assms(2)] by (intro pow2_frac_loop_mono) simp_all
qed

lemma pow2_frac_terms: "[1..<12] = [1, 2, 3, 4, 5, 6, 7, 8, 9, 10, 11]"
  by code_simp

lemma pow2_frac_q62_0: "pow2_frac_q62 0 = 2 ^ 62"
  unfolding pow2_frac_q62_def pow2_frac_terms Let_def
  by (simp add: as_u_def wrapping_mul_def wrapping_add_def LN2_Q62_def pow2_next_term_def)

lemma pow2_frac_q62_top: "pow2_frac_q62 (2 ^ 32) \<le> 2 ^ 63"
  unfolding pow2_frac_q62_def pow2_frac_terms Let_def
  by (simp add: as_u_def wrapping_mul_def wrapping_add_def LN2_Q62_def pow2_next_term_def)

lemma pow2_frac_q62_bounds:
  assumes "f \<le> 2 ^ 32"
  shows "2 ^ 62 \<le> pow2_frac_q62 f" and "pow2_frac_q62 f \<le> 2 ^ 63"
  using pow2_frac_q62_mono [of 0 f] pow2_frac_q62_mono [of f "2 ^ 32"] assms
    pow2_frac_q62_0 pow2_frac_q62_top by auto

lemma pow2_fixed_q32_neg:
  assumes "- (2 ^ 32) \<le> e" and "e < 0"
  shows "pow2_fixed_q32 e = pow2_frac_q62 (nat (e + 2 ^ 32)) div 2 ^ 31"
proof -
  have "e div 2 ^ 32 = - 1" using assms by simp
  moreover from this have "e mod 2 ^ 32 = e + 2 ^ 32" by (simp add: minus_div_mult_eq_mod [symmetric])
  ultimately  show ?thesis by (simp add: pow2_fixed_q32_def Let_def div_mult2_eq [symmetric])
qed

lemma pow2_fixed_q32_pos:
  assumes "0 \<le> e" and "e < 2 ^ 32"
  shows "pow2_fixed_q32 e = pow2_frac_q62 (nat e) div 2 ^ 30"
proof -
  have "nat e \<le> 2 ^ 32" using assms by simp
  then have "pow2_frac_q62 (nat e) div 2 ^ 30 \<le> 2 ^ 63 div 2 ^ 30"
    by (intro div_le_mono pow2_frac_q62_bounds(2))
  then have "pow2_frac_q62 (nat e) div 2 ^ 30 < 2 ^ 128" by simp
  moreover have "e div 2 ^ 32 = 0" and "e mod 2 ^ 32 = e" using assms by simp_all
  ultimately show ?thesis by (simp add: pow2_fixed_q32_def Let_def)
qed

lemma pow2_fixed_q32_mono:
  assumes "- (2 ^ 32) \<le> d" and "d \<le> e" and "e < 2 ^ 32"
  shows "pow2_fixed_q32 d \<le> pow2_fixed_q32 e"
proof (cases "e < 0")
  case True
  then have "nat (d + 2 ^ 32) \<le> nat (e + 2 ^ 32)" "nat (e + 2 ^ 32) \<le> 2 ^ 32"
    using assms by simp_all
  with True assms show ?thesis
    by (auto simp: pow2_fixed_q32_neg intro!: div_le_mono pow2_frac_q62_mono)
next
  case e: False
  then have pos: "pow2_fixed_q32 e = pow2_frac_q62 (nat e) div 2 ^ 30" "nat e \<le> 2 ^ 32"
    using assms by (simp_all add: pow2_fixed_q32_pos)
  show ?thesis
  proof (cases "d < 0")
    case True
    then have "pow2_fixed_q32 d \<le> 2 ^ 63 div 2 ^ 31"
      using assms by (simp only: pow2_fixed_q32_neg) (intro div_le_mono pow2_frac_q62_bounds, simp)
    also have "\<dots> = 2 ^ 62 div 2 ^ 30" by simp
    also have "\<dots> \<le> pow2_fixed_q32 e"
      unfolding pos(1) by (intro div_le_mono pow2_frac_q62_bounds pos(2))
    finally show ?thesis .
  next
    case False
    with e assms pos show ?thesis
      by (auto simp: pow2_fixed_q32_pos intro!: div_le_mono pow2_frac_q62_mono)
  qed
qed

lemma pow2_fixed_q32_ends:
  shows "pow2_fixed_q32 (- (2 ^ 32)) = 2 ^ 31" and "pow2_fixed_q32 0 = 2 ^ 32"
  using pow2_fixed_q32_neg [of "- (2 ^ 32)"] pow2_fixed_q32_pos [of 0]
  by (simp_all add: pow2_frac_q62_0)

lemma pow2_fixed_q32_upper: "- (2 ^ 32) \<le> e \<Longrightarrow> e < 2 ^ 32 \<Longrightarrow> pow2_fixed_q32 e \<le> 2 ^ 33"
proof -
  assume e: "- (2 ^ 32) \<le> e" "e < 2 ^ 32"
  then have "pow2_fixed_q32 e \<le> pow2_fixed_q32 (2 ^ 32 - 1)"
    by (intro pow2_fixed_q32_mono) simp_all
  also have "\<dots> = pow2_frac_q62 (nat (2 ^ 32 - 1)) div 2 ^ 30"
    by (rule pow2_fixed_q32_pos) simp_all
  also have "\<dots> \<le> 2 ^ 63 div 2 ^ 30"
    by (intro div_le_mono pow2_frac_q62_bounds) simp
  finally show ?thesis by simp
qed

definition reprice_exponent :: "nat \<Rightarrow> nat \<Rightarrow> int" where
  "reprice_exponent sales available = int (sales * 2 * 2 ^ 32 div available) - 2 ^ 32"

lemma reprice_exponent_range:
  assumes "s < a"
  shows "- (2 ^ 32) \<le> reprice_exponent s a" and "reprice_exponent s a < 2 ^ 32"
proof -
  have "s * 2 * 2 ^ 32 < 2 ^ 33 * a" using assms by simp
  then have "s * 2 * 2 ^ 32 div a < 2 ^ 33"
    using assms by (simp add: div_less_iff_less_mult)
  then show "- (2 ^ 32) \<le> reprice_exponent s a" and "reprice_exponent s a < 2 ^ 32"
    unfolding reprice_exponent_def by simp_all
qed

lemma reprice_exponent_mono: "s \<le> t \<Longrightarrow> reprice_exponent s a \<le> reprice_exponent t a"
  unfolding reprice_exponent_def by (simp add: div_le_mono)

lemma reprice_factor_exponent:
  assumes "s < a"
  shows "reprice_factor s a = pow2_fixed_q32 (reprice_exponent s a)"
  using assms pow2_fixed_q32_ends
  by (auto simp: reprice_factor_def reprice_exponent_def)

lemma reprice_factor_mono:
  assumes "s \<le> t" and "t \<le> a"
  shows "reprice_factor s a \<le> reprice_factor t a"
proof (cases "t = a")
  case False
  with assms have lt: "s < a" "t < a" by simp_all
  then show ?thesis
    using reprice_exponent_range reprice_exponent_mono [OF assms(1)]
    by (simp only: reprice_factor_exponent) (rule pow2_fixed_q32_mono)
next
  case t: True
  show ?thesis
  proof (cases "s < a")
    case True
    then have "reprice_factor s a \<le> 2 ^ 33"
      using reprice_exponent_range [OF True]
      by (simp only: reprice_factor_exponent) (rule pow2_fixed_q32_upper)
    with t True show ?thesis by (simp add: reprice_factor_def)
  next
    case False
    with assms t show ?thesis by simp
  qed
qed

lemma reprice_factor_bounds:
  assumes "s \<le> a" and "0 < a"
  shows "2 ^ 31 \<le> reprice_factor s a" and "reprice_factor s a \<le> 2 ^ 33"
  using reprice_factor_mono [of 0 s a] reprice_factor_mono [of s a a] assms
  by (simp_all add: reprice_factor_def)

lemma reprice_eq_factor:
  assumes "p < 2 ^ 63" and "s \<le> a" and "0 < a" and "a < 2 ^ 63"
  shows "reprice p s a = p * reprice_factor s a div 2 ^ 32"
proof -
  have F: "p * reprice_factor s a < 2 ^ 63 * 2 ^ 33"
    using assms reprice_factor_bounds [OF assms(2,3)]
    by (meson le_less_trans mult_le_mono2 mult_less_mono1 zero_less_numeral zero_less_power)
  then have "p * reprice_factor s a div 2 ^ 32 < 2 ^ 64"
    by (simp add: div_less_iff_less_mult)
  moreover have "wrapping_mul 128 p (reprice_factor s a) = p * reprice_factor s a"
    using F by simp
  ultimately have body: "as_u 64 (wrapping_mul 128 p (reprice_factor s a) div 2 ^ 32)
      = p * reprice_factor s a div 2 ^ 32"
    by simp
  consider "s = 0" | "s = a" "s \<noteq> 0" | "2 * s = a" "s \<noteq> 0" | "s \<noteq> 0" "s \<noteq> a" "2 * s \<noteq> a"
    by blast
  then show ?thesis
  proof cases
    case 1
    then show ?thesis using assms by (simp add: reprice_def reprice_factor_def)
  next
    case 2
    then show ?thesis using assms by (simp add: reprice_def reprice_factor_def saturating_mul_def)
  next
    case 3
    then show ?thesis using assms by (auto simp: reprice_def reprice_factor_def saturating_mul_def)
  next
    case 4
    then have "reprice p s a = as_u 64 (wrapping_mul 128 p (reprice_factor s a) div 2 ^ 32)"
      using assms by (auto simp: reprice_def reprice_factor_def saturating_mul_def Let_def)
    with body show ?thesis by simp
  qed
qed

lemma reprice_mono:
  assumes "p < 2 ^ 63" and "s \<le> t" and "t \<le> a" and "0 < a" and "a < 2 ^ 63"
  shows "reprice p s a \<le> reprice p t a"
  using reprice_factor_mono [OF assms(2,3)] assms
  by (simp add: reprice_eq_factor div_le_mono)

lemma reprice_bounded:
  assumes "p < 2 ^ 63" and "s \<le> a" and "0 < a" and "a < 2 ^ 63"
  shows "p div 2 \<le> reprice p s a \<and> reprice p s a \<le> 2 * p"
proof -
  have "p * 2 ^ 31 div 2 ^ 32 \<le> p * reprice_factor s a div 2 ^ 32"
    by (intro div_le_mono mult_le_mono2 reprice_factor_bounds assms)
  moreover have "p * reprice_factor s a div 2 ^ 32 \<le> p * 2 ^ 33 div 2 ^ 32"
    by (intro div_le_mono mult_le_mono2 reprice_factor_bounds assms)
  ultimately show ?thesis by (simp add: reprice_eq_factor [OF assms])
qed

text \<open>
  C35. one repricing step at most doubles and at most halves the price, and it is monotone:
  more sales in the window never give a lower price. Holds for the fixed-point code,
  its exceptional cases included, for prices and slot counts below \<open>2 ^ 63\<close>.
\<close>

theorem reprice_bounded_monotone:
  assumes "p < 2 ^ 63" and "s \<le> t" and "t \<le> a" and "0 < a" and "a < 2 ^ 63"
  shows "p div 2 \<le> reprice p s a \<and> reprice p s a \<le> reprice p t a \<and> reprice p t a \<le> 2 * p"
  using reprice_bounded [of p s a] reprice_bounded [of p t a] reprice_mono [of p s t a] assms
  by simp

theorem reprice_bounded_monotone_witness:
  "(1000000::nat) div 2 \<le> reprice 1000000 25 100 \<and>
   reprice 1000000 25 100 \<le> reprice 1000000 75 100 \<and> reprice 1000000 75 100 \<le> 2 * 1000000"
  using reprice_bounded_monotone [of 1000000 25 75 100] by simp

end
