(* ===== verification/DecisionTypes.thy ===== *)
theory DecisionTypes
  imports StateTypes F64 DecisionMath
begin

unbundle bit_operations_syntax

text \<open>
  Decisions, their identifiers and the history of their states
  (\<open>lib/state/decisions/types.rs\<close>).

  A decision identifier packs a standard bit, a 7-bit period and a 16-bit index into
  three bytes; the packing is modelled on machine words with the shifts and masks of the
  code. A decision's life cycle is its \<open>state_history\<close>, a list of
  \<open>(state, height, outcome)\<close> entries that grows at its end and is cut by a rollback.
  Floating-point values are those of theory \<open>F64\<close>. The hexadecimal encoder of the
  \<open>const_hex\<close> crate and the \<open>borsh\<close> hash are arguments of the definitions that use them.
\<close>

section \<open>Identifiers\<close>

definition MAX_PERIOD_INDEX :: nat where "MAX_PERIOD_INDEX = 2 ^ 7 - 1"
definition MAX_DECISION_INDEX :: nat where "MAX_DECISION_INDEX = 2 ^ 16 - 1"
definition STANDARD_BIT :: nat where "STANDARD_BIT = 23"
definition PERIOD_SHIFT :: nat where "PERIOD_SHIFT = 16"
definition PERIOD_MASK :: "32 word" where "PERIOD_MASK = 0x7F"
definition DECISION_MASK :: "32 word" where "DECISION_MASK = of_nat MAX_DECISION_INDEX"

definition validate_decision_bounds :: "nat \<Rightarrow> nat \<Rightarrow> (error, unit) result" where
  "validate_decision_bounds period index =
     (if MAX_PERIOD_INDEX < period then Inl (InvalidDecisionId ''Period exceeds maximum'')
      else if MAX_DECISION_INDEX < index
        then Inl (InvalidDecisionId ''Decision index exceeds maximum'')
      else Inr ())"

fun as_bytes :: "decision_id \<Rightarrow> 8 word list" where
  "as_bytes (DecisionId b0 b1 b2) = [b0, b1, b2]"

fun as_u32 :: "decision_id \<Rightarrow> 32 word" where
  "as_u32 (DecisionId b0 b1 b2) =
     push_bit 16 (ucast b0) OR push_bit 8 (ucast b1) OR ucast b2"

definition decision_id_combined :: "bool \<Rightarrow> nat \<Rightarrow> nat \<Rightarrow> 32 word" where
  "decision_id_combined std period index =
     push_bit STANDARD_BIT (if std then 1 else 0) OR push_bit PERIOD_SHIFT (of_nat period)
       OR of_nat index"

definition decision_id_new :: "bool \<Rightarrow> nat \<Rightarrow> nat \<Rightarrow> (error, decision_id) result" where
  "decision_id_new std period index =
     rbind (validate_decision_bounds period index) (\<lambda>_.
       let combined = decision_id_combined std period index
       in Inr (DecisionId (ucast (drop_bit 16 combined)) (ucast (drop_bit 8 combined))
                 (ucast combined)))"

definition is_standard :: "decision_id \<Rightarrow> bool" where
  "is_standard d \<longleftrightarrow> drop_bit STANDARD_BIT (as_u32 d) AND 1 = 1"

definition period_index :: "decision_id \<Rightarrow> nat" where
  "period_index d = unat (drop_bit PERIOD_SHIFT (as_u32 d) AND PERIOD_MASK)"

definition decision_index :: "decision_id \<Rightarrow> nat" where
  "decision_index d = unat (as_u32 d AND DECISION_MASK)"

definition voting_period :: "decision_id \<Rightarrow> nat" where
  "voting_period d = wrapping_add 32 (period_index d) 1"

definition from_bytes :: "8 word \<Rightarrow> 8 word \<Rightarrow> 8 word \<Rightarrow> (error, decision_id) result" where
  "from_bytes b0 b1 b2 =
     (let d = DecisionId b0 b1 b2
      in rbind (validate_decision_bounds (period_index d) (decision_index d)) (\<lambda>_. Inr d))"

definition hex_digit_value :: "char \<Rightarrow> nat option" where
  "hex_digit_value c =
     (let n = of_char c :: nat in
      if 48 \<le> n \<and> n \<le> 57 then Some (n - 48)
      else if 97 \<le> n \<and> n \<le> 102 then Some (n - 87)
      else if 65 \<le> n \<and> n \<le> 70 then Some (n - 55)
      else None)"

definition u8_from_str_radix16 :: "char \<Rightarrow> char \<Rightarrow> (8 word) option" where
  "u8_from_str_radix16 c d =
     (if c = CHR ''+'' then map_option of_nat (hex_digit_value d)
      else (case (hex_digit_value c, hex_digit_value d) of
              (Some h, Some l) \<Rightarrow> Some (of_nat (16 * h + l))
            | _ \<Rightarrow> None))"

definition from_hex :: "string \<Rightarrow> (error, decision_id) result" where
  "from_hex s =
     (case s of
        [c0, d0, c1, d1, c2, d2] \<Rightarrow>
          rbind (ok_or (u8_from_str_radix16 c0 d0)
                   (InvalidDecisionId ''Invalid decision ID hex format'')) (\<lambda>b0.
          rbind (ok_or (u8_from_str_radix16 c1 d1)
                   (InvalidDecisionId ''Invalid decision ID hex format'')) (\<lambda>b1.
          rbind (ok_or (u8_from_str_radix16 c2 d2)
                   (InvalidDecisionId ''Invalid decision ID hex format'')) (\<lambda>b2.
          from_bytes b0 b1 b2)))
      | _ \<Rightarrow> Inl (InvalidDecisionId ''Decision ID hex must be exactly 6 characters (3 bytes)''))"

definition to_hex :: "(8 word list \<Rightarrow> string) \<Rightarrow> decision_id \<Rightarrow> string" where
  "to_hex encode d = encode (as_bytes d)"

subsection \<open>The fields in closed form\<close>

lemma PERIOD_MASK_eq: "PERIOD_MASK = mask 7"
  by (simp add: PERIOD_MASK_def mask_eq_exp_minus_1)

lemma DECISION_MASK_eq: "DECISION_MASK = mask 16"
  by (simp add: DECISION_MASK_def MAX_DECISION_INDEX_def mask_eq_exp_minus_1)

lemma period_index_eq: "period_index (DecisionId b0 b1 b2) = unat b0 mod 128"
proof -
  have "drop_bit PERIOD_SHIFT (as_u32 (DecisionId b0 b1 b2)) AND PERIOD_MASK
        = (ucast (take_bit 7 b0) :: 32 word)"
    unfolding PERIOD_SHIFT_def PERIOD_MASK_eq
    by (rule bit_word_eqI) (auto simp: bit_simps dest: bit_imp_le_length)
  then show ?thesis
    unfolding period_index_def
    by (simp add: unsigned_ucast_eq unsigned_take_bit_eq) (simp add: take_bit_eq_mod)
qed

lemma and_one_iff: "w AND 1 = 1 \<longleftrightarrow> bit w 0" for w :: "32 word"
  by (simp add: and_one_eq bit_0 odd_iff_mod_2_eq_one)

lemma is_standard_eq: "is_standard (DecisionId b0 b1 b2) \<longleftrightarrow> bit b0 7"
  unfolding is_standard_def STANDARD_BIT_def and_one_iff
  by (auto simp: bit_simps dest: bit_imp_le_length)

lemma as_u32_parts:
  "as_u32 (DecisionId (ucast (drop_bit 16 x)) (ucast (drop_bit 8 x)) (ucast x)) = take_bit 24 x"
proof (rule bit_word_eqI)
  fix n assume "n < LENGTH(32)"
  then show "bit (as_u32 (DecisionId (ucast (drop_bit 16 x)) (ucast (drop_bit 8 x)) (ucast x))) n
      = bit (take_bit 24 x) n"
    by (cases "n < 8"; cases "n < 16") (auto simp: bit_simps)
qed

declare as_u32.simps [simp del]

lemma as_u32_inj:
  assumes "as_u32 d = as_u32 d'" shows "d = d'"
proof -
  obtain a b c where d: "d = DecisionId a b c" by (cases d)
  obtain a' b' c' where d': "d' = DecisionId a' b' c'" by (cases d')
  have bits: "bit (as_u32 d) n = bit (as_u32 d') n" for n using assms by simp
  have "a = a'"
  proof (rule bit_word_eqI)
    fix n assume "n < LENGTH(8)"
    then show "bit a n = bit a' n" using bits [of "n + 16"]
      by (auto simp: d d' as_u32.simps bit_simps dest: bit_imp_le_length)
  qed
  moreover have "b = b'"
  proof (rule bit_word_eqI)
    fix n assume "n < LENGTH(8)"
    then show "bit b n = bit b' n" using bits [of "n + 8"]
      by (auto simp: d d' as_u32.simps bit_simps dest: bit_imp_le_length)
  qed
  moreover have "c = c'"
  proof (rule bit_word_eqI)
    fix n assume "n < LENGTH(8)"
    then show "bit c n = bit c' n" using bits [of n]
      by (auto simp: d d' as_u32.simps bit_simps dest: bit_imp_le_length)
  qed
  ultimately show ?thesis by (simp add: d d')
qed

lemma fields_of_combined:
  fixes x :: "32 word" and std period index
  defines "d \<equiv> DecisionId (ucast (drop_bit 16 x)) (ucast (drop_bit 8 x)) (ucast x)"
  assumes x: "x = decision_id_combined std period index"
    and p: "period < 128" and i: "index < 65536"
  shows "is_standard d = std" "period_index d = period" "decision_index d = index"
proof -
  have p': "of_nat period = (take_bit 7 (of_nat period) :: 32 word)"
    using p by (simp add: take_bit_of_nat take_bit_nat_eq_self)
  have i': "of_nat index = (take_bit 16 (of_nat index) :: 32 word)"
    using i by (simp add: take_bit_of_nat take_bit_nat_eq_self)
  have x': "x = push_bit 23 (if std then 1 else 0) OR push_bit 16 (take_bit 7 (of_nat period))
      OR take_bit 16 (of_nat index)"
    unfolding x decision_id_combined_def STANDARD_BIT_def PERIOD_SHIFT_def
    using p' i' by argo
  have "drop_bit 23 (take_bit 24 x) AND 1 = (if std then 1 else 0)"
    unfolding x' by (rule bit_word_eqI) (auto simp: bit_simps)
  then show "is_standard d = std"
    by (auto simp: is_standard_def d_def as_u32_parts STANDARD_BIT_def)
  have "drop_bit 16 (take_bit 24 x) AND mask 7 = take_bit 7 (of_nat period)"
    unfolding x' by (rule bit_word_eqI) (auto simp: bit_simps)
  then show "period_index d = period"
    using p by (simp add: period_index_def d_def as_u32_parts PERIOD_SHIFT_def PERIOD_MASK_eq
        flip: p') (simp add: unat_of_nat)
  have "take_bit 24 x AND mask 16 = take_bit 16 (of_nat index)"
    unfolding x' by (rule bit_word_eqI) (auto simp: bit_simps)
  then show "decision_index d = index"
    using i by (simp add: decision_index_def d_def as_u32_parts DECISION_MASK_eq
        flip: i') (simp add: unat_of_nat)
qed

section \<open>Decisions\<close>

datatype decision_type =
    Binary
  | Scaled f64 f64 f64
  | Category "string list"

fun decision_type_key ::
    "decision_type \<Rightarrow> nat \<times> (f64 \<times> f64 \<times> f64) \<times> string list" where
  "decision_type_key Binary = (0, (F_NaN, F_NaN, F_NaN), [])"
| "decision_type_key (Scaled mn mx inc) = (1, (mn, mx, inc), [])"
| "decision_type_key (Category options) = (2, (F_NaN, F_NaN, F_NaN), options)"

lemma decision_type_key_inj: "decision_type_key x = decision_type_key y \<Longrightarrow> x = y"
  by (cases x; cases y) auto

instantiation decision_type :: linorder
begin

definition less_eq_decision_type :: "decision_type \<Rightarrow> decision_type \<Rightarrow> bool" where
  "less_eq_decision_type x y = (decision_type_key x \<le> decision_type_key y)"

definition less_decision_type :: "decision_type \<Rightarrow> decision_type \<Rightarrow> bool" where
  "less_decision_type x y = (decision_type_key x < decision_type_key y)"

instance
  by standard (auto simp: less_eq_decision_type_def less_decision_type_def less_le_not_le
      simp del: less_prod_simp less_eq_prod_simp intro: order_trans decision_type_key_inj antisym)

end

datatype decision = Decision
  (market_maker_pubkey_hash: address)
  (decision_type: decision_type)
  (header: string)
  (description: string)
  (option_0_label: "string option")
  (option_1_label: "string option")
  (tags: "string list")

fun decision_key ::
    "decision \<Rightarrow> address \<times> decision_type \<times> string \<times> string \<times> string option
       \<times> string option \<times> string list" where
  "decision_key (Decision h t hdr descr l0 l1 ts) = (h, t, hdr, descr, l0, l1, ts)"

lemma decision_key_inj: "decision_key x = decision_key y \<Longrightarrow> x = y"
  by (cases x; cases y) auto

instantiation decision :: linorder
begin

definition less_eq_decision :: "decision \<Rightarrow> decision \<Rightarrow> bool" where
  "less_eq_decision x y = (decision_key x \<le> decision_key y)"

definition less_decision :: "decision \<Rightarrow> decision \<Rightarrow> bool" where
  "less_decision x y = (decision_key x < decision_key y)"

instance
  by standard (auto simp: less_eq_decision_def less_decision_def less_le_not_le
      simp del: less_prod_simp less_eq_prod_simp intro: order_trans decision_key_inj antisym)

end

datatype decision_entry = DecisionEntry
  (entry_id: decision_id)
  (entry_decision: "decision option")
  (claiming_txid: txid)

fun decision_entry_key :: "decision_entry \<Rightarrow> decision_id \<times> decision option \<times> txid" where
  "decision_entry_key (DecisionEntry i d t) = (i, d, t)"

lemma decision_entry_key_inj: "decision_entry_key x = decision_entry_key y \<Longrightarrow> x = y"
  by (cases x; cases y) auto

instantiation decision_entry :: linorder
begin

definition less_eq_decision_entry :: "decision_entry \<Rightarrow> decision_entry \<Rightarrow> bool" where
  "less_eq_decision_entry x y = (decision_entry_key x \<le> decision_entry_key y)"

definition less_decision_entry :: "decision_entry \<Rightarrow> decision_entry \<Rightarrow> bool" where
  "less_decision_entry x y = (decision_entry_key x < decision_entry_key y)"

instance
  by standard (auto simp: less_eq_decision_entry_def less_decision_entry_def less_le_not_le
      simp del: less_prod_simp less_eq_prod_simp intro: order_trans decision_entry_key_inj antisym)

end

subsection \<open>Construction\<close>

definition f_lit :: "rat \<Rightarrow> f64" where
  "f_lit q = round_mag (q < 0) \<bar>q\<bar>"

definition is_step_aligned :: "f64 \<Rightarrow> f64 \<Rightarrow> bool" where
  "is_step_aligned delta step =
     (let k = f_round (f_div delta step);
          tolerance = f_max (f_mul (f_abs step) (f_lit (1 / 10 ^ 9))) (f_lit (1 / 10 ^ 12))
      in f_le (f_abs (f_sub delta (f_mul k step))) tolerance)"

fun validate_decision_type :: "decision_type \<Rightarrow> (error, unit) result" where
  "validate_decision_type Binary = Inr ()"
| "validate_decision_type (Scaled mn mx inc) =
     (if \<not> f_is_finite mn \<or> \<not> f_is_finite mx \<or> \<not> f_is_finite inc
         \<or> f_le mx mn \<or> f_le inc (F_Zero False)
      then Inl (InvalidScaled ''invalid bounds'')
      else if \<not> is_step_aligned (f_sub mx mn) inc
      then Inl (InvalidScaled ''(max - min) is not an integer multiple of increment'')
      else Inr ())"
| "validate_decision_type (Category options) =
     (if length options < 2
      then Inl (InvalidDecisionId ''Category decisions require at least 2 options'')
      else Inr ())"

definition decision_new ::
    "address \<Rightarrow> decision_type \<Rightarrow> string \<Rightarrow> string \<Rightarrow> string option \<Rightarrow> string option
       \<Rightarrow> string list \<Rightarrow> (error, decision) result" where
  "decision_new pkh dt hdr descr l0 l1 ts =
     rbind (ensure (length hdr \<le> 100) (InvalidDecisionId ''Header must be 100 bytes or less'')) (\<lambda>_.
     rbind (ensure (length descr \<le> 2000)
              (InvalidDecisionId ''Description must be 2000 bytes or less'')) (\<lambda>_.
     rbind (ensure (length ts \<le> 10) (InvalidDecisionId ''Maximum 10 tags allowed'')) (\<lambda>_.
     rbind (ensure (list_all (\<lambda>t. length t \<le> 50) ts)
              (InvalidDecisionId ''Tag exceeds 50 byte limit'')) (\<lambda>_.
     rbind (validate_decision_type dt) (\<lambda>_.
     Inr (Decision pkh dt hdr descr l0 l1 ts))))))"

subsection \<open>Accessors\<close>

definition is_scaled :: "decision \<Rightarrow> bool" where
  "is_scaled d = (case decision_type d of Scaled _ _ _ \<Rightarrow> True | _ \<Rightarrow> False)"

definition is_categorical :: "decision \<Rightarrow> bool" where
  "is_categorical d = (case decision_type d of Category _ \<Rightarrow> True | _ \<Rightarrow> False)"

definition option_count :: "decision \<Rightarrow> nat option" where
  "option_count d = (case decision_type d of Category opts \<Rightarrow> Some (length opts) | _ \<Rightarrow> None)"

definition inconclusive_index :: "decision \<Rightarrow> nat option" where
  "inconclusive_index d = map_option (as_u 16) (option_count d)"

definition get_category_labels :: "decision \<Rightarrow> string list option" where
  "get_category_labels d = (case decision_type d of Category opts \<Rightarrow> Some opts | _ \<Rightarrow> None)"

definition scale_min :: "decision \<Rightarrow> f64 option" where
  "scale_min d = (case decision_type d of Scaled mn _ _ \<Rightarrow> Some mn | _ \<Rightarrow> None)"

definition scale_max :: "decision \<Rightarrow> f64 option" where
  "scale_max d = (case decision_type d of Scaled _ mx _ \<Rightarrow> Some mx | _ \<Rightarrow> None)"

definition get_binary_labels :: "decision \<Rightarrow> string \<times> string" where
  "get_binary_labels d =
     (unwrap_or ''No'' (option_0_label d), unwrap_or ''Yes'' (option_1_label d))"

definition get_display_range :: "decision \<Rightarrow> f64 \<times> f64" where
  "get_display_range d =
     (case decision_type d of
        Scaled mn mx _ \<Rightarrow> (mn, mx)
      | Binary \<Rightarrow> (F_Zero False, f_lit 1)
      | Category opts \<Rightarrow> (F_Zero False, f_of_nat (length opts)))"

subsection \<open>Vote values\<close>

definition normalize_value :: "decision \<Rightarrow> f64 \<Rightarrow> f64" where
  "normalize_value d v =
     (if f_is_nan v then F_NaN
      else case decision_type d of
          Scaled mn mx _ \<Rightarrow>
            (let range = f_sub mx mn
             in if f_eq range (F_Zero False) then f_lit (1 / 2)
                else f_div (f_sub v mn) range)
        | _ \<Rightarrow> v)"

definition denormalize_value :: "decision \<Rightarrow> f64 \<Rightarrow> f64" where
  "denormalize_value d v =
     (if f_is_nan v then F_NaN
      else case decision_type d of
          Scaled mn mx _ \<Rightarrow> f_add (f_mul v (f_sub mx mn)) mn
        | _ \<Rightarrow> v)"

definition validate_vote_value :: "decision_type \<Rightarrow> f64 \<Rightarrow> (error, unit) result" where
  "validate_vote_value dt v =
     (case dt of
        Scaled mn mx inc \<Rightarrow>
          (if f_lt v mn \<or> f_lt mx v
           then Inl (InvalidVoteValue ''Value is outside allowed range'')
           else if \<not> is_step_aligned (f_sub v mn) inc
           then Inl (InvalidVoteValue ''Value is not a multiple of increment from min'')
           else Inr ())
      | Binary \<Rightarrow>
          ensure (f_le (F_Zero False) v \<and> f_le v (f_lit 1))
            (InvalidVoteValue ''Binary vote value must be between 0.0 and 1.0'')
      | Category options \<Rightarrow>
          (let idx = f_to_u64 v
           in if f_lt v (F_Zero False) \<or> \<not> f_eq v (f_of_nat idx) \<or> length options < idx
              then Inl (InvalidVoteValue ''Categorical vote value must be a valid option index'')
              else Inr ()))"

definition validate_and_normalize :: "decision \<Rightarrow> f64 \<Rightarrow> (error, f64) result" where
  "validate_and_normalize d v =
     (if f_is_nan v then Inr F_NaN
      else rbind (validate_vote_value (decision_type d) v) (\<lambda>_. Inr (normalize_value d v)))"

section \<open>The state history of a decision\<close>

datatype decision_state = Created | Claimed | Voting | Resolved | Invalid

fun can_transition_to :: "decision_state \<Rightarrow> decision_state \<Rightarrow> bool" where
  "can_transition_to Claimed Voting = True"
| "can_transition_to Voting Resolved = True"
| "can_transition_to _ Invalid = True"
| "can_transition_to _ _ = False"

fun allows_voting :: "decision_state \<Rightarrow> bool" where
  "allows_voting Voting = True"
| "allows_voting _ = False"

fun state_has_consensus :: "decision_state \<Rightarrow> bool" where
  "state_has_consensus Resolved = True"
| "state_has_consensus _ = False"

record decision_state_history =
  state_history :: "(decision_state \<times> nat \<times> f64 option) list"

definition new_claimed :: "nat \<Rightarrow> decision_state_history" where
  "new_claimed height = \<lparr> state_history = [(Claimed, height, None)] \<rparr>"

definition current_state :: "decision_state_history \<Rightarrow> decision_state" where
  "current_state hist =
     (if state_history hist = [] then Created else fst (last (state_history hist)))"

definition transition_to_voting ::
    "decision_state_history \<Rightarrow> nat \<Rightarrow> (error, decision_state_history) result" where
  "transition_to_voting hist height =
     (if \<not> can_transition_to (current_state hist) Voting
      then Inl (InvalidDecisionState ''Cannot transition to Voting'')
      else Inr (hist \<lparr> state_history := state_history hist @ [(Voting, height, None)] \<rparr>))"

definition transition_to_resolved ::
    "decision_state_history \<Rightarrow> f64 \<Rightarrow> nat \<Rightarrow> (error, decision_state_history) result" where
  "transition_to_resolved hist outcome height =
     (if \<not> can_transition_to (current_state hist) Resolved
      then Inl (InvalidDecisionState ''Cannot transition to Resolved'')
      else if f_lt outcome (f_lit (- 1))
      then Inl (InvalidDecisionState ''Consensus outcome is invalid (< -1.0)'')
      else Inr (hist \<lparr> state_history :=
                  state_history hist @ [(Resolved, height, Some outcome)] \<rparr>))"

definition can_accept_votes :: "decision_state_history \<Rightarrow> bool" where
  "can_accept_votes hist = (current_state hist = Voting)"

definition history_has_consensus :: "decision_state_history \<Rightarrow> bool" where
  "history_has_consensus hist = state_has_consensus (current_state hist)"

definition consensus_outcome :: "decision_state_history \<Rightarrow> f64 option" where
  "consensus_outcome hist =
     Option.bind (find (\<lambda>e. fst e = Resolved) (state_history hist)) (\<lambda>e. snd (snd e))"

definition has_reached_state :: "decision_state_history \<Rightarrow> decision_state \<Rightarrow> bool" where
  "has_reached_state hist st = list_ex (\<lambda>e. fst e = st) (state_history hist)"

definition state_at_height :: "decision_state_history \<Rightarrow> nat \<Rightarrow> decision_state" where
  "state_at_height hist height =
     unwrap_or Created
       (map_option fst (find (\<lambda>e. fst (snd e) \<le> height) (rev (state_history hist))))"

definition rollback_to_height :: "decision_state_history \<Rightarrow> nat \<Rightarrow> decision_state_history" where
  "rollback_to_height hist height =
     hist \<lparr> state_history := filter (\<lambda>e. fst (snd e) \<le> height) (state_history hist) \<rparr>"

definition get_state_height :: "decision_state_history \<Rightarrow> decision_state \<Rightarrow> nat option" where
  "get_state_height hist st =
     map_option (\<lambda>e. fst (snd e)) (find (\<lambda>e. fst e = st) (state_history hist))"

section \<open>Configuration\<close>

definition FUTURE_PERIODS :: nat where "FUTURE_PERIODS = 20"
definition INITIAL_DECISIONS_PER_PERIOD :: nat where "INITIAL_DECISIONS_PER_PERIOD = 500"
definition SECONDS_PER_QUARTER :: nat where "SECONDS_PER_QUARTER = 3600 * 24 * 91"

record decision_config =
  is_blocks :: bool
  quantity :: nat

definition default_config :: decision_config where
  "default_config = \<lparr> is_blocks = False, quantity = 86400 \<rparr>"

definition production :: decision_config where
  "production = \<lparr> is_blocks = False, quantity = as_u 32 SECONDS_PER_QUARTER \<rparr>"

definition testing :: "nat \<Rightarrow> decision_config" where
  "testing bpp = \<lparr> is_blocks = True, quantity = bpp \<rparr>"

definition config_blocks_per_period :: "decision_config \<Rightarrow> nat option" where
  "config_blocks_per_period c = (if is_blocks c then Some (quantity c) else None)"

definition config_seconds_per_period :: "decision_config \<Rightarrow> nat option" where
  "config_seconds_per_period c = (if \<not> is_blocks c then Some (quantity c) else None)"

section \<open>Properties of identifiers\<close>

lemma period_index_less: "period_index d < 128"
  by (cases d) (simp add: period_index_eq)

lemma unat_and_mask_16_less: "unat (x AND mask 16) < 65536" for x :: "32 word"
  by (simp add: unsigned_take_bit_eq flip: take_bit_eq_mask) (simp add: take_bit_eq_mod)

lemma decision_index_less: "decision_index d < 65536"
  unfolding decision_index_def DECISION_MASK_eq by (rule unat_and_mask_16_less)

lemma validate_decision_bounds_ok:
  "validate_decision_bounds p i = Inr u \<longleftrightarrow> p < 128 \<and> i < 65536"
  by (auto simp: validate_decision_bounds_def MAX_PERIOD_INDEX_def MAX_DECISION_INDEX_def)

lemma from_bytes_ok: "from_bytes b0 b1 b2 = Inr (DecisionId b0 b1 b2)"
  using period_index_less [of "DecisionId b0 b1 b2"] decision_index_less [of "DecisionId b0 b1 b2"]
  by (simp add: from_bytes_def validate_decision_bounds_ok Let_def)

lemma combined_of_fields:
  "decision_id_combined (is_standard d) (period_index d) (decision_index d) = as_u32 d"
proof (cases d)
  case (DecisionId a b c)
  have "of_nat (period_index d) = drop_bit 16 (as_u32 d) AND mask 7"
    "of_nat (decision_index d) = as_u32 d AND mask 16"
    "is_standard d \<longleftrightarrow> bit (as_u32 d) 23"
    by (simp_all add: period_index_def decision_index_def is_standard_def PERIOD_SHIFT_def
        PERIOD_MASK_eq DECISION_MASK_eq STANDARD_BIT_def and_one_iff bit_simps)
  note parts = this
  have high: "\<not> bit (as_u32 d) n" if "24 \<le> n" for n
    using that unfolding DecisionId by (auto simp: as_u32.simps bit_simps dest: bit_imp_le_length)
  show ?thesis
    unfolding decision_id_combined_def STANDARD_BIT_def PERIOD_SHIFT_def parts
  proof (rule bit_word_eqI)
    fix n assume "n < LENGTH(32)"
    consider "n < 16" | "16 \<le> n" "n < 23" | "n = 23" | "24 \<le> n" by linarith
    then show "bit (push_bit 23 (if bit (as_u32 d) 23 then 1 else 0)
        OR push_bit 16 (drop_bit 16 (as_u32 d) AND mask 7) OR as_u32 d AND mask 16) n
        = bit (as_u32 d) n"
      by cases (auto simp: bit_simps high)
  qed
qed

lemma decision_id_new_eq:
  assumes "period < 128" "index < 65536"
  shows "\<exists>d. decision_id_new std period index = Inr d \<and> is_standard d = std
           \<and> period_index d = period \<and> decision_index d = index"
  using assms fields_of_combined [OF refl assms, of std]
  by (simp add: decision_id_new_def validate_decision_bounds_ok Let_def)

lemma decision_id_fields_inj:
  assumes "is_standard d = is_standard d'" "period_index d = period_index d'"
    "decision_index d = decision_index d'"
  shows "d = d'"
  by (rule as_u32_inj) (simp only: assms flip: combined_of_fields)

text \<open>
  \<open>DecisionId::new\<close> and the three field readers are inverse to each other: a call returns
  an identifier exactly when that identifier has the requested standard bit, period and index.
  So every in-range triple is encoded without loss, every three bytes are the encoding of one
  triple, and an out-of-range period or index is refused.
\<close>

theorem decision_id_new_iff:
  "decision_id_new std period index = Inr d \<longleftrightarrow>
     is_standard d = std \<and> period_index d = period \<and> decision_index d = index"
proof
  assume l: "decision_id_new std period index = Inr d"
  then have "period < 128" "index < 65536"
    by (auto simp: decision_id_new_def validate_decision_bounds_ok Let_def)
  with l show "is_standard d = std \<and> period_index d = period \<and> decision_index d = index"
    using decision_id_new_eq [of period index std] by auto
next
  assume r: "is_standard d = std \<and> period_index d = period \<and> decision_index d = index"
  then have "period < 128" "index < 65536"
    using period_index_less decision_index_less by blast+
  from decision_id_new_eq [OF this, of std] obtain d' where
    "decision_id_new std period index = Inr d'" "is_standard d' = std"
    "period_index d' = period" "decision_index d' = index" by blast
  moreover from this r have "d' = d" by (intro decision_id_fields_inj) simp_all
  ultimately show "decision_id_new std period index = Inr d" by simp
qed

text \<open>The lower-case encoding that the \<open>const_hex\<close> crate documents.\<close>

definition hex_digit :: "nat \<Rightarrow> char" where
  "hex_digit n = char_of (if n < 10 then 48 + n else 87 + n)"

definition lower_hex :: "8 word list \<Rightarrow> string" where
  "lower_hex bs = concat (map (\<lambda>b. [hex_digit (unat b div 16), hex_digit (unat b mod 16)]) bs)"

lemma hex_digit_value_hex_digit: "n < 16 \<Longrightarrow> hex_digit_value (hex_digit n) = Some n"
  by (auto simp: hex_digit_value_def hex_digit_def)

lemma hex_digit_not_plus: "n < 16 \<Longrightarrow> hex_digit n \<noteq> CHR ''+''"
  by (auto simp: hex_digit_def char_of_eq_iff take_bit_eq_mod)

lemma u8_from_lower_hex:
  "u8_from_str_radix16 (hex_digit (unat b div 16)) (hex_digit (unat b mod 16)) = Some b"
proof -
  have "unat b < 256" using unsigned_less [of b] by simp
  then have "unat b div 16 < 16" "unat b mod 16 < 16" by auto
  moreover have "16 * (unat b div 16) + unat b mod 16 = unat b" by simp
  ultimately show ?thesis
    by (simp add: u8_from_str_radix16_def hex_digit_value_hex_digit hex_digit_not_plus
        del: of_nat_add of_nat_mult)
qed

text \<open>
  The hexadecimal form of an identifier is read back to the same identifier, for every
  encoder with the documented lower-case output.
\<close>

theorem decision_id_hex_roundtrip:
  assumes "\<And>bs. encode bs = lower_hex bs"
  shows "from_hex (to_hex encode d) = Inr d"
  by (cases d) (simp add: assms to_hex_def lower_hex_def from_hex_def u8_from_lower_hex from_bytes_ok)

theorem decision_id_hex_roundtrip_witness:
  "from_hex (to_hex lower_hex (DecisionId 0x85 0x01 0xF3)) = Inr (DecisionId 0x85 0x01 0xF3)"
  by (rule decision_id_hex_roundtrip) (rule refl)

section \<open>Properties of state histories\<close>

lemma find_rev_last:
  "find P (rev xs) = (if filter P xs = [] then None else Some (last (filter P xs)))"
  by (induction xs rule: rev_induct) auto

text \<open>
  \<open>state_at_height\<close> is the current state after a rollback to that height, for every
  history, including the empty one and heights before the claim (both give \<open>Created\<close>).
\<close>

theorem state_at_height_rollback:
  "state_at_height hist h = current_state (rollback_to_height hist h)"
  by (simp add: state_at_height_def current_state_def rollback_to_height_def find_rev_last)

text \<open>
  The histories that arise along a chain: a claim creates one, blocks are connected at
  non-decreasing heights, and disconnecting blocks rolls the history back.
\<close>

inductive reachable_history :: "nat \<Rightarrow> decision_state_history \<Rightarrow> bool" where
  claim: "reachable_history tip (new_claimed tip)"
| advance: "reachable_history tip hist \<Longrightarrow> tip \<le> tip' \<Longrightarrow> reachable_history tip' hist"
| voting: "reachable_history tip hist \<Longrightarrow> transition_to_voting hist tip = Inr hist'
    \<Longrightarrow> reachable_history tip hist'"
| resolved: "reachable_history tip hist \<Longrightarrow> transition_to_resolved hist v tip = Inr hist'
    \<Longrightarrow> reachable_history tip hist'"
| rollback: "reachable_history tip hist \<Longrightarrow> tip' \<le> tip
    \<Longrightarrow> reachable_history tip' (rollback_to_height hist tip')"

definition life_cycle :: "(decision_state \<times> nat \<times> f64 option) list \<Rightarrow> bool" where
  "life_cycle es \<longleftrightarrow>
     (\<exists>n. map fst es = take n [Claimed, Voting, Resolved])
     \<and> sorted (map (\<lambda>e. fst (snd e)) es)
     \<and> (\<forall>e \<in> set es. fst e = Resolved \<longleftrightarrow> snd (snd e) \<noteq> None)"

lemma can_transition_cases:
  "can_transition_to a Voting \<longleftrightarrow> a = Claimed"
  "can_transition_to a Resolved \<longleftrightarrow> a = Voting"
  by (cases a; simp)+

lemma take_life_last:
  assumes "map fst es = take n [Claimed, Voting, Resolved]"
  shows "es \<noteq> [] \<and> fst (last es) = Claimed \<Longrightarrow> map fst es = [Claimed]"
    and "es \<noteq> [] \<and> fst (last es) = Voting \<Longrightarrow> map fst es = [Claimed, Voting]"
proof -
  have "map fst es = [] \<or> map fst es = [Claimed] \<or> map fst es = [Claimed, Voting]
      \<or> map fst es = [Claimed, Voting, Resolved]"
    using assms by (cases n rule: nat.exhaust; cases "n - 1"; cases "n - 2") auto
  then show "es \<noteq> [] \<and> fst (last es) = Claimed \<Longrightarrow> map fst es = [Claimed]"
    and "es \<noteq> [] \<and> fst (last es) = Voting \<Longrightarrow> map fst es = [Claimed, Voting]"
    by (auto simp flip: last_map)
qed

lemma life_cycle_snoc:
  assumes "life_cycle es" and "\<forall>e \<in> set es. fst (snd e) \<le> h"
    and "(es \<noteq> [] \<and> fst (last es) = Claimed \<and> st = Voting \<and> v = None)
       \<or> (es \<noteq> [] \<and> fst (last es) = Voting \<and> st = Resolved \<and> v \<noteq> None)"
  shows "life_cycle (es @ [(st, h, v)])"
proof -
  obtain n where n: "map fst es = take n [Claimed, Voting, Resolved]"
    using assms(1) by (auto simp: life_cycle_def)
  have "map fst (es @ [(st, h, v)]) = take 2 [Claimed, Voting, Resolved]
      \<or> map fst (es @ [(st, h, v)]) = take 3 [Claimed, Voting, Resolved]"
    using assms(3) take_life_last [OF n] by auto
  then have "\<exists>n. map fst (es @ [(st, h, v)]) = take n [Claimed, Voting, Resolved]"
    by blast
  with assms show ?thesis
    by (auto simp: life_cycle_def sorted_append)
qed

lemma sorted_filter_takeWhile:
  "sorted (map f es) \<Longrightarrow> filter (\<lambda>e. f e \<le> h) es = takeWhile (\<lambda>e. f e \<le> h) es"
  for f :: "'a \<Rightarrow> nat"
proof (induction es)
  case (Cons e es)
  then show ?case by (cases es) (auto simp: filter_empty_conv)
qed simp

lemma life_cycle_filter:
  assumes "life_cycle es" shows "life_cycle (filter (\<lambda>e. fst (snd e) \<le> h) es)"
proof -
  let ?P = "\<lambda>e. fst (snd e) \<le> h"
  obtain n where n: "map fst es = take n [Claimed, Voting, Resolved]"
    and s: "sorted (map (\<lambda>e. fst (snd e)) es)"
    using assms by (auto simp: life_cycle_def)
  have tw: "filter ?P es = takeWhile ?P es" using s by (rule sorted_filter_takeWhile)
  have "map fst (filter ?P es) = take (length (takeWhile ?P es)) (map fst es)"
    unfolding tw take_map by (simp flip: takeWhile_eq_take)
  also have "\<dots> = take (min (length (takeWhile ?P es)) n) [Claimed, Voting, Resolved]"
    unfolding n by simp
  finally show ?thesis
    using assms s by (auto simp: life_cycle_def sorted_filter)
qed

lemma reachable_history_ok:
  "reachable_history tip hist \<Longrightarrow>
     life_cycle (state_history hist) \<and> (\<forall>e \<in> set (state_history hist). fst (snd e) \<le> tip)"
proof (induction rule: reachable_history.induct)
  case (claim tip)
  have "\<exists>n. [Claimed] = take n [Claimed, Voting, Resolved]" by (rule exI [of _ 1]) simp
  then show ?case by (simp add: life_cycle_def new_claimed_def)
next
  case (advance tip hist tip')
  then show ?case by fastforce
next
  case (voting tip hist hist')
  then show ?case
    by (auto simp: transition_to_voting_def can_transition_cases current_state_def
        intro!: life_cycle_snoc split: if_splits)
next
  case (resolved tip hist v hist')
  then show ?case
    by (auto simp: transition_to_resolved_def can_transition_cases current_state_def
        intro!: life_cycle_snoc split: if_splits)
next
  case (rollback tip hist tip')
  then show ?case by (auto simp: rollback_to_height_def intro: life_cycle_filter)
qed

lemma life_cycle_consensus:
  assumes "life_cycle es"
  shows "es \<noteq> [] \<and> fst (last es) = Resolved \<longleftrightarrow>
    Option.bind (find (\<lambda>e. fst e = Resolved) es) (\<lambda>e. snd (snd e)) \<noteq> None"
proof -
  obtain n where n: "map fst es = take n [Claimed, Voting, Resolved]"
    using assms by (auto simp: life_cycle_def)
  have "map fst es = [] \<or> map fst es = [Claimed] \<or> map fst es = [Claimed, Voting]
      \<or> map fst es = [Claimed, Voting, Resolved]"
    using n by (cases n rule: nat.exhaust; cases "n - 1"; cases "n - 2") auto
  then show ?thesis
    using assms by (auto simp: life_cycle_def map_eq_Cons_conv)
qed

text \<open>
  C30. Along every chain a decision goes through \<open>Claimed\<close>, \<open>Voting\<close> and \<open>Resolved\<close> in that
  order, one entry each, at non-decreasing heights not above the tip; and it has a consensus
  outcome exactly when its current state is \<open>Resolved\<close>.
\<close>

theorem reachable_history_life_cycle:
  assumes "reachable_history tip hist"
  shows "(\<exists>n. map fst (state_history hist) = take n [Claimed, Voting, Resolved])
    \<and> sorted (map (\<lambda>e. fst (snd e)) (state_history hist))
    \<and> (\<forall>e \<in> set (state_history hist). fst (snd e) \<le> tip)
    \<and> (history_has_consensus hist \<longleftrightarrow> consensus_outcome hist \<noteq> None)"
proof -
  have l: "life_cycle (state_history hist)"
    and "\<forall>e \<in> set (state_history hist). fst (snd e) \<le> tip"
    using reachable_history_ok [OF assms] by auto
  moreover have "state_has_consensus a \<longleftrightarrow> a = Resolved" for a by (cases a) auto
  then have "history_has_consensus hist \<longleftrightarrow> consensus_outcome hist \<noteq> None"
    using life_cycle_consensus [OF l]
    by (auto simp: history_has_consensus_def consensus_outcome_def current_state_def)
  ultimately show ?thesis by (simp add: life_cycle_def)
qed

lemma voting_history_reachable:
  "reachable_history 5 \<lparr> state_history = [(Claimed, 3, None), (Voting, 5, None)] \<rparr>"
proof (rule reachable_history.voting)
  show "reachable_history 5 (new_claimed 3)"
    by (rule reachable_history.advance [OF reachable_history.claim]) simp
  show "transition_to_voting (new_claimed 3) 5
      = Inr \<lparr> state_history = [(Claimed, 3, None), (Voting, 5, None)] \<rparr>"
    by (simp add: transition_to_voting_def new_claimed_def current_state_def)
qed

theorem reachable_history_life_cycle_witness:
  "\<not> history_has_consensus \<lparr> state_history = [(Claimed, 3, None), (Voting, 5, None)] \<rparr>
   \<and> consensus_outcome \<lparr> state_history = [(Claimed, 3, None), (Voting, 5, None)] \<rparr> = None"
  using reachable_history_life_cycle [OF voting_history_reachable]
  by (simp add: consensus_outcome_def)

text \<open>
  Disconnecting a block undoes the transitions it made: rolling back to the previous tip
  restores the history that was there before a transition at a later height.
\<close>

theorem rollback_undoes_transition:
  assumes "reachable_history tip hist" and "tip < h"
    and "transition_to_voting hist h = Inr hist' \<or> transition_to_resolved hist v h = Inr hist'"
  shows "rollback_to_height hist' tip = hist"
proof -
  have "filter (\<lambda>e. fst (snd e) \<le> tip) (state_history hist) = state_history hist"
    using reachable_history_ok [OF assms(1)] by (simp add: filter_id_conv)
  with assms(2,3) show ?thesis
    by (auto simp: rollback_to_height_def transition_to_voting_def transition_to_resolved_def
        split: if_splits)
qed

theorem rollback_undoes_transition_witness:
  "rollback_to_height \<lparr> state_history = [(Claimed, 3, None), (Voting, 5, None)] \<rparr> 3
   = new_claimed 3"
  by (rule rollback_undoes_transition [OF reachable_history.claim, of 3 5])
    (simp_all add: transition_to_voting_def new_claimed_def current_state_def)

end
