(* ===== verification/Periods.thy ===== *)
theory Periods
  imports DecisionTypes
begin

text \<open>
  Voting periods as functions of the clock (\<open>lib/state/voting/period_calculator.rs\<close> and the
  period types of \<open>lib/state/voting/types.rs\<close>): the current period, the boundaries of a
  period, the status of a period and the check of a status change. Heights and period
  numbers are 32-bit, timestamps 64-bit; the plain operators wrap, and the division by a zero
  \<open>quantity\<close> in time mode is a panic.
\<close>

section \<open>The clock\<close>

definition get_current_period ::
    "nat \<Rightarrow> nat option \<Rightarrow> nat \<Rightarrow> decision_config \<Rightarrow> (error, nat) result" where
  "get_current_period timestamp block_height genesis_ts config =
     (if is_blocks config then
        (let height = unwrap_or 0 block_height
         in Inr (unwrap_or 0 (map_option (\<lambda>v. wrapping_add 32 v 1)
                   (checked_div height (quantity config)))))
      else if genesis_ts = 0 \<or> timestamp < genesis_ts then Inr 0
      else if quantity config = 0 then Inl (Panic ''attempt to divide by zero'')
      else Inr (wrapping_add 32 (as_u 32 ((timestamp - genesis_ts) div quantity config)) 1))"

definition calculate_period_boundaries :: "nat \<Rightarrow> decision_config \<Rightarrow> nat \<Rightarrow> nat \<times> nat" where
  "calculate_period_boundaries period config genesis_ts =
     (if is_blocks config then
        (if period = 0 then (0, 0)
         else (wrapping_mul 32 (period - 1) (quantity config),
               wrapping_mul 32 period (quantity config)))
      else
        (if period = 0 then (0, 0)
         else let start = wrapping_add 64 genesis_ts
                            (wrapping_mul 64 (period - 1) (quantity config))
              in (start, wrapping_add 64 start (quantity config))))"

section \<open>Periods and their status\<close>

datatype voting_period_status = PeriodPending | PeriodActive | PeriodClosed | PeriodResolved

record voting_period_struct =
  vp_id :: nat
  start_timestamp :: nat
  end_timestamp :: nat
  vp_status :: voting_period_status
  vp_decision_ids :: "decision_id list"

definition voting_period_new :: "nat \<Rightarrow> nat \<Rightarrow> nat \<Rightarrow> decision_id list \<Rightarrow> voting_period_struct" where
  "voting_period_new i s e ids =
     \<lparr> vp_id = i, start_timestamp = s, end_timestamp = e, vp_status = PeriodPending,
       vp_decision_ids = ids \<rparr>"

definition is_active :: "voting_period_struct \<Rightarrow> nat \<Rightarrow> bool" where
  "is_active p t \<longleftrightarrow> vp_status p = PeriodActive \<and> start_timestamp p \<le> t \<and> t < end_timestamp p"

definition has_ended :: "voting_period_struct \<Rightarrow> nat \<Rightarrow> bool" where
  "has_ended p t \<longleftrightarrow> end_timestamp p \<le> t"

definition duration_seconds :: "voting_period_struct \<Rightarrow> nat" where
  "duration_seconds p = saturating_sub (end_timestamp p) (start_timestamp p)"

definition calculate_period_status :: "nat \<Rightarrow> nat \<Rightarrow> nat \<Rightarrow> bool \<Rightarrow> voting_period_status" where
  "calculate_period_status s e now has_outcomes =
     (if has_outcomes then PeriodResolved
      else if e \<le> now then PeriodClosed
      else if s \<le> now then PeriodActive
      else PeriodPending)"

definition validate_pending_to_active :: "voting_period_struct \<Rightarrow> nat \<Rightarrow> (error, unit) result" where
  "validate_pending_to_active p now =
     (if now < start_timestamp p
      then Inl (InvalidTransaction ''Cannot activate period before start time'')
      else Inr ())"

definition validate_active_to_closed :: "voting_period_struct \<Rightarrow> nat \<Rightarrow> (error, unit) result" where
  "validate_active_to_closed p now =
     (if now < end_timestamp p
      then Inl (InvalidTransaction ''Cannot close period before end time'')
      else Inr ())"

definition validate_closed_to_resolved :: "(error, unit) result" where
  "validate_closed_to_resolved = Inr ()"

definition validate_transition ::
    "voting_period_struct \<Rightarrow> voting_period_status \<Rightarrow> nat \<Rightarrow> (error, unit) result" where
  "validate_transition p new now =
     (case (vp_status p, new) of
        (PeriodPending, PeriodActive) \<Rightarrow> validate_pending_to_active p now
      | (PeriodActive, PeriodClosed) \<Rightarrow> validate_active_to_closed p now
      | (PeriodClosed, PeriodResolved) \<Rightarrow> validate_closed_to_resolved
      | (old, n) \<Rightarrow>
          (if old = n then Inr ()
           else Inl (InvalidTransaction ''Invalid voting period state transition'')))"

definition period_can_accept_votes :: "voting_period_struct \<Rightarrow> bool" where
  "period_can_accept_votes p = (vp_status p = PeriodActive)"

section \<open>Properties\<close>

text \<open>The clock that a configuration reads: the height or the timestamp.\<close>

definition clock :: "decision_config \<Rightarrow> nat \<Rightarrow> nat \<Rightarrow> nat" where
  "clock config timestamp height = (if is_blocks config then height else timestamp)"

definition clock_start :: "decision_config \<Rightarrow> nat \<Rightarrow> nat" where
  "clock_start config genesis_ts = (if is_blocks config then 0 else genesis_ts)"

text \<open>The clock readings for which no operation of the calculation leaves its width.\<close>

definition clock_ok :: "decision_config \<Rightarrow> nat \<Rightarrow> nat \<Rightarrow> nat \<Rightarrow> bool" where
  "clock_ok config timestamp height genesis_ts \<longleftrightarrow>
     0 < quantity config \<and>
     (if is_blocks config then height + quantity config < 2 ^ 32
      else 0 < genesis_ts \<and> genesis_ts \<le> timestamp \<and> timestamp + quantity config < 2 ^ 64
        \<and> (timestamp - genesis_ts) div quantity config + 1 < 2 ^ 32)"

lemma get_current_period_exact:
  assumes "clock_ok config ts h g"
  shows "get_current_period ts (Some h) g config
    = Inr ((clock config ts h - clock_start config g) div quantity config + 1)"
proof -
  have "h div quantity config + 1 < 2 ^ 32" if "is_blocks config"
    using assms that div_le_dividend [of h "quantity config"]
    by (auto simp: clock_ok_def simp del: div_le_dividend)
  with assms show ?thesis
    by (auto simp: get_current_period_def clock_ok_def clock_def clock_start_def checked_div_def
        Let_def split: if_splits)
qed

lemma boundaries_exact:
  assumes "0 < p" and "clock_start config g + p * quantity config < 2 ^ (if is_blocks config then 32 else 64)"
  shows "calculate_period_boundaries p config g
    = (clock_start config g + (p - 1) * quantity config, clock_start config g + p * quantity config)"
proof -
  obtain n where n: "p = Suc n" using assms(1) by (cases p) auto
  then show ?thesis using assms(2)
    by (auto simp: calculate_period_boundaries_def clock_start_def Let_def ac_simps)
qed

lemma clock_period_bounds:
  assumes ok: "clock_ok config ts h g"
  defines "p \<equiv> (clock config ts h - clock_start config g) div quantity config + 1"
  shows "clock_start config g + (p - 1) * quantity config \<le> clock config ts h"
    and "clock config ts h < clock_start config g + p * quantity config"
    and "clock_start config g + p * quantity config < 2 ^ (if is_blocks config then 32 else 64)"
proof -
  let ?x = "clock config ts h - clock_start config g" and ?q = "quantity config"
  have q: "0 < ?q" and c: "clock_start config g \<le> clock config ts h"
    and m: "clock config ts h + ?q < 2 ^ (if is_blocks config then 32 else 64)"
    using ok by (auto simp: clock_ok_def clock_def clock_start_def)
  have "?x div ?q * ?q \<le> ?x" "?x < ?x div ?q * ?q + ?q"
    using q dividend_less_div_times [OF q, of ?x] by simp_all
  moreover have "p * ?q = ?x div ?q * ?q + ?q" "(p - 1) * ?q = ?x div ?q * ?q"
    by (simp_all add: p_def)
  ultimately show "clock_start config g + (p - 1) * ?q \<le> clock config ts h"
    "clock config ts h < clock_start config g + p * ?q"
    "clock_start config g + p * ?q < 2 ^ (if is_blocks config then 32 else 64)"
    using c m by linarith+
qed

text \<open>
  The current period and the period boundaries agree, in blocks mode and in time mode: the
  current period has a number of at least one, its boundaries enclose the clock, and a period
  without outcomes that is computed from them is active.
\<close>

theorem current_period_in_boundaries:
  assumes "clock_ok config ts h g"
  shows "\<exists>p s e. get_current_period ts (Some h) g config = Inr p \<and> 0 < p
    \<and> calculate_period_boundaries p config g = (s, e)
    \<and> s \<le> clock config ts h \<and> clock config ts h < e
    \<and> calculate_period_status s e (clock config ts h) False = PeriodActive"
proof -
  let ?p = "(clock config ts h - clock_start config g) div quantity config + 1"
  note b = clock_period_bounds [OF assms]
  have "calculate_period_boundaries ?p config g
      = (clock_start config g + (?p - 1) * quantity config,
         clock_start config g + ?p * quantity config)"
    by (rule boundaries_exact [OF _ b(3)]) simp
  with b(1,2) get_current_period_exact [OF assms] show ?thesis
    by (simp add: calculate_period_status_def)
qed

theorem current_period_in_boundaries_witness:
  "\<exists>p s e. get_current_period 1000 (Some 25) 400 (testing 10) = Inr p \<and> 0 < p
    \<and> calculate_period_boundaries p (testing 10) 400 = (s, e)
    \<and> s \<le> clock (testing 10) 1000 25 \<and> clock (testing 10) 1000 25 < e
    \<and> calculate_period_status s e (clock (testing 10) 1000 25) False = PeriodActive"
  by (rule current_period_in_boundaries) (simp add: clock_ok_def testing_def)

text \<open>
  Periods tile the clock: time never moves to an earlier period, the period stays the
  current one exactly as long as the clock is below its end, and the next period starts where
  the previous one ends.
\<close>

theorem current_period_monotone:
  assumes "clock_ok config ts h g" and "clock_ok config ts' h' g"
    and "clock config ts h \<le> clock config ts' h'"
    and "get_current_period ts (Some h) g config = Inr p"
    and "get_current_period ts' (Some h') g config = Inr p'"
  shows "p \<le> p'
    \<and> (p' = p \<longleftrightarrow> clock config ts' h' < snd (calculate_period_boundaries p config g))
    \<and> (p' = p + 1 \<longrightarrow> snd (calculate_period_boundaries p config g)
         = fst (calculate_period_boundaries p' config g))"
proof -
  let ?q = "quantity config" and ?s = "clock_start config g"
  let ?x = "clock config ts h - ?s" and ?x' = "clock config ts' h' - ?s"
  have p: "p = ?x div ?q + 1" and p': "p' = ?x' div ?q + 1"
    using assms(4,5) get_current_period_exact [OF assms(1)] get_current_period_exact [OF assms(2)]
    by auto
  have le: "p \<le> p'" using assms(3) unfolding p p' by (simp add: div_le_mono diff_le_mono)
  note b = clock_period_bounds [OF assms(1), folded p]
  note b' = clock_period_bounds [OF assms(2), folded p']
  have bd: "calculate_period_boundaries p config g = (?s + (p - 1) * ?q, ?s + p * ?q)"
    "calculate_period_boundaries p' config g = (?s + (p' - 1) * ?q, ?s + p' * ?q)"
    by (rule boundaries_exact [OF _ b(3)], simp add: p)
      (rule boundaries_exact [OF _ b'(3)], simp add: p')
  have "p' = p" if "clock config ts' h' < ?s + p * ?q"
  proof -
    have "(p' - 1) * ?q < p * ?q" using b'(1) that by linarith
    then show ?thesis using le by (auto simp: mult_less_cancel2)
  qed
  with le b'(2) bd show ?thesis by auto
qed

theorem current_period_monotone_witness:
  "(2::nat) \<le> 3 \<and>
   snd (calculate_period_boundaries 2 (testing 10) 400)
     = fst (calculate_period_boundaries 3 (testing 10) 400)"
  using current_period_monotone [of "testing 10" 1000 15 400 1100 25 2 3]
  by (simp add: clock_ok_def clock_def testing_def get_current_period_def checked_div_def Let_def)

fun status_rank :: "voting_period_status \<Rightarrow> nat" where
  "status_rank PeriodPending = 0"
| "status_rank PeriodActive = 1"
| "status_rank PeriodClosed = 2"
| "status_rank PeriodResolved = 3"

text \<open>
  The computed status of a period only moves forward with the clock, and
  \<open>validate_transition\<close> accepts such a move exactly when it skips no status.
\<close>

theorem status_transition_forward:
  assumes "start_timestamp p \<le> end_timestamp p" and "t \<le> t'" and "outcomes \<longrightarrow> outcomes'"
    and "vp_status p = calculate_period_status (start_timestamp p) (end_timestamp p) t outcomes"
    and "new = calculate_period_status (start_timestamp p) (end_timestamp p) t' outcomes'"
  shows "status_rank (vp_status p) \<le> status_rank new
    \<and> (validate_transition p new t' = Inr () \<longleftrightarrow> status_rank new \<le> Suc (status_rank (vp_status p)))"
  using assms
  by (auto simp: calculate_period_status_def validate_transition_def validate_pending_to_active_def
      validate_active_to_closed_def validate_closed_to_resolved_def split: if_splits)

theorem status_transition_forward_witness:
  "validate_transition (voting_period_new 3 20 30 [] \<lparr> vp_status := PeriodActive \<rparr>) PeriodClosed 30
     = Inr ()
   \<and> validate_transition (voting_period_new 3 20 30 []) PeriodClosed 30 \<noteq> Inr ()"
  using status_transition_forward [of "voting_period_new 3 20 30 [] \<lparr> vp_status := PeriodActive \<rparr>"
      25 30 False False PeriodClosed]
    status_transition_forward [of "voting_period_new 3 20 30 []" 15 30 False False PeriodClosed]
  by (simp add: voting_period_new_def calculate_period_status_def)

end
