(* ===== verification/Pricing.thy ===== *)
theory Pricing
  imports Periods
begin

text \<open>
  The pricing record of a period (\<open>lib/state/decisions/pricing.rs\<close>): its price, its floor, the
  number of mints, the claims, and the window since the last repricing.
\<close>

record period_pricing =
  p_period :: nat
  p_floor :: nat
  mints :: nat
  claimed :: nat
  last_reprice_block :: nat
  window_open_claimed :: nat
  window_open_mints :: nat

definition new_seeded :: "nat \<Rightarrow> nat \<Rightarrow> period_pricing" where
  "new_seeded p_seed block_height =
     \<lparr> p_period = p_seed, p_floor = p_seed div 16, mints = 1, claimed = 0,
       last_reprice_block = block_height, window_open_claimed = 0, window_open_mints = 1 \<rparr>"

definition period_capacity :: "period_pricing \<Rightarrow> nat" where
  "period_capacity p =
     wrapping_mul 64 (wrapping_mul 64 (mints p) SLOTS_PER_TIER_PER_MINT) TIER_COUNT"

definition reprice_interval :: "decision_config \<Rightarrow> nat" where
  "reprice_interval cfg = reprice_interval_blocks (blocks_per_period (is_blocks cfg) (quantity cfg))"

definition apply_reprice_with_floor :: "nat \<Rightarrow> period_pricing \<Rightarrow> period_pricing" where
  "apply_reprice_with_floor block_height p =
     (if last_reprice_block p = block_height then p
      else let sales = saturating_sub (claimed p) (window_open_claimed p);
               available_at_open =
                 saturating_sub
                   (saturating_mul 64 (window_open_mints p) (SLOTS_PER_TIER_PER_MINT * TIER_COUNT))
                   (window_open_claimed p);
               new_p = max (reprice (p_period p) sales available_at_open) (p_floor p)
           in p \<lparr> p_period := new_p, last_reprice_block := block_height,
                  window_open_claimed := claimed p, window_open_mints := mints p \<rparr>)"

section \<open>Properties\<close>

text \<open>The pricing records that minting, claiming and repricing produce.\<close>

definition pricing_ok :: "period_pricing \<Rightarrow> bool" where
  "pricing_ok p \<longleftrightarrow> p_floor p \<le> p_period p \<and> window_open_claimed p \<le> claimed p"

lemma apply_reprice_fields [simp]:
  "mints (apply_reprice_with_floor h p) = mints p"
  "claimed (apply_reprice_with_floor h p) = claimed p"
  "p_floor (apply_reprice_with_floor h p) = p_floor p"
  "last_reprice_block (apply_reprice_with_floor h p) = h"
  by (simp_all add: apply_reprice_with_floor_def Let_def)

lemma apply_reprice_pricing_ok [intro]:
  "pricing_ok p \<Longrightarrow> pricing_ok (apply_reprice_with_floor h p)"
  by (simp add: pricing_ok_def apply_reprice_with_floor_def Let_def)

lemma new_seeded_pricing_ok [simp]: "pricing_ok (new_seeded s h)"
  by (simp add: pricing_ok_def new_seeded_def)

lemma new_seeded_mints [simp]: "mints (new_seeded s h) = 1"
  by (simp add: new_seeded_def)

lemma apply_reprice_price:
  assumes "last_reprice_block p \<noteq> h" and "window_open_mints p \<le> 20"
  shows "p_period (apply_reprice_with_floor h p) =
    max (reprice (p_period p) (claimed p - window_open_claimed p)
          (25 * window_open_mints p - window_open_claimed p)) (p_floor p)"
  using assms
  by (simp add: apply_reprice_with_floor_def Let_def saturating_sub_def saturating_mul_def
      decision_consts mult.commute)

text \<open>
  One repricing of a period whose claims fit the slots open in its window keeps the price
  at or above its floor, moves it by at most a factor of two, closes the window, and a second
  call at the same height changes nothing.
\<close>

theorem apply_reprice_step:
  assumes "last_reprice_block p \<noteq> h" and "p_floor p \<le> p_period p" and "p_period p < 2 ^ 63"
    and "window_open_claimed p \<le> claimed p" and "claimed p \<le> 25 * window_open_mints p"
    and "window_open_mints p \<le> 20"
  defines "q \<equiv> apply_reprice_with_floor h p"
  shows "p_floor q \<le> p_period q \<and> p_period p div 2 \<le> p_period q \<and> p_period q \<le> 2 * p_period p
    \<and> window_open_claimed q = claimed q \<and> window_open_mints q = mints p
    \<and> apply_reprice_with_floor h q = q"
proof -
  let ?s = "claimed p - window_open_claimed p"
  let ?a = "25 * window_open_mints p - window_open_claimed p"
  have "p_period p div 2 \<le> reprice (p_period p) ?s ?a \<and> reprice (p_period p) ?s ?a \<le> 2 * p_period p"
  proof (cases "?a = 0")
    case True
    then show ?thesis by (simp add: reprice_def)
  next
    case False
    then show ?thesis
      using reprice_bounded [of "p_period p" ?s ?a] assms by simp
  qed
  then have "p_floor q \<le> p_period q \<and> p_period p div 2 \<le> p_period q \<and> p_period q \<le> 2 * p_period p"
    unfolding q_def using assms(2) apply_reprice_price [OF assms(1,6)]
    by (auto simp: le_max_iff_disj)
  moreover have "window_open_claimed q = claimed q" "window_open_mints q = mints p"
    using assms(1) by (simp_all add: q_def apply_reprice_with_floor_def Let_def)
  moreover have "apply_reprice_with_floor h q = q"
    by (simp add: q_def apply_reprice_with_floor_def Let_def)
  ultimately show ?thesis by blast
qed

theorem apply_reprice_step_witness:
  "let q = apply_reprice_with_floor 24 (new_seeded 10000 0 \<lparr> claimed := 25 \<rparr>)
   in 10000 div 2 \<le> p_period q \<and> p_period q \<le> 2 * 10000 \<and> window_open_claimed q = 25"
  using apply_reprice_step [of "new_seeded 10000 0 \<lparr> claimed := 25 \<rparr>" 24]
  by (simp add: new_seeded_def Let_def)

end
