(* ===== verification/DecisionDb.thy ===== *)
theory DecisionDb
  imports Pricing
begin

text \<open>
  The decision databases of the node (\<open>lib/state/decisions/database.rs\<close>): the claimed
  decisions of each period, the state history of each decision, the pricing record of each
  period and the undo log of the pricing table. One definition per method of \<open>Dbs\<close>; a method
  that writes returns the updated record. Iteration is in ascending key order; the results
  that depend on it only contain periods below 128, where that is also the byte order of the
  stored keys.
\<close>

section \<open>State\<close>

record decisions_dbs =
  period_decisions :: "(nat, decision_entry oset) db"
  decision_state_histories :: "(decision_id, decision_state_history) db"
  period_pricing_db :: "(nat, period_pricing) db"
  period_pricing_undo :: "(nat, (nat \<times> period_pricing option) list) db"
  config :: decision_config

definition DECISIONS_DECLINING_RATE :: nat where "DECISIONS_DECLINING_RATE = 25"

definition new_with_config :: "decision_config \<Rightarrow> decisions_dbs" where
  "new_with_config cfg =
     \<lparr> period_decisions = db_empty, decision_state_histories = db_empty,
       period_pricing_db = db_empty, period_pricing_undo = db_empty, config = cfg \<rparr>"

section \<open>Periods\<close>

definition db_current_period ::
    "decisions_dbs \<Rightarrow> nat \<Rightarrow> nat option \<Rightarrow> nat \<Rightarrow> (error, nat) result" where
  "db_current_period dbs ts_secs block_height genesis_ts =
     get_current_period ts_secs block_height genesis_ts (config dbs)"

text \<open>The expression \<open>current + FUTURE_PERIODS - 1\<close>.\<close>

definition window_end :: "nat \<Rightarrow> nat" where
  "window_end current = wrapping_sub 32 (wrapping_add 32 current FUTURE_PERIODS) 1"

definition get_active_window ::
    "decisions_dbs \<Rightarrow> nat \<Rightarrow> nat option \<Rightarrow> nat \<Rightarrow> (error, nat \<times> nat) result" where
  "get_active_window dbs ts_secs block_height genesis_ts =
     rbind (db_current_period dbs ts_secs block_height genesis_ts) (\<lambda>current.
     Inr (current, window_end current))"

definition calculate_available_decisions :: "nat \<Rightarrow> nat \<Rightarrow> nat" where
  "calculate_available_decisions period current_period =
     (if period < current_period then 0
      else if FUTURE_PERIODS \<le> saturating_sub period current_period then 0
      else saturating_sub INITIAL_DECISIONS_PER_PERIOD
             (wrapping_mul 64 (saturating_sub period current_period) DECISIONS_DECLINING_RATE))"

definition total_for ::
    "decisions_dbs \<Rightarrow> nat \<Rightarrow> nat \<Rightarrow> nat option \<Rightarrow> nat \<Rightarrow> (error, nat) result" where
  "total_for dbs period current_ts current_height genesis_ts =
     rbind (db_current_period dbs current_ts current_height genesis_ts) (\<lambda>current_period.
     Inr (calculate_available_decisions period current_period))"

definition get_available_decisions ::
    "decisions_dbs \<Rightarrow> nat \<Rightarrow> nat \<Rightarrow> nat option \<Rightarrow> nat \<Rightarrow> (error, nat) result" where
  "get_available_decisions dbs period current_ts current_height genesis_ts =
     rbind (db_current_period dbs current_ts current_height genesis_ts) (\<lambda>current_period.
     Inr (calculate_available_decisions period current_period))"

definition get_active_periods ::
    "decisions_dbs \<Rightarrow> nat \<Rightarrow> nat option \<Rightarrow> nat \<Rightarrow> (error, (nat \<times> nat) list) result" where
  "get_active_periods dbs current_ts current_height genesis_ts =
     rbind (db_current_period dbs current_ts current_height genesis_ts) (\<lambda>current_period.
     Inr (filter (\<lambda>e. 0 < snd e)
            (map (\<lambda>period. (period, calculate_available_decisions period current_period))
               (range_incl current_period (window_end current_period)))))"

definition block_height_to_testing_period :: "decisions_dbs \<Rightarrow> nat \<Rightarrow> nat" where
  "block_height_to_testing_period dbs block_height =
     (case get_current_period 0 (Some block_height) 0 (config dbs) of Inl _ \<Rightarrow> 0 | Inr p \<Rightarrow> p)"

definition is_period_settled ::
    "decisions_dbs \<Rightarrow> nat \<Rightarrow> nat \<Rightarrow> nat option \<Rightarrow> nat \<Rightarrow> (error, bool) result" where
  "is_period_settled dbs decision_period current_ts current_height genesis_ts =
     rbind (db_current_period dbs current_ts current_height genesis_ts) (\<lambda>current_period.
     Inr (saturating_add 32 decision_period 7 < current_period))"

definition is_decision_settled ::
    "decisions_dbs \<Rightarrow> decision_id \<Rightarrow> nat \<Rightarrow> nat option \<Rightarrow> nat \<Rightarrow> (error, bool) result" where
  "is_decision_settled dbs d current_ts current_height genesis_ts =
     is_period_settled dbs (period_index d) current_ts current_height genesis_ts"

section \<open>Minting and pricing\<close>

definition get_highest_minted_period :: "decisions_dbs \<Rightarrow> nat option" where
  "get_highest_minted_period dbs =
     foldl (\<lambda>highest period.
         Some (case highest of Some h \<Rightarrow> max h period | None \<Rightarrow> period))
       None (db_keys (period_decisions dbs))"

definition mint_periods_up_to :: "nat \<Rightarrow> decisions_dbs \<Rightarrow> decisions_dbs" where
  "mint_periods_up_to target_period dbs =
     (let highest_existing = foldl (\<lambda>h p. if h < p then p else h) 0 (db_keys (period_decisions dbs))
      in dbs \<lparr> period_decisions :=
           db_put_all (map (\<lambda>period. (period, db_empty))
                         (range_incl (wrapping_add 32 highest_existing 1) target_period))
             (period_decisions dbs) \<rparr>)"

definition delete_periods_above :: "nat \<Rightarrow> decisions_dbs \<Rightarrow> decisions_dbs" where
  "delete_periods_above max_period dbs =
     dbs \<lparr> period_decisions :=
       db_delete_all (filter (\<lambda>p. max_period < p) (db_keys (period_decisions dbs)))
         (period_decisions dbs) \<rparr>"

definition put_pricing :: "nat \<Rightarrow> period_pricing \<Rightarrow> decisions_dbs \<Rightarrow> decisions_dbs" where
  "put_pricing period pricing dbs =
     dbs \<lparr> period_pricing_db := db_put (period_pricing_db dbs) period pricing \<rparr>"

definition get_period_pricing :: "decisions_dbs \<Rightarrow> nat \<Rightarrow> period_pricing option" where
  "get_period_pricing dbs period = db_get (period_pricing_db dbs) period"

definition genesis_pricing :: "nat \<Rightarrow> nat \<Rightarrow> period_pricing" where
  "genesis_pricing m block_height =
     \<lparr> p_period = GENESIS_P_PERIOD_SATS, p_floor = GENESIS_P_PERIOD_SATS div 16, mints = m,
       claimed = 0, last_reprice_block = block_height, window_open_claimed = 0,
       window_open_mints = m \<rparr>"

definition mint_genesis_period :: "nat \<Rightarrow> nat \<Rightarrow> nat \<Rightarrow> decisions_dbs \<Rightarrow> decisions_dbs" where
  "mint_genesis_period current_period block_height period dbs =
     (case get_period_pricing dbs period of
        Some _ \<Rightarrow> dbs
      | None \<Rightarrow> put_pricing period
          (genesis_pricing (saturating_sub FUTURE_PERIODS (period - current_period)) block_height) dbs)"

definition mint_genesis ::
    "nat \<Rightarrow> nat \<Rightarrow> nat \<Rightarrow> decisions_dbs \<Rightarrow> (error, decisions_dbs) result" where
  "mint_genesis ts_secs block_height genesis_ts dbs =
     rbind (db_current_period dbs ts_secs (Some block_height) genesis_ts) (\<lambda>current_period.
     Inr (fold (mint_genesis_period current_period block_height)
            (range_incl current_period (window_end current_period))
            (mint_periods_up_to (window_end current_period) dbs)))"

definition snapshot_period_pricing :: "nat \<Rightarrow> decisions_dbs \<Rightarrow> decisions_dbs" where
  "snapshot_period_pricing block_height dbs =
     dbs \<lparr> period_pricing_undo :=
       db_put (period_pricing_undo dbs) block_height
         (map (\<lambda>e. (fst e, Some (snd e))) (db_entries (period_pricing_db dbs))) \<rparr>"

fun restore_entries ::
    "(nat \<times> period_pricing option) list \<Rightarrow> (nat, period_pricing) db \<Rightarrow> (nat, period_pricing) db" where
  "restore_entries [] d = d"
| "restore_entries ((period, prior) # es) d =
     restore_entries es (case prior of Some pp \<Rightarrow> db_put d period pp | None \<Rightarrow> d)"

definition restore_period_pricing_undo :: "nat \<Rightarrow> decisions_dbs \<Rightarrow> decisions_dbs" where
  "restore_period_pricing_undo block_height dbs =
     (case db_get (period_pricing_undo dbs) block_height of
        None \<Rightarrow> dbs
      | Some snapshots \<Rightarrow>
          dbs \<lparr> period_pricing_db :=
                  restore_entries snapshots
                    (db_delete_all
                      (filter (\<lambda>k. k \<notin> fst ` set snapshots) (db_keys (period_pricing_db dbs)))
                      (period_pricing_db dbs)),
                period_pricing_undo := db_delete (period_pricing_undo dbs) block_height \<rparr>)"

definition compute_p_average :: "decisions_dbs \<Rightarrow> nat \<Rightarrow> nat" where
  "compute_p_average dbs current_period =
     (let prices = List.map_filter
            (\<lambda>offset. map_option p_period (get_period_pricing dbs (wrapping_add 32 current_period offset)))
            [1..<FUTURE_PERIODS]
      in case checked_div (sum_list prices) (length prices) of
           Some avg \<Rightarrow> as_u 64 avg
         | None \<Rightarrow> GENESIS_P_PERIOD_SATS)"

definition any_period_due_for_reprice :: "decisions_dbs \<Rightarrow> nat \<Rightarrow> nat \<Rightarrow> nat \<Rightarrow> bool" where
  "any_period_due_for_reprice dbs block_height interval current_period =
     list_ex (\<lambda>period. case get_period_pricing dbs period of
           Some p \<Rightarrow> interval \<le> saturating_sub block_height (last_reprice_block p)
         | None \<Rightarrow> False)
       (range_incl current_period (window_end current_period))"

definition seed_period :: "nat \<Rightarrow> nat \<Rightarrow> nat \<Rightarrow> decisions_dbs \<Rightarrow> decisions_dbs" where
  "seed_period new_current block_height new_period dbs =
     put_pricing new_period (new_seeded (compute_p_average dbs new_current) block_height) dbs"

definition survive_period :: "nat \<Rightarrow> nat \<Rightarrow> nat \<Rightarrow> decisions_dbs \<Rightarrow> decisions_dbs" where
  "survive_period transitions block_height period dbs =
     (case get_period_pricing dbs period of
        None \<Rightarrow> dbs
      | Some pricing \<Rightarrow>
          put_pricing period
            (apply_reprice_with_floor block_height
               (pricing \<lparr> mints := saturating_add 64 (mints pricing) transitions \<rparr>)) dbs)"

definition reprice_period :: "nat \<Rightarrow> nat \<Rightarrow> decisions_dbs \<Rightarrow> decisions_dbs" where
  "reprice_period block_height period dbs =
     (case get_period_pricing dbs period of
        None \<Rightarrow> dbs
      | Some pricing \<Rightarrow> put_pricing period (apply_reprice_with_floor block_height pricing) dbs)"

definition transition_pricing :: "nat \<Rightarrow> nat \<Rightarrow> nat \<Rightarrow> nat \<Rightarrow> decisions_dbs \<Rightarrow> decisions_dbs" where
  "transition_pricing new_current prev_current prev_highest block_height dbs =
     (let seeded = fold (seed_period new_current block_height)
            (range_incl (wrapping_add 32 prev_highest 1) (window_end new_current)) dbs;
          surviving_end = min prev_highest (window_end new_current)
      in if new_current \<le> surviving_end
         then fold (survive_period (new_current - prev_current) block_height)
                (range_incl new_current surviving_end) seeded
         else seeded)"

definition process_block_pricing ::
    "nat \<Rightarrow> nat \<Rightarrow> nat \<Rightarrow> decisions_dbs \<Rightarrow> (error, decisions_dbs) result" where
  "process_block_pricing block_height ts_secs genesis_ts dbs =
     rbind (db_current_period dbs ts_secs (Some block_height) genesis_ts) (\<lambda>new_current.
     let prev_highest = unwrap_or 0 (get_highest_minted_period dbs);
         prev_current = saturating_sub (wrapping_add 32 prev_highest 1) FUTURE_PERIODS;
         minted = mint_periods_up_to (window_end new_current) dbs
     in if prev_current < new_current
        then Inr (transition_pricing new_current prev_current prev_highest block_height minted)
        else if any_period_due_for_reprice minted block_height (reprice_interval (config dbs)) new_current
        then Inr (fold (reprice_period block_height)
                    (range_incl new_current (window_end new_current)) minted)
        else Inr minted)"

section \<open>Claims\<close>

definition entries_of_period :: "decisions_dbs \<Rightarrow> nat \<Rightarrow> decision_entry oset" where
  "entries_of_period dbs period = unwrap_or db_empty (db_get (period_decisions dbs) period)"

definition get_claimed_decision_ids_for_period :: "decisions_dbs \<Rightarrow> nat \<Rightarrow> decision_id oset" where
  "get_claimed_decision_ids_for_period dbs period =
     oset_of_list (map entry_id
       (filter (\<lambda>e. entry_decision e \<noteq> None) (oset_elems (entries_of_period dbs period))))"

definition get_decision_state_history ::
    "decisions_dbs \<Rightarrow> decision_id \<Rightarrow> decision_state_history option" where
  "get_decision_state_history dbs d = db_get (decision_state_histories dbs) d"

definition get_decision_current_state :: "decisions_dbs \<Rightarrow> decision_id \<Rightarrow> decision_state" where
  "get_decision_current_state dbs d =
     unwrap_or Created (map_option current_state (get_decision_state_history dbs d))"

definition is_decision_in_voting :: "decisions_dbs \<Rightarrow> decision_id \<Rightarrow> bool" where
  "is_decision_in_voting dbs d = (get_decision_current_state dbs d = Voting)"

definition validate_standard_slot ::
    "decisions_dbs \<Rightarrow> decision_id \<Rightarrow> nat \<times> nat \<Rightarrow> (error, unit) result" where
  "validate_standard_slot dbs d window =
     (if period_index d < fst window \<or> snd window < period_index d
      then Inl (DecisionNotAvailable d ''Period is not in active window for new decisions'')
      else rbind (ok_or (get_period_pricing dbs (period_index d))
             (DecisionNotAvailable d ''no pricing record for period'')) (\<lambda>pricing.
           if \<not> slot_unlocked (decision_index d) (mints pricing)
           then Inl (DecisionNotAvailable d ''decision_index not yet unlocked'')
           else Inr ()))"

definition validate_decision_claim ::
    "decisions_dbs \<Rightarrow> decision_id \<Rightarrow> nat \<Rightarrow> nat option \<Rightarrow> nat \<Rightarrow> (error, unit) result" where
  "validate_decision_claim dbs d current_ts current_height genesis_ts =
     rbind (db_current_period dbs current_ts current_height genesis_ts) (\<lambda>current_period.
     rbind (is_decision_settled dbs d current_ts current_height genesis_ts) (\<lambda>settled.
     if settled then Inl (DecisionNotAvailable d ''Decision period is settled'')
     else if is_decision_in_voting dbs d then
       Inl (DecisionNotAvailable d ''Decision is in voting state'')
     else if window_end current_period < period_index d then
       Inl (DecisionNotAvailable d ''Decision period exceeds maximum allowed period'')
     else
       rbind (if is_standard d
              then rbind (get_active_window dbs current_ts current_height genesis_ts)
                     (validate_standard_slot dbs d)
              else Inr ()) (\<lambda>_.
       if oset_member d (get_claimed_decision_ids_for_period dbs (period_index d))
       then Inl (DecisionAlreadyClaimed d)
       else Inr ())))"

definition record_claim ::
    "decision_id \<Rightarrow> decision \<Rightarrow> txid \<Rightarrow> nat option \<Rightarrow> decisions_dbs \<Rightarrow> decisions_dbs" where
  "record_claim d dec txid current_height dbs =
     dbs \<lparr> period_decisions :=
             db_put (period_decisions dbs) (period_index d)
               (oset_insert (DecisionEntry d (Some dec) txid) (entries_of_period dbs (period_index d))),
           decision_state_histories :=
             db_put (decision_state_histories dbs) d (new_claimed (unwrap_or 0 current_height)) \<rparr>"

definition claim_decision ::
    "decision_id \<Rightarrow> decision \<Rightarrow> txid \<Rightarrow> nat option \<Rightarrow> decisions_dbs \<Rightarrow> (error, decisions_dbs) result" where
  "claim_decision d dec txid current_height dbs =
     (let dbs1 = record_claim d dec txid current_height dbs
      in if is_standard d
         then rbind (ok_or (get_period_pricing dbs1 (period_index d))
                (InvalidTransaction ''no pricing record for period'')) (\<lambda>pricing.
              Inr (put_pricing (period_index d)
                     (pricing \<lparr> claimed := saturating_add 64 (claimed pricing) 1 \<rparr>) dbs1))
         else Inr dbs1)"

fun scan_entries :: "decision_id \<Rightarrow> decision_entry list \<Rightarrow> decision_entry option" where
  "scan_entries d [] = None"
| "scan_entries d (e # es) =
     (if entry_id e = d then Some e else if d < entry_id e then None else scan_entries d es)"

definition get_decision_entry :: "decisions_dbs \<Rightarrow> decision_id \<Rightarrow> decision_entry option" where
  "get_decision_entry dbs d =
     (case db_get (period_decisions dbs) (period_index d) of
        None \<Rightarrow> None
      | Some entries \<Rightarrow>
          (let search_entry = DecisionEntry d None 0
           in if oset_member search_entry entries then Some search_entry
              else scan_entries d (filter (\<lambda>e. search_entry \<le> e) (oset_elems entries))))"

definition slot_ids :: "nat \<Rightarrow> nat \<Rightarrow> (error, decision_id list) result" where
  "slot_ids period_idx unlocked_per_tier =
     try_fold (\<lambda>idx ids. rbind (decision_id_new True period_idx idx) (\<lambda>d. Inr (ids @ [d])))
       (concat (map (\<lambda>tier. map (\<lambda>pos. as_u 32 (wrapping_add 64 (tier * SLOTS_PER_TIER) pos))
                  [0..<unlocked_per_tier]) [0..<TIER_COUNT])) []"

definition get_available_decisions_in_period ::
    "decisions_dbs \<Rightarrow> nat \<Rightarrow> nat \<Rightarrow> nat option \<Rightarrow> nat \<Rightarrow> (error, decision_id list) result" where
  "get_available_decisions_in_period dbs period_idx current_ts current_height genesis_ts =
     rbind (total_for dbs period_idx current_ts current_height genesis_ts) (\<lambda>total_decisions.
     if total_decisions = 0 then Inr []
     else case get_period_pricing dbs period_idx of
         None \<Rightarrow> Inr []
       | Some pricing \<Rightarrow>
           rbind (slot_ids period_idx (wrapping_mul 64 (mints pricing) SLOTS_PER_TIER_PER_MINT))
             (\<lambda>ids. Inr (filter (\<lambda>d. \<not> oset_member d
                 (get_claimed_decision_ids_for_period dbs period_idx)) ids)))"

definition get_claimed_decisions_in_period :: "decisions_dbs \<Rightarrow> nat \<Rightarrow> decision_entry list" where
  "get_claimed_decisions_in_period dbs period_idx =
     (case db_get (period_decisions dbs) period_idx of
        None \<Rightarrow> []
      | Some entries \<Rightarrow> filter (\<lambda>e. entry_decision e \<noteq> None) (oset_elems entries))"

definition claimed_count_in_period :: "decisions_dbs \<Rightarrow> nat \<Rightarrow> nat" where
  "claimed_count_in_period dbs period_idx =
     length (oset_elems (get_claimed_decision_ids_for_period dbs period_idx))"

definition get_standard_claimed_count_in_period :: "decisions_dbs \<Rightarrow> nat \<Rightarrow> nat" where
  "get_standard_claimed_count_in_period dbs period_idx =
     length (filter is_standard (oset_elems (get_claimed_decision_ids_for_period dbs period_idx)))"

fun listing_fee_to_error :: "listing_fee_error \<Rightarrow> error" where
  "listing_fee_to_error (IndexOutOfRange _) = InvalidTransaction ''index out of range''"
| "listing_fee_to_error (SlotNotUnlocked _ _) = InvalidTransaction ''slot not unlocked''"
| "listing_fee_to_error FeeOverflow = InvalidTransaction ''fee overflow''"
| "listing_fee_to_error (TierPanic _) = Panic ''index out of bounds''"

definition fee_for_decision_id :: "decisions_dbs \<Rightarrow> decision_id \<Rightarrow> (error, nat) result" where
  "fee_for_decision_id dbs d =
     rbind (ok_or (get_period_pricing dbs (period_index d))
              (InvalidTransaction ''no pricing record for period'')) (\<lambda>pricing.
     map_err listing_fee_to_error
       (fee_for_index (p_period pricing) (mints pricing) (decision_index d)))"

definition get_all_claimed_decisions :: "decisions_dbs \<Rightarrow> decision_entry list" where
  "get_all_claimed_decisions dbs =
     concat (map (\<lambda>e. filter (\<lambda>x. entry_decision x \<noteq> None) (oset_elems (snd e)))
       (db_entries (period_decisions dbs)))"

definition get_voting_periods :: "decisions_dbs \<Rightarrow> (nat \<times> nat \<times> nat) list" where
  "get_voting_periods dbs =
     map (\<lambda>e. (fst e, snd e, 500))
       (db_entries (fold (\<lambda>e m.
            if current_state (snd e) = Voting
            then db_put m (period_index (fst e)) (unwrap_or 0 (db_get m (period_index (fst e))) + 1)
            else m) (db_entries (decision_state_histories dbs)) db_empty))"

definition get_period_summary ::
    "decisions_dbs \<Rightarrow> nat \<Rightarrow> nat option \<Rightarrow> nat \<Rightarrow>
       (error, (nat \<times> nat) list \<times> (nat \<times> nat) list) result" where
  "get_period_summary dbs current_ts current_height genesis_ts =
     rbind (get_active_periods dbs current_ts current_height genesis_ts) (\<lambda>active_periods.
     Inr (active_periods, map (\<lambda>(period, cnt, total). (period, cnt)) (get_voting_periods dbs)))"

definition get_settled_decisions ::
    "decisions_dbs \<Rightarrow> nat \<Rightarrow> nat option \<Rightarrow> nat \<Rightarrow> (error, decision_entry list) result" where
  "get_settled_decisions dbs current_ts current_height genesis_ts =
     try_fold (\<lambda>e acc. rbind (is_period_settled dbs (fst e) current_ts current_height genesis_ts)
         (\<lambda>settled. Inr (if settled then acc @ oset_elems (snd e) else acc)))
       (db_entries (period_decisions dbs)) []"

section \<open>Life cycle\<close>

definition decisions_needing_transition ::
    "decisions_dbs \<Rightarrow> decision_state \<Rightarrow> (decision_id \<Rightarrow> nat) \<Rightarrow> nat \<Rightarrow> decision_id list" where
  "decisions_needing_transition dbs from_state threshold_period current_period =
     map fst (filter (\<lambda>e. current_state (snd e) = from_state
                          \<and> threshold_period (fst e) < current_period)
                (db_entries (decision_state_histories dbs)))"

definition get_claimed_decisions_needing_voting :: "decisions_dbs \<Rightarrow> nat \<Rightarrow> decision_id list" where
  "get_claimed_decisions_needing_voting dbs current_period =
     decisions_needing_transition dbs Claimed period_index current_period"

definition get_voting_decisions_needing_resolution ::
    "decisions_dbs \<Rightarrow> nat \<Rightarrow> decision_id list" where
  "get_voting_decisions_needing_resolution dbs current_period =
     decisions_needing_transition dbs Voting voting_period current_period"

definition transition_decision_to_voting ::
    "decision_id \<Rightarrow> nat \<Rightarrow> decisions_dbs \<Rightarrow> (error, decisions_dbs) result" where
  "transition_decision_to_voting d block_height dbs =
     rbind (ok_or (get_decision_state_history dbs d)
              (InvalidDecisionId ''Decision has no state history'')) (\<lambda>history.
     rbind (transition_to_voting history block_height) (\<lambda>history'.
     Inr (dbs \<lparr> decision_state_histories :=
                  db_put (decision_state_histories dbs) d history' \<rparr>)))"

definition transition_decision_to_resolved ::
    "decision_id \<Rightarrow> nat \<Rightarrow> f64 \<Rightarrow> decisions_dbs \<Rightarrow> (error, decisions_dbs) result" where
  "transition_decision_to_resolved d block_height outcome dbs =
     rbind (ok_or (get_decision_state_history dbs d)
              (InvalidDecisionId ''Decision has no state history'')) (\<lambda>history.
     rbind (transition_to_resolved history outcome block_height) (\<lambda>history'.
     Inr (dbs \<lparr> decision_state_histories :=
                  db_put (decision_state_histories dbs) d history' \<rparr>)))"

definition store_period_entries :: "nat \<Rightarrow> decision_entry oset \<Rightarrow> decisions_dbs \<Rightarrow> decisions_dbs" where
  "store_period_entries period entries dbs =
     dbs \<lparr> period_decisions :=
       (if oset_elems entries = [] then db_delete (period_decisions dbs) period
        else db_put (period_decisions dbs) period entries) \<rparr>"

definition revert_decision_claim :: "decision_id \<Rightarrow> decisions_dbs \<Rightarrow> decisions_dbs" where
  "revert_decision_claim d dbs =
     (let entries = entries_of_period dbs (period_index d)
      in case find (\<lambda>e. entry_id e = d) (oset_elems entries) of
           None \<Rightarrow> dbs
         | Some e \<Rightarrow> store_period_entries (period_index d) (oset_remove e entries) dbs)"

definition unclaim_decision :: "decision_id \<Rightarrow> decisions_dbs \<Rightarrow> decisions_dbs" where
  "unclaim_decision d dbs =
     (case db_get (period_decisions dbs) (period_index d) of
        None \<Rightarrow> dbs
      | Some entries \<Rightarrow>
          store_period_entries (period_index d) (oset_retain (\<lambda>e. entry_id e \<noteq> d) entries) dbs)"

definition rollback_decision_states_to_height :: "nat \<Rightarrow> decisions_dbs \<Rightarrow> decisions_dbs" where
  "rollback_decision_states_to_height height dbs =
     (let hs = db_entries (decision_state_histories dbs);
          updates = map (\<lambda>e. (fst e, rollback_to_height (snd e) height)) hs;
          unclaims = map fst (filter (\<lambda>e. current_state (snd e) \<noteq> Created
              \<and> current_state (rollback_to_height (snd e) height) = Created) hs)
      in fold unclaim_decision unclaims
           (dbs \<lparr> decision_state_histories := db_put_all updates (decision_state_histories dbs) \<rparr>))"

section \<open>The decisions of a block\<close>

text \<open>
  The claims of the transactions of a block (\<open>ClaimDecision\<close>, and the new claims of \<open>CreateMarket\<close>), in the order
  of the block. They are validated before the block is connected, on the tables and with the mainchain
  timestamp of the block before, but with the height of the new block.
\<close>

type_synonym decision_claim = "decision_id \<times> decision \<times> txid"

definition validated_claims :: "nat \<Rightarrow> nat \<Rightarrow> nat \<Rightarrow> decision_claim list \<Rightarrow> decisions_dbs \<Rightarrow> bool" where
  "validated_claims current_ts next_height genesis_ts claims dbs \<longleftrightarrow>
     distinct (map fst claims)
     \<and> list_all (\<lambda>claim. validate_decision_claim dbs (fst claim) current_ts (Some next_height) genesis_ts = Inr ()) claims"

text \<open>
  What connecting a block does to the decision tables before any decision is resolved: the snapshot for the
  undo log, the decisions whose period is over enter voting, the claims are recorded, and the periods are
  minted and priced.
\<close>

definition connect_decisions ::
    "nat \<Rightarrow> nat \<Rightarrow> nat \<Rightarrow> decision_claim list \<Rightarrow> decisions_dbs \<Rightarrow> (error, decisions_dbs) result" where
  "connect_decisions height mainchain_timestamp genesis_ts claims dbs =
     (let dbs0 = snapshot_period_pricing height dbs in
      rbind (db_current_period dbs0 mainchain_timestamp (Some height) genesis_ts) (\<lambda>current_period.
      rbind (try_fold (\<lambda>d. transition_decision_to_voting d height)
               (get_claimed_decisions_needing_voting dbs0 current_period) dbs0) (\<lambda>dbs1.
      rbind (try_fold (\<lambda>(d, dec, txid). claim_decision d dec txid (Some height)) claims dbs1) (\<lambda>dbs2.
      if height = 0 then mint_genesis mainchain_timestamp height genesis_ts dbs2
      else process_block_pricing height mainchain_timestamp genesis_ts dbs2))))"

section \<open>Looking up an entry\<close>

lemma search_entry_le: "DecisionEntry d None 0 \<le> e \<longleftrightarrow> d \<le> entry_id e"
proof (cases e)
  case (DecisionEntry i x t)
  have "None < x \<or> x = None" by (cases x) auto
  moreover have "(0 :: txid) \<le> t" by simp
  ultimately show ?thesis
    using DecisionEntry by (auto simp: less_eq_decision_entry_def less_eq_prod_simp)
qed

lemma entry_less_id: "e < e' \<Longrightarrow> entry_id e \<le> entry_id e'"
  by (cases e; cases e') (auto simp: less_decision_entry_def less_prod_simp le_less)

lemma scan_entries_find:
  "sorted_wrt (<) es \<Longrightarrow> scan_entries d es = find (\<lambda>e. entry_id e = d) es"
proof (induction es)
  case (Cons e es)
  have "find (\<lambda>e. entry_id e = d) es = None" if "d < entry_id e"
  proof -
    have "d < entry_id e'" if "e' \<in> set es" for e'
      using \<open>d < entry_id e\<close> Cons.prems that entry_less_id [of e e'] by auto
    then show ?thesis by (auto simp: find_None_iff)
  qed
  with Cons show ?case by auto
qed simp

lemma find_filter: "(\<And>x. P x \<Longrightarrow> Q x) \<Longrightarrow> find P (filter Q xs) = find P xs"
  by (induction xs) auto

lemma find_unique:
  "x \<in> set xs \<Longrightarrow> P x \<Longrightarrow> (\<And>y. y \<in> set xs \<Longrightarrow> P y \<Longrightarrow> y = x) \<Longrightarrow> find P xs = Some x"
proof (induction xs)
  case (Cons a xs)
  show ?case
  proof (cases "P a")
    case True
    then show ?thesis using Cons.prems(3) [of a] by simp
  next
    case False
    then have "x \<in> set xs" using Cons.prems(1,2) by auto
    have "find P xs = Some x"
    proof (rule Cons.IH)
      show "y = x" if "y \<in> set xs" "P y" for y using Cons.prems(3) that by simp
    qed fact+
    with False show ?thesis by simp
  qed
qed simp

lemma find_sorted_least:
  fixes x :: "'a::linorder"
  assumes "sorted_wrt (<) xs" and "x \<in> set xs" and "P x" and "\<And>y. P y \<Longrightarrow> x \<le> y"
  shows "find P xs = Some x"
  using assms by (induction xs) (auto dest: leD)

text \<open>
  The ordered-set lookup of \<open>get_decision_entry\<close> (an exact probe with the least possible
  entry, then a range scan that stops at the first larger identifier) finds exactly what a
  linear search of the period's entries finds.
\<close>

lemma get_decision_entry_find:
  "get_decision_entry dbs d =
     find (\<lambda>e. entry_id e = d) (oset_elems (entries_of_period dbs (period_index d)))"
proof (cases "db_get (period_decisions dbs) (period_index d)")
  case None
  then show ?thesis by (simp add: get_decision_entry_def entries_of_period_def)
next
  case (Some es)
  let ?s = "DecisionEntry d None 0" and ?xs = "oset_elems es"
  have "find (\<lambda>e. entry_id e = d) ?xs = Some ?s" if "?s \<in> set ?xs"
    by (rule find_sorted_least [OF sorted_oset_elems that]) (simp_all add: search_entry_le)
  moreover have "scan_entries d (filter (\<lambda>e. ?s \<le> e) ?xs) = find (\<lambda>e. entry_id e = d) ?xs"
  proof -
    have "sorted_wrt (<) (filter (\<lambda>e. ?s \<le> e) ?xs)"
      using sorted_oset_elems [of es] by (rule sorted_wrt_filter)
    then have "scan_entries d (filter (\<lambda>e. ?s \<le> e) ?xs)
        = find (\<lambda>e. entry_id e = d) (filter (\<lambda>e. ?s \<le> e) ?xs)"
      by (rule scan_entries_find)
    also have "\<dots> = find (\<lambda>e. entry_id e = d) ?xs"
      by (rule find_filter) (simp add: search_entry_le)
    finally show ?thesis .
  qed
  ultimately show ?thesis
    by (simp add: get_decision_entry_def entries_of_period_def Some Let_def)
qed

section \<open>Minting\<close>

lemma foldl_max_option:
  "foldl (\<lambda>highest p. Some (case highest of Some h \<Rightarrow> max h p | None \<Rightarrow> p)) (Some (h::nat)) ps
   = Some (Max (insert h (set ps)))"
proof (induction ps arbitrary: h)
  case (Cons p ps)
  have "Max (insert (max h p) (set ps)) = Max (insert h (insert p (set ps)))"
    by (cases ps) (auto simp: max.assoc)
  with Cons show ?case by simp
qed simp

lemma get_highest_minted_period_eq:
  "get_highest_minted_period dbs =
     (if db_keys (period_decisions dbs) = [] then None
      else Some (Max (set (db_keys (period_decisions dbs)))))"
  by (cases "db_keys (period_decisions dbs)")
    (simp_all add: get_highest_minted_period_def foldl_max_option)

lemma foldl_max: "foldl (\<lambda>h p. if h < p then p else h) (h::nat) ps = Max (insert h (set ps))"
proof (induction ps arbitrary: h)
  case (Cons p ps)
  have "(if h < p then p else h) = max h p" by auto
  moreover have "Max (insert (max h p) (set ps)) = Max (insert h (insert p (set ps)))"
    by (cases ps) (auto simp: max.assoc)
  ultimately show ?case using Cons by simp
qed simp

definition highest_existing :: "decisions_dbs \<Rightarrow> nat" where
  "highest_existing dbs = unwrap_or 0 (get_highest_minted_period dbs)"

lemma highest_existing_eq: "highest_existing dbs = Max (insert 0 (set (db_keys (period_decisions dbs))))"
  by (simp add: highest_existing_def get_highest_minted_period_eq)

lemma db_get_put_all_const:
  "db_get (db_put_all (map (\<lambda>k. (k, v)) ks) d) k = (if k \<in> set ks then Some v else db_get d k)"
  by (induction ks arbitrary: d) auto

lemma mint_periods_up_to_entries:
  assumes "highest_existing dbs + 1 < 2 ^ 32"
  shows "db_get (period_decisions (mint_periods_up_to target dbs)) p =
    (if highest_existing dbs < p \<and> p \<le> target then Some db_empty
     else db_get (period_decisions dbs) p)"
proof -
  have "period_decisions (mint_periods_up_to target dbs) =
      db_put_all (map (\<lambda>period. (period, db_empty)) (range_incl (highest_existing dbs + 1) target))
        (period_decisions dbs)"
    using assms unfolding mint_periods_up_to_def foldl_max highest_existing_eq [symmetric]
    by (simp add: Let_def)
  then show ?thesis by (auto simp: db_get_put_all_const)
qed

lemma mint_periods_up_to_other [simp]:
  "decision_state_histories (mint_periods_up_to t dbs) = decision_state_histories dbs"
  "period_pricing_db (mint_periods_up_to t dbs) = period_pricing_db dbs"
  "period_pricing_undo (mint_periods_up_to t dbs) = period_pricing_undo dbs"
  "config (mint_periods_up_to t dbs) = config dbs"
  by (simp_all add: mint_periods_up_to_def Let_def)

lemma get_period_pricing_mint [simp]:
  "get_period_pricing (mint_periods_up_to t dbs) p = get_period_pricing dbs p"
  by (simp add: get_period_pricing_def)

lemma highest_existing_le: "db_get (period_decisions dbs) p = Some e \<Longrightarrow> p \<le> highest_existing dbs"
  by (simp add: highest_existing_eq set_db_keys) (metis Max_ge domI finite.insertI finite_dom_db insertI2)

lemma highest_existing_witness:
  "0 < highest_existing dbs \<Longrightarrow> \<exists>e. db_get (period_decisions dbs) (highest_existing dbs) = Some e"
proof -
  assume "0 < highest_existing dbs"
  moreover have "highest_existing dbs \<in> insert 0 (dom (db_get (period_decisions dbs)))"
    unfolding highest_existing_eq set_db_keys by (rule Max_in) auto
  ultimately show ?thesis by auto
qed

lemma highest_existing_eqI:
  assumes "\<And>p e. db_get (period_decisions dbs) p = Some e \<Longrightarrow> p \<le> h"
    and "db_get (period_decisions dbs) h = Some e"
  shows "highest_existing dbs = h"
proof -
  have "h \<le> highest_existing dbs" using assms(2) by (rule highest_existing_le)
  moreover have "highest_existing dbs \<le> h"
    using assms(1) highest_existing_witness [of dbs] by (cases "highest_existing dbs = 0") auto
  ultimately show ?thesis by simp
qed

lemma highest_existing_mint:
  assumes "highest_existing dbs + 1 < 2 ^ 32"
  shows "highest_existing (mint_periods_up_to t dbs) = max (highest_existing dbs) t"
proof (cases "highest_existing dbs < t")
  case True
  then show ?thesis
    using assms highest_existing_le [of dbs]
    by (intro trans [OF highest_existing_eqI [of _ t db_empty]])
      (force simp: mint_periods_up_to_entries split: if_splits)+
next
  case False
  then have "period_decisions (mint_periods_up_to t dbs) = period_decisions dbs"
    using assms by (intro db_ext) (auto simp: mint_periods_up_to_entries)
  then have "highest_existing (mint_periods_up_to t dbs) = highest_existing dbs"
    by (simp only: highest_existing_eq)
  with False show ?thesis by simp
qed

section \<open>Updates of one pricing record at a time\<close>

text \<open>
  The loops of minting and repricing visit distinct periods, and the step at a period reads
  and writes the record of that period only.
\<close>

definition dbs_frame ::
    "decisions_dbs \<Rightarrow> (nat, decision_entry oset) db \<times> (decision_id, decision_state_history) db
       \<times> (nat, (nat \<times> period_pricing option) list) db \<times> decision_config" where
  "dbs_frame dbs =
     (period_decisions dbs, decision_state_histories dbs, period_pricing_undo dbs, config dbs)"

locale pointwise_update =
  fixes upd :: "nat \<Rightarrow> 's \<Rightarrow> 's"
    and get :: "'s \<Rightarrow> nat \<Rightarrow> 'v option"
    and frame :: "'s \<Rightarrow> 'f"
    and val :: "nat \<Rightarrow> 'v option \<Rightarrow> 'v option"
  assumes get_upd: "get (upd k s) p = (if p = k then val k (get s k) else get s p)"
    and frame_upd: "frame (upd k s) = frame s"
begin

lemma get_fold:
  "distinct ks \<Longrightarrow> get (fold upd ks s) p = (if p \<in> set ks then val p (get s p) else get s p)"
  by (induction ks arbitrary: s) (auto simp: get_upd)

lemma frame_fold: "frame (fold upd ks s) = frame s"
  by (induction ks arbitrary: s) (auto simp: frame_upd)

end

lemma get_put_pricing [simp]:
  "get_period_pricing (put_pricing k pr dbs) p = (if p = k then Some pr else get_period_pricing dbs p)"
  by (simp add: get_period_pricing_def put_pricing_def)

lemma frame_put_pricing [simp]: "dbs_frame (put_pricing k pr dbs) = dbs_frame dbs"
  by (simp add: dbs_frame_def put_pricing_def)

interpretation repricing: pointwise_update "reprice_period h" get_period_pricing dbs_frame
  "\<lambda>_. map_option (apply_reprice_with_floor h)"
  by unfold_locales (auto simp: reprice_period_def split: option.splits)

interpretation surviving: pointwise_update "survive_period n h" get_period_pricing dbs_frame
  "\<lambda>_. map_option (\<lambda>pr. apply_reprice_with_floor h (pr \<lparr> mints := saturating_add 64 (mints pr) n \<rparr>))"
  by unfold_locales (auto simp: survive_period_def split: option.splits)

interpretation genesis: pointwise_update "mint_genesis_period c h" get_period_pricing dbs_frame
  "\<lambda>p pr. case pr of Some x \<Rightarrow> Some x
     | None \<Rightarrow> Some (genesis_pricing (saturating_sub FUTURE_PERIODS (p - c)) h)"
  by unfold_locales (auto simp: mint_genesis_period_def split: option.splits)

lemma frame_fold_seed: "dbs_frame (fold (seed_period c h) ks dbs) = dbs_frame dbs"
  by (induction ks arbitrary: dbs) (auto simp: seed_period_def)

lemma get_fold_seed:
  "if p \<in> set ks then \<exists>v. get_period_pricing (fold (seed_period c h) ks dbs) p = Some (new_seeded v h)
   else get_period_pricing (fold (seed_period c h) ks dbs) p = get_period_pricing dbs p"
proof (induction ks arbitrary: dbs)
  case (Cons k ks)
  from Cons [of "seed_period c h k dbs"] show ?case
    by (auto simp: seed_period_def split: if_splits)
qed simp

lemma frame_highest: "dbs_frame dbs = dbs_frame dbs' \<Longrightarrow> highest_existing dbs = highest_existing dbs'"
  by (simp add: dbs_frame_def highest_existing_eq)

section \<open>The pricing window\<close>

definition priced_period :: "nat \<Rightarrow> decisions_dbs \<Rightarrow> nat \<Rightarrow> bool" where
  "priced_period c dbs p \<longleftrightarrow>
     (case get_period_pricing dbs p of
        None \<Rightarrow> False
      | Some pr \<Rightarrow> mints pr = c + 20 - p \<and> pricing_ok pr)"

definition pricing_window :: "nat \<Rightarrow> decisions_dbs \<Rightarrow> bool" where
  "pricing_window c dbs \<longleftrightarrow>
     highest_existing dbs = c + 19 \<and> (\<forall>p \<in> {c..c + 19}. priced_period c dbs p)"

lemma pricing_windowE:
  assumes "pricing_window c dbs" and "c \<le> p" and "p \<le> c + 19"
  obtains pr where "get_period_pricing dbs p = Some pr" "mints pr = c + 20 - p" "pricing_ok pr"
proof -
  have "priced_period c dbs p" using assms by (simp add: pricing_window_def)
  with that show thesis by (cases "get_period_pricing dbs p") (auto simp: priced_period_def)
qed

lemma window_end_exact: "c + 20 < 2 ^ 32 \<Longrightarrow> window_end c = c + 19"
  by (simp add: window_end_def FUTURE_PERIODS_def)

lemma genesis_pricing_ok [simp]: "pricing_ok (genesis_pricing m h)" "mints (genesis_pricing m h) = m"
  by (simp_all add: genesis_pricing_def pricing_ok_def)

lemma mint_genesis_window:
  assumes "db_current_period new ts (Some h) g = Inr c" and "c + 20 < 2 ^ 32"
    and "period_decisions new = db_empty" and "period_pricing_db new = db_empty"
  shows "\<exists>dbs. mint_genesis ts h g new = Inr dbs \<and> pricing_window c dbs"
proof -
  let ?minted = "mint_periods_up_to (c + 19) new"
  let ?d = "fold (mint_genesis_period c h) (range_incl c (c + 19)) ?minted"
  have h0: "highest_existing new = 0"
    by (simp add: highest_existing_eq assms(3) db_keys_def)
  have "highest_existing ?d = c + 19"
    using frame_highest [OF genesis.frame_fold] highest_existing_mint [of new "c + 19"]
    by (simp add: h0)
  moreover have "priced_period c ?d p" if "p \<in> {c..c + 19}" for p
  proof -
    have "get_period_pricing new p = None"
      by (simp add: get_period_pricing_def assms(4))
    with that show ?thesis
      by (auto simp: priced_period_def genesis.get_fold saturating_sub_def FUTURE_PERIODS_def)
  qed
  moreover have "mint_genesis ts h g new = Inr ?d"
    using assms by (simp add: mint_genesis_def window_end_exact)
  ultimately show ?thesis by (simp add: pricing_window_def)
qed

lemma survive_priced:
  assumes "get_period_pricing dbs p = Some pr" and "mints pr = c + 20 - p" and "pricing_ok pr"
    and "c + 1 \<le> p" and "p \<le> c + 19"
  shows "let q = apply_reprice_with_floor h (pr \<lparr> mints := saturating_add 64 (mints pr) 1 \<rparr>)
         in mints q = c + 1 + 20 - p \<and> pricing_ok q"
proof -
  have "pricing_ok (pr \<lparr> mints := m \<rparr>)" for m using assms(3) by (simp add: pricing_ok_def)
  then show ?thesis using assms(2,4,5)
    by (auto simp: Let_def saturating_add_def)
qed

lemma transition_pricing_window:
  assumes w: "pricing_window c dbs" and c: "c + 21 < 2 ^ 32"
  shows "pricing_window (c + 1)
    (transition_pricing (c + 1) c (c + 19) h (mint_periods_up_to (c + 20) dbs))"
proof -
  let ?m = "mint_periods_up_to (c + 20) dbs"
  let ?s = "seed_period (c + 1) h (c + 20) ?m"
  let ?t = "fold (survive_period 1 h) (range_incl (c + 1) (c + 19)) ?s"
  have r: "range_incl (c + 20) (c + 20) = [c + 20]"
    unfolding range_incl_def by (rule upt_rec [THEN trans]) simp
  have t: "transition_pricing (c + 1) c (c + 19) h ?m = ?t"
    using c window_end_exact [of "c + 1"] r
    by (simp add: transition_pricing_def Let_def add.commute)
  have "dbs_frame ?t = dbs_frame ?m"
    by (simp add: surviving.frame_fold seed_period_def)
  then have "highest_existing ?t = highest_existing ?m" by (rule frame_highest)
  then have "highest_existing ?t = c + 1 + 19"
    using highest_existing_mint [of dbs "c + 20"] w c by (simp add: pricing_window_def)
  moreover have "priced_period (c + 1) ?t p" if p: "p \<in> {c + 1..c + 1 + 19}" for p
  proof (cases "p = c + 20")
    case True
    then show ?thesis
      by (simp add: priced_period_def surviving.get_fold seed_period_def)
  next
    case False
    with p have "c \<le> p" "c + 1 \<le> p" "p \<le> c + 19" by auto
    with w obtain pr where pr: "get_period_pricing dbs p = Some pr" "mints pr = c + 20 - p"
      "pricing_ok pr"
      using pricing_windowE by blast
    with survive_priced [OF pr \<open>c + 1 \<le> p\<close> \<open>p \<le> c + 19\<close>, of h] False \<open>c + 1 \<le> p\<close> \<open>p \<le> c + 19\<close>
    show ?thesis
      by (auto simp: priced_period_def surviving.get_fold seed_period_def Let_def)
  qed
  ultimately show ?thesis unfolding t by (simp add: pricing_window_def)
qed

lemma process_block_pricing_window:
  assumes w: "pricing_window c dbs" and c: "c + 21 < 2 ^ 32"
    and cur: "db_current_period dbs ts (Some h) g = Inr c'" and step: "c' \<le> c + 1"
  shows "\<exists>dbs'. process_block_pricing h ts g dbs = Inr dbs' \<and> pricing_window (max c c') dbs'"
proof -
  have hi: "unwrap_or 0 (get_highest_minted_period dbs) = c + 19"
    using w by (simp add: pricing_window_def highest_existing_def)
  have prev: "saturating_sub (wrapping_add 32 (c + 19) 1) FUTURE_PERIODS = c"
    using c by (simp add: saturating_sub_def FUTURE_PERIODS_def)
  show ?thesis
  proof (cases "c' \<le> c")
    case True
    let ?m = "mint_periods_up_to (c' + 19) dbs"
    let ?r = "fold (reprice_period h) (range_incl c' (c' + 19)) ?m"
    have "highest_existing ?m = c + 19"
      using w c True by (simp add: highest_existing_mint pricing_window_def)
    moreover from this have "highest_existing ?r = c + 19"
      using frame_highest [OF repricing.frame_fold] by simp
    moreover have "priced_period c ?m p" "priced_period c ?r p" if p: "p \<in> {c..c + 19}" for p
    proof -
      obtain pr where "get_period_pricing dbs p = Some pr" "mints pr = c + 20 - p" "pricing_ok pr"
        using pricing_windowE [OF w] p by auto
      then show "priced_period c ?m p" "priced_period c ?r p" by (auto simp: priced_period_def repricing.get_fold)
    qed
    ultimately have "pricing_window c ?m" "pricing_window c ?r" by (auto simp: pricing_window_def)
    then show ?thesis
      using cur True c hi prev window_end_exact [of c']
      by (simp add: process_block_pricing_def Let_def max_def)
  next
    case False
    then have "c' = c + 1" using step by simp
    then show ?thesis
      using transition_pricing_window [OF w c, of h] cur c hi prev window_end_exact [of "c + 1"]
      by (simp add: process_block_pricing_def Let_def add.commute max_def)
  qed
qed

section \<open>Claims\<close>

definition claimed_ids :: "decisions_dbs \<Rightarrow> nat \<Rightarrow> decision_id set" where
  "claimed_ids dbs p = set (oset_elems (get_claimed_decision_ids_for_period dbs p))"

lemma claimed_ids_eq:
  "claimed_ids dbs p = entry_id ` {e \<in> set (oset_elems (entries_of_period dbs p)). entry_decision e \<noteq> None}"
  by (simp add: claimed_ids_def get_claimed_decision_ids_for_period_def)

lemma claimed_ids_cong:
  "period_decisions dbs = period_decisions dbs' \<Longrightarrow> claimed_ids dbs p = claimed_ids dbs' p"
  by (simp add: claimed_ids_eq entries_of_period_def)

lemma claimed_ids_put_pricing [simp]: "claimed_ids (put_pricing k pr dbs) p = claimed_ids dbs p"
  by (rule claimed_ids_cong) (simp add: put_pricing_def)

lemma finite_claimed_ids [simp]: "finite (claimed_ids dbs p)"
  by (simp add: claimed_ids_def)

lemma standard_count_eq:
  "get_standard_claimed_count_in_period dbs p = card {d \<in> claimed_ids dbs p. is_standard d}"
proof -
  have "get_standard_claimed_count_in_period dbs p
      = card (set (filter is_standard (oset_elems (get_claimed_decision_ids_for_period dbs p))))"
    unfolding get_standard_claimed_count_in_period_def
    by (rule distinct_card [symmetric]) simp
  then show ?thesis by (simp add: claimed_ids_def)
qed

lemma entries_of_record_claim:
  "entries_of_period (record_claim d dec t hh dbs) p =
     (if p = period_index d then oset_insert (DecisionEntry d (Some dec) t) (entries_of_period dbs p)
      else entries_of_period dbs p)"
  by (simp add: entries_of_period_def record_claim_def)

lemma claimed_ids_record_claim:
  "claimed_ids (record_claim d dec t hh dbs) p =
     (if p = period_index d then insert d (claimed_ids dbs p) else claimed_ids dbs p)"
  by (force simp: claimed_ids_eq entries_of_record_claim)

lemma claim_decision_cases:
  assumes "claim_decision d dec t hh dbs = Inr dbs'"
  shows "period_decisions dbs' = period_decisions (record_claim d dec t hh dbs)"
    and "decision_state_histories dbs' = decision_state_histories (record_claim d dec t hh dbs)"
    and "config dbs' = config dbs"
    and "get_period_pricing dbs' p = (if is_standard d \<and> p = period_index d
       then map_option (\<lambda>pr. pr \<lparr> claimed := saturating_add 64 (claimed pr) 1 \<rparr>)
         (get_period_pricing dbs p)
       else get_period_pricing dbs p)"
  using assms
  by (auto simp: claim_decision_def Let_def put_pricing_def record_claim_def get_period_pricing_def
      split: if_splits)

lemma validate_standard_slot_ok:
  "validate_standard_slot dbs d w = Inr u \<longleftrightarrow>
     fst w \<le> period_index d \<and> period_index d \<le> snd w
     \<and> (\<exists>pr. get_period_pricing dbs (period_index d) = Some pr
          \<and> slot_unlocked (decision_index d) (mints pr))"
  by (auto simp: validate_standard_slot_def ok_or_def split: option.splits)

lemma validate_decision_claim_ok:
  assumes "db_current_period dbs ts hh g = Inr c"
  shows "validate_decision_claim dbs d ts hh g = Inr u \<longleftrightarrow>
     c \<le> saturating_add 32 (period_index d) 7
     \<and> get_decision_current_state dbs d \<noteq> Voting
     \<and> period_index d \<le> window_end c
     \<and> (is_standard d \<longrightarrow> c \<le> period_index d
          \<and> (\<exists>pr. get_period_pricing dbs (period_index d) = Some pr
               \<and> slot_unlocked (decision_index d) (mints pr)))
     \<and> d \<notin> claimed_ids dbs (period_index d)"
  using assms
  by (auto simp: validate_decision_claim_def is_decision_settled_def is_period_settled_def
      is_decision_in_voting_def get_active_window_def validate_standard_slot_ok claimed_ids_def
      not_less)

section \<open>Capacity\<close>

definition slot_set :: "nat \<Rightarrow> nat \<Rightarrow> decision_id set" where
  "slot_set p m = {d. is_standard d \<and> period_index d = p \<and> slot_unlocked (decision_index d) m}"

lemma slot_unlocked_small: "m \<le> 20 \<Longrightarrow> slot_unlocked i m \<longleftrightarrow> i < 500 \<and> i mod 100 < 5 * m"
  by (auto simp: slot_unlocked_def decision_consts position_in_tier_def mult.commute)

lemma slot_index_image:
  assumes "m \<le> (20::nat)"
  shows "{i. i < 500 \<and> i mod 100 < 5 * m} = (\<lambda>(t, j). 100 * t + j) ` ({..<5} \<times> {..<5 * m})"
proof (intro equalityI subsetI)
  fix i :: nat assume "i \<in> {i. i < 500 \<and> i mod 100 < 5 * m}"
  then have "(i div 100, i mod 100) \<in> {..<5} \<times> {..<5 * m}" "i = 100 * (i div 100) + i mod 100"
    by auto
  then show "i \<in> (\<lambda>(t, j). 100 * t + j) ` ({..<5} \<times> {..<5 * m})" by (metis (mono_tags, lifting) case_prod_conv image_eqI)
qed (use assms in auto)

lemma slot_set_image:
  assumes "m \<le> 20" and "p < 128"
  shows "decision_index ` slot_set p m = {i. i < 500 \<and> i mod 100 < 5 * m}"
proof (intro equalityI subsetI)
  fix i assume "i \<in> {i. i < 500 \<and> i mod 100 < 5 * m}"
  moreover from this obtain d where "is_standard d" "period_index d = p" "decision_index d = i"
    using decision_id_new_eq [of p i True] assms by auto
  ultimately show "i \<in> decision_index ` slot_set p m"
    using assms by (auto simp: slot_set_def slot_unlocked_small)
qed (auto simp: slot_set_def slot_unlocked_small assms)

lemma inj_on_slot_set: "inj_on decision_index (slot_set p m)"
  by (auto simp: inj_on_def slot_set_def intro: decision_id_fields_inj)

lemma slot_set_card:
  assumes "m \<le> 20" and "p < 128"
  shows "finite (slot_set p m)" and "card (slot_set p m) = 25 * m"
proof -
  let ?f = "\<lambda>(t, j). 100 * t + j :: nat" and ?A = "{..<5} \<times> {..<5 * m}"
  have img: "decision_index ` slot_set p m = ?f ` ?A"
    using slot_set_image [OF assms] slot_index_image [OF assms(1)] by simp
  then show "finite (slot_set p m)"
    using finite_imageD [OF _ inj_on_slot_set, of p m] by simp
  have "inj_on ?f ?A"
  proof (intro inj_onI; clarsimp)
    fix t j t' j' assume "100 * t + j = 100 * t' + j'" "j < 5 * m" "j' < 5 * m"
    with assms(1) have "j < 100" "j' < 100" by auto
    then have "(100 * t + j) div 100 = t" "(100 * t' + j') div 100 = t'" by simp_all
    with \<open>100 * t + j = 100 * t' + j'\<close> show "t = t' \<and> j = j'" by simp
  qed
  then show "card (slot_set p m) = 25 * m"
    using card_image [OF inj_on_slot_set, of p m] card_image [of ?f ?A] img by simp
qed

lemma slot_set_mono: "m \<le> m' \<Longrightarrow> m' \<le> 20 \<Longrightarrow> slot_set p m \<subseteq> slot_set p m'"
  by (auto simp: slot_set_def slot_unlocked_small)

section \<open>What a block does to the claims\<close>

lemma claimed_ids_mint:
  assumes "highest_existing dbs + 1 < 2 ^ 32"
  shows "claimed_ids (mint_periods_up_to t dbs) p = claimed_ids dbs p"
proof -
  have "entries_of_period (mint_periods_up_to t dbs) p = entries_of_period dbs p"
    using assms highest_existing_le [of dbs p]
    by (cases "db_get (period_decisions dbs) p")
      (auto simp: entries_of_period_def mint_periods_up_to_entries)
  then show ?thesis by (simp add: claimed_ids_eq)
qed

lemma transition_frame: "dbs_frame (transition_pricing n c hi h dbs) = dbs_frame dbs"
  by (simp add: transition_pricing_def Let_def surviving.frame_fold frame_fold_seed)

lemma process_frame:
  assumes "process_block_pricing h ts g dbs = Inr dbs'"
    and "db_current_period dbs ts (Some h) g = Inr n"
  shows "dbs_frame dbs' = dbs_frame (mint_periods_up_to (window_end n) dbs)"
  using assms
  by (auto simp: process_block_pricing_def Let_def transition_frame repricing.frame_fold
      split: if_splits)

lemma transition_claimed:
  assumes "hi + 1 < 2 ^ 32" and "p \<le> hi"
  shows "map_option claimed (get_period_pricing (transition_pricing n c hi h dbs) p)
    = map_option claimed (get_period_pricing dbs p)"
proof -
  let ?ks = "range_incl (wrapping_add 32 hi 1) (window_end n)"
  have "get_period_pricing (fold (seed_period n h) ?ks dbs) p = get_period_pricing dbs p"
    using get_fold_seed [of p ?ks n h dbs] assms by simp
  then show ?thesis
    by (auto simp: transition_pricing_def Let_def surviving.get_fold option.map_comp o_def)
qed

lemma process_claimed:
  assumes "process_block_pricing h ts g dbs = Inr dbs'"
    and "highest_existing dbs + 1 < 2 ^ 32" and "p \<le> highest_existing dbs"
  shows "map_option claimed (get_period_pricing dbs' p) = map_option claimed (get_period_pricing dbs p)"
  using assms
  by (auto simp: process_block_pricing_def Let_def repricing.get_fold option.map_comp o_def
      transition_claimed highest_existing_def split: if_splits)

lemma transition_seeds_unclaimed:
  assumes "c + 21 < 2 ^ 32"
  shows "map_option claimed (get_period_pricing (transition_pricing (c + 1) c (c + 19) h dbs) (c + 20))
    = Some 0"
proof -
  let ?ks = "range_incl (c + 20) (window_end (c + 1))"
  have w: "window_end (c + 1) = c + 20" using assms window_end_exact [of "c + 1"] by simp
  obtain v where
    "get_period_pricing (fold (seed_period (c + 1) h) ?ks dbs) (c + 20) = Some (new_seeded v h)"
    using get_fold_seed [of "c + 20" ?ks "c + 1" h dbs] w by auto
  then show ?thesis
    using assms w by (auto simp: transition_pricing_def Let_def surviving.get_fold new_seeded_def
        add.commute)
qed

section \<open>Databases along a chain\<close>

text \<open>
  The tables along a chain with genesis timestamp \<open>g\<close>: \<open>c\<close> is the latest period that the clock has shown and \<open>ts\<close>
  the timestamp of the last block. The first block has no claims, since a claim spends an output. The
  clock may go back, and it advances by at most one period from block to block.
\<close>

inductive pricing_chain :: "nat \<Rightarrow> nat \<Rightarrow> nat \<Rightarrow> decisions_dbs \<Rightarrow> bool" for g where
  genesis: "connect_decisions 0 g g [] (new_with_config cfg) = Inr dbs
    \<Longrightarrow> db_current_period (new_with_config cfg) g (Some 0) g = Inr c \<Longrightarrow> c + 21 < 2 ^ 32
    \<Longrightarrow> pricing_chain g c g dbs"
| block: "pricing_chain g c ts dbs \<Longrightarrow> 0 < h \<Longrightarrow> validated_claims ts h g claims dbs
    \<Longrightarrow> connect_decisions h ts' g claims dbs = Inr dbs'
    \<Longrightarrow> db_current_period dbs ts' (Some h) g = Inr c' \<Longrightarrow> c' \<le> c + 1 \<Longrightarrow> max c c' + 21 < 2 ^ 32
    \<Longrightarrow> pricing_chain g (max c c') ts' dbs'"
| resolve: "pricing_chain g c ts dbs \<Longrightarrow> transition_decision_to_resolved d h v dbs = Inr dbs'
    \<Longrightarrow> pricing_chain g c ts dbs'"

definition claims_fit :: "decisions_dbs \<Rightarrow> nat \<Rightarrow> bool" where
  "claims_fit dbs p \<longleftrightarrow>
     (\<forall>pr. get_period_pricing dbs p = Some pr \<longrightarrow>
        {d \<in> claimed_ids dbs p. is_standard d} \<subseteq> slot_set p (mints pr)
        \<and> claimed pr = card {d \<in> claimed_ids dbs p. is_standard d})"

definition chain_inv :: "nat \<Rightarrow> decisions_dbs \<Rightarrow> bool" where
  "chain_inv c dbs \<longleftrightarrow> c + 21 < 2 ^ 32 \<and> pricing_window c dbs \<and> (\<forall>p \<in> {c..c + 19}. claims_fit dbs p)"

lemma chain_inv_cong:
  assumes "chain_inv c dbs" and "period_decisions dbs' = period_decisions dbs"
    and "period_pricing_db dbs' = period_pricing_db dbs"
  shows "chain_inv c dbs'"
proof -
  have "get_period_pricing dbs' p = get_period_pricing dbs p" for p
    using assms(3) by (simp add: get_period_pricing_def)
  moreover have "claimed_ids dbs' p = claimed_ids dbs p" for p
    using assms(2) by (rule claimed_ids_cong)
  moreover have "highest_existing dbs' = highest_existing dbs"
    using assms(2) by (simp add: highest_existing_eq)
  ultimately show ?thesis
    using assms(1) by (simp add: chain_inv_def pricing_window_def priced_period_def claims_fit_def)
qed

lemma chain_inv_snapshot: "chain_inv c dbs \<Longrightarrow> chain_inv c (snapshot_period_pricing h dbs)"
  by (erule chain_inv_cong) (simp_all add: snapshot_period_pricing_def)

lemma chain_inv_genesis:
  assumes "db_current_period new ts (Some h) g = Inr c" and "c + 21 < 2 ^ 32"
    and "mint_genesis ts h g new = Inr dbs" and "period_decisions new = db_empty" and "period_pricing_db new = db_empty"
  shows "chain_inv c dbs" and "config dbs = config new"
proof -
  have w: "pricing_window c dbs"
    using mint_genesis_window [OF assms(1) _ assms(4,5)] assms(2,3) by auto
  have h0: "highest_existing new = 0"
    by (simp add: highest_existing_eq assms(4) db_keys_def)
  have dbs: "dbs = fold (mint_genesis_period c h) (range_incl c (c + 19))
      (mint_periods_up_to (c + 19) new)"
    using assms window_end_exact [of c] by (simp add: mint_genesis_def)
  have "period_decisions dbs = period_decisions (mint_periods_up_to (c + 19) new)"
    using genesis.frame_fold [of c h "range_incl c (c + 19)"] by (simp add: dbs dbs_frame_def)
  from claimed_ids_cong [OF this] have "claimed_ids dbs p = claimed_ids new p" for p
    using claimed_ids_mint [of new "c + 19" p] h0 by simp
  then have "claimed_ids dbs p = {}" for p
    by (simp add: claimed_ids_eq entries_of_period_def assms(4))
  moreover have none: "get_period_pricing new p = None" for p
    by (simp add: get_period_pricing_def assms(5))
  have "claimed pr = 0" if "p \<in> {c..c + 19}" "get_period_pricing dbs p = Some pr" for p pr
    using that by (auto simp: dbs genesis.get_fold none genesis_pricing_def)
  ultimately have "claims_fit dbs p" if "p \<in> {c..c + 19}" for p
    using that by (auto simp: claims_fit_def)
  with w assms(2) show "chain_inv c dbs" by (simp add: chain_inv_def)
  show "config dbs = config new" using genesis.frame_fold [of c h "range_incl c (c + 19)"] by (simp add: dbs dbs_frame_def)
qed

lemma chain_inv_block:
  assumes inv: "chain_inv c dbs" and cur: "db_current_period dbs ts (Some h) g = Inr c'"
    and step: "c' \<le> c + 1" and b: "max c c' + 21 < 2 ^ 32"
    and p: "process_block_pricing h ts g dbs = Inr dbs'"
  shows "chain_inv (max c c') dbs'"
proof -
  have w: "pricing_window c dbs" and c: "c + 21 < 2 ^ 32" and fit: "\<forall>p \<in> {c..c + 19}. claims_fit dbs p"
    using inv by (auto simp: chain_inv_def)
  have w': "pricing_window (max c c') dbs'"
    using process_block_pricing_window [OF w c cur step] p by auto
  have hi: "highest_existing dbs = c + 19" using w by (simp add: pricing_window_def)
  have "period_decisions dbs' = period_decisions (mint_periods_up_to (window_end c') dbs)"
    using process_frame [OF p cur] by (simp add: dbs_frame_def)
  from claimed_ids_cong [OF this] have ids: "claimed_ids dbs' q = claimed_ids dbs q" for q
    using claimed_ids_mint [of dbs "window_end c'" q] hi c by simp
  have "claims_fit dbs' q" if q: "q \<in> {max c c'..max c c' + 19}" for q
  proof (cases "q \<le> c + 19")
    case True
    with q step have "c \<le> q" by auto
    obtain pr where pr: "get_period_pricing dbs q = Some pr" "mints pr = c + 20 - q"
      using pricing_windowE [OF w \<open>c \<le> q\<close> True] by blast
    obtain pr' where pr': "get_period_pricing dbs' q = Some pr'" "mints pr' = max c c' + 20 - q"
      using pricing_windowE [OF w'] q by auto
    have "claimed pr' = claimed pr"
      using process_claimed [OF p, of q] True hi c pr pr' by simp
    moreover have "slot_set q (mints pr) \<subseteq> slot_set q (mints pr')"
      using pr(2) pr'(2) q step by (intro slot_set_mono) auto
    moreover have "claims_fit dbs q" using fit \<open>c \<le> q\<close> True by simp
    ultimately show ?thesis
      using pr(1) pr'(1) by (auto simp: claims_fit_def ids)
  next
    case False
    with q step have q20: "q = c + 20" and c': "c' = c + 1" by auto
    have "db_get (period_decisions dbs) q = None"
      using highest_existing_le [of dbs q] hi False by (cases "db_get (period_decisions dbs) q") auto
    then have "claimed_ids dbs q = {}" by (simp add: claimed_ids_eq entries_of_period_def)
    then have "claimed_ids dbs' q = {}" by (simp only: ids)
    moreover have "map_option claimed (get_period_pricing dbs' q) = Some 0"
    proof -
      have "dbs' = transition_pricing (c + 1) c (c + 19) h
          (mint_periods_up_to (window_end (c + 1)) dbs)"
        using p cur c' hi c
        by (simp add: process_block_pricing_def Let_def saturating_sub_def FUTURE_PERIODS_def
            highest_existing_def)
      then show ?thesis using transition_seeds_unclaimed [OF c] q20 by simp
    qed
    ultimately show ?thesis by (auto simp: claims_fit_def)
  qed
  with w' b show ?thesis by (simp add: chain_inv_def)
qed

lemma claim_highest:
  assumes "claim_decision d dec t hh dbs = Inr dbs'" and "period_index d \<le> highest_existing dbs"
    and "0 < highest_existing dbs"
  shows "highest_existing dbs' = highest_existing dbs"
proof -
  have eq: "db_get (period_decisions dbs') q = (if q = period_index d
      then Some (oset_insert (DecisionEntry d (Some dec) t) (entries_of_period dbs (period_index d)))
      else db_get (period_decisions dbs) q)" for q
    using claim_decision_cases(1) [OF assms(1)] by (simp add: record_claim_def)
  obtain e where "db_get (period_decisions dbs) (highest_existing dbs) = Some e"
    using highest_existing_witness [OF assms(3)] by blast
  then have "\<exists>e. db_get (period_decisions dbs') (highest_existing dbs) = Some e" by (simp add: eq)
  moreover have "q \<le> highest_existing dbs" if "db_get (period_decisions dbs') q = Some e" for q e
    using that assms(2) highest_existing_le [of dbs q] by (auto simp: eq split: if_splits)
  ultimately show ?thesis using highest_existing_eqI by blast
qed

text \<open>A claim whose period is minted, whose slot is unlocked if it is a standard decision, and which is not claimed yet.\<close>

definition claimable :: "nat \<Rightarrow> decisions_dbs \<Rightarrow> decision_id \<Rightarrow> bool" where
  "claimable c dbs d \<longleftrightarrow> period_index d \<le> c + 19 \<and> d \<notin> claimed_ids dbs (period_index d)
     \<and> (is_standard d \<longrightarrow> (\<exists>pr. get_period_pricing dbs (period_index d) = Some pr \<and> slot_unlocked (decision_index d) (mints pr)))"

lemma chain_inv_claim:
  assumes inv: "chain_inv c dbs" and ok: "claimable c dbs d" and cl: "claim_decision d dec t hh dbs = Inr dbs'"
  shows "chain_inv c dbs'"
proof -
  let ?p = "period_index d"
  have w: "pricing_window c dbs" and c: "c + 21 < 2 ^ 32" and fit: "\<forall>p \<in> {c..c + 19}. claims_fit dbs p"
    using inv by (auto simp: chain_inv_def)
  have hi: "highest_existing dbs = c + 19" using w by (simp add: pricing_window_def)
  have "?p \<le> c + 19" using ok by (simp add: claimable_def)
  then have "highest_existing dbs' = c + 19" using claim_highest [OF cl] hi by simp
  moreover have pr': "get_period_pricing dbs' q = (if is_standard d \<and> q = ?p
      then map_option (\<lambda>pr. pr \<lparr> claimed := saturating_add 64 (claimed pr) 1 \<rparr>) (get_period_pricing dbs q)
      else get_period_pricing dbs q)" for q
    by (rule claim_decision_cases(4) [OF cl])
  moreover have ids: "claimed_ids dbs' q = (if q = ?p then insert d (claimed_ids dbs q)
      else claimed_ids dbs q)" for q
    using claimed_ids_cong [OF claim_decision_cases(1) [OF cl]] claimed_ids_record_claim by simp
  have "priced_period c dbs' q \<and> claims_fit dbs' q" if q: "q \<in> {c..c + 19}" for q
  proof -
    let ?S = "{d' \<in> claimed_ids dbs q. is_standard d'}"
    obtain pr where pr: "get_period_pricing dbs q = Some pr" "mints pr = c + 20 - q" "pricing_ok pr"
      using pricing_windowE [OF w] q by auto
    have S: "?S \<subseteq> slot_set q (mints pr)" "claimed pr = card ?S"
      using fit q pr(1) by (auto simp: claims_fit_def)
    show ?thesis
    proof (cases "is_standard d \<and> q = ?p")
      case True
      have "card ?S \<le> card (slot_set q (mints pr))"
        using S(1) slot_set_card(1) [of "mints pr" q] pr(2) q True period_index_less [of d]
        by (intro card_mono) auto
      then have "card ?S \<le> 500"
        using slot_set_card(2) [of "mints pr" q] pr(2) q True period_index_less [of d] by auto
      then have "saturating_add 64 (claimed pr) 1 = card ?S + 1"
        using S(2) by (simp add: saturating_add_def)
      moreover have "{d' \<in> claimed_ids dbs' q. is_standard d'} = insert d ?S" "d \<notin> ?S"
        using True ids ok by (auto simp: claimable_def)
      moreover have "d \<in> slot_set q (mints pr)"
        using True ok pr(1) by (auto simp: slot_set_def claimable_def)
      ultimately show ?thesis
        using True pr S
        by (auto simp: priced_period_def claims_fit_def pr' pricing_ok_def)
    next
      case False
      then have "{d' \<in> claimed_ids dbs' q. is_standard d'} = ?S" by (auto simp: ids)
      with False pr S show ?thesis by (auto simp: priced_period_def claims_fit_def pr')
    qed
  qed
  ultimately show ?thesis using c by (simp add: chain_inv_def pricing_window_def)
qed

lemma claimable_cong:
  assumes "period_decisions dbs' = period_decisions dbs" and "period_pricing_db dbs' = period_pricing_db dbs"
  shows "claimable c dbs' d = claimable c dbs d"
  using claimed_ids_cong [OF assms(1)] assms(2) by (simp add: claimable_def get_period_pricing_def)

lemma claimable_other:
  assumes "claimable c dbs d'" and "d \<noteq> d'" and "claim_decision d dec t hh dbs = Inr dbs'"
  shows "claimable c dbs' d'"
proof -
  have "d' \<notin> claimed_ids dbs' (period_index d')"
    using assms(1,2) claimed_ids_cong [OF claim_decision_cases(1) [OF assms(3)]] by (auto simp: claimable_def claimed_ids_record_claim)
  then show ?thesis
    using assms(1) unfolding claimable_def claim_decision_cases(4) [OF assms(3)] by auto
qed

lemma chain_inv_claims:
  assumes "chain_inv c dbs" and "\<forall>claim \<in> set claims. claimable c dbs (fst claim)" and "distinct (map fst claims)"
    and "try_fold (\<lambda>(d, dec, txid). claim_decision d dec txid hh) claims dbs = Inr dbs'"
  shows "chain_inv c dbs'"
  using assms
proof (induction claims arbitrary: dbs)
  case (Cons claim claims)
  obtain d dec t where claim: "claim = (d, dec, t)" by (cases claim)
  obtain dbs1 where one: "claim_decision d dec t hh dbs = Inr dbs1"
    and rest: "try_fold (\<lambda>(d, dec, txid). claim_decision d dec txid hh) claims dbs1 = Inr dbs'"
    using Cons.prems(4) by (auto simp: claim)
  have "chain_inv c dbs1" by (rule chain_inv_claim [OF Cons.prems(1) _ one]) (use Cons.prems(2) in \<open>simp add: claim\<close>)
  moreover have "\<forall>x \<in> set claims. claimable c dbs1 (fst x)"
  proof
    fix x assume x: "x \<in> set claims"
    then have "d \<noteq> fst x" using Cons.prems(3) by (auto simp: claim)
    then show "claimable c dbs1 (fst x)" using claimable_other [OF _ _ one] Cons.prems(2) x by simp
  qed
  ultimately show ?case using Cons.IH [OF _ _ _ rest] Cons.prems(3) by simp
qed simp

text \<open>The steps of a block before the claims leave the tables of entries and prices alone.\<close>

lemma voting_tables:
  "transition_decision_to_voting d h dbs = Inr dbs' \<Longrightarrow>
     period_decisions dbs' = period_decisions dbs \<and> period_pricing_db dbs' = period_pricing_db dbs \<and> config dbs' = config dbs"
  by (auto simp: transition_decision_to_voting_def)

lemma votings_tables:
  "try_fold (\<lambda>d. transition_decision_to_voting d h) ds dbs = Inr dbs' \<Longrightarrow>
     period_decisions dbs' = period_decisions dbs \<and> period_pricing_db dbs' = period_pricing_db dbs \<and> config dbs' = config dbs"
proof (induction ds arbitrary: dbs)
  case (Cons d ds)
  obtain dbs1 where "transition_decision_to_voting d h dbs = Inr dbs1"
    "try_fold (\<lambda>d. transition_decision_to_voting d h) ds dbs1 = Inr dbs'" using Cons.prems by auto
  then show ?case using Cons.IH voting_tables by metis
qed simp

lemma claims_config:
  "try_fold (\<lambda>(d, dec, txid). claim_decision d dec txid hh) claims dbs = Inr dbs' \<Longrightarrow> config dbs' = config dbs"
proof (induction claims arbitrary: dbs)
  case (Cons claim claims)
  obtain d dec t where claim: "claim = (d, dec, t)" by (cases claim)
  obtain dbs1 where "claim_decision d dec t hh dbs = Inr dbs1"
    "try_fold (\<lambda>(d, dec, txid). claim_decision d dec txid hh) claims dbs1 = Inr dbs'" using Cons.prems by (auto simp: claim)
  then show ?case using Cons.IH claim_decision_cases(3) by metis
qed simp

lemma connect_decisionsE:
  assumes "connect_decisions h ts g claims dbs = Inr dbs'"
  obtains dbs1 dbs2 where "period_decisions dbs1 = period_decisions dbs" "period_pricing_db dbs1 = period_pricing_db dbs"
    "try_fold (\<lambda>(d, dec, txid). claim_decision d dec txid (Some h)) claims dbs1 = Inr dbs2" "config dbs2 = config dbs"
    "(if h = 0 then mint_genesis ts h g dbs2 else process_block_pricing h ts g dbs2) = Inr dbs'"
proof -
  let ?dbs0 = "snapshot_period_pricing h dbs"
  obtain current dbs1 dbs2 where v: "try_fold (\<lambda>d. transition_decision_to_voting d h) (get_claimed_decisions_needing_voting ?dbs0 current) ?dbs0 = Inr dbs1"
    and c: "try_fold (\<lambda>(d, dec, txid). claim_decision d dec txid (Some h)) claims dbs1 = Inr dbs2"
    and m: "(if h = 0 then mint_genesis ts h g dbs2 else process_block_pricing h ts g dbs2) = Inr dbs'"
    using assms by (auto simp: connect_decisions_def Let_def)
  have "period_decisions dbs1 = period_decisions dbs" "period_pricing_db dbs1 = period_pricing_db dbs" "config dbs2 = config dbs"
    using votings_tables [OF v] claims_config [OF c] by (simp_all add: snapshot_period_pricing_def)
  then show thesis using that c m by blast
qed

lemma chain_inv_connect:
  assumes "chain_inv c dbs" and "connect_decisions h ts g claims dbs = Inr dbs'" and "0 < h"
    and "\<forall>claim \<in> set claims. claimable c dbs (fst claim)" and "distinct (map fst claims)"
    and "db_current_period dbs ts (Some h) g = Inr c'" and "c' \<le> c + 1" and "max c c' + 21 < 2 ^ 32"
  shows "chain_inv (max c c') dbs'" and "config dbs' = config dbs"
proof -
  obtain dbs1 dbs2 where t: "period_decisions dbs1 = period_decisions dbs" "period_pricing_db dbs1 = period_pricing_db dbs"
      "try_fold (\<lambda>(d, dec, txid). claim_decision d dec txid (Some h)) claims dbs1 = Inr dbs2" "config dbs2 = config dbs"
    and p: "process_block_pricing h ts g dbs2 = Inr dbs'"
    by (rule connect_decisionsE [OF assms(2)]) (use assms(3) in simp)
  have "chain_inv c dbs1" by (rule chain_inv_cong [OF assms(1) t(1,2)])
  then have inv: "chain_inv c dbs2"
    by (rule chain_inv_claims [OF _ _ assms(5) t(3)]) (use assms(4) claimable_cong [OF t(1,2)] in simp)
  have cur: "db_current_period dbs2 ts (Some h) g = Inr c'" using assms(6) t(4) by (simp add: db_current_period_def)
  show "chain_inv (max c c') dbs'" by (rule chain_inv_block [OF inv cur assms(7,8) p])
  show "config dbs' = config dbs" using process_frame [OF p cur] t(4) by (simp add: dbs_frame_def)
qed

text \<open>
  On the timestamp clock the claims of a block are validated in the period of the block before, so they lie
  in periods that are minted already. The block clock gives no such bound, since it reads the height of
  the new block.
\<close>

lemma validated_claimable:
  assumes "validated_claims ts h g claims dbs" and "db_current_period dbs ts (Some h) g = Inr k" and "k \<le> c" and "c + 21 < 2 ^ 32"
  shows "\<forall>claim \<in> set claims. claimable c dbs (fst claim)"
proof
  fix claim assume "claim \<in> set claims"
  then have "validate_decision_claim dbs (fst claim) ts (Some h) g = Inr ()" using assms(1) by (simp add: validated_claims_def list_all_iff)
  then show "claimable c dbs (fst claim)"
    using validate_decision_claim_ok [OF assms(2), of "fst claim" "()"] window_end_exact [of k] assms(3,4) by (auto simp: claimable_def)
qed

lemma time_clock: "\<not> is_blocks (config dbs) \<Longrightarrow> db_current_period dbs ts hh g = db_current_period dbs ts hh' g"
  by (simp add: db_current_period_def get_current_period_def)

lemma pricing_chain_inv:
  assumes "pricing_chain g c ts dbs" and "\<not> is_blocks (config dbs)"
  shows "chain_inv c dbs \<and> (\<forall>hh. \<exists>k \<le> c. db_current_period dbs ts hh g = Inr k)"
  using assms
proof (induction rule: pricing_chain.induct)
  case (genesis cfg dbs c)
  let ?new = "snapshot_period_pricing 0 (new_with_config cfg)"
  have new: "period_decisions ?new = db_empty" "period_pricing_db ?new = db_empty" "config ?new = cfg"
    by (simp_all add: snapshot_period_pricing_def new_with_config_def)
  have "mint_genesis g 0 g ?new = Inr dbs"
    using genesis.hyps(1)
    by (auto simp: connect_decisions_def Let_def get_claimed_decisions_needing_voting_def decisions_needing_transition_def
        snapshot_period_pricing_def new_with_config_def)
  moreover have cur: "db_current_period ?new g (Some 0) g = Inr c"
    using genesis.hyps(2) by (simp add: db_current_period_def new(3)) (simp add: new_with_config_def)
  ultimately have inv: "chain_inv c dbs" "config dbs = cfg"
    using chain_inv_genesis [OF cur genesis.hyps(3) _ new(1,2)] new(3) by simp_all
  have "db_current_period dbs g hh g = Inr c" for hh
    using time_clock [OF genesis.prems, of g hh g "Some 0"] cur inv(2) by (simp add: db_current_period_def new(3))
  then show ?case using inv(1) by blast
next
  case (block c ts dbs h claims ts' dbs' c')
  obtain dbs1 dbs2 where "config dbs2 = config dbs" "process_block_pricing h ts' g dbs2 = Inr dbs'"
    by (rule connect_decisionsE [OF block.hyps(4)]) (use block.hyps(2) in simp)
  moreover from this have "db_current_period dbs2 ts' (Some h) g = Inr c'" using block.hyps(5) by (simp add: db_current_period_def)
  ultimately have "config dbs' = config dbs" using process_frame by (force simp: dbs_frame_def)
  then have time: "\<not> is_blocks (config dbs)" using block.prems by simp
  then obtain k where k: "db_current_period dbs ts (Some h) g = Inr k" "k \<le> c" and inv: "chain_inv c dbs" using block.IH by blast
  have "c + 21 < 2 ^ 32" using inv by (simp add: chain_inv_def)
  note cl = validated_claimable [OF block.hyps(3) k this]
  have "distinct (map fst claims)" using block.hyps(3) by (simp add: validated_claims_def)
  note new = chain_inv_connect [OF inv block.hyps(4,2) cl this block.hyps(5-7)]
  have "db_current_period dbs' ts' hh g = Inr c'" for hh
    using time_clock [OF time, of ts' hh g "Some h"] block.hyps(5) new(2) by (simp add: db_current_period_def)
  then show ?case using new(1) by auto
next
  case (resolve c ts dbs d h v dbs')
  have same: "period_decisions dbs' = period_decisions dbs" "period_pricing_db dbs' = period_pricing_db dbs" "config dbs' = config dbs"
    using resolve.hyps(2) by (auto simp: transition_decision_to_resolved_def)
  then show ?case using resolve.IH resolve.prems chain_inv_cong [OF _ same(1,2)] by (simp add: db_current_period_def)
qed

text \<open>
  C1. Along every chain of blocks on the timestamp clock, the production configuration, whose clock advances by
  at most one period per block (it may go back), the pricing table covers exactly what the slot schedule
  promises. Let \<open>c\<close> be the latest period that the clock has shown. The highest minted period is nineteen
  ahead of \<open>c\<close>; every period of the window from \<open>c\<close> that an identifier can name (below 128) has a pricing
  record; its capacity equals the declining schedule \<open>500 - 25 * offset\<close>; its claim counter is the number
  of standard decisions claimed in it, which never exceeds the capacity; and its price is not below its floor.
\<close>

theorem pricing_chain_capacity:
  assumes "pricing_chain g c ts dbs" and "\<not> is_blocks (config dbs)" and "c \<le> p" and "p \<le> c + 19" and "p < 128"
  shows "get_highest_minted_period dbs = Some (c + 19)
    \<and> (\<exists>pr. get_period_pricing dbs p = Some pr
        \<and> period_capacity pr = calculate_available_decisions p c
        \<and> claimed pr = get_standard_claimed_count_in_period dbs p
        \<and> claimed pr \<le> period_capacity pr
        \<and> p_floor pr \<le> p_period pr)"
proof -
  have w: "pricing_window c dbs" and fit: "claims_fit dbs p"
    using pricing_chain_inv [OF assms(1,2)] assms(3,4) by (auto simp: chain_inv_def)
  obtain pr where pr: "get_period_pricing dbs p = Some pr" "mints pr = c + 20 - p" "pricing_ok pr"
    using pricing_windowE [OF w assms(3,4)] .
  have m: "mints pr \<le> 20" using pr(2) assms(3) by simp
  have cap: "period_capacity pr = 25 * mints pr"
    using m by (simp add: period_capacity_def decision_consts)
  have "calculate_available_decisions p c = 500 - (p - c) * 25"
    using assms(3,4)
    by (simp add: calculate_available_decisions_def saturating_sub_def FUTURE_PERIODS_def
        INITIAL_DECISIONS_PER_PERIOD_def DECISIONS_DECLINING_RATE_def)
  moreover have "\<dots> = 25 * mints pr" using assms(3,4) pr(2) by simp
  moreover have "claimed pr \<le> 25 * mints pr"
    using fit pr(1) card_mono [OF slot_set_card(1) [OF m assms(5)]] slot_set_card(2) [OF m assms(5)]
    by (auto simp: claims_fit_def)
  moreover have "claimed pr = get_standard_claimed_count_in_period dbs p"
    using fit pr(1) by (simp add: claims_fit_def standard_count_eq)
  moreover have "get_highest_minted_period dbs = Some (c + 19)"
    using w by (cases "get_highest_minted_period dbs") (auto simp: pricing_window_def highest_existing_def)
  ultimately show ?thesis using pr cap by (auto simp: pricing_ok_def)
qed

text \<open>Examples: the first block on either clock.\<close>

lemma genesis_chain_example:
  "\<exists>dbs. connect_decisions 0 1000 1000 [] (new_with_config production) = Inr dbs \<and> pricing_chain 1000 1 1000 dbs \<and> config dbs = production"
proof -
  let ?new = "snapshot_period_pricing 0 (new_with_config production)"
  have new: "period_decisions ?new = db_empty" "period_pricing_db ?new = db_empty" "config ?new = production"
    by (simp_all add: snapshot_period_pricing_def new_with_config_def)
  have clock: "get_current_period 1000 (Some 0) 1000 production = Inr 1"
    by (simp add: get_current_period_def production_def SECONDS_PER_QUARTER_def)
  then have cur: "db_current_period ?new 1000 (Some 0) 1000 = Inr 1" "db_current_period (new_with_config production) 1000 (Some 0) 1000 = Inr 1"
    by (simp_all add: db_current_period_def new(3)) (simp add: new_with_config_def)
  from mint_genesis_window [OF cur(1) _ new(1,2)] obtain dbs where dbs: "mint_genesis 1000 0 1000 ?new = Inr dbs" by auto
  have "get_claimed_decisions_needing_voting ?new 1 = []"
    by (simp add: get_claimed_decisions_needing_voting_def decisions_needing_transition_def snapshot_period_pricing_def new_with_config_def)
  then have con: "connect_decisions 0 1000 1000 [] (new_with_config production) = Inr dbs"
    using dbs cur(1) by (simp add: connect_decisions_def Let_def)
  moreover have "pricing_chain 1000 1 1000 dbs" by (rule pricing_chain.genesis [OF con cur(2)]) simp
  moreover have "config dbs = production" using chain_inv_genesis(2) [OF cur(1) _ dbs new(1,2)] new(3) by simp
  ultimately show ?thesis by blast
qed

theorem pricing_chain_capacity_witness:
  "\<exists>dbs pr. connect_decisions 0 1000 1000 [] (new_with_config production) = Inr dbs
     \<and> get_highest_minted_period dbs = Some 20
     \<and> get_period_pricing dbs 5 = Some pr \<and> period_capacity pr = 400"
proof -
  obtain dbs where dbs: "connect_decisions 0 1000 1000 [] (new_with_config production) = Inr dbs"
    and ch: "pricing_chain 1000 1 1000 dbs" and cfg: "config dbs = production"
    using genesis_chain_example by blast
  have "calculate_available_decisions 5 1 = 400"
    by (simp add: calculate_available_decisions_def saturating_sub_def FUTURE_PERIODS_def
        INITIAL_DECISIONS_PER_PERIOD_def DECISIONS_DECLINING_RATE_def)
  moreover have "\<not> is_blocks (config dbs)" by (simp add: cfg production_def)
  ultimately show ?thesis using pricing_chain_capacity [OF ch, of 5] dbs by auto
qed

lemma testing_genesis_example:
  "\<exists>dbs. mint_genesis 0 0 0 (new_with_config (testing 10)) = Inr dbs \<and> chain_inv 1 dbs"
proof -
  let ?new = "new_with_config (testing 10)"
  have cur: "db_current_period ?new 0 (Some 0) 0 = Inr 1"
    by (simp add: db_current_period_def get_current_period_def new_with_config_def testing_def
        checked_div_def)
  have new: "period_decisions ?new = db_empty" "period_pricing_db ?new = db_empty" by (simp_all add: new_with_config_def)
  from mint_genesis_window [OF cur _ new] obtain dbs where dbs: "mint_genesis 0 0 0 ?new = Inr dbs" by auto
  with chain_inv_genesis(1) [OF cur _ dbs new] show ?thesis by auto
qed

section \<open>A claim that suppresses a mint\<close>

lemma claims_mints:
  "try_fold (\<lambda>(d, dec, txid). claim_decision d dec txid hh) claims dbs = Inr dbs' \<Longrightarrow>
     map_option mints (get_period_pricing dbs' p) = map_option mints (get_period_pricing dbs p)"
proof (induction claims arbitrary: dbs)
  case (Cons claim claims)
  obtain d dec t where claim: "claim = (d, dec, t)" by (cases claim)
  obtain dbs1 where one: "claim_decision d dec t hh dbs = Inr dbs1"
    "try_fold (\<lambda>(d, dec, txid). claim_decision d dec txid hh) claims dbs1 = Inr dbs'" using Cons.prems by (auto simp: claim)
  have "map_option mints (get_period_pricing dbs1 p) = map_option mints (get_period_pricing dbs p)"
    by (simp add: claim_decision_cases(4) [OF one(1)] option.map_comp o_def)
  then show ?case using Cons.IH [OF one(2)] by simp
qed simp

lemma claims_rows:
  "try_fold (\<lambda>(d, dec, txid). claim_decision d dec txid hh) claims dbs = Inr dbs' \<Longrightarrow>
     db_get (period_decisions dbs') q \<noteq> None \<longleftrightarrow> db_get (period_decisions dbs) q \<noteq> None \<or> q \<in> (\<lambda>claim. period_index (fst claim)) ` set claims"
proof (induction claims arbitrary: dbs)
  case (Cons claim claims)
  obtain d dec t where claim: "claim = (d, dec, t)" by (cases claim)
  obtain dbs1 where one: "claim_decision d dec t hh dbs = Inr dbs1"
    "try_fold (\<lambda>(d, dec, txid). claim_decision d dec txid hh) claims dbs1 = Inr dbs'" using Cons.prems by (auto simp: claim)
  have "db_get (period_decisions dbs1) q \<noteq> None \<longleftrightarrow> db_get (period_decisions dbs) q \<noteq> None \<or> q = period_index d"
    using claim_decision_cases(1) [OF one(1)] by (auto simp: record_claim_def)
  then show ?case using Cons.IH [OF one(2)] by (auto simp: claim)
qed simp

text \<open>
  On the block clock a block that enters a new period is validated with the window of that period. A claim in
  the period that the block is about to mint (only an unpriced, non-standard one is accepted there) creates
  the row of that period, so that the minting of the same block takes the period for minted: no period
  receives its mint, the new period has no price, and no standard decision can be claimed in it.
\<close>

theorem claim_suppresses_mint:
  assumes "chain_inv c dbs" and "c + 22 < 2 ^ 32" and "is_blocks (config dbs)" and "validated_claims ts h g claims dbs" and "0 < h"
    and "db_current_period dbs ts' (Some h) g = Inr (c + 1)" and "connect_decisions h ts' g claims dbs = Inr dbs'"
    and "claim \<in> set claims" and "period_index (fst claim) = c + 20" and "get_period_pricing dbs (c + 20) = None"
  shows "get_highest_minted_period dbs' = Some (c + 20) \<and> get_period_pricing dbs' (c + 20) = None
    \<and> (\<forall>p \<in> {c + 1..c + 19}. \<exists>pr. get_period_pricing dbs' p = Some pr \<and> mints pr = c + 20 - p)"
proof -
  have w: "pricing_window c dbs" using assms(1) by (simp add: chain_inv_def)
  obtain dbs1 dbs2 where t: "period_decisions dbs1 = period_decisions dbs" "period_pricing_db dbs1 = period_pricing_db dbs"
      "try_fold (\<lambda>(d, dec, txid). claim_decision d dec txid (Some h)) claims dbs1 = Inr dbs2" "config dbs2 = config dbs"
    and p: "process_block_pricing h ts' g dbs2 = Inr dbs'"
    by (rule connect_decisionsE [OF assms(7)]) (use assms(5) in simp)
  have cur: "db_current_period dbs ts (Some h) g = Inr (c + 1)" "db_current_period dbs2 ts' (Some h) g = Inr (c + 1)"
    using assms(3,6) t(4) by (simp_all add: db_current_period_def get_current_period_def)
  have win: "window_end (c + 1) = c + 20" using window_end_exact [of "c + 1"] assms(2) by simp
  have claims: "period_index (fst x) \<le> c + 20" if "x \<in> set claims" for x
    using assms(4) that validate_decision_claim_ok [OF cur(1), of "fst x" "()"] win by (simp add: validated_claims_def list_all_iff)
  have old: "q \<le> c + 19" if "db_get (period_decisions dbs) q \<noteq> None" for q
    using that highest_existing_le [of dbs q] w by (auto simp: pricing_window_def)
  have rows: "db_get (period_decisions dbs2) q \<noteq> None \<longleftrightarrow> db_get (period_decisions dbs) q \<noteq> None \<or> q \<in> (\<lambda>x. period_index (fst x)) ` set claims" for q
    using claims_rows [OF t(3), of q] t(1) by simp
  have "db_get (period_decisions dbs2) (c + 20) \<noteq> None" unfolding rows using assms(8,9) by force
  moreover have "q \<le> c + 20" if "db_get (period_decisions dbs2) q = Some e" for q e
    using that rows [of q] old [of q] claims by fastforce
  ultimately have hi: "highest_existing dbs2 = c + 20" using highest_existing_eqI by blast
  let ?m = "mint_periods_up_to (c + 20) dbs2"
  have mints: "map_option mints (get_period_pricing dbs2 q) = map_option mints (get_period_pricing dbs q)" for q
    using claims_mints [OF t(3), of q] t(2) by (simp add: get_period_pricing_def)
  have win': "window_end (Suc c) = c + 20" using win by simp
  have step: "dbs' = ?m \<or> dbs' = fold (reprice_period h) (range_incl (c + 1) (c + 20)) ?m"
    using p cur(2) hi assms(2) by (auto simp: process_block_pricing_def Let_def win' highest_existing_def saturating_sub_def FUTURE_PERIODS_def
        split: if_splits)
  then have same: "map_option mints (get_period_pricing dbs' q) = map_option mints (get_period_pricing dbs q)" for q
    using mints [of q] by (auto simp: repricing.get_fold option.map_comp o_def)
  have "highest_existing dbs' = highest_existing ?m" using step frame_highest [OF repricing.frame_fold] by auto
  then have "highest_existing dbs' = c + 20" using highest_existing_mint [of dbs2 "c + 20"] hi assms(2) by simp
  then have "get_highest_minted_period dbs' = Some (c + 20)" by (cases "get_highest_minted_period dbs'") (auto simp: highest_existing_def)
  moreover have "\<exists>pr. get_period_pricing dbs' q = Some pr \<and> mints pr = c + 20 - q" if q: "q \<in> {c + 1..c + 19}" for q
  proof -
    obtain pr where "get_period_pricing dbs q = Some pr" "mints pr = c + 20 - q" using pricing_windowE [OF w, of q] q by auto
    then show ?thesis using same [of q] by auto
  qed
  moreover have "get_period_pricing dbs' (c + 20) = None" using same [of "c + 20"] assms(10) by simp
  ultimately show ?thesis by blast
qed

section \<open>The life of a claim\<close>

lemma fee_for_unlocked:
  assumes "slot_unlocked i m" shows "\<exists>fee. fee_for_index p m i = Inr fee"
proof -
  have "i < 500" using assms by (auto simp: slot_unlocked_def decision_consts split: if_splits)
  then have "tier_for_index i = Inr (i div 100)" "i div 100 < TIER_COUNT"
    by (simp_all add: tier_for_index_def decision_consts)
  with assms slot_price_ok [of "i div 100" p] show ?thesis by (simp add: fee_for_index_def)
qed

text \<open>
  C7. A validated claim of a standard decision goes through and is final: a fee is defined for
  it, recording it succeeds, the entry with its transaction is found afterwards, the decision is
  in state \<open>Claimed\<close>, and any further claim of the same decision in the same period is refused
  as already claimed.
\<close>

theorem validated_claim_succeeds:
  assumes "validate_decision_claim dbs d ts (Some h) g = Inr ()"
    and "is_standard d" and "get_decision_entry dbs d = None"
  shows "\<exists>fee dbs'. fee_for_decision_id dbs d = Inr fee
    \<and> claim_decision d dec t (Some h) dbs = Inr dbs'
    \<and> get_decision_entry dbs' d = Some (DecisionEntry d (Some dec) t)
    \<and> get_decision_current_state dbs' d = Claimed
    \<and> validate_decision_claim dbs' d ts (Some h) g = Inl (DecisionAlreadyClaimed d)"
proof -
  let ?p = "period_index d" and ?e = "DecisionEntry d (Some dec) t"
  obtain c where cur: "db_current_period dbs ts (Some h) g = Inr c"
    using assms(1) by (auto simp: validate_decision_claim_def)
  note ok = iffD1 [OF validate_decision_claim_ok [OF cur] assms(1)]
  with assms(2) obtain pr where pr: "get_period_pricing dbs ?p = Some pr"
    "slot_unlocked (decision_index d) (mints pr)" by blast
  define dbs' where "dbs' = put_pricing ?p (pr \<lparr> claimed := saturating_add 64 (claimed pr) 1 \<rparr>)
      (record_claim d dec t (Some h) dbs)"
  have cl: "claim_decision d dec t (Some h) dbs = Inr dbs'"
    using pr assms(2)
    by (simp add: claim_decision_def dbs'_def get_period_pricing_def record_claim_def put_pricing_def)
  have es: "entries_of_period dbs' ?p = oset_insert ?e (entries_of_period dbs ?p)"
    using entries_of_record_claim [of d dec t "Some h" dbs ?p] claim_decision_cases(1) [OF cl]
    by (simp add: entries_of_period_def)
  have none: "\<forall>e \<in> set (oset_elems (entries_of_period dbs ?p)). entry_id e \<noteq> d"
    using assms(3) by (auto simp: get_decision_entry_find find_None_iff)
  have "get_decision_entry dbs' d = Some ?e"
    unfolding get_decision_entry_find es using none by (intro find_unique) auto
  moreover have "get_decision_current_state dbs' d = Claimed"
    using claim_decision_cases(2) [OF cl]
    by (simp add: get_decision_current_state_def get_decision_state_history_def record_claim_def
        new_claimed_def current_state_def)
  moreover have "validate_decision_claim dbs' d ts (Some h) g = Inl (DecisionAlreadyClaimed d)"
  proof -
    have "d \<in> claimed_ids dbs' ?p" by (force simp: claimed_ids_eq es)
    moreover have "db_current_period dbs' ts (Some h) g = Inr c"
      using cur claim_decision_cases(3) [OF cl] by (simp add: db_current_period_def)
    moreover have "get_period_pricing dbs' ?p = Some (pr \<lparr> claimed := saturating_add 64 (claimed pr) 1 \<rparr>)"
      by (simp add: dbs'_def)
    ultimately show ?thesis
      using ok pr assms(2) \<open>get_decision_current_state dbs' d = Claimed\<close>
      by (simp add: validate_decision_claim_def is_decision_settled_def is_period_settled_def
          is_decision_in_voting_def get_active_window_def validate_standard_slot_def claimed_ids_def)
  qed
  moreover obtain fee where "fee_for_index (p_period pr) (mints pr) (decision_index d) = Inr fee"
    using fee_for_unlocked [OF pr(2)] by blast
  then have "fee_for_decision_id dbs d = Inr fee" by (simp add: fee_for_decision_id_def pr(1))
  ultimately show ?thesis using cl by blast
qed

text \<open>A database with one priced period, for concrete instances.\<close>

definition example_dbs :: decisions_dbs where
  "example_dbs = put_pricing 1 (genesis_pricing 20 0) (new_with_config (testing 10))"

definition example_id :: decision_id where
  "example_id = DecisionId 0x81 0 0"

definition example_decision :: decision where
  "example_decision = Decision 7 Binary ''rain'' [] None None []"

lemma example_id_fields:
  "is_standard example_id" "period_index example_id = 1" "decision_index example_id = 0"
  by (simp_all add: example_id_def is_standard_eq period_index_eq decision_index_def as_u32.simps
      DECISION_MASK_def MAX_DECISION_INDEX_def)

lemma example_dbs_simps:
  "get_period_pricing example_dbs 1 = Some (genesis_pricing 20 0)"
  "period_decisions example_dbs = db_empty" "decision_state_histories example_dbs = db_empty"
  "config example_dbs = testing 10"
  by (simp_all add: example_dbs_def put_pricing_def new_with_config_def get_period_pricing_def)

lemma example_current: "db_current_period example_dbs 0 (Some 5) 0 = Inr 1"
  by (simp add: db_current_period_def example_dbs_simps get_current_period_def testing_def
      checked_div_def)

lemma example_entry: "get_decision_entry example_dbs example_id = None"
  by (simp add: get_decision_entry_def example_dbs_simps)

lemma example_valid: "validate_decision_claim example_dbs example_id 0 (Some 5) 0 = Inr ()"
  by (simp add: validate_decision_claim_ok [OF example_current] example_id_fields example_dbs_simps
      get_decision_current_state_def get_decision_state_history_def claimed_ids_eq
      entries_of_period_def saturating_add_def window_end_def FUTURE_PERIODS_def
      slot_unlocked_small genesis_pricing_def del: One_nat_def)

theorem validated_claim_succeeds_witness:
  "\<exists>fee dbs'. fee_for_decision_id example_dbs example_id = Inr fee
    \<and> claim_decision example_id example_decision 9 (Some 5) example_dbs = Inr dbs'
    \<and> get_decision_entry dbs' example_id = Some (DecisionEntry example_id (Some example_decision) 9)
    \<and> get_decision_current_state dbs' example_id = Claimed
    \<and> validate_decision_claim dbs' example_id 0 (Some 5) 0 = Inl (DecisionAlreadyClaimed example_id)"
  by (rule validated_claim_succeeds [OF example_valid example_id_fields(1) example_entry])

section \<open>Free slots\<close>

lemma slot_ids_fold:
  assumes "p < 128" and "\<forall>i \<in> set is. i < 65536"
  shows "\<exists>ds. try_fold (\<lambda>idx ids. rbind (decision_id_new True p idx) (\<lambda>d. Inr (ids @ [d]))) is acc
      = Inr (acc @ ds) \<and> map decision_index ds = is
      \<and> (\<forall>d \<in> set ds. is_standard d \<and> period_index d = p)"
  using assms(2)
proof (induction "is" arbitrary: acc)
  case (Cons i "is")
  obtain d where d: "decision_id_new True p i = Inr d" "is_standard d" "period_index d = p"
    "decision_index d = i"
    using decision_id_new_eq [of p i True] assms(1) Cons.prems by auto
  obtain ds where "try_fold (\<lambda>idx ids. rbind (decision_id_new True p idx) (\<lambda>d. Inr (ids @ [d]))) is (acc @ [d])
      = Inr ((acc @ [d]) @ ds)" "map decision_index ds = is"
    "\<forall>d \<in> set ds. is_standard d \<and> period_index d = p"
    using Cons.IH [of "acc @ [d]"] Cons.prems by auto
  with d show ?case by (intro exI [of _ "d # ds"]) simp
qed simp

definition slot_indices :: "nat \<Rightarrow> nat list" where
  "slot_indices n = concat (map (\<lambda>tier. map (\<lambda>pos. 100 * tier + pos) [0..<n]) [0..<5])"

lemma slot_indices_5: "slot_indices n = map (\<lambda>pos. pos) [0..<n] @ map (\<lambda>pos. 100 + pos) [0..<n]
    @ map (\<lambda>pos. 200 + pos) [0..<n] @ map (\<lambda>pos. 300 + pos) [0..<n] @ map (\<lambda>pos. 400 + pos) [0..<n]"
proof -
  have "[0..<5] = [0, 1, 2, 3, 4 :: nat]" by (simp add: upt_rec)
  then show ?thesis by (simp add: slot_indices_def map_idI)
qed

lemma slot_indices_props:
  assumes "m \<le> 20"
  shows "set (slot_indices (5 * m)) = {i. i < 500 \<and> i mod 100 < 5 * m}"
    and "distinct (slot_indices (5 * m))"
proof -
  have "set (slot_indices (5 * m)) = (\<lambda>(t, j). 100 * t + j) ` ({..<5} \<times> {..<5 * m})"
    unfolding slot_indices_def by (simp add: atLeast0LessThan) (auto simp: image_iff)
  then show "set (slot_indices (5 * m)) = {i. i < 500 \<and> i mod 100 < 5 * m}"
    using slot_index_image [OF assms] by simp
  show "distinct (slot_indices (5 * m))"
    using assms by (auto simp: slot_indices_5 distinct_map)
qed

lemma slot_ids_exact:
  assumes "m \<le> 20" and "p < 128"
  shows "\<exists>ds. slot_ids p (5 * m) = Inr ds \<and> distinct ds \<and> set ds = slot_set p m"
proof -
  have "concat (map (\<lambda>tier. map (\<lambda>pos. as_u 32 (wrapping_add 64 (tier * SLOTS_PER_TIER) pos))
      [0..<5 * m]) [0..<TIER_COUNT]) = slot_indices (5 * m)"
    using assms(1) unfolding slot_indices_def
    by (intro arg_cong [of _ _ concat] map_cong) (auto simp: decision_consts)
  then obtain ds where ds: "slot_ids p (5 * m) = Inr ds" "map decision_index ds = slot_indices (5 * m)"
    "\<forall>d \<in> set ds. is_standard d \<and> period_index d = p"
    using slot_ids_fold [OF assms(2), of "slot_indices (5 * m)" "[]"]
      slot_indices_props(1) [OF assms(1)]
    by (auto simp: slot_ids_def)
  have "distinct ds"
    using ds(2) slot_indices_props(2) [OF assms(1)] by (metis distinct_map)
  moreover have "set ds = slot_set p m"
  proof (intro equalityI subsetI)
    fix d assume "d \<in> slot_set p m"
    then have "decision_index d \<in> decision_index ` set ds" "is_standard d" "period_index d = p"
      using slot_set_image [OF assms] slot_indices_props(1) [OF assms(1)] ds(2)
      by (auto simp: slot_set_def simp flip: set_map)
    then show "d \<in> set ds" using ds(3) decision_id_fields_inj by (metis imageE)
  next
    fix d assume "d \<in> set ds"
    moreover from this have "decision_index d \<in> set (slot_indices (5 * m))"
      by (metis ds(2) image_eqI set_map)
    ultimately show "d \<in> slot_set p m"
      using ds(3) slot_indices_props(1) [OF assms(1)] assms(1)
      by (auto simp: slot_set_def slot_unlocked_small)
  qed
  ultimately show ?thesis using ds(1) by blast
qed

text \<open>
  When the tables follow the schedule, the listing of free slots of an active period is exact: it returns,
  without repetition, precisely the standard decisions of that period whose slot is unlocked and
  which nobody has claimed, and their number is the capacity left by the claim counter.
\<close>

theorem available_decisions_exact:
  assumes "chain_inv c dbs" and "db_current_period dbs ts hh g = Inr c"
    and "c \<le> p" and "p \<le> c + 19" and "p < 128"
  shows "\<exists>ids pr. get_available_decisions_in_period dbs p ts hh g = Inr ids
    \<and> get_period_pricing dbs p = Some pr \<and> distinct ids
    \<and> (\<forall>d. d \<in> set ids \<longleftrightarrow> is_standard d \<and> period_index d = p
          \<and> slot_unlocked (decision_index d) (mints pr)
          \<and> \<not> oset_member d (get_claimed_decision_ids_for_period dbs p))
    \<and> length ids = period_capacity pr - claimed pr"
proof -
  have w: "pricing_window c dbs" and fit: "claims_fit dbs p"
    using assms(1,3,4) by (auto simp: chain_inv_def)
  obtain pr where pr: "get_period_pricing dbs p = Some pr" "mints pr = c + 20 - p"
    using pricing_windowE [OF w assms(3,4)] by blast
  have m: "mints pr \<le> 20" using pr(2) assms(3) by simp
  obtain ds where ds: "slot_ids p (5 * mints pr) = Inr ds" "distinct ds" "set ds = slot_set p (mints pr)"
    using slot_ids_exact [OF m assms(5)] by blast
  let ?ids = "filter (\<lambda>d. \<not> oset_member d (get_claimed_decision_ids_for_period dbs p)) ds"
  let ?S = "{d \<in> claimed_ids dbs p. is_standard d}"
  have "calculate_available_decisions p c \<noteq> 0"
    using assms(3,4) by (simp add: calculate_available_decisions_def saturating_sub_def
        FUTURE_PERIODS_def INITIAL_DECISIONS_PER_PERIOD_def DECISIONS_DECLINING_RATE_def)
  then have "get_available_decisions_in_period dbs p ts hh g = Inr ?ids"
    using assms(2) pr(1) ds(1) m
    by (simp add: get_available_decisions_in_period_def total_for_def decision_consts mult.commute)
  moreover have "set ?ids = slot_set p (mints pr) - ?S"
    by (auto simp: ds(3) slot_set_def claimed_ids_def)
  moreover have "length ?ids = card (set ?ids)" by (simp add: distinct_card ds(2) del: set_filter)
  moreover have "card (slot_set p (mints pr) - ?S) = 25 * mints pr - claimed pr"
    using fit pr(1) slot_set_card [OF m assms(5)]
    by (simp add: claims_fit_def card_Diff_subset)
  moreover have "period_capacity pr = 25 * mints pr"
    using m by (simp add: period_capacity_def decision_consts)
  ultimately show ?thesis
    using pr(1) ds(2,3) by (intro exI [of _ ?ids] exI [of _ pr]) (auto simp: slot_set_def)
qed

theorem available_decisions_exact_witness:
  "\<exists>dbs ids. mint_genesis 0 0 0 (new_with_config (testing 10)) = Inr dbs
     \<and> get_available_decisions_in_period dbs 20 0 (Some 5) 0 = Inr ids \<and> length ids \<le> 500"
proof -
  obtain dbs where dbs: "mint_genesis 0 0 0 (new_with_config (testing 10)) = Inr dbs"
    and ch: "chain_inv 1 dbs"
    using testing_genesis_example by blast
  have "config dbs = testing 10"
    using dbs genesis.frame_fold
    by (auto simp: mint_genesis_def dbs_frame_def new_with_config_def)
  then have cur: "db_current_period dbs 0 (Some 5) 0 = Inr 1"
    by (simp add: db_current_period_def get_current_period_def testing_def checked_div_def)
  have "\<exists>pr. get_period_pricing dbs 20 = Some pr \<and> period_capacity pr \<le> 500"
  proof -
    have "pricing_window 1 dbs" using ch by (simp add: chain_inv_def)
    then obtain pr where "get_period_pricing dbs 20 = Some pr" "mints pr = 1"
      using pricing_windowE [of 1 dbs 20] by auto
    then show ?thesis by (simp add: period_capacity_def decision_consts)
  qed
  with available_decisions_exact [OF ch cur, of 20] dbs show ?thesis by fastforce
qed

section \<open>Undo\<close>

lemma restore_entries_put_all:
  "restore_entries (map (\<lambda>e. (fst e, Some (snd e))) es) d = db_put_all es d"
  by (induction es arbitrary: d) auto

lemma put_all_entries_over:
  assumes "\<And>k. k \<notin> dom (db_get d) \<Longrightarrow> db_get d' k = None"
  shows "db_put_all (db_entries d) d' = d"
proof (rule db_ext)
  fix k
  have "distinct (map fst (db_entries d))" using distinct_db_keys [of d] by (simp add: db_keys_def)
  then have "db_get (db_put_all (db_entries d) d') = db_get d' ++ map_of (db_entries d)"
    by (rule db_get_put_all_distinct)
  then show "db_get (db_put_all (db_entries d) d') k = db_get d k"
    using assms [of k] by (cases "db_get d k") (auto simp: map_add_def map_of_db_entries)
qed

text \<open>
  C29. The pricing undo log is exact: whatever a block does to the pricing table after the
  snapshot, restoring at that height gives back the table as it was and removes the log entry;
  the other databases are not touched.
\<close>

theorem pricing_undo_roundtrip:
  assumes "period_pricing_undo dbs' = period_pricing_undo (snapshot_period_pricing h dbs)"
    and "db_get (period_pricing_undo dbs) h = None"
  shows "restore_period_pricing_undo h dbs'
    = dbs' \<lparr> period_pricing_db := period_pricing_db dbs,
             period_pricing_undo := period_pricing_undo dbs \<rparr>"
proof -
  let ?es = "db_entries (period_pricing_db dbs)"
  let ?snap = "map (\<lambda>e. (fst e, Some (snd e))) ?es"
  let ?del = "filter (\<lambda>k. k \<notin> fst ` set ?snap) (db_keys (period_pricing_db dbs'))"
  have undo: "period_pricing_undo dbs' = db_put (period_pricing_undo dbs) h ?snap"
    using assms(1) by (simp add: snapshot_period_pricing_def)
  have keys: "fst ` set ?snap = dom (db_get (period_pricing_db dbs))"
    by (simp add: set_db_keys [symmetric] db_keys_def image_image)
  have "restore_entries ?snap (db_delete_all ?del (period_pricing_db dbs')) = period_pricing_db dbs"
    unfolding restore_entries_put_all
  proof (rule put_all_entries_over)
    fix k assume k: "k \<notin> dom (db_get (period_pricing_db dbs))"
    show "db_get (db_delete_all ?del (period_pricing_db dbs')) k = None"
      using k unfolding keys
      by (auto simp: db_get_delete_all set_db_keys domIff)
  qed
  moreover have "db_delete (db_put (period_pricing_undo dbs) h ?snap) h = period_pricing_undo dbs"
    using assms(2) by (rule kv.delete_put_fresh)
  ultimately show ?thesis
    by (simp add: restore_period_pricing_undo_def undo)
qed

theorem pricing_undo_roundtrip_witness:
  "period_pricing_db (restore_period_pricing_undo 3
     (put_pricing 2 (new_seeded 77 3) (snapshot_period_pricing 3 example_dbs)))
   = period_pricing_db example_dbs"
  using pricing_undo_roundtrip
    [of "put_pricing 2 (new_seeded 77 3) (snapshot_period_pricing 3 example_dbs)" 3 example_dbs]
  by (simp add: put_pricing_def example_dbs_def new_with_config_def)

lemma entries_nonempty_get:
  "oset_elems (entries_of_period dbs p) \<noteq> [] \<Longrightarrow>
     db_get (period_decisions dbs) p = Some (entries_of_period dbs p)"
  by (cases "db_get (period_decisions dbs) p") (auto simp: entries_of_period_def)

lemma revert_after_claim:
  assumes "claim_decision d dec t hh dbs = Inr dbs'" and "get_decision_entry dbs d = None"
  shows "period_decisions (revert_decision_claim d dbs') =
    (if oset_elems (entries_of_period dbs (period_index d)) = []
     then db_delete (period_decisions dbs) (period_index d) else period_decisions dbs)"
proof -
  let ?p = "period_index d" and ?e = "DecisionEntry d (Some dec) t"
  let ?E = "entries_of_period dbs (period_index d)"
  have pd: "period_decisions dbs' = db_put (period_decisions dbs) ?p (oset_insert ?e ?E)"
    using claim_decision_cases(1) [OF assms(1)] by (simp add: record_claim_def)
  have es: "entries_of_period dbs' ?p = oset_insert ?e ?E" by (simp add: entries_of_period_def pd)
  have none: "\<forall>e \<in> set (oset_elems ?E). entry_id e \<noteq> d"
    using assms(2) by (auto simp: get_decision_entry_find find_None_iff)
  have "find (\<lambda>e. entry_id e = d) (oset_elems (oset_insert ?e ?E)) = Some ?e"
    using none by (intro find_unique) auto
  moreover have "oset_remove ?e (oset_insert ?e ?E) = ?E"
    using none by (intro oset_ext) auto
  ultimately have "revert_decision_claim d dbs' = store_period_entries ?p ?E dbs'"
    by (simp add: revert_decision_claim_def es)
  then show ?thesis
    using entries_nonempty_get [of dbs ?p]
    by (auto simp: store_period_entries_def pd kv.delete_put kv.put_put intro: kv.put_same)
qed

text \<open>
  C36. Reverting a claim restores the decisions of its period, except when the claim was the
  first of the period: then the record that minting created for the period is deleted too, and
  if that period was the highest minted one, the highest minted period drops.
\<close>

theorem revert_claim_restores:
  assumes "claim_decision d dec t hh dbs = Inr dbs'" and "get_decision_entry dbs d = None"
  defines "dbs'' \<equiv> revert_decision_claim d dbs'"
  shows "(oset_elems (entries_of_period dbs (period_index d)) \<noteq> [] \<longrightarrow>
      period_decisions dbs'' = period_decisions dbs)
    \<and> (oset_elems (entries_of_period dbs (period_index d)) = [] \<longrightarrow>
      period_decisions dbs'' = db_delete (period_decisions dbs) (period_index d)
      \<and> (get_highest_minted_period dbs = Some (period_index d) \<longrightarrow>
           get_highest_minted_period dbs'' \<noteq> Some (period_index d)))"
proof -
  note eq = revert_after_claim [OF assms(1,2), folded dbs''_def]
  have "get_highest_minted_period dbs'' \<noteq> Some (period_index d)"
    if "period_decisions dbs'' = db_delete (period_decisions dbs) (period_index d)"
  proof -
    have "period_index d \<notin> set (db_keys (period_decisions dbs''))"
      using that by (simp add: set_db_keys domIff)
    moreover have "Max (set (db_keys (period_decisions dbs''))) \<in> set (db_keys (period_decisions dbs''))"
      if "db_keys (period_decisions dbs'') \<noteq> []"
      using that by (intro Max_in) auto
    ultimately show ?thesis unfolding get_highest_minted_period_eq by (metis option.distinct(1) option.inject)
  qed
  with eq show ?thesis by auto
qed

theorem revert_claim_restores_witness:
  "\<exists>dbs'. claim_decision example_id example_decision 9 (Some 5) example_dbs = Inr dbs'
     \<and> period_decisions (revert_decision_claim example_id dbs')
         = db_delete (period_decisions example_dbs) 1"
proof -
  obtain dbs' where "claim_decision example_id example_decision 9 (Some 5) example_dbs = Inr dbs'"
    by (simp add: claim_decision_def example_id_fields record_claim_def get_period_pricing_def
        example_dbs_def put_pricing_def)
  with revert_claim_restores [OF this example_entry] show ?thesis
    by (auto simp: entries_of_period_def example_dbs_simps example_id_fields)
qed

text \<open>
  C37. The consequence of losing the highest minted period: a database whose pricing table
  follows the schedule but whose highest minted period is one too low treats the next block of
  the same period as a transition, and every surviving period ends with one mint more than the
  schedule gives it (twenty-one at the current period).
\<close>

theorem lost_period_overmints:
  assumes "0 < c" and "c + 21 < 2 ^ 32" and "highest_existing dbs = c + 18"
    and "\<forall>p \<in> {c..c + 18}. \<exists>pr. get_period_pricing dbs p = Some pr \<and> mints pr = c + 20 - p"
    and "db_current_period dbs ts (Some h) g = Inr c"
  shows "\<exists>dbs'. process_block_pricing h ts g dbs = Inr dbs'
    \<and> (\<forall>p \<in> {c..c + 18}. \<exists>pr. get_period_pricing dbs' p = Some pr \<and> mints pr = c + 21 - p)"
proof -
  let ?m = "mint_periods_up_to (c + 19) dbs"
  let ?s = "fold (seed_period c h) (range_incl (c + 19) (c + 19)) ?m"
  let ?t = "fold (survive_period 1 h) (range_incl c (c + 18)) ?s"
  have w: "window_end c = c + 19" using assms(2) window_end_exact [of c] by simp
  have hi: "unwrap_or 0 (get_highest_minted_period dbs) = c + 18"
    using assms(3) by (simp add: highest_existing_def)
  have prev: "saturating_sub (wrapping_add 32 (c + 18) 1) FUTURE_PERIODS = c - 1"
    using assms(2) by (simp add: saturating_sub_def FUTURE_PERIODS_def)
  have "c - (c - 1) = 1" using assms(1) by simp
  moreover have "wrapping_add 32 (c + 18) 1 = c + 19" using assms(2) by simp
  ultimately have "transition_pricing c (c - 1) (c + 18) h ?m = ?t"
    using assms(2) by (simp only: transition_pricing_def Let_def w) simp
  then have "process_block_pricing h ts g dbs = Inr ?t"
    using assms(1,5) hi prev w by (simp add: process_block_pricing_def Let_def del: One_nat_def)
  moreover have "\<exists>pr. get_period_pricing ?t p = Some pr \<and> mints pr = c + 21 - p"
    if p: "p \<in> {c..c + 18}" for p
  proof -
    obtain pr where pr: "get_period_pricing dbs p = Some pr" "mints pr = c + 20 - p"
      using bspec [OF assms(4) p] by blast
    have "get_period_pricing ?s p = Some pr"
      using get_fold_seed [of p "range_incl (c + 19) (c + 19)" c h ?m] p pr(1) by auto
    then show ?thesis
      using p pr(2) by (auto simp: surviving.get_fold saturating_add_def)
  qed
  ultimately show ?thesis by blast
qed

lemma genesis_period_decisions:
  assumes "mint_genesis 0 0 0 (new_with_config (testing 10)) = Inr dbs"
  shows "db_get (period_decisions dbs) p = (if 0 < p \<and> p \<le> 20 then Some db_empty else None)"
    and "config dbs = testing 10"
proof -
  let ?new = "new_with_config (testing 10)"
  have cur: "db_current_period ?new 0 (Some 0) 0 = Inr 1"
    by (simp add: db_current_period_def get_current_period_def new_with_config_def testing_def
        checked_div_def)
  have "dbs_frame dbs = dbs_frame (mint_periods_up_to 20 ?new)"
    using assms cur genesis.frame_fold
    by (auto simp: mint_genesis_def window_end_def FUTURE_PERIODS_def)
  then have "period_decisions dbs = period_decisions (mint_periods_up_to 20 ?new)"
    "config dbs = testing 10"
    by (simp_all add: dbs_frame_def new_with_config_def)
  moreover have "highest_existing ?new = 0"
    by (simp add: highest_existing_eq new_with_config_def db_keys_def)
  ultimately show "db_get (period_decisions dbs) p = (if 0 < p \<and> p \<le> 20 then Some db_empty else None)"
    "config dbs = testing 10"
    by (simp_all add: mint_periods_up_to_entries) (simp add: new_with_config_def)
qed

lemma genesis_no_history:
  assumes "mint_genesis 0 0 0 (new_with_config (testing 10)) = Inr dbs"
  shows "decision_state_histories dbs = db_empty" and "get_period_pricing dbs 21 = None"
proof -
  let ?new = "new_with_config (testing 10)"
  have cur: "db_current_period ?new 0 (Some 0) 0 = Inr 1"
    by (simp add: db_current_period_def get_current_period_def new_with_config_def testing_def checked_div_def)
  have dbs: "dbs = fold (mint_genesis_period 1 0) (range_incl 1 20) (mint_periods_up_to 20 ?new)"
    using assms cur by (simp add: mint_genesis_def window_end_def FUTURE_PERIODS_def)
  show "decision_state_histories dbs = db_empty"
    using genesis.frame_fold [of 1 0 "range_incl 1 20" "mint_periods_up_to 20 ?new"] by (simp add: dbs dbs_frame_def new_with_config_def)
  show "get_period_pricing dbs 21 = None"
    by (simp add: dbs genesis.get_fold) (simp add: get_period_pricing_def new_with_config_def)
qed

theorem claim_suppresses_mint_witness:
  "\<exists>dbs d dbs'. mint_genesis 0 0 0 (new_with_config (testing 10)) = Inr dbs
     \<and> validated_claims 0 10 0 [(d, example_decision, 9)] dbs
     \<and> connect_decisions 10 0 0 [(d, example_decision, 9)] dbs = Inr dbs'
     \<and> get_highest_minted_period dbs' = Some 21 \<and> get_period_pricing dbs' 21 = None"
proof -
  obtain dbs where dbs: "mint_genesis 0 0 0 (new_with_config (testing 10)) = Inr dbs" and ch: "chain_inv 1 dbs"
    using testing_genesis_example by blast
  note g = genesis_period_decisions [OF dbs]
  obtain d where d: "\<not> is_standard d" "period_index d = 21" using decision_id_new_eq [of 21 0 False] by auto
  have cfg: "db_current_period x 0 (Some 10) 0 = Inr 2" if "config x = testing 10" for x
    using that by (simp add: db_current_period_def get_current_period_def testing_def checked_div_def)
  have none: "decision_state_histories dbs = db_empty" "get_period_pricing dbs 21 = None" by (rule genesis_no_history [OF dbs])+
  have "d \<notin> claimed_ids dbs 21" by (simp add: claimed_ids_eq entries_of_period_def g(1))
  then have "validate_decision_claim dbs d 0 (Some 10) 0 = Inr ()"
    using validate_decision_claim_ok [OF cfg [OF g(2)], of d "()"] d window_end_exact [of 2]
    by (simp add: get_decision_current_state_def get_decision_state_history_def none(1) saturating_add_def)
  then have val: "validated_claims 0 10 0 [(d, example_decision, 9)] dbs" by (simp add: validated_claims_def)
  let ?dbs0 = "snapshot_period_pricing 10 dbs" and ?dbs2 = "record_claim d example_decision 9 (Some 10) (snapshot_period_pricing 10 dbs)"
  have "config ?dbs0 = testing 10" "config ?dbs2 = testing 10" by (simp_all add: snapshot_period_pricing_def record_claim_def g(2))
  note cur = cfg [OF this(1)] cfg [OF this(2)]
  have "get_claimed_decisions_needing_voting ?dbs0 2 = []"
    by (simp add: get_claimed_decisions_needing_voting_def decisions_needing_transition_def snapshot_period_pricing_def none(1))
  moreover have "\<exists>dbs'. process_block_pricing 10 0 0 ?dbs2 = Inr dbs'" using cur(2) by (simp add: process_block_pricing_def Let_def)
  ultimately obtain dbs' where con: "connect_decisions 10 0 0 [(d, example_decision, 9)] dbs = Inr dbs'"
    using cur(1) d(1) by (auto simp: connect_decisions_def claim_decision_def Let_def)
  have "is_blocks (config dbs)" by (simp add: g(2) testing_def)
  from claim_suppresses_mint [OF ch _ this val _ _ con, of "(d, example_decision, 9)"] cfg [OF g(2)] d none(2)
  show ?thesis using dbs val con by auto
qed

theorem lost_period_overmints_witness:
  "\<exists>dbs dbs' pr. mint_genesis 0 0 0 (new_with_config (testing 10)) = Inr dbs
     \<and> process_block_pricing 5 0 0
         (dbs \<lparr> period_decisions := db_delete (period_decisions dbs) 20 \<rparr>) = Inr dbs'
     \<and> get_period_pricing dbs' 1 = Some pr \<and> mints pr = 21"
proof -
  obtain dbs where dbs: "mint_genesis 0 0 0 (new_with_config (testing 10)) = Inr dbs"
    and ch: "chain_inv 1 dbs"
    using testing_genesis_example by blast
  let ?d = "dbs \<lparr> period_decisions := db_delete (period_decisions dbs) 20 \<rparr>"
  note g = genesis_period_decisions [OF dbs]
  have hi: "highest_existing ?d = 1 + 18"
    by (rule highest_existing_eqI [where e = db_empty]) (auto simp: g split: if_splits)
  have cur: "db_current_period ?d 0 (Some 5) 0 = Inr 1"
    by (simp add: db_current_period_def get_current_period_def testing_def checked_div_def g(2))
  have w: "pricing_window 1 dbs" using ch by (simp add: chain_inv_def)
  have "\<exists>pr. get_period_pricing ?d p = Some pr \<and> mints pr = 1 + 20 - p" if "p \<in> {1..1 + 18}" for p
    using pricing_windowE [OF w, of p] that by (auto simp: get_period_pricing_def)
  then have "\<forall>p \<in> {1..1 + 18}. \<exists>pr. get_period_pricing ?d p = Some pr \<and> mints pr = 1 + 20 - p"
    by blast
  from lost_period_overmints [OF _ _ hi this cur] obtain dbs' where
    "process_block_pricing 5 0 0 ?d = Inr dbs'"
    "\<forall>p \<in> {1..1 + 18}. \<exists>pr. get_period_pricing dbs' p = Some pr \<and> mints pr = 1 + 21 - p"
    by auto
  with dbs show ?thesis by (auto dest!: bspec [of _ _ 1])
qed

text \<open>
  The seven period bits bound the life of the system: once the current period is past 127, no
  standard decision can be claimed any more.
\<close>

lemma no_standard_claim_after_127:
  assumes "db_current_period dbs ts hh g = Inr c" and "127 < c" and "is_standard d"
  shows "validate_decision_claim dbs d ts hh g \<noteq> Inr ()"
  using assms period_index_less [of d] by (auto simp: validate_decision_claim_ok)

section \<open>Rolling back the decision states of a block\<close>

inductive block_history_step :: "nat \<Rightarrow> decisions_dbs \<Rightarrow> decisions_dbs \<Rightarrow> bool" for h where
  claim: "get_decision_current_state dbs d = Created
    \<Longrightarrow> claim_decision d dec t (Some h) dbs = Inr dbs' \<Longrightarrow> block_history_step h dbs dbs'"
| voting: "transition_decision_to_voting d h dbs = Inr dbs' \<Longrightarrow> block_history_step h dbs dbs'"
| resolved: "transition_decision_to_resolved d h v dbs = Inr dbs' \<Longrightarrow> block_history_step h dbs dbs'"

definition restores_to :: "nat \<Rightarrow> decisions_dbs \<Rightarrow> decisions_dbs \<Rightarrow> decision_id \<Rightarrow> bool" where
  "restores_to k dbs dbs' d \<longleftrightarrow>
     (case get_decision_state_history dbs d of
        Some x \<Rightarrow> map_option (\<lambda>y. rollback_to_height y k) (get_decision_state_history dbs' d) = Some x
      | None \<Rightarrow> (\<forall>y. get_decision_state_history dbs' d = Some y \<longrightarrow>
                   state_history (rollback_to_height y k) = []))"

definition no_created_entry :: "decisions_dbs \<Rightarrow> bool" where
  "no_created_entry dbs \<longleftrightarrow>
     (\<forall>d x. get_decision_state_history dbs d = Some x \<longrightarrow> Created \<notin> fst ` set (state_history x))"

lemma reachable_no_created:
  assumes "reachable_history k x" shows "Created \<notin> fst ` set (state_history x)"
proof -
  obtain n where "map fst (state_history x) = take n [Claimed, Voting, Resolved]"
    using reachable_history_ok [OF assms] by (auto simp: life_cycle_def)
  then have "fst ` set (state_history x) \<subseteq> {Claimed, Voting, Resolved}"
    using set_take_subset [of n "[Claimed, Voting, Resolved]"] by (metis list.set_map list.simps(15) set_empty2)
  then show ?thesis by auto
qed

lemma current_state_Created:
  "current_state x = Created \<Longrightarrow> Created \<notin> fst ` set (state_history x) \<Longrightarrow> state_history x = []"
  by (auto simp: current_state_def image_iff split: if_splits) (metis last_in_set)

lemma transition_history:
  "transition_decision_to_voting d h dbs = Inr dbs' \<Longrightarrow>
     \<exists>x. get_decision_state_history dbs d = Some x \<and>
       decision_state_histories dbs' = db_put (decision_state_histories dbs) d
         (x \<lparr> state_history := state_history x @ [(Voting, h, None)] \<rparr>)"
  "transition_decision_to_resolved d h v dbs = Inr dbs' \<Longrightarrow>
     \<exists>x. get_decision_state_history dbs d = Some x \<and>
       decision_state_histories dbs' = db_put (decision_state_histories dbs) d
         (x \<lparr> state_history := state_history x @ [(Resolved, h, Some v)] \<rparr>)"
  by (auto simp: transition_decision_to_voting_def transition_decision_to_resolved_def
      transition_to_voting_def transition_to_resolved_def split: if_splits)

lemma rollback_snoc:
  "k < h \<Longrightarrow> rollback_to_height (x \<lparr> state_history := state_history x @ [(s, h, v)] \<rparr>) k
     = rollback_to_height x k"
  by (simp add: rollback_to_height_def)

lemma restores_to_snoc:
  assumes "restores_to k dbs dbs1 d'" and "k < h"
    and "get_decision_state_history dbs1 d = Some x"
    and "decision_state_histories dbs2 = db_put (decision_state_histories dbs1) d
         (x \<lparr> state_history := state_history x @ [(s, h, v)] \<rparr>)"
  shows "restores_to k dbs dbs2 d'"
  using assms
  by (auto simp: restores_to_def get_decision_state_history_def rollback_snoc split: option.splits)

lemma restores_to_claim:
  assumes "restores_to k dbs dbs1 d'" and "k < h" and "no_created_entry dbs1"
    and "get_decision_current_state dbs1 d = Created"
    and "decision_state_histories dbs2 = db_put (decision_state_histories dbs1) d (new_claimed h)"
  shows "restores_to k dbs dbs2 d'"
proof (cases "d' = d")
  case True
  have new: "rollback_to_height (new_claimed h) k = \<lparr> state_history = [] \<rparr>"
    using assms(2) by (simp add: rollback_to_height_def new_claimed_def)
  have "get_decision_state_history dbs2 d = Some (new_claimed h)"
    using assms(5) by (simp add: get_decision_state_history_def)
  moreover have "x = \<lparr> state_history = [] \<rparr>" if x: "get_decision_state_history dbs d = Some x" for x
  proof -
    obtain y where y: "get_decision_state_history dbs1 d = Some y" "rollback_to_height y k = x"
      using assms(1) True x by (auto simp: restores_to_def)
    have "current_state y = Created"
      using assms(4) y(1) by (simp add: get_decision_current_state_def)
    moreover have "Created \<notin> fst ` set (state_history y)"
      using assms(3) y(1) by (simp add: no_created_entry_def)
    ultimately have "state_history y = []" by (rule current_state_Created)
    then show ?thesis using y(2) by (auto simp: rollback_to_height_def)
  qed
  ultimately show ?thesis
    by (auto simp: restores_to_def True new split: option.splits)
next
  case False
  then show ?thesis
    using assms(1,5) by (auto simp: restores_to_def get_decision_state_history_def split: option.splits)
qed

lemma block_history_step_inv:
  assumes "block_history_step h dbs1 dbs2" and "k < h" and "no_created_entry dbs1"
    and "\<forall>d. restores_to k dbs dbs1 d"
  shows "no_created_entry dbs2 \<and> (\<forall>d. restores_to k dbs dbs2 d)"
  using assms(1)
proof cases
  case (claim d dec t)
  then have H: "decision_state_histories dbs2 = db_put (decision_state_histories dbs1) d (new_claimed h)"
    using claim_decision_cases(2) by (simp add: record_claim_def)
  then have "no_created_entry dbs2"
    using assms(3) by (auto simp: no_created_entry_def get_decision_state_history_def new_claimed_def)
  with H show ?thesis using assms(2-4) claim(1) restores_to_claim by blast
next
  case (voting d)
  from transition_history(1) [OF voting] obtain x where
    x: "get_decision_state_history dbs1 d = Some x"
    "decision_state_histories dbs2 = db_put (decision_state_histories dbs1) d
         (x \<lparr> state_history := state_history x @ [(Voting, h, None)] \<rparr>)" by blast
  then have "no_created_entry dbs2"
    using assms(3) by (auto simp: no_created_entry_def get_decision_state_history_def)
  with x show ?thesis using assms(2,4) restores_to_snoc by blast
next
  case (resolved d v)
  from transition_history(2) [OF resolved] obtain x where
    x: "get_decision_state_history dbs1 d = Some x"
    "decision_state_histories dbs2 = db_put (decision_state_histories dbs1) d
         (x \<lparr> state_history := state_history x @ [(Resolved, h, Some v)] \<rparr>)" by blast
  then have "no_created_entry dbs2"
    using assms(3) by (auto simp: no_created_entry_def get_decision_state_history_def)
  with x show ?thesis using assms(2,4) restores_to_snoc by blast
qed

lemma unclaim_histories: "decision_state_histories (fold unclaim_decision ds dbs) = decision_state_histories dbs"
proof (induction ds arbitrary: dbs)
  case (Cons d ds)
  then show ?case
    by (simp add: unclaim_decision_def store_period_entries_def split: option.splits)
qed simp

lemma rollback_histories:
  "get_decision_state_history (rollback_decision_states_to_height k dbs) d
   = map_option (\<lambda>y. rollback_to_height y k) (get_decision_state_history dbs d)"
proof -
  let ?H = "decision_state_histories dbs"
  have "distinct (map fst (map (\<lambda>e. (fst e, rollback_to_height (snd e) k)) (db_entries ?H)))"
    using distinct_db_keys [of ?H] by (simp add: db_keys_def o_def)
  from db_get_put_all_distinct [OF this, of ?H]
  have "db_get (db_put_all (map (\<lambda>e. (fst e, rollback_to_height (snd e) k)) (db_entries ?H)) ?H) d
      = (db_get ?H ++ map_of (map (\<lambda>e. (fst e, rollback_to_height (snd e) k)) (db_entries ?H))) d"
    by simp
  also have "map_of (map (\<lambda>e. (fst e, rollback_to_height (snd e) k)) (db_entries ?H))
      = map_option (\<lambda>y. rollback_to_height y k) \<circ> db_get ?H"
    using map_of_map_values [of "\<lambda>y. rollback_to_height y k" "db_entries ?H"]
    by (simp only: map_of_db_entries)
  finally show ?thesis
    by (auto simp: rollback_decision_states_to_height_def Let_def get_decision_state_history_def
        unclaim_histories map_add_def split: option.splits)
qed

text \<open>
  C28. Disconnecting a block restores the decision states: after any sequence of claims and of
  transitions to voting or resolution made by the block at height \<open>h\<close>, rolling the databases back
  to a lower height that bounds the earlier histories gives every decision the history and the
  state it had before the block.
\<close>

theorem rollback_restores_states:
  assumes "(block_history_step h)\<^sup>*\<^sup>* dbs dbs'" and "k < h"
    and "\<forall>d x. get_decision_state_history dbs d = Some x \<longrightarrow> reachable_history k x"
  shows "(\<forall>x. get_decision_state_history dbs d = Some x \<longrightarrow>
      get_decision_state_history (rollback_decision_states_to_height k dbs') d = Some x)
    \<and> get_decision_current_state (rollback_decision_states_to_height k dbs') d
        = get_decision_current_state dbs d"
proof -
  have base: "no_created_entry dbs"
    unfolding no_created_entry_def using assms(3) reachable_no_created by blast
  have id: "rollback_to_height x k = x" if "reachable_history k x" for x
    using reachable_history_ok [OF that] by (simp add: rollback_to_height_def filter_id_conv)
  have "\<forall>d. restores_to k dbs dbs d"
    using assms(3) id by (auto simp: restores_to_def split: option.splits)
  with assms(1) base have "no_created_entry dbs' \<and> (\<forall>d. restores_to k dbs dbs' d)"
  proof (induction rule: rtranclp_induct)
    case (step y z)
    then show ?case using block_history_step_inv [OF step(2) assms(2)] by blast
  qed simp
  then have "restores_to k dbs dbs' d" by blast
  then show ?thesis
    by (cases "get_decision_state_history dbs' d")
      (auto simp: restores_to_def rollback_histories get_decision_current_state_def
        current_state_def split: option.splits)
qed

theorem rollback_restores_states_witness:
  "\<exists>dbs'. claim_decision example_id example_decision 9 (Some 5) example_dbs = Inr dbs'
     \<and> get_decision_current_state dbs' example_id = Claimed
     \<and> get_decision_current_state (rollback_decision_states_to_height 4 dbs') example_id = Created"
proof -
  obtain dbs' where cl: "claim_decision example_id example_decision 9 (Some 5) example_dbs = Inr dbs'"
    by (simp add: claim_decision_def example_id_fields record_claim_def get_period_pricing_def
        example_dbs_def put_pricing_def)
  have pre: "get_decision_current_state example_dbs example_id = Created"
    "\<forall>d x. get_decision_state_history example_dbs d = Some x \<longrightarrow> reachable_history 4 x"
    by (simp_all add: get_decision_current_state_def get_decision_state_history_def example_dbs_simps)
  have "(block_history_step 5)\<^sup>*\<^sup>* example_dbs dbs'"
    using block_history_step.claim [OF pre(1) cl] by blast
  from rollback_restores_states [OF this _ pre(2), of example_id] pre(1) cl show ?thesis
    using claim_decision_cases(2) [OF cl]
    by (simp add: get_decision_current_state_def get_decision_state_history_def record_claim_def
        new_claimed_def current_state_def)
qed

end
