(* ===== verification/Transactions.thy ===== *)
theory Transactions
  imports StateTypes DecisionTypes
begin

text \<open>
  Transactions and their values (\<open>lib/types/transaction/mod.rs\<close>). A transaction spends
  outpoints and creates outputs; filled with the outputs it spends, it has a fee and filled
  outputs. Amounts are satoshis of 64 bits; sums are checked. The payloads keep the fields that
  the modelled code reads; the transaction hash is an argument of the definitions that use it.
\<close>

record decision_claim_entry =
  decision_id_bytes :: "8 word \<times> 8 word \<times> 8 word"
  claim_header :: string
  claim_description :: string
  claim_option_0_label :: "string option"
  claim_option_1_label :: "string option"
  claim_option_labels :: "string list option"
  claim_tags :: "string list option"

record claim_decision_payload =
  payload_decision_type :: decision_type
  payload_decisions :: "decision_claim_entry list"

datatype transaction_data =
    ClaimDecision claim_decision_payload
  | CreateMarket "claim_decision_payload list"
  | Trade market_id nat int address nat
  | SubmitVote address "8 word \<times> 8 word \<times> 8 word" f64 nat
  | SubmitBallot address "((8 word \<times> 8 word \<times> 8 word) \<times> f64) list" nat
  | TransferReputation address address f64
  | AmplifyBeta market_id nat address

record transaction =
  t_inputs :: "outpoint list"
  t_outputs :: "tx_output list"
  t_memo :: string
  t_data :: "transaction_data option"

record filled_transaction =
  ft_transaction :: transaction
  ft_spent_utxos :: "filled_output list"
  ft_actor_address :: "address option"

section \<open>Values\<close>

definition tx_output_value :: "tx_output \<Rightarrow> nat" where
  "tx_output_value out = content_bitcoin_value (o_content out)"

text \<open>
  The value of a filled output is the value of the output it is converted to; the conversion
  turns market funds into plain bitcoin of the same amount.
\<close>

fun filled_to_content :: "filled_content \<Rightarrow> output_content" where
  "filled_to_content (FilledBitcoin value) = Bitcoin value"
| "filled_to_content (BitcoinWithdrawal w) = Withdrawal w"
| "filled_to_content (FilledMarketFunds _ amount _) = Bitcoin amount"

definition filled_output_value :: "filled_output \<Rightarrow> nat" where
  "filled_output_value out = content_bitcoin_value (filled_to_content (fo_content out))"

definition filled_is_bitcoin :: "filled_output \<Rightarrow> bool" where
  "filled_is_bitcoin out = (case fo_content out of FilledBitcoin _ \<Rightarrow> True | _ \<Rightarrow> False)"

definition filled_is_withdrawal :: "filled_output \<Rightarrow> bool" where
  "filled_is_withdrawal out = (case fo_content out of BitcoinWithdrawal _ \<Rightarrow> True | _ \<Rightarrow> False)"

definition asset_value :: "filled_output \<Rightarrow> nat option" where
  "asset_value out =
     (case fo_content out of
        FilledBitcoin value \<Rightarrow> Some value
      | FilledMarketFunds _ amount _ \<Rightarrow> Some amount
      | _ \<Rightarrow> None)"

fun checked_sum :: "nat list \<Rightarrow> nat \<Rightarrow> nat option" where
  "checked_sum [] acc = Some acc"
| "checked_sum (v # vs) acc = Option.bind (checked_add 64 acc v) (checked_sum vs)"

definition spent_bitcoin_value :: "filled_transaction \<Rightarrow> (error, nat) result" where
  "spent_bitcoin_value ftx =
     ok_or (checked_sum (map filled_output_value (ft_spent_utxos ftx)) 0) AmountOverflow"

definition bitcoin_value_out :: "filled_transaction \<Rightarrow> (error, nat) result" where
  "bitcoin_value_out ftx =
     ok_or (checked_sum (map tx_output_value (t_outputs (ft_transaction ftx))) 0) AmountOverflow"

definition bitcoin_fee :: "filled_transaction \<Rightarrow> (error, nat option) result" where
  "bitcoin_fee ftx =
     rbind (spent_bitcoin_value ftx) (\<lambda>spent_value.
     rbind (bitcoin_value_out ftx) (\<lambda>value_out.
     if spent_value < value_out then Inr None else Inr (Some (spent_value - value_out))))"

definition spent_inputs :: "filled_transaction \<Rightarrow> (outpoint \<times> filled_output) list" where
  "spent_inputs ftx = zip (t_inputs (ft_transaction ftx)) (ft_spent_utxos ftx)"

text \<open>There is one asset, bitcoin, so the ordered vector of spent assets has at most one entry.\<close>

definition unique_spent_assets :: "filled_transaction \<Rightarrow> nat list" where
  "unique_spent_assets ftx =
     (let values = List.map_filter asset_value (filter filled_is_bitcoin (map snd (spent_inputs ftx)))
      in if values = [] then [] else [foldl (wrapping_add 64) 0 values])"

definition output_bitcoin_max_value :: "filled_transaction \<Rightarrow> nat" where
  "output_bitcoin_max_value ftx =
     (case filter (\<lambda>amount. amount \<noteq> 0) (unique_spent_assets ftx) of [] \<Rightarrow> 0 | v # _ \<Rightarrow> v)"

fun fill_output :: "tx_output \<Rightarrow> nat \<Rightarrow> (filled_content \<times> nat) option" where
  "fill_output out max_value =
     (case o_content out of
        Bitcoin value \<Rightarrow>
          map_option (\<lambda>m. (FilledBitcoin value, m)) (checked_sub max_value value)
      | Withdrawal w \<Rightarrow> Some (BitcoinWithdrawal w, max_value)
      | MarketFunds market amount is_fee \<Rightarrow>
          map_option (\<lambda>m. (FilledMarketFunds market amount is_fee, m)) (checked_sub max_value amount))"

fun fill_outputs :: "tx_output list \<Rightarrow> nat \<Rightarrow> filled_output list option" where
  "fill_outputs [] max_value = Some []"
| "fill_outputs (out # outs) max_value =
     (case fill_output out max_value of
        None \<Rightarrow> None
      | Some (content, m) \<Rightarrow>
          map_option (\<lambda>fs. \<lparr> fo_address = o_address out, fo_content = content,
                             fo_memo = o_memo out \<rparr> # fs) (fill_outputs outs m))"

definition filled_outputs :: "filled_transaction \<Rightarrow> filled_output list option" where
  "filled_outputs ftx =
     fill_outputs (t_outputs (ft_transaction ftx)) (output_bitcoin_max_value ftx)"

section \<open>Properties\<close>

lemma checked_sum_eq: "checked_sum vs acc = (if acc + sum_list vs < 2 ^ 64 \<or> vs = []
    then Some (acc + sum_list vs) else None)"
proof (induction vs arbitrary: acc)
  case (Cons v vs)
  show ?case
    using Cons.IH [of "acc + v"] by (auto simp: checked_add_def add.assoc bind_eq_Some_conv)
qed simp

lemma asset_values_bitcoin:
  "list_all filled_is_bitcoin outs \<Longrightarrow>
     filter filled_is_bitcoin outs = outs \<and> List.map_filter asset_value outs = map filled_output_value outs"
  by (induction outs)
    (auto simp: filled_is_bitcoin_def asset_value_def filled_output_value_def map_filter_def
      split: filled_content.splits)

lemma output_bitcoin_max_value_exact:
  assumes "list_all filled_is_bitcoin (ft_spent_utxos ftx)"
    and "length (t_inputs (ft_transaction ftx)) = length (ft_spent_utxos ftx)"
    and "spent_bitcoin_value ftx = Inr spent"
  shows "output_bitcoin_max_value ftx = spent"
proof -
  let ?vs = "map filled_output_value (ft_spent_utxos ftx)"
  have s: "spent = sum_list ?vs" and b: "sum_list ?vs < 2 ^ 64 \<or> ?vs = []"
    using assms(3) by (auto simp: spent_bitcoin_value_def checked_sum_eq split: if_splits)
  have "map snd (spent_inputs ftx) = ft_spent_utxos ftx"
    using assms(2) by (simp add: spent_inputs_def)
  then have "unique_spent_assets ftx = (if ?vs = [] then [] else [foldl (wrapping_add 64) 0 ?vs])"
    using asset_values_bitcoin [OF assms(1)] by (simp add: unique_spent_assets_def Let_def)
  then show ?thesis
    using b s foldl_wrapping_add_exact [of 0 ?vs] by (auto simp: output_bitcoin_max_value_def)
qed

lemma fill_output_within:
  assumes "tx_output_value out \<le> m"
  shows "\<exists>c m'. fill_output out m = Some (c, m') \<and> m - tx_output_value out \<le> m'
    \<and> content_bitcoin_value (filled_to_content c) = tx_output_value out"
  using assms by (cases "o_content out") (auto simp: tx_output_value_def checked_sub_def)

lemma fill_outputs_within:
  assumes "sum_list (map tx_output_value outs) \<le> m"
  shows "\<exists>fs. fill_outputs outs m = Some fs \<and> map filled_output_value fs = map tx_output_value outs
    \<and> map fo_address fs = map o_address outs"
  using assms
proof (induction outs arbitrary: m)
  case (Cons out outs)
  then have "tx_output_value out \<le> m" by simp
  from fill_output_within [OF this] obtain c m' where c: "fill_output out m = Some (c, m')"
    "m - tx_output_value out \<le> m'" "content_bitcoin_value (filled_to_content c) = tx_output_value out"
    by blast
  from Cons.prems c(2) have "sum_list (map tx_output_value outs) \<le> m'" by simp
  from Cons.IH [OF this] c(1,3) show ?case by (auto simp: filled_output_value_def simp del: fill_output.simps)
qed simp

text \<open>
  C33. A transaction that spends plain bitcoin and has a fee can be filled, and value is
  conserved: the filled outputs have, one by one, the addresses and values of the requested ones,
  and their total together with the fee is exactly the value spent. Every input has its spent
  output.
\<close>

theorem filled_outputs_conserve_value:
  assumes "list_all filled_is_bitcoin (ft_spent_utxos ftx)"
    and "length (t_inputs (ft_transaction ftx)) = length (ft_spent_utxos ftx)"
    and "bitcoin_fee ftx = Inr (Some fee)"
  shows "\<exists>fs. filled_outputs ftx = Some fs
    \<and> map fo_address fs = map o_address (t_outputs (ft_transaction ftx))
    \<and> map filled_output_value fs = map tx_output_value (t_outputs (ft_transaction ftx))
    \<and> sum_list (map filled_output_value fs) + fee
        = sum_list (map filled_output_value (ft_spent_utxos ftx))"
proof -
  let ?out = "sum_list (map tx_output_value (t_outputs (ft_transaction ftx)))"
  let ?in = "sum_list (map filled_output_value (ft_spent_utxos ftx))"
  obtain spent vo where sp: "spent_bitcoin_value ftx = Inr spent" and vo: "bitcoin_value_out ftx = Inr vo"
    and fee: "vo \<le> spent" "fee = spent - vo"
    using assms(3) by (auto simp: bitcoin_fee_def split: if_splits)
  have "spent = ?in" "vo = ?out"
    using sp vo by (auto simp: spent_bitcoin_value_def bitcoin_value_out_def checked_sum_eq split: if_splits)
  moreover have "output_bitcoin_max_value ftx = spent"
    by (rule output_bitcoin_max_value_exact [OF assms(1,2) sp])
  ultimately show ?thesis
    using fill_outputs_within [of "t_outputs (ft_transaction ftx)" spent] fee
    by (auto simp: filled_outputs_def)
qed

definition example_ftx :: filled_transaction where
  "example_ftx = \<lparr> ft_transaction = \<lparr> t_inputs = [Regular 1 0],
       t_outputs = [\<lparr> o_address = 5, o_content = Bitcoin 60, o_memo = [] \<rparr>],
       t_memo = [], t_data = None \<rparr>,
     ft_spent_utxos = [\<lparr> fo_address = 4, fo_content = FilledBitcoin 100, fo_memo = [] \<rparr>],
     ft_actor_address = None \<rparr>"

theorem filled_outputs_conserve_value_witness:
  "\<exists>fs. filled_outputs example_ftx = Some fs \<and> sum_list (map filled_output_value fs) + 40 = 100"
proof -
  have "bitcoin_fee example_ftx = Inr (Some 40)"
    by (simp add: bitcoin_fee_def spent_bitcoin_value_def bitcoin_value_out_def example_ftx_def
        filled_output_value_def tx_output_value_def checked_add_def)
  moreover have "list_all filled_is_bitcoin (ft_spent_utxos example_ftx)"
    "length (t_inputs (ft_transaction example_ftx)) = length (ft_spent_utxos example_ftx)"
    "sum_list (map filled_output_value (ft_spent_utxos example_ftx)) = 100"
    by (simp_all add: example_ftx_def filled_is_bitcoin_def filled_output_value_def)
  ultimately show ?thesis using filled_outputs_conserve_value [of example_ftx 40] by auto
qed

end
