(* ===== verification/Utxo.thy ===== *)
theory Utxo
  imports Transactions
begin

text \<open>
  The unspent outputs with their address index and the spent outputs (\<open>UtxoManager\<close> of
  \<open>lib/state/mod.rs\<close>), the changes that a transaction makes to them when its block is connected
  (\<open>apply_utxo_changes\<close> of \<open>lib/state/block.rs\<close>) and the loop of \<open>disconnect_tip\<close> that takes
  them back. The fixed-width database key of an outpoint stands for the outpoint.
\<close>

record utxo_state =
  utxos :: "(outpoint, filled_output) db"
  utxos_by_address :: "(address \<times> outpoint, unit) db"
  stxos :: "(outpoint, spent_output) db"

section \<open>The UTXO manager\<close>

definition insert_utxo ::
    "outpoint \<Rightarrow> filled_output \<Rightarrow> 'a utxo_state_scheme \<Rightarrow> 'a utxo_state_scheme" where
  "insert_utxo op out s =
     s \<lparr> utxos := db_put (utxos s) op out,
         utxos_by_address := db_put (utxos_by_address s) (fo_address out, op) () \<rparr>"

definition delete_utxo :: "outpoint \<Rightarrow> 'a utxo_state_scheme \<Rightarrow> 'a utxo_state_scheme \<times> bool" where
  "delete_utxo op s =
     (case db_get (utxos s) op of
        None \<Rightarrow> (s, False)
      | Some out \<Rightarrow>
          (let index = db_delete (utxos_by_address s) (fo_address out, op);
               deleted = db_contains (utxos s) op
           in if \<not> deleted
              then (s \<lparr> utxos_by_address := db_put index (fo_address out, op) () \<rparr>, False)
              else (s \<lparr> utxos := db_delete (utxos s) op, utxos_by_address := index \<rparr>, True)))"

definition clear_utxos :: "'a utxo_state_scheme \<Rightarrow> 'a utxo_state_scheme" where
  "clear_utxos s = s \<lparr> utxos := db_empty, utxos_by_address := db_empty \<rparr>"

definition get_utxos_by_addresses ::
    "address list \<Rightarrow> 'a utxo_state_scheme \<Rightarrow> (outpoint, filled_output) db" where
  "get_utxos_by_addresses addresses s =
     db_put_all (List.map_filter (\<lambda>(addr, op).
         if addr \<in> set addresses then map_option (Pair op) (db_get (utxos s) op) else None)
       (db_keys (utxos_by_address s))) db_empty"

definition get_stxos_by_addresses ::
    "address list \<Rightarrow> 'a utxo_state_scheme \<Rightarrow> (outpoint, spent_output) db" where
  "get_stxos_by_addresses addresses s =
     db_put_all (filter (\<lambda>e. fo_address (so_output (snd e)) \<in> set addresses) (db_entries (stxos s)))
       db_empty"

fun fill_inputs :: "(outpoint, filled_output) db \<Rightarrow> outpoint list \<Rightarrow> (error, filled_output list) result" where
  "fill_inputs d [] = Inr []"
| "fill_inputs d (op # ops) =
     rbind (ok_or (db_get d op) (NoUtxo op)) (\<lambda>out.
     rbind (fill_inputs d ops) (\<lambda>outs. Inr (out # outs)))"

definition fill_transaction ::
    "transaction \<Rightarrow> 'a utxo_state_scheme \<Rightarrow> (error, filled_transaction) result" where
  "fill_transaction tx s =
     rbind (fill_inputs (utxos s) (t_inputs tx)) (\<lambda>outs.
     Inr \<lparr> ft_transaction = tx, ft_spent_utxos = outs, ft_actor_address = None \<rparr>)"

definition fill_input_from_stxos ::
    "txid \<Rightarrow> (outpoint, spent_output) db \<Rightarrow> nat \<times> outpoint \<Rightarrow> filled_output list
       \<Rightarrow> (error, filled_output list) result" where
  "fill_input_from_stxos txid d e acc =
     rbind (ok_or (db_get d (snd e)) (NoStxo (snd e))) (\<lambda>stxo.
     if so_inpoint stxo \<noteq> RegularIn txid (as_u 32 (fst e))
     then Inl (Panic ''assertion failed: stxo.inpoint'')
     else Inr (acc @ [so_output stxo]))"

definition fill_transaction_from_stxos ::
    "(transaction \<Rightarrow> txid) \<Rightarrow> transaction \<Rightarrow> 'a utxo_state_scheme \<Rightarrow> (error, filled_transaction) result" where
  "fill_transaction_from_stxos txid_of tx s =
     rbind (try_fold (fill_input_from_stxos (txid_of tx) (stxos s))
              (rev (enumerate 0 (t_inputs tx))) []) (\<lambda>outs.
     Inr \<lparr> ft_transaction = tx, ft_spent_utxos = rev outs, ft_actor_address = None \<rparr>)"

section \<open>Connecting and disconnecting a transaction\<close>

definition spend_input ::
    "txid \<Rightarrow> nat \<times> outpoint \<Rightarrow> 'a utxo_state_scheme \<Rightarrow> (error, 'a utxo_state_scheme) result" where
  "spend_input txid e s =
     rbind (ok_or (db_get (utxos s) (snd e)) (NoUtxo (snd e))) (\<lambda>out.
     let s1 = fst (delete_utxo (snd e) s)
     in Inr (s1 \<lparr> stxos := db_put (stxos s1) (snd e)
                   \<lparr> so_output = out, so_inpoint = RegularIn txid (as_u 32 (fst e)) \<rparr> \<rparr>))"

definition create_output ::
    "txid \<Rightarrow> nat \<times> filled_output \<Rightarrow> 'a utxo_state_scheme \<Rightarrow> (error, 'a utxo_state_scheme) result" where
  "create_output txid e s = Inr (insert_utxo (Regular txid (as_u 32 (fst e))) (snd e) s)"

definition apply_utxo_changes ::
    "(transaction \<Rightarrow> txid) \<Rightarrow> filled_transaction \<Rightarrow> 'a utxo_state_scheme
       \<Rightarrow> (error, 'a utxo_state_scheme) result" where
  "apply_utxo_changes txid_of ftx s =
     (let txid = txid_of (ft_transaction ftx) in
      rbind (try_fold (spend_input txid) (enumerate 0 (t_inputs (ft_transaction ftx))) s) (\<lambda>s1.
      rbind (ok_or (filled_outputs ftx) FillTxOutputContents)
        (\<lambda>outs. try_fold (create_output txid) (enumerate 0 outs) s1)))"

definition delete_or_fail ::
    "outpoint \<Rightarrow> 'a utxo_state_scheme \<Rightarrow> (error, 'a utxo_state_scheme) result" where
  "delete_or_fail op s = (case delete_utxo op s of (s', d) \<Rightarrow> if d then Inr s' else Inl (NoUtxo op))"

definition unspend_input ::
    "outpoint \<Rightarrow> 'a utxo_state_scheme \<Rightarrow> (error, 'a utxo_state_scheme) result" where
  "unspend_input op s =
     (case db_get (stxos s) op of
        Some spent \<Rightarrow> Inr (insert_utxo op (so_output spent) (s \<lparr> stxos := db_delete (stxos s) op \<rparr>))
      | None \<Rightarrow> Inl (NoStxo op))"

definition revert_utxo_changes ::
    "(transaction \<Rightarrow> txid) \<Rightarrow> transaction \<Rightarrow> 'a utxo_state_scheme
       \<Rightarrow> (error, 'a utxo_state_scheme) result" where
  "revert_utxo_changes txid_of tx s =
     rbind (try_fold (\<lambda>e. delete_or_fail (Regular (txid_of tx) (as_u 32 (fst e))))
              (rev (enumerate 0 (t_outputs tx))) s) (\<lambda>s1.
     try_fold unspend_input (rev (t_inputs tx)) s1)"

section \<open>The address index\<close>

definition index_ok :: "'a utxo_state_scheme \<Rightarrow> bool" where
  "index_ok s \<longleftrightarrow> (\<forall>addr op. db_get (utxos_by_address s) (addr, op) =
     (case db_get (utxos s) op of
        Some out \<Rightarrow> if fo_address out = addr then Some () else None
      | None \<Rightarrow> None))"

lemma index_ok_iff:
  "index_ok s \<Longrightarrow> db_get (utxos_by_address s) (addr, op) = Some u \<longleftrightarrow>
     (\<exists>out. db_get (utxos s) op = Some out \<and> fo_address out = addr)"
  by (cases "db_get (utxos s) op") (auto simp: index_ok_def)

lemma delete_utxo_present:
  "db_get (utxos s) op = Some out \<Longrightarrow>
     delete_utxo op s = (s \<lparr> utxos := db_delete (utxos s) op,
       utxos_by_address := db_delete (utxos_by_address s) (fo_address out, op) \<rparr>, True)"
  by (simp add: delete_utxo_def db_contains_def Let_def)

lemma delete_utxo_absent: "db_get (utxos s) op = None \<Longrightarrow> delete_utxo op s = (s, False)"
  by (simp add: delete_utxo_def)

lemma index_ok_delete:
  assumes "index_ok s" shows "index_ok (fst (delete_utxo op s))"
proof (cases "db_get (utxos s) op")
  case None
  then show ?thesis using assms by (simp add: delete_utxo_absent)
next
  case (Some out)
  with assms show ?thesis
    by (simp add: delete_utxo_present [OF Some] index_ok_def)
qed

lemma index_ok_insert:
  assumes "index_ok s"
    and "\<And>out'. db_get (utxos s) op = Some out' \<Longrightarrow> fo_address out' = fo_address out"
  shows "index_ok (insert_utxo op out s)"
proof -
  have "db_get (utxos_by_address (insert_utxo op out s)) (addr, q) =
      (case db_get (utxos (insert_utxo op out s)) q of
         Some out \<Rightarrow> if fo_address out = addr then Some () else None
       | None \<Rightarrow> None)" for addr q
  proof (cases "db_get (utxos s) op")
    case None
    then show ?thesis using assms(1) by (simp add: index_ok_def insert_utxo_def)
  next
    case (Some out')
    with assms(2) have "fo_address out' = fo_address out" by blast
    with assms(1) Some show ?thesis by (simp add: index_ok_def insert_utxo_def)
  qed
  then show ?thesis by (simp add: index_ok_def)
qed

lemma index_ok_stxos [simp]: "index_ok (s \<lparr> stxos := d \<rparr>) = index_ok s"
  by (simp add: index_ok_def)

lemma index_ok_clear [simp]: "index_ok (clear_utxos s)"
  by (simp add: index_ok_def clear_utxos_def)

lemma index_ok_cong:
  "utxos s = utxos t \<Longrightarrow> utxos_by_address s = utxos_by_address t \<Longrightarrow> index_ok s = index_ok t"
  by (simp add: index_ok_def)

lemma index_determined:
  assumes "index_ok s" and "index_ok t" and "utxos s = utxos t"
  shows "utxos_by_address s = utxos_by_address t"
proof (rule db_ext)
  fix k :: "address \<times> outpoint"
  obtain addr op where "k = (addr, op)" by fastforce
  then show "db_get (utxos_by_address s) k = db_get (utxos_by_address t) k"
    using assms by (simp add: index_ok_def)
qed

lemma delete_insert_utxo:
  assumes "index_ok s" and "db_get (utxos s) op = None"
  shows "delete_utxo op (insert_utxo op out s) = (s, True)"
proof -
  have "db_get (utxos_by_address s) (fo_address out, op) = None"
    using assms by (auto simp: index_ok_def)
  with assms(2) show ?thesis
    by (subst delete_utxo_present [where out = out])
      (simp_all add: insert_utxo_def kv.delete_put_fresh)
qed

lemma insert_delete_utxo:
  assumes "index_ok s" and "db_get (utxos s) op = Some out"
  shows "insert_utxo op out (fst (delete_utxo op s)) = s"
proof -
  have "db_get (utxos_by_address s) (fo_address out, op) = Some ()"
    using assms by (auto simp: index_ok_def)
  with assms(2) show ?thesis
    by (simp add: delete_utxo_present [OF assms(2)] insert_utxo_def kv.put_delete_present)
qed

section \<open>Disconnecting undoes connecting\<close>

definition spend_ready :: "(nat \<times> outpoint) list \<Rightarrow> 'a utxo_state_scheme \<Rightarrow> bool" where
  "spend_ready es s \<longleftrightarrow> index_ok s \<and> distinct (map snd es)
     \<and> (\<forall>e \<in> set es. db_get (stxos s) (snd e) = None)"

definition create_ready :: "txid \<Rightarrow> (nat \<times> filled_output) list \<Rightarrow> 'a utxo_state_scheme \<Rightarrow> bool" where
  "create_ready txid es s \<longleftrightarrow> index_ok s \<and> distinct (map fst es)
     \<and> (\<forall>e \<in> set es. fst e < 2 ^ 32 \<and> db_get (utxos s) (Regular txid (fst e)) = None)"

lemma spend_input_ok:
  assumes "spend_input txid e s = Inr s'"
  obtains out where "db_get (utxos s) (snd e) = Some out"
    "utxos s' = db_delete (utxos s) (snd e)"
    "s' = (fst (delete_utxo (snd e) s)) \<lparr> stxos := db_put (stxos s) (snd e)
       \<lparr> so_output = out, so_inpoint = RegularIn txid (as_u 32 (fst e)) \<rparr> \<rparr>"
proof -
  obtain out where out: "db_get (utxos s) (snd e) = Some out"
    using assms by (auto simp: spend_input_def)
  with assms show thesis
    by (intro that [OF out]) (auto simp: spend_input_def delete_utxo_present [OF out])
qed

lemma insert_utxo_stxos:
  "insert_utxo op out (s \<lparr> stxos := d \<rparr>) = (insert_utxo op out s) \<lparr> stxos := d \<rparr>"
  by (simp add: insert_utxo_def)

lemma stxos_insert_utxo [simp]: "stxos (insert_utxo op out s) = stxos s"
  by (simp add: insert_utxo_def)

lemma stxos_delete_utxo [simp]: "stxos (fst (delete_utxo op s)) = stxos s"
  by (cases "db_get (utxos s) op") (simp_all add: delete_utxo_absent delete_utxo_present)

interpretation spending: reversible "spend_input txid" "\<lambda>e. unspend_input (snd e)" spend_ready
proof
  fix e es and s s' :: "'a utxo_state_scheme"
  assume r: "spend_ready (e # es) s" and a: "spend_input txid e s = Inr s'"
  obtain out where out: "db_get (utxos s) (snd e) = Some out"
    and s': "s' = (fst (delete_utxo (snd e) s)) \<lparr> stxos := db_put (stxos s) (snd e)
       \<lparr> so_output = out, so_inpoint = RegularIn txid (as_u 32 (fst e)) \<rparr> \<rparr>"
    using a by (rule spend_input_ok)
  have ok: "index_ok s" and fresh: "db_get (stxos s) (snd e) = None"
    using r by (auto simp: spend_ready_def)
  have "unspend_input (snd e) s' = Inr ((insert_utxo (snd e) out (fst (delete_utxo (snd e) s)))
      \<lparr> stxos := stxos s \<rparr>)"
    using fresh by (simp add: unspend_input_def s' kv.delete_put_fresh insert_utxo_stxos)
  then show "unspend_input (snd e) s' = Inr s"
    by (simp add: insert_delete_utxo [OF ok out])
  show "spend_ready es s'"
    using r index_ok_delete [OF ok, of "snd e"]
    by (auto simp: spend_ready_def s' image_iff dest: bspec)
qed

interpretation creating: reversible "create_output txid"
  "\<lambda>e. delete_or_fail (Regular txid (as_u 32 (fst e)))" "create_ready txid"
proof
  fix e es and s s' :: "'a utxo_state_scheme"
  assume r: "create_ready txid (e # es) s" and a: "create_output txid e s = Inr s'"
  have ok: "index_ok s" and fresh: "db_get (utxos s) (Regular txid (fst e)) = None"
    and w: "as_u 32 (fst e) = fst e"
    using r by (auto simp: create_ready_def)
  have s': "s' = insert_utxo (Regular txid (fst e)) (snd e) s"
    using a w by (simp add: create_output_def)
  show "delete_or_fail (Regular txid (as_u 32 (fst e))) s' = Inr s"
    by (simp add: delete_or_fail_def s' w delete_insert_utxo [OF ok fresh])
  have "index_ok s'" unfolding s' using ok fresh by (intro index_ok_insert) auto
  then show "create_ready txid es s'"
    using r by (auto simp: create_ready_def s' insert_utxo_def image_iff dest: bspec)
qed

lemma spend_fold_utxos:
  assumes "try_fold (spend_input txid) es s = Inr s'" and "db_get (utxos s) op = None"
  shows "db_get (utxos s') op = None"
  using assms
proof (induction es arbitrary: s)
  case (Cons e es)
  then obtain s1 where "spend_input txid e s = Inr s1" "try_fold (spend_input txid) es s1 = Inr s'"
    by auto
  moreover from this(1) have "db_get (utxos s1) op = None"
    using Cons.prems(2) by (elim spend_input_ok) simp
  ultimately show ?case using Cons.IH by blast
qed simp

lemma try_fold_map: "try_fold f (map g xs) s = try_fold (\<lambda>x. f (g x)) xs s"
proof (induction xs arbitrary: s)
  case (Cons x xs)
  then have "try_fold f (map g xs) = try_fold (\<lambda>x. f (g x)) xs" by blast
  then show ?case by simp
qed simp

lemma try_fold_snd_rev:
  "try_fold (\<lambda>e. f (snd e)) (rev (enumerate n xs)) s = try_fold f (rev xs) s"
  by (metis map_snd_enumerate rev_map try_fold_map)

lemma try_fold_fst_rev:
  assumes "length xs = length ys"
  shows "try_fold (\<lambda>e. f (fst e)) (rev (enumerate n xs)) s = try_fold (\<lambda>e. f (fst e)) (rev (enumerate n ys)) s"
  using assms by (metis map_fst_enumerate rev_map try_fold_map)

lemma fill_outputs_length: "fill_outputs outs m = Some fs \<Longrightarrow> length fs = length outs"
  by (induction outs m arbitrary: fs rule: fill_outputs.induct) (auto split: option.splits)

text \<open>
  C4. Disconnecting a transaction undoes connecting it: from a state with a consistent address
  index, when the inputs are distinct and not already spent and the transaction's outpoints are
  new, the loop of \<open>disconnect_tip\<close> restores the unspent outputs, the address index and the spent
  outputs exactly.
\<close>

theorem revert_undoes_apply:
  fixes s :: "'a utxo_state_scheme"
  assumes "apply_utxo_changes txid_of ftx s = Inr s'" and "index_ok s"
    and "distinct (t_inputs (ft_transaction ftx))"
    and "\<forall>op \<in> set (t_inputs (ft_transaction ftx)). db_get (stxos s) op = None"
    and "\<forall>v. db_get (utxos s) (Regular (txid_of (ft_transaction ftx)) v) = None"
    and "length (t_outputs (ft_transaction ftx)) < 2 ^ 32"
  shows "revert_utxo_changes txid_of (ft_transaction ftx) s' = Inr s"
proof -
  let ?tx = "ft_transaction ftx" and ?id = "txid_of (ft_transaction ftx)"
  let ?ins = "enumerate 0 (t_inputs ?tx)"
  obtain s1 outs where s1: "try_fold (spend_input ?id) ?ins s = Inr s1"
    and outs: "filled_outputs ftx = Some outs"
    and s': "try_fold (create_output ?id) (enumerate 0 outs) s1 = Inr s'"
    using assms(1) by (auto simp: apply_utxo_changes_def Let_def)
  have ready: "spend_ready ?ins s"
    using assms(2-4) by (auto simp: spend_ready_def in_set_enumerate_eq)
  then have un: "try_fold unspend_input (rev (t_inputs ?tx)) s1 = Inr s"
    using spending.fold_undo [OF ready s1] by (simp add: try_fold_snd_rev)
  have len: "length outs = length (t_outputs ?tx)"
    using outs by (auto simp: filled_outputs_def dest: fill_outputs_length)
  have "index_ok s1"
    using spending.fold_ready [of ?ins "[]" s ?id s1] ready s1 by (simp add: spend_ready_def)
  then have "create_ready ?id (enumerate 0 outs) s1"
    using spend_fold_utxos [OF s1] assms(5,6) len
    by (auto simp: create_ready_def in_set_enumerate_eq)
  from creating.fold_undo [OF this s']
  have "try_fold (\<lambda>e. delete_or_fail (Regular ?id (as_u 32 (fst e)))) (rev (enumerate 0 (t_outputs ?tx))) s'
      = Inr s1"
    unfolding try_fold_fst_rev [OF len, of "\<lambda>i. delete_or_fail (Regular ?id (as_u 32 i))"] .
  with un show ?thesis by (simp add: revert_utxo_changes_def)
qed

definition example_utxo_state :: utxo_state where
  "example_utxo_state =
     insert_utxo (Regular 1 0) \<lparr> fo_address = 4, fo_content = FilledBitcoin 100, fo_memo = [] \<rparr>
       \<lparr> utxos = db_empty, utxos_by_address = db_empty, stxos = db_empty \<rparr>"

lemma example_utxo_state_ok: "index_ok example_utxo_state"
  unfolding example_utxo_state_def by (rule index_ok_insert) (simp_all add: index_ok_def)

lemma example_apply:
  "\<exists>s'. apply_utxo_changes (\<lambda>_. 9) example_ftx example_utxo_state = Inr s'"
proof -
  have "filled_outputs example_ftx =
      Some [\<lparr> fo_address = 5, fo_content = FilledBitcoin 60, fo_memo = [] \<rparr>]"
    by (simp add: filled_outputs_def output_bitcoin_max_value_def unique_spent_assets_def
        spent_inputs_def example_ftx_def filled_is_bitcoin_def asset_value_def map_filter_def
        checked_sub_def)
  then show ?thesis
    by (simp add: apply_utxo_changes_def Let_def spend_input_def create_output_def
        example_utxo_state_def insert_utxo_def example_ftx_def)
qed

theorem revert_undoes_apply_witness:
  "\<exists>s'. apply_utxo_changes (\<lambda>_. 9) example_ftx example_utxo_state = Inr s'
     \<and> revert_utxo_changes (\<lambda>_. 9) (ft_transaction example_ftx) s' = Inr example_utxo_state"
proof -
  obtain s' where s': "apply_utxo_changes (\<lambda>_. 9) example_ftx example_utxo_state = Inr s'"
    using example_apply by blast
  have "revert_utxo_changes (\<lambda>_. 9) (ft_transaction example_ftx) s' = Inr example_utxo_state"
    by (rule revert_undoes_apply [OF s' example_utxo_state_ok])
      (simp_all add: example_ftx_def example_utxo_state_def insert_utxo_def)
  with s' show ?thesis by blast
qed

section \<open>Queries through the index\<close>

lemma db_get_put_all_function:
  "\<forall>e \<in> set es. f (fst e) = Some (snd e) \<Longrightarrow>
     db_get (db_put_all es d) k = (if k \<in> fst ` set es then f k else db_get d k)"
  by (induction es arbitrary: d) auto

text \<open>
  With a consistent address index, the query by addresses goes through the index but
  returns exactly the unspent outputs whose address is asked for.
\<close>

theorem get_utxos_by_addresses_exact:
  assumes "index_ok s"
  shows "db_get (get_utxos_by_addresses addrs s) op =
    (case db_get (utxos s) op of
       Some out \<Rightarrow> if fo_address out \<in> set addrs then Some out else None
     | None \<Rightarrow> None)"
proof -
  let ?f = "\<lambda>(addr, op). if addr \<in> set addrs then map_option (Pair op) (db_get (utxos s) op) else None"
  let ?es = "List.map_filter ?f (db_keys (utxos_by_address s))"
  have set: "set ?es = {e. \<exists>addr op. (addr, op) \<in> dom (db_get (utxos_by_address s)) \<and> ?f (addr, op) = Some e}"
    unfolding set_map_filter_eq set_db_keys by (simp only: Bex_def split_paired_Ex)
  have "\<forall>e \<in> set ?es. db_get (utxos s) (fst e) = Some (snd e)"
    unfolding set by (auto split: if_splits)
  from db_get_put_all_function [OF this]
  have "db_get (get_utxos_by_addresses addrs s) op
      = (if op \<in> fst ` set ?es then db_get (utxos s) op else None)"
    by (simp add: get_utxos_by_addresses_def)
  moreover have "op \<in> fst ` set ?es \<longleftrightarrow>
      (\<exists>out. db_get (utxos s) op = Some out \<and> fo_address out \<in> set addrs)"
  proof
    assume "op \<in> fst ` set ?es"
    then show "\<exists>out. db_get (utxos s) op = Some out \<and> fo_address out \<in> set addrs"
      unfolding set by (auto simp: index_ok_iff [OF assms] split: if_splits)
  next
    assume "\<exists>out. db_get (utxos s) op = Some out \<and> fo_address out \<in> set addrs"
    then obtain out where out: "db_get (utxos s) op = Some out" "fo_address out \<in> set addrs" by blast
    then have "(op, out) \<in> set ?es"
      unfolding set using assms by (auto simp: index_ok_def dom_def)
    then show "op \<in> fst ` set ?es" by force
  qed
  ultimately show ?thesis by (auto split: option.splits)
qed

theorem get_utxos_by_addresses_exact_witness:
  "db_get (get_utxos_by_addresses [4] example_utxo_state) (Regular 1 0)
     = Some \<lparr> fo_address = 4, fo_content = FilledBitcoin 100, fo_memo = [] \<rparr>"
  using get_utxos_by_addresses_exact [OF example_utxo_state_ok, of "[4]" "Regular 1 0"]
  by (simp add: example_utxo_state_def insert_utxo_def)

end
