(* ===== verification/Bundles.thy ===== *)
theory Bundles
  imports Utxo
begin

text \<open>
  Withdrawal bundles (\<open>WithdrawalBundle\<close> of \<open>lib/types/mod.rs\<close> and \<open>collect_withdrawal_bundle\<close>
  of \<open>lib/state/two_way_peg_data.rs\<close>): the prediction of a bundle's weight, the aggregation of the
  withdrawal outputs by mainchain address, their packing in the order of the fee they pay, and
  the construction of the bundle. What the code takes from the \<open>bitcoin\<close> crate (sizes, weights,
  scripts and transaction identifiers) is the record \<open>btc_env\<close>, an argument of the definitions.
\<close>

record txout =
  to_value :: nat
  to_script :: string

record btc_env =
  amount_size :: nat
  varint_size :: "nat \<Rightarrow> nat"
  locktime_size :: nat
  witness_scale_factor :: nat
  max_standard_weight :: nat
  script_pubkey :: "main_address \<Rightarrow> string"
  inputs_commitment_script :: "outpoint list \<Rightarrow> string"
  fee_commitment_script :: "nat \<Rightarrow> string"
  tx_weight :: "txout list \<Rightarrow> nat"
  tx_id :: "txout list \<Rightarrow> m6id"

record withdrawal_bundle =
  wb_spend_utxos :: "(outpoint, filled_output) db"
  wb_outputs :: "txout list"

record aggregated_withdrawal =
  aw_spend_utxos :: "(outpoint, filled_output) db"
  aw_main_address :: main_address
  aw_value :: nat
  aw_main_fee :: nat

section \<open>Weights\<close>

definition txout_size :: "btc_env \<Rightarrow> nat \<Rightarrow> nat option" where
  "txout_size env spk_size =
     Option.bind (checked_add 32 (amount_size env) (varint_size env spk_size))
       (\<lambda>sz. checked_add 32 sz spk_size)"

definition txin_base_size :: "btc_env \<Rightarrow> nat \<Rightarrow> nat option" where
  "txin_base_size env script_sig_size =
     Option.bind (checked_add 32 (36 + varint_size env script_sig_size) script_sig_size)
       (\<lambda>res. checked_add 32 res 4)"

definition tx_base_size :: "btc_env \<Rightarrow> nat \<Rightarrow> nat \<Rightarrow> nat \<Rightarrow> nat \<Rightarrow> nat option" where
  "tx_base_size env n_inputs sum_txin_base_sizes n_outputs sum_txout_sizes =
     Option.bind (checked_add 32 (varint_size env n_inputs) sum_txin_base_sizes) (\<lambda>vin_base_size.
     Option.bind (checked_add 32 4 vin_base_size) (\<lambda>res.
     Option.bind (checked_add 32 (varint_size env n_outputs) sum_txout_sizes) (\<lambda>vout_size.
     Option.bind (checked_add 32 res vout_size) (\<lambda>res2.
     checked_add 32 res2 (locktime_size env)))))"

definition predict_weight :: "btc_env \<Rightarrow> nat \<Rightarrow> nat \<Rightarrow> nat option" where
  "predict_weight env n_outputs sum_txout_sizes =
     Option.bind (txin_base_size env 0) (\<lambda>treasury_txin.
     Option.bind (checked_add 32 n_outputs 2) (\<lambda>n.
     Option.bind (txout_size env 34) (\<lambda>inputs_commitment.
     Option.bind (txout_size env 10) (\<lambda>fee_commitment.
     Option.bind (checked_add 32 (inputs_commitment + fee_commitment) sum_txout_sizes) (\<lambda>sizes.
     Option.bind (tx_base_size env 1 treasury_txin n sizes) (\<lambda>base.
     Option.bind (checked_mul 64 base (witness_scale_factor env)) (\<lambda>weight.
     if weight \<le> max_standard_weight env then Some weight else None)))))))"

section \<open>Bundles\<close>

definition withdrawal_bundle_new ::
    "btc_env \<Rightarrow> nat \<Rightarrow> nat \<Rightarrow> (outpoint, filled_output) db \<Rightarrow> txout list
       \<Rightarrow> (error, withdrawal_bundle) result" where
  "withdrawal_bundle_new env block_height fee spend_utxos bundle_outputs =
     (let inputs_txout = \<lparr> to_value = 0, to_script =
            inputs_commitment_script env (db_keys spend_utxos @ [Regular 0 block_height]) \<rparr>;
          fee_txout = \<lparr> to_value = 0, to_script = fee_commitment_script env fee \<rparr>;
          outputs = fee_txout # inputs_txout # bundle_outputs
      in if max_standard_weight env < tx_weight env outputs
         then Inl (BundleTooHeavy (tx_weight env outputs) (max_standard_weight env))
         else Inr \<lparr> wb_spend_utxos = spend_utxos, wb_outputs = outputs \<rparr>)"

definition compute_m6id :: "btc_env \<Rightarrow> withdrawal_bundle \<Rightarrow> m6id" where
  "compute_m6id env b = tx_id env (wb_outputs b)"

definition aggregate_withdrawal ::
    "outpoint \<times> filled_output \<Rightarrow> (main_address, aggregated_withdrawal) db
       \<Rightarrow> (error, (main_address, aggregated_withdrawal) db) result" where
  "aggregate_withdrawal e m =
     (case fo_content (snd e) of
        BitcoinWithdrawal w \<Rightarrow>
          (let agg = unwrap_or \<lparr> aw_spend_utxos = db_empty, aw_main_address = w_main_address w,
                                 aw_value = 0, aw_main_fee = 0 \<rparr> (db_get m (w_main_address w)) in
           rbind (ok_or (checked_add 64 (aw_value agg) (w_value w)) AmountOverflow) (\<lambda>v.
           rbind (ok_or (checked_add 64 (aw_main_fee agg) (w_main_fee w)) AmountOverflow) (\<lambda>f.
           Inr (db_put m (w_main_address w)
             (agg \<lparr> aw_value := v, aw_main_fee := f,
                    aw_spend_utxos := db_put (aw_spend_utxos agg) (fst e) (snd e) \<rparr>)))))
      | _ \<Rightarrow> Inr m)"

definition sorted_withdrawals ::
    "(main_address, aggregated_withdrawal) db \<Rightarrow> aggregated_withdrawal list" where
  "sorted_withdrawals m =
     rev (sort_key (\<lambda>a. (aw_main_fee a, aw_value a, aw_main_address a)) (map snd (db_entries m)))"

record packed =
  pk_fee :: nat
  pk_spend :: "(outpoint, filled_output) db"
  pk_outputs :: "txout list"
  pk_size :: nat

definition pack_one :: "aggregated_withdrawal \<Rightarrow> string \<Rightarrow> nat \<Rightarrow> packed \<Rightarrow> (error, packed) result" where
  "pack_one a spk txouts_size pk =
     rbind (ok_or (checked_add 64 (pk_fee pk) (aw_main_fee a)) (Panic ''Amount addition error'')) (\<lambda>fee.
     Inr \<lparr> pk_fee = fee, pk_spend = db_put_all (db_entries (aw_spend_utxos a)) (pk_spend pk),
           pk_outputs = pk_outputs pk @ [\<lparr> to_value = aw_value a, to_script = spk \<rparr>],
           pk_size = txouts_size \<rparr>)"

fun pack_withdrawals :: "btc_env \<Rightarrow> aggregated_withdrawal list \<Rightarrow> packed \<Rightarrow> (error, packed) result" where
  "pack_withdrawals env [] pk = Inr pk"
| "pack_withdrawals env (a # as) pk =
     (if 2 ^ 32 \<le> length (pk_outputs pk) + 1 then Inr pk
      else if 2 ^ 32 \<le> length (script_pubkey env (aw_main_address a)) then pack_withdrawals env as pk
      else case txout_size env (length (script_pubkey env (aw_main_address a))) of
          None \<Rightarrow> pack_withdrawals env as pk
        | Some sz \<Rightarrow>
            (case checked_add 32 (pk_size pk) sz of
               None \<Rightarrow> Inr pk
             | Some txouts_size \<Rightarrow>
                 if predict_weight env (length (pk_outputs pk) + 1) txouts_size = None then Inr pk
                 else rbind (pack_one a (script_pubkey env (aw_main_address a)) txouts_size pk)
                        (pack_withdrawals env as)))"

definition collect_withdrawal_bundle ::
    "btc_env \<Rightarrow> nat \<Rightarrow> 'a utxo_state_scheme \<Rightarrow> (error, withdrawal_bundle option) result" where
  "collect_withdrawal_bundle env block_height s =
     rbind (try_fold aggregate_withdrawal (db_entries (utxos s)) db_empty) (\<lambda>m.
     if db_entries m = [] then Inr None
     else
       rbind (pack_withdrawals env (sorted_withdrawals m)
                \<lparr> pk_fee = 0, pk_spend = db_empty, pk_outputs = [], pk_size = 0 \<rparr>) (\<lambda>pk.
       rbind (withdrawal_bundle_new env block_height (pk_fee pk) (pk_spend pk) (pk_outputs pk)) (\<lambda>bundle.
       if max_standard_weight env < tx_weight env (wb_outputs bundle)
       then Inl (BundleTooHeavy (tx_weight env (wb_outputs bundle)) (max_standard_weight env))
       else Inr (Some bundle))))"

section \<open>Value of a bundle\<close>

fun content_withdrawal_value :: "filled_content \<Rightarrow> nat" where
  "content_withdrawal_value (BitcoinWithdrawal w) = w_value w"
| "content_withdrawal_value _ = 0"

fun content_withdrawal_fee :: "filled_content \<Rightarrow> nat" where
  "content_withdrawal_fee (BitcoinWithdrawal w) = w_main_fee w"
| "content_withdrawal_fee _ = 0"

abbreviation wvalue :: "filled_output \<Rightarrow> nat" where
  "wvalue out \<equiv> content_withdrawal_value (fo_content out)"

abbreviation wfee :: "filled_output \<Rightarrow> nat" where
  "wfee out \<equiv> content_withdrawal_fee (fo_content out)"

definition withdrawal_to :: "filled_output \<Rightarrow> main_address \<Rightarrow> bool" where
  "withdrawal_to out addr \<longleftrightarrow> (\<exists>w. fo_content out = BitcoinWithdrawal w \<and> w_main_address w = addr)"

lemma withdrawal_to_unique: "withdrawal_to out a \<Longrightarrow> withdrawal_to out b \<Longrightarrow> a = b"
  by (auto simp: withdrawal_to_def)

definition agg_ok ::
    "(outpoint, filled_output) db \<Rightarrow> main_address \<Rightarrow> aggregated_withdrawal \<Rightarrow> bool" where
  "agg_ok U addr a \<longleftrightarrow> aw_main_address a = addr
     \<and> aw_value a = db_sum wvalue (aw_spend_utxos a) \<and> aw_main_fee a = db_sum wfee (aw_spend_utxos a)
     \<and> (\<forall>op out. db_get (aw_spend_utxos a) op = Some out \<longrightarrow>
          db_get U op = Some out \<and> withdrawal_to out addr)"

definition agg_inv ::
    "(outpoint, filled_output) db \<Rightarrow> (outpoint \<times> filled_output) list
       \<Rightarrow> (main_address, aggregated_withdrawal) db \<Rightarrow> bool" where
  "agg_inv U es m \<longleftrightarrow> distinct (map fst es) \<and> (\<forall>e \<in> set es. db_get U (fst e) = Some (snd e))
     \<and> (\<forall>addr a. db_get m addr = Some a \<longrightarrow> agg_ok U addr a
          \<and> (\<forall>e \<in> set es. db_get (aw_spend_utxos a) (fst e) = None))"

lemma aggregate_step:
  assumes "agg_inv U (e # es) m" and "aggregate_withdrawal e m = Inr m'"
  shows "agg_inv U es m'"
proof (cases "\<exists>w. fo_content (snd e) = BitcoinWithdrawal w")
  case False
  then have "m' = m" using assms(2)
    by (cases "fo_content (snd e)") (auto simp: aggregate_withdrawal_def)
  then show ?thesis using assms(1) by (simp add: agg_inv_def)
next
  case True
  then obtain w where w: "fo_content (snd e) = BitcoinWithdrawal w" by blast
  let ?addr = "w_main_address w"
  define agg where "agg = unwrap_or \<lparr> aw_spend_utxos = db_empty, aw_main_address = ?addr,
      aw_value = 0, aw_main_fee = 0 \<rparr> (db_get m ?addr)"
  have ok: "agg_ok U ?addr agg"
    using assms(1) by (cases "db_get m ?addr") (auto simp: agg_inv_def agg_def agg_ok_def)
  have fresh: "db_get (aw_spend_utxos agg) (fst e') = None" if "e' \<in> set (e # es)" for e'
    using assms(1) that by (cases "db_get m ?addr") (auto simp: agg_inv_def agg_def)
  define agg' where "agg' = agg \<lparr> aw_value := aw_value agg + w_value w,
      aw_main_fee := aw_main_fee agg + w_main_fee w,
      aw_spend_utxos := db_put (aw_spend_utxos agg) (fst e) (snd e) \<rparr>"
  have m': "m' = db_put m ?addr agg'"
    using assms(2) by (auto simp: aggregate_withdrawal_def w agg_def [symmetric] Let_def agg'_def)
  have wt: "withdrawal_to (snd e) ?addr" "db_get U (fst e) = Some (snd e)"
    using w assms(1) by (auto simp: withdrawal_to_def agg_inv_def)
  have spend: "db_get U op = Some out \<and> withdrawal_to out ?addr"
    if "db_get (aw_spend_utxos agg') op = Some out" for op out
    using that wt ok unfolding agg_ok_def agg'_def by (auto split: if_splits)
  have "agg_ok U ?addr agg'"
    using ok fresh [of e] w spend
    by (simp add: agg_ok_def agg'_def db_sum_put_fresh)
  moreover have "\<forall>e' \<in> set es. db_get (aw_spend_utxos agg') (fst e') = None"
    using fresh assms(1) by (auto simp: agg'_def agg_inv_def image_iff dest: bspec)
  ultimately show ?thesis using assms(1) by (auto simp: agg_inv_def m')
qed

lemma aggregate_all:
  assumes "try_fold aggregate_withdrawal (db_entries U) db_empty = Inr m"
  shows "db_get m addr = Some a \<Longrightarrow> agg_ok U addr a"
proof -
  have "agg_inv U es m0 \<Longrightarrow> try_fold aggregate_withdrawal es m0 = Inr m \<Longrightarrow> agg_inv U [] m" for es m0
    by (induction es arbitrary: m0) (auto dest: aggregate_step)
  moreover have "agg_inv U (db_entries U) db_empty"
    by (auto simp: agg_inv_def distinct_entries db_get_iff_entries)
  ultimately have "agg_inv U [] m" using assms by blast
  then show "db_get m addr = Some a \<Longrightarrow> agg_ok U addr a" by (simp add: agg_inv_def)
qed

definition pack_ok :: "(outpoint, filled_output) db \<Rightarrow> main_address set \<Rightarrow> packed \<Rightarrow> bool" where
  "pack_ok U A pk \<longleftrightarrow> pk_fee pk = db_sum wfee (pk_spend pk)
     \<and> sum_list (map to_value (pk_outputs pk)) = db_sum wvalue (pk_spend pk)
     \<and> (\<forall>op out. db_get (pk_spend pk) op = Some out \<longrightarrow>
          db_get U op = Some out \<and> (\<exists>addr \<in> A. withdrawal_to out addr))"

lemma pack_one_ok:
  assumes "pack_ok U A pk" and "agg_ok U (aw_main_address a) a" and "aw_main_address a \<notin> A"
    and "pack_one a spk txouts_size pk = Inr pk'"
  shows "pack_ok U (insert (aw_main_address a) A) pk'"
proof -
  let ?es = "db_entries (aw_spend_utxos a)"
  have pk': "pk' = \<lparr> pk_fee = pk_fee pk + aw_main_fee a, pk_spend = db_put_all ?es (pk_spend pk),
           pk_outputs = pk_outputs pk @ [\<lparr> to_value = aw_value a, to_script = spk \<rparr>],
           pk_size = txouts_size \<rparr>"
    using assms(4) by (auto simp: pack_one_def)
  have fresh: "db_get (pk_spend pk) k = None" if "k \<in> fst ` set ?es" for k
  proof (rule ccontr)
    assume "db_get (pk_spend pk) k \<noteq> None"
    then obtain out addr where "db_get U k = Some out" "addr \<in> A" "withdrawal_to out addr"
      using assms(1) unfolding pack_ok_def by blast
    moreover from that obtain out' where "db_get (aw_spend_utxos a) k = Some out'"
      by (auto simp: db_get_iff_entries)
    then have "db_get U k = Some out'" "withdrawal_to out' (aw_main_address a)"
      using assms(2) by (simp_all add: agg_ok_def)
    ultimately show False using withdrawal_to_unique assms(3) by auto
  qed
  have sum: "db_sum f (db_put_all ?es (pk_spend pk)) = db_sum f (pk_spend pk) + db_sum f (aw_spend_utxos a)" for f
    using db_sum_put_all_fresh [OF distinct_entries fresh] by (simp add: db_sum_def)
  have get: "db_get (db_put_all ?es (pk_spend pk)) op =
      (case db_get (aw_spend_utxos a) op of Some out \<Rightarrow> Some out | None \<Rightarrow> db_get (pk_spend pk) op)" for op
    by (simp add: db_get_put_all_distinct distinct_entries map_of_db_entries map_add_def)
  show ?thesis
    using assms(1,2)
    by (auto simp: pack_ok_def agg_ok_def pk' sum get split: option.splits)
qed

lemma pack_ok_mono: "pack_ok U A pk \<Longrightarrow> A \<subseteq> B \<Longrightarrow> pack_ok U B pk"
  by (fastforce simp: pack_ok_def)

lemma pack_withdrawals_ok:
  assumes "pack_withdrawals env as pk = Inr pk'" and "pack_ok U A pk"
    and "\<forall>a \<in> set as. agg_ok U (aw_main_address a) a"
    and "distinct (map aw_main_address as)" and "A \<inter> aw_main_address ` set as = {}"
  shows "\<exists>B. pack_ok U B pk'"
  using assms
proof (induction as arbitrary: pk A)
  case (Cons a as)
  have rest: "\<exists>B. pack_ok U B pk'" if "pack_withdrawals env as pk = Inr pk'"
    using Cons.IH [OF that Cons.prems(2)] Cons.prems(3-5) by auto
  have one: "\<exists>B. pack_ok U B pk'"
    if "pack_one a spk txouts_size pk = Inr pk1" "pack_withdrawals env as pk1 = Inr pk'" for spk txouts_size pk1
  proof -
    have "pack_ok U (insert (aw_main_address a) A) pk1"
      using that(1) Cons.prems by (intro pack_one_ok) auto
    from Cons.IH [OF that(2) this] Cons.prems show ?thesis by auto
  qed
  show ?case
    using Cons.prems(1,2) rest one
    by (auto split: if_splits option.splits)
qed auto

lemma sorted_withdrawals_ok:
  assumes "\<And>addr a. db_get m addr = Some a \<Longrightarrow> agg_ok U addr a"
  shows "\<forall>a \<in> set (sorted_withdrawals m). agg_ok U (aw_main_address a) a"
    and "distinct (map aw_main_address (sorted_withdrawals m))"
proof -
  have ent: "aw_main_address (snd e) = fst e \<and> agg_ok U (fst e) (snd e)" if "e \<in> set (db_entries m)" for e
    using assms [of "fst e" "snd e"] that by (auto simp: db_get_iff_entries agg_ok_def)
  have "distinct (map aw_main_address (map snd (db_entries m)))"
  proof -
    have "map aw_main_address (map snd (db_entries m)) = map fst (db_entries m)"
      using ent by simp
    then show ?thesis by (simp only: distinct_entries)
  qed
  then show "distinct (map aw_main_address (sorted_withdrawals m))"
    by (auto simp: sorted_withdrawals_def distinct_map simp del: map_map)
  show "\<forall>a \<in> set (sorted_withdrawals m). agg_ok U (aw_main_address a) a"
    using ent by (auto simp: sorted_withdrawals_def)
qed

lemma collected_bundle_facts:
  fixes s :: "'a utxo_state_scheme"
  assumes "collect_withdrawal_bundle env h s = Inr (Some b)"
  obtains A fee outs where "wb_outputs b = \<lparr> to_value = 0, to_script = fee_commitment_script env fee \<rparr> # outs"
    "sum_list (map to_value outs) = db_sum wvalue (wb_spend_utxos b)" "fee = db_sum wfee (wb_spend_utxos b)"
    "\<And>op out. db_get (wb_spend_utxos b) op = Some out \<Longrightarrow>
       db_get (utxos s) op = Some out \<and> (\<exists>addr \<in> A. withdrawal_to out addr)"
    "tx_weight env (wb_outputs b) \<le> max_standard_weight env"
proof -
  let ?init = "\<lparr> pk_fee = 0, pk_spend = db_empty, pk_outputs = [], pk_size = 0 \<rparr>"
  obtain m pk where m: "try_fold aggregate_withdrawal (db_entries (utxos s)) db_empty = Inr m"
    and pk: "pack_withdrawals env (sorted_withdrawals m) ?init = Inr pk"
    and b: "withdrawal_bundle_new env h (pk_fee pk) (pk_spend pk) (pk_outputs pk) = Inr b"
    and w: "tx_weight env (wb_outputs b) \<le> max_standard_weight env"
    using assms by (auto simp: collect_withdrawal_bundle_def split: if_splits)
  note agg = aggregate_all [OF m]
  have "pack_ok (utxos s) {} ?init" by (simp add: pack_ok_def)
  then obtain A where ok: "pack_ok (utxos s) A pk"
    using pack_withdrawals_ok [OF pk] sorted_withdrawals_ok [OF agg] by fastforce
  have sp: "wb_spend_utxos b = pk_spend pk"
    and "\<exists>outs. wb_outputs b = \<lparr> to_value = 0, to_script = fee_commitment_script env (pk_fee pk) \<rparr> # outs
      \<and> sum_list (map to_value outs) = sum_list (map to_value (pk_outputs pk))"
    using b by (auto simp: withdrawal_bundle_new_def Let_def split: if_splits)
  then show thesis
    using that [of "pk_fee pk" _ A] ok w unfolding pack_ok_def sp by auto
qed

lemma collected_spends_unspent:
  "collect_withdrawal_bundle env h s = Inr (Some b) \<Longrightarrow> db_get (wb_spend_utxos b) op = Some out
     \<Longrightarrow> db_get (utxos s) op = Some out"
  by (erule collected_bundle_facts) blast

text \<open>
  C6. A collected withdrawal bundle is backed by the chain and pays exactly what it takes: every
  output it spends is an unspent withdrawal output of the state; its mainchain outputs add up to
  the withdrawal values of the spent outputs; the committed fee is the sum of their mainchain
  fees; and its weight is within the standard limit.
\<close>

theorem collected_bundle_balanced:
  fixes s :: "'a utxo_state_scheme"
  assumes "collect_withdrawal_bundle env h s = Inr (Some b)"
  shows "(\<forall>op out. db_get (wb_spend_utxos b) op = Some out \<longrightarrow>
        db_get (utxos s) op = Some out \<and> filled_is_withdrawal out)
    \<and> sum_list (map to_value (wb_outputs b)) = db_sum wvalue (wb_spend_utxos b)
    \<and> to_script (hd (wb_outputs b)) = fee_commitment_script env (db_sum wfee (wb_spend_utxos b))
    \<and> tx_weight env (wb_outputs b) \<le> max_standard_weight env"
  using assms
proof (rule collected_bundle_facts)
  fix A fee outs
  assume "wb_outputs b = \<lparr> to_value = 0, to_script = fee_commitment_script env fee \<rparr> # outs"
    and "sum_list (map to_value outs) = db_sum wvalue (wb_spend_utxos b)" and "fee = db_sum wfee (wb_spend_utxos b)"
    and spends: "\<And>op out. db_get (wb_spend_utxos b) op = Some out \<Longrightarrow>
       db_get (utxos s) op = Some out \<and> (\<exists>addr \<in> A. withdrawal_to out addr)"
    and "tx_weight env (wb_outputs b) \<le> max_standard_weight env"
  moreover have "filled_is_withdrawal out" if "db_get (wb_spend_utxos b) op = Some out" for op out
    using spends [OF that] by (auto simp: withdrawal_to_def filled_is_withdrawal_def)
  ultimately show ?thesis by simp
qed

definition example_btc_env :: btc_env where
  "example_btc_env = \<lparr> amount_size = 8, varint_size = (\<lambda>n. if n < 253 then 1 else 3),
     locktime_size = 4, witness_scale_factor = 4, max_standard_weight = 400000,
     script_pubkey = id, inputs_commitment_script = (\<lambda>_. []), fee_commitment_script = (\<lambda>_. []),
     tx_weight = (\<lambda>outs. 100 * length outs), tx_id = (\<lambda>_. 77) \<rparr>"

definition example_withdrawal :: filled_output where
  "example_withdrawal = \<lparr> fo_address = 3, fo_content = BitcoinWithdrawal
     \<lparr> w_value = 500, w_main_fee = 20, w_main_address = ''ab'' \<rparr>, fo_memo = [] \<rparr>"

definition example_peg_utxos :: utxo_state where
  "example_peg_utxos = insert_utxo (Regular 1 0) example_withdrawal
     \<lparr> utxos = db_empty, utxos_by_address = db_empty, stxos = db_empty \<rparr>"

lemma example_collect:
  "\<exists>b. collect_withdrawal_bundle example_btc_env 5 example_peg_utxos = Inr (Some b)"
  by (simp add: collect_withdrawal_bundle_def example_peg_utxos_def insert_utxo_def
      aggregate_withdrawal_def example_withdrawal_def Let_def checked_add_def sorted_withdrawals_def
      pack_one_def txout_size_def predict_weight_def txin_base_size_def tx_base_size_def
      checked_mul_def example_btc_env_def withdrawal_bundle_new_def)

theorem collected_bundle_balanced_witness:
  "\<exists>b. collect_withdrawal_bundle example_btc_env 5 example_peg_utxos = Inr (Some b)
     \<and> sum_list (map to_value (wb_outputs b)) = db_sum wvalue (wb_spend_utxos b)"
proof -
  obtain b where b: "collect_withdrawal_bundle example_btc_env 5 example_peg_utxos = Inr (Some b)"
    using example_collect by blast
  from collected_bundle_balanced [OF b] b show ?thesis by blast
qed

end
