(* ===== verification/Rollback.thy ===== *)
theory Rollback
  imports StateTypes
begin

text \<open>
  Height-stamped values with a rollback history (\<open>lib/state/rollback.rs\<close>): a non-empty list
  whose last element is current. A push at a height below the latest one is refused; a pop
  returns the popped value and what is left, if anything is left.
\<close>

record 'a height_stamped =
  stamp_value :: 'a
  stamp_height :: nat

datatype 'a roll_back = RollBack (rb_head: 'a) (rb_tail: "'a list")

definition rb_new :: "'a \<Rightarrow> nat \<Rightarrow> 'a height_stamped roll_back" where
  "rb_new v h = RollBack \<lparr> stamp_value = v, stamp_height = h \<rparr> []"

definition rb_iter :: "'a roll_back \<Rightarrow> 'a list" where
  "rb_iter r = rb_head r # rb_tail r"

definition latest :: "'a roll_back \<Rightarrow> 'a" where
  "latest r = (if rb_tail r = [] then rb_head r else last (rb_tail r))"

definition earliest :: "'a roll_back \<Rightarrow> 'a" where
  "earliest r = rb_head r"

definition rb_pop :: "'a roll_back \<Rightarrow> 'a roll_back option \<times> 'a" where
  "rb_pop r =
     (if rb_tail r = [] then (None, rb_head r)
      else (Some (RollBack (rb_head r) (butlast (rb_tail r))), last (rb_tail r)))"

definition rb_push ::
    "'a \<Rightarrow> nat \<Rightarrow> 'a height_stamped roll_back \<Rightarrow> ('a, 'a height_stamped roll_back) result" where
  "rb_push v h r =
     (if h < stamp_height (latest r) then Inl v
      else Inr (RollBack (rb_head r) (rb_tail r @ [\<lparr> stamp_value = v, stamp_height = h \<rparr>])))"

section \<open>The stack contract\<close>

text \<open>
  What the two-way peg relies on: a push is undone by a pop, the latest value is the one pushed
  last, and a stack with one value pops to nothing.
\<close>

locale stamped_stack =
  fixes fresh :: "'v \<Rightarrow> nat \<Rightarrow> 's"
    and top :: "'s \<Rightarrow> 'e"
    and push :: "'v \<Rightarrow> nat \<Rightarrow> 's \<Rightarrow> ('v, 's) result"
    and pop :: "'s \<Rightarrow> 's option \<times> 'e"
    and entry :: "'v \<Rightarrow> nat \<Rightarrow> 'e"
    and height_of :: "'e \<Rightarrow> nat"
  assumes top_fresh: "top (fresh v h) = entry v h"
    and pop_fresh: "pop (fresh v h) = (None, entry v h)"
    and push_iff: "(\<exists>s'. push v h s = Inr s') \<longleftrightarrow> height_of (top s) \<le> h"
    and pop_push: "push v h s = Inr s' \<Longrightarrow> pop s' = (Some s, entry v h)"
    and top_push: "push v h s = Inr s' \<Longrightarrow> top s' = entry v h"
    and top_pop: "snd (pop s) = top s"
    and height_entry: "height_of (entry v h) = h"
begin

lemma push_heights_increase: "push v h s = Inr s' \<Longrightarrow> height_of (top s) \<le> height_of (top s')"
  using push_iff top_push height_entry by metis

lemma push_push_pop:
  assumes "push v h s = Inr s1" and "push w k s1 = Inr s2"
  shows "h \<le> k" and "pop s2 = (Some s1, entry w k)"
  using push_heights_increase [OF assms(2)] top_push [OF assms(1)] top_push [OF assms(2)]
    height_entry pop_push [OF assms(2)] by auto

end

lemma latest_push_simp [simp]: "latest (RollBack x (xs @ [y])) = y"
  by (simp add: latest_def)

interpretation rb: stamped_stack rb_new latest rb_push rb_pop
  "\<lambda>v h. \<lparr> stamp_value = v, stamp_height = h \<rparr>" stamp_height
proof
  fix v :: 'a and h :: nat and s s' :: "'a height_stamped roll_back"
  show "(\<exists>s'. rb_push v h s = Inr s') \<longleftrightarrow> stamp_height (latest s) \<le> h"
    by (auto simp: rb_push_def not_less)
  show "rb_push v h s = Inr s' \<Longrightarrow> rb_pop s' = (Some s, \<lparr> stamp_value = v, stamp_height = h \<rparr>)"
    by (cases s) (auto simp: rb_push_def rb_pop_def split: if_splits)
  show "rb_push v h s = Inr s' \<Longrightarrow> latest s' = \<lparr> stamp_value = v, stamp_height = h \<rparr>"
    by (auto simp: rb_push_def split: if_splits)
qed (simp_all add: rb_new_def latest_def rb_pop_def)

lemmas rb_simps [simp] = rb.top_fresh rb.pop_fresh rb.top_pop

lemma rb_push_ok: "stamp_height (latest r) \<le> h \<Longrightarrow> \<exists>r'. rb_push v h r = Inr r'"
  by (simp add: rb.push_iff)

definition heights_sorted :: "'a height_stamped roll_back \<Rightarrow> bool" where
  "heights_sorted r \<longleftrightarrow> sorted (map stamp_height (rb_iter r))"

inductive rb_reachable :: "'a height_stamped roll_back \<Rightarrow> bool" where
  fresh: "rb_reachable (rb_new v h)"
| push: "rb_reachable r \<Longrightarrow> rb_push v h r = Inr r' \<Longrightarrow> rb_reachable r'"
| pop: "rb_reachable r \<Longrightarrow> rb_pop r = (Some r', x) \<Longrightarrow> rb_reachable r'"

lemma latest_in_iter: "latest r \<in> set (rb_iter r)"
  by (cases r) (auto simp: latest_def rb_iter_def)

lemma sorted_latest:
  assumes "heights_sorted r" and "x \<in> set (rb_iter r)"
  shows "stamp_height x \<le> stamp_height (latest r)"
proof -
  have it: "rb_iter r = butlast (rb_iter r) @ [latest r]"
    by (cases r) (auto simp: rb_iter_def latest_def)
  have "sorted (map stamp_height (butlast (rb_iter r) @ [latest r]))"
    using assms(1) it unfolding heights_sorted_def by simp
  then have "\<forall>y \<in> set (butlast (rb_iter r)). stamp_height y \<le> stamp_height (latest r)"
    by (simp add: sorted_append)
  with assms(2) it show ?thesis by (metis Un_iff empty_iff empty_set order_refl set_ConsD set_append)
qed

lemma heights_sorted_push:
  assumes "heights_sorted r" and "rb_push v h r = Inr r'" shows "heights_sorted r'"
proof -
  have "rb_iter r' = rb_iter r @ [\<lparr> stamp_value = v, stamp_height = h \<rparr>]"
    using assms(2) by (auto simp: rb_push_def rb_iter_def split: if_splits)
  moreover have "stamp_height x \<le> h" if "x \<in> set (rb_iter r)" for x
    using sorted_latest [OF assms(1) that] assms(2) by (auto simp: rb_push_def split: if_splits)
  ultimately show ?thesis using assms(1) by (auto simp: heights_sorted_def sorted_append)
qed

lemma heights_sorted_pop:
  assumes "heights_sorted r" and "rb_pop r = (Some r', x)" shows "heights_sorted r'"
proof -
  have "rb_iter r = rb_iter r' @ [last (rb_tail r)]"
    using assms(2) by (auto simp: rb_pop_def rb_iter_def split: if_splits)
  then show ?thesis using assms(1) by (simp add: heights_sorted_def sorted_append)
qed

text \<open>
  The rollback history never loses order: starting from \<open>new\<close>, any pushes that succeed and
  any pops keep the stamps sorted by height; the latest stamp is the highest; and popping right
  after a push gives back the history before it.
\<close>

theorem rb_reachable_sorted:
  assumes "rb_reachable r"
  shows "sorted (map stamp_height (rb_iter r))
    \<and> (\<forall>x \<in> set (rb_iter r). stamp_height x \<le> stamp_height (latest r))
    \<and> (\<forall>v h r'. rb_push v h r = Inr r' \<longrightarrow>
         rb_pop r' = (Some r, \<lparr> stamp_value = v, stamp_height = h \<rparr>))"
proof -
  have "heights_sorted r"
    using assms
  proof induction
    case (fresh v h)
    then show ?case by (simp add: heights_sorted_def rb_new_def rb_iter_def)
  qed (auto intro: heights_sorted_push heights_sorted_pop)
  then show ?thesis
    using sorted_latest rb.pop_push by (auto simp: heights_sorted_def)
qed

theorem rb_reachable_sorted_witness:
  "\<exists>r. rb_push (7::nat) 9 (rb_new 5 4) = Inr r \<and> sorted (map stamp_height (rb_iter r))"
proof -
  obtain r where r: "rb_push (7::nat) 9 (rb_new 5 4) = Inr r"
    using rb_push_ok [of "rb_new 5 4" 9 7] by auto
  have "rb_reachable r" using rb_reachable.push [OF rb_reachable.fresh r] .
  from rb_reachable_sorted [OF this] r show ?thesis by blast
qed

end
