(* ===== verification/TwoWayPeg.thy ===== *)
theory TwoWayPeg
  imports Bundles Rollback
begin

text \<open>
  The two-way peg (\<open>lib/state/two_way_peg_data.rs\<close>): deposits, the life of withdrawal bundles
  (pending, submitted, failed, confirmed) and the undoing of both when a block is disconnected.
  The state extends the UTXO state with the bundle tables; a table with a unit key is an option.

  Two arguments stand for code outside the repository: \<open>env\<close> (theory \<open>Bundles\<close>) and
  \<open>cursor\<close>, the rank that the storage engine gives to the encoding of a 32-bit sequence number,
  which decides what \<open>last()\<close> returns.
\<close>

datatype bundle_status = Confirmed | Dropped | Failed | Pending | Submitted | SubmittedUnexpected

datatype bundle_event_status = EventConfirmed | EventFailed | EventSubmitted

datatype bundle_info =
    Known withdrawal_bundle
  | Unknown
  | UnknownConfirmed "(outpoint, filled_output) db"

datatype block_event =
    DepositEvent txid nat filled_output
  | BundleEvent m6id bundle_event_status

record block_index_events =
  ie_deposits :: "(outpoint \<times> filled_output) list"
  ie_bundle_spends :: "(outpoint \<times> m6id) list"

record peg_state = utxo_state +
  peg_height :: "nat option"
  pending_withdrawal_bundle :: "m6id option"
  latest_failed_withdrawal_bundle :: "m6id height_stamped roll_back option"
  withdrawal_bundles :: "(m6id, bundle_info \<times> bundle_status height_stamped roll_back) db"
  block_index_events_db :: "(nat, block_index_events) db"
  deposit_blocks :: "(nat, block_hash \<times> nat) db"
  withdrawal_bundle_event_blocks :: "(nat, block_hash \<times> nat) db"

definition WITHDRAWAL_BUNDLE_FAILURE_GAP :: nat where "WITHDRAWAL_BUNDLE_FAILURE_GAP = 4"

section \<open>Shared steps\<close>

definition status_of :: "bundle_status height_stamped roll_back \<Rightarrow> bundle_status" where
  "status_of r = stamp_value (latest r)"

definition is_submitted :: "bundle_status \<Rightarrow> bool" where
  "is_submitted st = (st = Submitted \<or> st = SubmittedUnexpected)"

definition push_status ::
    "bundle_status \<Rightarrow> nat \<Rightarrow> bundle_status height_stamped roll_back
       \<Rightarrow> (error, bundle_status height_stamped roll_back) result" where
  "push_status st h r = map_err (\<lambda>_. DatabaseError ''failed to push bundle status'') (rb_push st h r)"

definition put_bundle ::
    "m6id \<Rightarrow> bundle_info \<Rightarrow> bundle_status height_stamped roll_back \<Rightarrow> peg_state \<Rightarrow> peg_state" where
  "put_bundle m info status s =
     s \<lparr> withdrawal_bundles := db_put (withdrawal_bundles s) m (info, status) \<rparr>"

definition bundle_spend ::
    "(outpoint \<Rightarrow> error) \<Rightarrow> m6id \<Rightarrow> outpoint \<times> filled_output \<Rightarrow> peg_state \<Rightarrow> (error, peg_state) result" where
  "bundle_spend err m e s =
     (case delete_utxo (fst e) s of
        (s', deleted) \<Rightarrow>
          if \<not> deleted then Inl (err (fst e))
          else Inr (s' \<lparr> stxos := db_put (stxos s') (fst e)
                          \<lparr> so_output = snd e, so_inpoint = WithdrawalIn m \<rparr> \<rparr>))"

definition bundle_unspend :: "outpoint \<times> filled_output \<Rightarrow> peg_state \<Rightarrow> (error, peg_state) result" where
  "bundle_unspend e s =
     (if \<not> db_contains (stxos s) (fst e) then Inl (NoStxo (fst e))
      else Inr (insert_utxo (fst e) (snd e) (s \<lparr> stxos := db_delete (stxos s) (fst e) \<rparr>)))"

definition bundle_release :: "outpoint \<times> filled_output \<Rightarrow> peg_state \<Rightarrow> (error, peg_state) result" where
  "bundle_release e s =
     Inr (insert_utxo (fst e) (snd e) (s \<lparr> stxos := db_delete (stxos s) (fst e) \<rparr>))"

definition bundle_retake ::
    "m6id \<Rightarrow> outpoint \<times> filled_output \<Rightarrow> peg_state \<Rightarrow> (error, peg_state) result" where
  "bundle_retake m e s =
     (let s1 = s \<lparr> stxos := db_put (stxos s) (fst e)
                     \<lparr> so_output = snd e, so_inpoint = WithdrawalIn m \<rparr> \<rparr>
      in case delete_utxo (fst e) s1 of
           (s2, deleted) \<Rightarrow> if \<not> deleted then Inl (NoUtxo (fst e)) else Inr s2)"

definition get_latest_failed_withdrawal_bundle ::
    "peg_state \<Rightarrow> (error, (nat \<times> m6id) option) result" where
  "get_latest_failed_withdrawal_bundle s =
     (case latest_failed_withdrawal_bundle s of
        None \<Rightarrow> Inr None
      | Some r \<Rightarrow>
          (let m = stamp_value (latest r) in
           rbind (ok_or (db_get (withdrawal_bundles s) m)
                    (DatabaseError ''latest failed m6id not found'')) (\<lambda>b.
           rbind (ok_or (map_option stamp_height
                      (find (\<lambda>x. stamp_value x = Failed) (rev (rb_iter (snd b)))))
                    (DatabaseError ''missing failure status'')) (\<lambda>failed_height.
           Inr (Some (failed_height, m))))))"

definition get_pending_withdrawal_bundle ::
    "peg_state \<Rightarrow> (error, (withdrawal_bundle \<times> nat) option) result" where
  "get_pending_withdrawal_bundle s =
     (case pending_withdrawal_bundle s of
        None \<Rightarrow> Inr None
      | Some m \<Rightarrow>
          rbind (ok_or (db_get (withdrawal_bundles s) m)
                   (DatabaseError ''pending withdrawal bundle unknown in withdrawal_bundles'')) (\<lambda>b.
          case fst b of
            Known bundle \<Rightarrow> Inr (Some (bundle, stamp_height (latest (snd b))))
          | _ \<Rightarrow> Inl (DatabaseError ''pending withdrawal bundle is not known'')))"

section \<open>Connecting bundle events\<close>

fun check_resubmission :: "bundle_info \<Rightarrow> bundle_status \<Rightarrow> (error, unit) result" where
  "check_resubmission _ Confirmed = Inl (DatabaseError ''confirmed withdrawal bundle resubmitted'')"
| "check_resubmission _ Submitted = Inl (DatabaseError ''withdrawal bundle resubmitted'')"
| "check_resubmission _ SubmittedUnexpected = Inl (DatabaseError ''withdrawal bundle resubmitted'')"
| "check_resubmission (Known _) Dropped = Inr ()"
| "check_resubmission _ Dropped = Inl (DatabaseError ''unknown withdrawal bundle marked as dropped'')"
| "check_resubmission (Known _) Pending =
     Inl (DatabaseError ''dropped withdrawal bundle marked as pending'')"
| "check_resubmission _ Pending = Inl (DatabaseError ''unknown withdrawal bundle marked as pending'')"
| "check_resubmission (UnknownConfirmed _) Failed =
     Inl (DatabaseError ''unknown confirmed withdrawal bundle marked as failed'')"
| "check_resubmission _ Failed = Inr ()"

definition connect_withdrawal_bundle_submitted ::
    "nat \<Rightarrow> m6id \<Rightarrow> peg_state \<Rightarrow> (error, peg_state \<times> (outpoint \<times> m6id) list) result" where
  "connect_withdrawal_bundle_submitted h m s =
     (if pending_withdrawal_bundle s = Some m then
        rbind (ok_or (db_get (withdrawal_bundles s) m)
                 (DatabaseError ''pending withdrawal bundle unknown in withdrawal_bundles'')) (\<lambda>b.
        case fst b of
          Known bundle \<Rightarrow>
            rbind (try_fold (bundle_spend NoUtxo m) (db_entries (wb_spend_utxos bundle)) s) (\<lambda>s1.
            if status_of (snd b) \<noteq> Pending
            then Inl (DatabaseError ''expected Pending status before Submitted'')
            else rbind (push_status Submitted h (snd b)) (\<lambda>status.
                 Inr ((put_bundle m (Known bundle) status s1) \<lparr> pending_withdrawal_bundle := None \<rparr>,
                      map (\<lambda>e. (fst e, m)) (db_entries (wb_spend_utxos bundle)))))
        | _ \<Rightarrow> Inl (DatabaseError ''pending withdrawal bundle is not known''))
      else case db_get (withdrawal_bundles s) m of
          Some b \<Rightarrow>
            rbind (check_resubmission (fst b) (status_of (snd b))) (\<lambda>_.
            rbind (push_status SubmittedUnexpected h (snd b)) (\<lambda>status.
            Inr (put_bundle m (fst b) status s, [])))
        | None \<Rightarrow> Inr (put_bundle m Unknown (rb_new Submitted h) s, []))"

definition confirm_bundle ::
    "nat \<Rightarrow> block_hash \<Rightarrow> m6id \<Rightarrow> bundle_info \<Rightarrow> bundle_status \<Rightarrow> peg_state
       \<Rightarrow> (error, bundle_info \<times> peg_state) result" where
  "confirm_bundle h event_hash m info st s =
     (case info of
        UnknownConfirmed _ \<Rightarrow> Inl (UnknownWithdrawalBundleReconfirmed event_hash m)
      | Unknown \<Rightarrow>
          (if h = 0
           then Inr (UnknownConfirmed (utxos s),
                  clear_utxos (s \<lparr> stxos :=
                    db_put_all (map (\<lambda>e. (fst e, \<lparr> so_output = snd e, so_inpoint = WithdrawalIn m \<rparr>))
                        (db_entries (utxos s))) (stxos s) \<rparr>))
           else Inl (UnknownWithdrawalBundleConfirmed event_hash m))
      | Known bundle \<Rightarrow>
          (if st = SubmittedUnexpected
           then rbind (try_fold (bundle_spend (UnexpectedWithdrawalBundleInsolvency event_hash m) m)
                         (db_entries (wb_spend_utxos bundle)) s) (\<lambda>s1. Inr (info, s1))
           else Inr (info, s)))"

definition connect_withdrawal_bundle_confirmed ::
    "nat \<Rightarrow> block_hash \<Rightarrow> m6id \<Rightarrow> peg_state \<Rightarrow> (error, peg_state) result" where
  "connect_withdrawal_bundle_confirmed h event_hash m s =
     rbind (ok_or (db_get (withdrawal_bundles s) m) (UnknownWithdrawalBundle m)) (\<lambda>b.
     if status_of (snd b) = Confirmed then Inr s
     else if \<not> is_submitted (status_of (snd b))
     then Inl (DatabaseError ''expected Submitted status before Confirmed'')
     else
       rbind (confirm_bundle h event_hash m (fst b) (status_of (snd b)) s) (\<lambda>r.
       rbind (push_status Confirmed h (snd b)) (\<lambda>status.
       Inr (put_bundle m (fst r) status (snd r)))))"

definition push_latest_failed :: "m6id \<Rightarrow> nat \<Rightarrow> peg_state \<Rightarrow> (error, peg_state) result" where
  "push_latest_failed m h s =
     (case latest_failed_withdrawal_bundle s of
        Some r \<Rightarrow>
          rbind (map_err (\<lambda>_. DatabaseError ''failed to push latest failed m6id'') (rb_push m h r)) (\<lambda>r'.
          Inr (s \<lparr> latest_failed_withdrawal_bundle := Some r' \<rparr>))
      | None \<Rightarrow> Inr (s \<lparr> latest_failed_withdrawal_bundle := Some (rb_new m h) \<rparr>))"

definition connect_withdrawal_bundle_failed :: "nat \<Rightarrow> m6id \<Rightarrow> peg_state \<Rightarrow> (error, peg_state) result" where
  "connect_withdrawal_bundle_failed h m s =
     rbind (ok_or (db_get (withdrawal_bundles s) m) (UnknownWithdrawalBundle m)) (\<lambda>b.
     if status_of (snd b) = Failed then Inr s
     else if \<not> is_submitted (status_of (snd b))
     then Inl (DatabaseError ''expected Submitted status before Failed'')
     else
       rbind (case fst b of
                Known bundle \<Rightarrow>
                  (if status_of (snd b) = SubmittedUnexpected then Inr s
                   else rbind (try_fold bundle_release (db_entries (wb_spend_utxos bundle)) s)
                          (push_latest_failed m h))
              | _ \<Rightarrow> Inr s) (\<lambda>s1.
       rbind (push_status Failed h (snd b)) (\<lambda>status.
       Inr (put_bundle m (fst b) status s1))))"

definition connect_withdrawal_bundle_event ::
    "nat \<Rightarrow> block_hash \<Rightarrow> m6id \<Rightarrow> bundle_event_status \<Rightarrow> peg_state
       \<Rightarrow> (error, peg_state \<times> (outpoint \<times> m6id) list) result" where
  "connect_withdrawal_bundle_event h event_hash m ev s =
     (case ev of
        EventSubmitted \<Rightarrow> connect_withdrawal_bundle_submitted h m s
      | EventConfirmed \<Rightarrow>
          rbind (connect_withdrawal_bundle_confirmed h event_hash m s) (\<lambda>s'. Inr (s', []))
      | EventFailed \<Rightarrow> rbind (connect_withdrawal_bundle_failed h m s) (\<lambda>s'. Inr (s', [])))"

section \<open>Disconnecting bundle events\<close>

definition disconnect_withdrawal_bundle_submitted ::
    "nat \<Rightarrow> m6id \<Rightarrow> peg_state \<Rightarrow> (error, peg_state) result" where
  "disconnect_withdrawal_bundle_submitted h m s =
     (case db_get (withdrawal_bundles s) m of
        None \<Rightarrow> (if pending_withdrawal_bundle s = Some m then Inr s else Inl (UnknownWithdrawalBundle m))
      | Some b \<Rightarrow>
          (case rb_pop (snd b) of (prev, newest) \<Rightarrow>
             if \<not> is_submitted (stamp_value newest)
             then Inl (DatabaseError ''expected Submitted status for disconnect'')
             else if stamp_height newest \<noteq> h
             then Inl (DatabaseError ''bundle height != block height'')
             else
               rbind (case (fst b, prev) of
                        (Known bundle, Some p) \<Rightarrow>
                          (if status_of p = Pending
                           then rbind (try_fold bundle_unspend (rev (db_entries (wb_spend_utxos bundle))) s)
                                  (\<lambda>s1. Inr (s1 \<lparr> pending_withdrawal_bundle := Some m \<rparr>))
                           else Inr s)
                      | _ \<Rightarrow> Inr s) (\<lambda>s1.
               Inr (case prev of
                      Some p \<Rightarrow> put_bundle m (fst b) p s1
                    | None \<Rightarrow> s1 \<lparr> withdrawal_bundles := db_delete (withdrawal_bundles s1) m \<rparr>))))"

definition bundle_unconfirm :: "outpoint \<times> filled_output \<Rightarrow> peg_state \<Rightarrow> (error, peg_state) result" where
  "bundle_unconfirm e s =
     (let s1 = insert_utxo (fst e) (snd e) s
      in if \<not> db_contains (stxos s1) (fst e) then Inl (NoStxo (fst e))
         else Inr (s1 \<lparr> stxos := db_delete (stxos s1) (fst e) \<rparr>))"

definition disconnect_withdrawal_bundle_confirmed ::
    "nat \<Rightarrow> m6id \<Rightarrow> peg_state \<Rightarrow> (error, peg_state) result" where
  "disconnect_withdrawal_bundle_confirmed h m s =
     rbind (ok_or (db_get (withdrawal_bundles s) m) (UnknownWithdrawalBundle m)) (\<lambda>b.
     case rb_pop (snd b) of (prev, newest) \<Rightarrow>
       if is_submitted (stamp_value newest) then Inr s
       else if stamp_value newest \<noteq> Confirmed
       then Inl (DatabaseError ''expected Confirmed status for disconnect'')
       else if stamp_height newest \<noteq> h
       then Inl (DatabaseError ''confirmed bundle height != block height'')
       else
         rbind (ok_or prev (DatabaseError ''confirmed bundle has no previous status'')) (\<lambda>p.
         if \<not> is_submitted (status_of p)
         then Inl (DatabaseError ''expected Submitted status before Confirmed'')
         else
           rbind (case fst b of
                    Known bundle \<Rightarrow>
                      (if status_of p = SubmittedUnexpected
                       then rbind (try_fold bundle_unconfirm (db_entries (wb_spend_utxos bundle)) s)
                              (\<lambda>s1. Inr (fst b, s1))
                       else Inr (fst b, s))
                  | UnknownConfirmed spends \<Rightarrow>
                      rbind (try_fold bundle_unconfirm (db_entries spends) s) (\<lambda>s1. Inr (Unknown, s1))
                  | Unknown \<Rightarrow> Inr (fst b, s)) (\<lambda>r.
           Inr (put_bundle m (fst r) p (snd r)))))"

definition pop_latest_failed :: "m6id \<Rightarrow> nat \<Rightarrow> peg_state \<Rightarrow> (error, peg_state) result" where
  "pop_latest_failed m h s =
     rbind (ok_or (latest_failed_withdrawal_bundle s)
              (DatabaseError ''latest failed withdrawal bundle should exist'')) (\<lambda>r.
     case rb_pop r of (prev, newest) \<Rightarrow>
       if stamp_value newest \<noteq> m then Inl (DatabaseError ''latest failed m6id != expected'')
       else if stamp_height newest \<noteq> h
       then Inl (DatabaseError ''latest failed height != block height'')
       else Inr (s \<lparr> latest_failed_withdrawal_bundle := prev \<rparr>))"

definition disconnect_withdrawal_bundle_failed ::
    "nat \<Rightarrow> m6id \<Rightarrow> peg_state \<Rightarrow> (error, peg_state) result" where
  "disconnect_withdrawal_bundle_failed h m s =
     rbind (ok_or (db_get (withdrawal_bundles s) m) (UnknownWithdrawalBundle m)) (\<lambda>b.
     case rb_pop (snd b) of (prev, newest) \<Rightarrow>
       if stamp_value newest = Submitted then Inr s
       else if stamp_value newest \<noteq> Failed
       then Inl (DatabaseError ''expected Failed status for disconnect'')
       else if stamp_height newest \<noteq> h
       then Inl (DatabaseError ''failed bundle height != block height'')
       else
         rbind (ok_or prev (DatabaseError ''failed bundle has no previous status'')) (\<lambda>p.
         if \<not> is_submitted (status_of p)
         then Inl (DatabaseError ''expected Submitted status before Failed'')
         else
           rbind (case fst b of
                    Known bundle \<Rightarrow>
                      (if status_of p = SubmittedUnexpected then Inr s
                       else rbind (try_fold (bundle_retake m) (rev (db_entries (wb_spend_utxos bundle))) s)
                              (pop_latest_failed m h))
                  | _ \<Rightarrow> Inr s) (\<lambda>s1.
           Inr (put_bundle m (fst b) p s1))))"

definition disconnect_withdrawal_bundle_event ::
    "nat \<Rightarrow> m6id \<Rightarrow> bundle_event_status \<Rightarrow> peg_state \<Rightarrow> (error, peg_state) result" where
  "disconnect_withdrawal_bundle_event h m ev s =
     (case ev of
        EventSubmitted \<Rightarrow> disconnect_withdrawal_bundle_submitted h m s
      | EventConfirmed \<Rightarrow> disconnect_withdrawal_bundle_confirmed h m s
      | EventFailed \<Rightarrow> disconnect_withdrawal_bundle_failed h m s)"

section \<open>Connecting and disconnecting a block\<close>

text \<open>
  \<open>last()\<close> returns the entry whose encoded key comes last in the cursor order of the storage
  engine; \<open>cursor\<close> ranks the keys in that order.
\<close>

definition db_last :: "(nat \<Rightarrow> nat) \<Rightarrow> (nat, 'v) db \<Rightarrow> (nat \<times> 'v) option" where
  "db_last cursor d =
     fold (\<lambda>e acc. case acc of
             None \<Rightarrow> Some e
           | Some e' \<Rightarrow> if cursor (fst e') \<le> cursor (fst e) then Some e else acc)
       (db_entries d) None"

record peg_progress =
  pp_state :: peg_state
  pp_index :: block_index_events
  pp_deposit_hash :: "block_hash option"
  pp_event_hash :: "block_hash option"

definition index_is_empty :: "block_index_events \<Rightarrow> bool" where
  "index_is_empty ie \<longleftrightarrow> ie_deposits ie = [] \<and> ie_bundle_spends ie = []"

definition connect_2wpd_event ::
    "nat \<Rightarrow> block_hash \<Rightarrow> block_event \<Rightarrow> peg_progress \<Rightarrow> (error, peg_progress) result" where
  "connect_2wpd_event h event_hash ev p =
     (case ev of
        DepositEvent t v out \<Rightarrow>
          Inr (p \<lparr> pp_state := insert_utxo (Deposit t v) out (pp_state p),
                   pp_index := (pp_index p) \<lparr> ie_deposits := ie_deposits (pp_index p) @ [(Deposit t v, out)] \<rparr>,
                   pp_deposit_hash := Some event_hash \<rparr>)
      | BundleEvent m st \<Rightarrow>
          rbind (connect_withdrawal_bundle_event h event_hash m st (pp_state p)) (\<lambda>r.
          Inr (p \<lparr> pp_state := fst r,
                   pp_index := (pp_index p) \<lparr> ie_bundle_spends := ie_bundle_spends (pp_index p) @ snd r \<rparr>,
                   pp_event_hash := Some event_hash \<rparr>)))"

definition connect_events ::
    "nat \<Rightarrow> (block_hash \<times> block_event list) list \<Rightarrow> peg_progress \<Rightarrow> (error, peg_progress) result" where
  "connect_events h data p =
     try_fold (\<lambda>info. try_fold (connect_2wpd_event h (fst info)) (snd info)) data p"

definition start_progress :: "peg_state \<Rightarrow> peg_progress" where
  "start_progress s =
     \<lparr> pp_state = s, pp_index = \<lparr> ie_deposits = [], ie_bundle_spends = [] \<rparr>,
       pp_deposit_hash = None, pp_event_hash = None \<rparr>"

definition append_block ::
    "(nat \<Rightarrow> nat) \<Rightarrow> block_hash option \<Rightarrow> nat \<Rightarrow> (nat, block_hash \<times> nat) db \<Rightarrow> (nat, block_hash \<times> nat) db" where
  "append_block cursor hash h d =
     (case hash of
        None \<Rightarrow> d
      | Some b \<Rightarrow>
          db_put d (case db_last cursor d of None \<Rightarrow> 0 | Some e \<Rightarrow> wrapping_add 32 (fst e) 1) (b, h))"

definition record_block_events ::
    "(nat \<Rightarrow> nat) \<Rightarrow> nat \<Rightarrow> peg_progress \<Rightarrow> peg_state" where
  "record_block_events cursor h p =
     (let s = pp_state p;
          s1 = (if index_is_empty (pp_index p) then s
                else s \<lparr> block_index_events_db := db_put (block_index_events_db s) h (pp_index p) \<rparr>)
      in s1 \<lparr> deposit_blocks := append_block cursor (pp_deposit_hash p) h (deposit_blocks s1),
              withdrawal_bundle_event_blocks :=
                append_block cursor (pp_event_hash p) h (withdrawal_bundle_event_blocks s1) \<rparr>)"

definition failure_gap_over :: "nat \<Rightarrow> peg_state \<Rightarrow> (error, bool) result" where
  "failure_gap_over h s =
     rbind (get_latest_failed_withdrawal_bundle s) (\<lambda>lf.
     Inr (WITHDRAWAL_BUNDLE_FAILURE_GAP \<le> wrapping_sub 32 h (unwrap_or 0 (map_option fst lf))))"

definition put_pending_bundle ::
    "nat \<Rightarrow> m6id \<Rightarrow> withdrawal_bundle \<Rightarrow> peg_state \<Rightarrow> (error, peg_state) result" where
  "put_pending_bundle h m bundle s =
     rbind (case db_get (withdrawal_bundles s) m of
              Some b \<Rightarrow> push_status Pending h (snd b)
            | None \<Rightarrow> Inr (rb_new Pending h)) (\<lambda>status.
     Inr (put_bundle m (Known bundle) status (s \<lparr> pending_withdrawal_bundle := Some m \<rparr>)))"

definition new_pending_bundle :: "btc_env \<Rightarrow> nat \<Rightarrow> peg_state \<Rightarrow> (error, peg_state) result" where
  "new_pending_bundle env h s =
     rbind (failure_gap_over h s) (\<lambda>over.
     if over \<and> pending_withdrawal_bundle s = None then
       rbind (collect_withdrawal_bundle env h s) (\<lambda>b.
       case b of
         None \<Rightarrow> Inr s
       | Some bundle \<Rightarrow> put_pending_bundle h (compute_m6id env bundle) bundle s)
     else Inr s)"

definition connect ::
    "btc_env \<Rightarrow> (nat \<Rightarrow> nat) \<Rightarrow> (block_hash \<times> block_event list) list \<Rightarrow> peg_state
       \<Rightarrow> (error, peg_state) result" where
  "connect env cursor data s =
     rbind (ok_or (peg_height s) NoTip) (\<lambda>h.
     rbind (connect_events h data (start_progress s)) (\<lambda>p.
     new_pending_bundle env h (record_block_events cursor h p)))"

definition disconnect_event ::
    "nat \<Rightarrow> block_hash \<Rightarrow> block_event \<Rightarrow> peg_progress \<Rightarrow> (error, peg_progress) result" where
  "disconnect_event h event_hash ev p =
     (case ev of
        DepositEvent t v out \<Rightarrow>
          (case delete_utxo (Deposit t v) (pp_state p) of
             (s', deleted) \<Rightarrow>
               if \<not> deleted then Inl (NoUtxo (Deposit t v))
               else Inr (p \<lparr> pp_state := s',
                      pp_deposit_hash := (if pp_deposit_hash p = None then Some event_hash
                                          else pp_deposit_hash p) \<rparr>))
      | BundleEvent m st \<Rightarrow>
          rbind (disconnect_withdrawal_bundle_event h m st (pp_state p)) (\<lambda>s'.
          Inr (p \<lparr> pp_state := s',
                   pp_event_hash := (if pp_event_hash p = None then Some event_hash
                                     else pp_event_hash p) \<rparr>)))"

definition disconnect_events ::
    "nat \<Rightarrow> (block_hash \<times> block_event list) list \<Rightarrow> peg_progress \<Rightarrow> (error, peg_progress) result" where
  "disconnect_events h data p =
     try_fold (\<lambda>info. try_fold (disconnect_event h (fst info)) (rev (snd info))) (rev data) p"

definition remove_block ::
    "(nat \<Rightarrow> nat) \<Rightarrow> error \<Rightarrow> block_hash option \<Rightarrow> nat \<Rightarrow> (nat, block_hash \<times> nat) db
       \<Rightarrow> (error, (nat, block_hash \<times> nat) db) result" where
  "remove_block cursor none_err hash h d =
     (case hash of
        None \<Rightarrow> Inr d
      | Some b \<Rightarrow>
          rbind (ok_or (db_last cursor d) none_err) (\<lambda>e.
          if b \<noteq> fst (snd e) then Inl (DatabaseError ''event block hash mismatch'')
          else if h \<noteq> snd (snd e) then Inl (DatabaseError ''event block height mismatch'')
          else if \<not> db_contains d (fst e) then Inl none_err
          else Inr (db_delete d (fst e))))"

definition drop_pending_bundle :: "nat \<Rightarrow> peg_state \<Rightarrow> (error, peg_state) result" where
  "drop_pending_bundle h s =
     rbind (failure_gap_over h s) (\<lambda>over.
     case pending_withdrawal_bundle s of
       None \<Rightarrow> Inr s
     | Some m \<Rightarrow>
         if \<not> over then Inr s
         else
           rbind (ok_or (db_get (withdrawal_bundles s) m)
                    (DatabaseError ''pending withdrawal bundle unknown in withdrawal_bundles'')) (\<lambda>b.
           if stamp_height (latest (snd b)) \<noteq> h then Inr s
           else
             (let s1 = s \<lparr> pending_withdrawal_bundle := None \<rparr> in
              Inr (case fst (rb_pop (snd b)) of
                     Some status \<Rightarrow> put_bundle m (fst b) status s1
                   | None \<Rightarrow> s1 \<lparr> withdrawal_bundles := db_delete (withdrawal_bundles s1) m \<rparr>))))"

definition disconnect ::
    "(nat \<Rightarrow> nat) \<Rightarrow> (block_hash \<times> block_event list) list \<Rightarrow> peg_state \<Rightarrow> (error, peg_state) result" where
  "disconnect cursor data s =
     rbind (ok_or (peg_height s) NoTip) (\<lambda>h.
     rbind (disconnect_events h data
              (start_progress (s \<lparr> block_index_events_db := db_delete (block_index_events_db s) h \<rparr>))) (\<lambda>p.
     rbind (remove_block cursor NoWithdrawalBundleEventBlock (pp_event_hash p) h
              (withdrawal_bundle_event_blocks (pp_state p))) (\<lambda>event_blocks.
     rbind (drop_pending_bundle h
              ((pp_state p) \<lparr> withdrawal_bundle_event_blocks := event_blocks \<rparr>)) (\<lambda>s1.
     rbind (remove_block cursor NoDepositBlock (pp_deposit_hash p) h (deposit_blocks s1)) (\<lambda>blocks.
     Inr (s1 \<lparr> deposit_blocks := blocks \<rparr>))))))"

section \<open>Queries\<close>

definition get_block_index_events :: "nat \<Rightarrow> peg_state \<Rightarrow> block_index_events" where
  "get_block_index_events h s =
     unwrap_or \<lparr> ie_deposits = [], ie_bundle_spends = [] \<rparr> (db_get (block_index_events_db s) h)"

definition get_last_deposit_block_hash :: "(nat \<Rightarrow> nat) \<Rightarrow> peg_state \<Rightarrow> block_hash option" where
  "get_last_deposit_block_hash cursor s =
     map_option (\<lambda>e. fst (snd e)) (db_last cursor (deposit_blocks s))"

definition get_last_withdrawal_bundle_event_block_hash :: "(nat \<Rightarrow> nat) \<Rightarrow> peg_state \<Rightarrow> block_hash option" where
  "get_last_withdrawal_bundle_event_block_hash cursor s =
     map_option (\<lambda>e. fst (snd e)) (db_last cursor (withdrawal_bundle_event_blocks s))"

fun is_deposit :: "outpoint \<Rightarrow> bool" where
  "is_deposit (Deposit _ _) = True"
| "is_deposit _ = False"

fun is_withdrawal_inpoint :: "inpoint \<Rightarrow> bool" where
  "is_withdrawal_inpoint (WithdrawalIn _) = True"
| "is_withdrawal_inpoint _ = False"

definition compute_deposit_utxo_value :: "'a utxo_state_scheme \<Rightarrow> nat" where
  "compute_deposit_utxo_value s =
     fold (\<lambda>e total. if is_deposit (fst e) then saturating_add 64 total (filled_output_value (snd e))
                     else total) (db_entries (utxos s)) 0"

definition compute_deposit_stxo_value :: "'a utxo_state_scheme \<Rightarrow> nat" where
  "compute_deposit_stxo_value s =
     fold (\<lambda>e total. if is_deposit (fst e)
                     then saturating_add 64 total (filled_output_value (so_output (snd e)))
                     else total) (db_entries (stxos s)) 0"

definition compute_withdrawal_stxo_value :: "'a utxo_state_scheme \<Rightarrow> nat" where
  "compute_withdrawal_stxo_value s =
     fold (\<lambda>e total. if is_withdrawal_inpoint (so_inpoint (snd e))
                     then saturating_add 64 total (filled_output_value (so_output (snd e)))
                     else total) (db_entries (stxos s)) 0"

definition sidechain_wealth :: "'a utxo_state_scheme \<Rightarrow> (error, nat) result" where
  "sidechain_wealth s =
     ok_or (Option.bind (checked_add 64 (compute_deposit_utxo_value s) (compute_deposit_stxo_value s))
              (\<lambda>sum. checked_sub sum (compute_withdrawal_stxo_value s))) AmountOverflow"

section \<open>Moving outputs between the unspent and the spent table\<close>

abbreviation retable ::
    "(outpoint, filled_output) db \<Rightarrow> (address \<times> outpoint, unit) db \<Rightarrow> (outpoint, spent_output) db
       \<Rightarrow> 'a utxo_state_scheme \<Rightarrow> 'a utxo_state_scheme" where
  "retable U I S s \<equiv> s \<lparr> utxos := U, utxos_by_address := I, stxos := S \<rparr>"

abbreviation taken_by :: "m6id \<Rightarrow> filled_output \<Rightarrow> spent_output" where
  "taken_by m out \<equiv> \<lparr> so_output = out, so_inpoint = WithdrawalIn m \<rparr>"

lemma retable_restores:
  assumes "index_ok (retable U I S s)" and "index_ok s"
    and "\<And>op. db_get U op = db_get (utxos s) op" and "\<And>op. db_get S op = db_get (stxos s) op"
  shows "retable U I S s = s"
proof -
  have U: "U = utxos s" and S: "S = stxos s" using assms(3,4) by (auto intro: db_ext)
  moreover have "I = utxos_by_address s"
    using index_determined [OF assms(1,2)] U by simp
  ultimately show ?thesis by simp
qed

text \<open>
  Two contracts: a loop step that takes an unspent output for a bundle, and one that gives it
  back. Several operations of the peg implement each of them, in different orders of the two
  table updates; what their loops do to the tables is shown once.
\<close>

locale taking =
  fixes take :: "outpoint \<times> filled_output \<Rightarrow> peg_state \<Rightarrow> (error, peg_state) result"
    and m :: m6id
  assumes take_present: "db_get (utxos s) (fst e) = Some out \<Longrightarrow>
      take e s = Inr ((fst (delete_utxo (fst e) s))
        \<lparr> stxos := db_put (stxos s) (fst e) (taken_by m (snd e)) \<rparr>)"
    and take_absent: "db_get (utxos s) (fst e) = None \<Longrightarrow> \<exists>err. take e s = Inl err"
begin

lemma take_step:
  assumes "index_ok s" and "take e s = Inr s'"
  obtains U I S where "s' = retable U I S s" "index_ok s'"
    "\<And>op. db_get U op = (if op = fst e then None else db_get (utxos s) op)"
    "\<And>op. db_get S op = (if op = fst e then Some (taken_by m (snd e)) else db_get (stxos s) op)"
    "db_get (utxos s) (fst e) \<noteq> None"
proof (cases "db_get (utxos s) (fst e)")
  case None
  from take_absent [OF this] assms(2) show thesis by auto
next
  case (Some out)
  have s': "s' = (fst (delete_utxo (fst e) s)) \<lparr> stxos := db_put (stxos s) (fst e) (taken_by m (snd e)) \<rparr>"
    using take_present [OF Some] assms(2) by simp
  show thesis
    by (rule that [where U = "db_delete (utxos s) (fst e)"
          and I = "db_delete (utxos_by_address s) (fo_address out, fst e)"
          and S = "db_put (stxos s) (fst e) (taken_by m (snd e))"])
      (use index_ok_delete [OF assms(1), of "fst e"] Some in
        \<open>simp_all add: s' delete_utxo_present [OF Some]\<close>)
qed

lemma take_fold:
  assumes "index_ok s" and "try_fold take es s = Inr s'"
    and "distinct (map fst es)"
  shows "\<exists>U I S. s' = retable U I S s \<and> index_ok s'
    \<and> (\<forall>op. db_get U op = (if op \<in> fst ` set es then None else db_get (utxos s) op))
    \<and> (\<forall>op. db_get S op = (case map_of es op of Some out \<Rightarrow> Some (taken_by m out)
                             | None \<Rightarrow> db_get (stxos s) op))
    \<and> (\<forall>op \<in> fst ` set es. db_get (utxos s) op \<noteq> None)"
  using assms
proof (induction es arbitrary: s)
  case Nil
  then show ?case
    by (intro exI [of _ "utxos s"] exI [of _ "utxos_by_address s"] exI [of _ "stxos s"]) simp
next
  case (Cons e es)
  then obtain s1 where s1: "take e s = Inr s1" and rest: "try_fold take es s1 = Inr s'" by auto
  obtain U I S where t: "s1 = retable U I S s" "index_ok s1"
    "\<And>op. db_get U op = (if op = fst e then None else db_get (utxos s) op)"
    "\<And>op. db_get S op = (if op = fst e then Some (taken_by m (snd e)) else db_get (stxos s) op)"
    "db_get (utxos s) (fst e) \<noteq> None"
    by (rule take_step [OF Cons.prems(1) s1]) (rule that)
  have d: "distinct (map fst es)" "fst e \<notin> fst ` set es" using Cons.prems(3) by auto
  have U: "utxos s1 = U" and S: "stxos s1 = S" by (simp_all add: t(1))
  from Cons.IH [OF t(2) rest d(1), unfolded U S]
  obtain U' I' S' where u: "s' = retable U' I' S' s1" "index_ok s'"
    "\<forall>op. db_get U' op = (if op \<in> fst ` set es then None else db_get U op)"
    "\<forall>op. db_get S' op = (case map_of es op of Some out \<Rightarrow> Some (taken_by m out)
                             | None \<Rightarrow> db_get S op)"
    "\<forall>op \<in> fst ` set es. db_get U op \<noteq> None"
    by (elim exE conjE) (rule that)
  have fresh: "map_of es (fst e) = None" using d(2) by (simp add: map_of_eq_None_iff)
  show ?case
  proof (intro exI conjI)
    show "s' = retable U' I' S' s" using u(1) t(1) by simp
    show "index_ok s'" by (rule u(2))
    show "\<forall>op. db_get U' op = (if op \<in> fst ` set (e # es) then None else db_get (utxos s) op)"
      using u(3) t(3) by auto
    show "\<forall>op. db_get S' op = (case map_of (e # es) op of Some out \<Rightarrow> Some (taken_by m out)
        | None \<Rightarrow> db_get (stxos s) op)"
      using u(4) t(4) fresh by (auto split: option.splits)
    show "\<forall>op \<in> fst ` set (e # es). db_get (utxos s) op \<noteq> None"
      using u(5) t(3,5) by (auto split: if_splits)
  qed
qed

lemma take_fold_ok:
  assumes "distinct (map fst es)" and "\<forall>op \<in> fst ` set es. db_get (utxos s) op \<noteq> None"
    and "index_ok s"
  shows "\<exists>s'. try_fold take es s = Inr s'"
  using assms
proof (induction es arbitrary: s)
  case (Cons e es)
  obtain s1 where s1: "take e s = Inr s1"
    using Cons.prems(2) take_present [of s e] by auto
  obtain U I S where t: "s1 = retable U I S s" "index_ok s1"
    "\<And>op. db_get U op = (if op = fst e then None else db_get (utxos s) op)"
    by (rule take_step [OF Cons.prems(3) s1]) (rule that)
  have d: "distinct (map fst es)" "fst e \<notin> fst ` set es" using Cons.prems(1) by auto
  have "db_get (utxos s1) op \<noteq> None" if "op \<in> fst ` set es" for op
  proof -
    have "op \<noteq> fst e" using that d(2) by blast
    then show ?thesis using Cons.prems(2) that by (auto simp add: t(1,3))
  qed
  then have "\<exists>s'. try_fold take es s1 = Inr s'" using d(1) t(2) by (intro Cons.IH) blast+
  then show ?case using s1 by simp
qed simp

end

locale returning =
  fixes give :: "outpoint \<times> filled_output \<Rightarrow> peg_state \<Rightarrow> (error, peg_state) result"
  assumes give_present: "db_get (stxos s) (fst e) \<noteq> None \<Longrightarrow>
      give e s = Inr ((insert_utxo (fst e) (snd e) s) \<lparr> stxos := db_delete (stxos s) (fst e) \<rparr>)"
begin

lemma give_fold:
  assumes "index_ok s" and "distinct (map fst es)"
    and "\<forall>op \<in> fst ` set es. db_get (stxos s) op \<noteq> None \<and> db_get (utxos s) op = None"
  shows "\<exists>U I S. try_fold give es s = Inr (retable U I S s) \<and> index_ok (retable U I S s)
    \<and> (\<forall>op. db_get U op = (case map_of es op of Some out \<Rightarrow> Some out | None \<Rightarrow> db_get (utxos s) op))
    \<and> (\<forall>op. db_get S op = (if op \<in> fst ` set es then None else db_get (stxos s) op))"
  using assms
proof (induction es arbitrary: s)
  case Nil
  then show ?case
    by (intro exI [of _ "utxos s"] exI [of _ "utxos_by_address s"] exI [of _ "stxos s"]) simp
next
  case (Cons e es)
  define s1 where "s1 = (insert_utxo (fst e) (snd e) s) \<lparr> stxos := db_delete (stxos s) (fst e) \<rparr>"
  have step: "give e s = Inr s1" using give_present [of s e] Cons.prems(3) by (simp add: s1_def)
  have ok: "index_ok s1" unfolding s1_def
    using Cons.prems(1,3) by (auto intro!: index_ok_insert)
  have d: "distinct (map fst es)" "fst e \<notin> fst ` set es" using Cons.prems(2) by auto
  have "\<forall>op \<in> fst ` set es. db_get (stxos s1) op \<noteq> None \<and> db_get (utxos s1) op = None"
    using Cons.prems(3) d(2) by (auto simp: s1_def insert_utxo_def image_iff)
  from Cons.IH [OF ok d(1) this] obtain U I S where u: "try_fold give es s1 = Inr (retable U I S s1)"
    "index_ok (retable U I S s1)"
    "\<forall>op. db_get U op = (case map_of es op of Some out \<Rightarrow> Some out | None \<Rightarrow> db_get (utxos s1) op)"
    "\<forall>op. db_get S op = (if op \<in> fst ` set es then None else db_get (stxos s1) op)"
    by auto
  have fresh: "map_of es (fst e) = None" using d(2) by (simp add: map_of_eq_None_iff)
  show ?case
  proof (intro exI conjI)
    show "try_fold give (e # es) s = Inr (retable U I S s)"
      using u(1) step by (simp add: s1_def insert_utxo_def)
    show "index_ok (retable U I S s)"
      using u(2) by (simp add: s1_def insert_utxo_def)
    show "\<forall>op. db_get U op = (case map_of (e # es) op of Some out \<Rightarrow> Some out | None \<Rightarrow> db_get (utxos s) op)"
      using u(3) fresh by (auto simp: s1_def insert_utxo_def split: option.splits)
    show "\<forall>op. db_get S op = (if op \<in> fst ` set (e # es) then None else db_get (stxos s) op)"
      using u(4) by (auto simp: s1_def insert_utxo_def)
  qed
qed

end

interpretation spend: taking "bundle_spend err m" m
proof
  fix s :: peg_state and e :: "outpoint \<times> filled_output" and out
  show "db_get (utxos s) (fst e) = Some out \<Longrightarrow> bundle_spend err m e s = Inr ((fst (delete_utxo (fst e) s))
      \<lparr> stxos := db_put (stxos s) (fst e) (taken_by m (snd e)) \<rparr>)"
    by (simp add: bundle_spend_def delete_utxo_present)
  show "db_get (utxos s) (fst e) = None \<Longrightarrow> \<exists>err'. bundle_spend err m e s = Inl err'"
    by (simp add: bundle_spend_def delete_utxo_absent)
qed

interpretation retake: taking "bundle_retake m" m
proof
  fix s :: peg_state and e :: "outpoint \<times> filled_output" and out
  show "db_get (utxos s) (fst e) = Some out \<Longrightarrow> bundle_retake m e s = Inr ((fst (delete_utxo (fst e) s))
      \<lparr> stxos := db_put (stxos s) (fst e) (taken_by m (snd e)) \<rparr>)"
    by (simp add: bundle_retake_def delete_utxo_present Let_def)
  show "db_get (utxos s) (fst e) = None \<Longrightarrow> \<exists>err'. bundle_retake m e s = Inl err'"
    by (simp add: bundle_retake_def delete_utxo_absent Let_def)
qed

interpretation unspend: returning bundle_unspend
  by unfold_locales (simp add: bundle_unspend_def db_contains_def insert_utxo_stxos)

interpretation unconfirm: returning bundle_unconfirm
  by unfold_locales (simp add: bundle_unconfirm_def db_contains_def insert_utxo_stxos Let_def)

interpretation release: returning bundle_release
  by unfold_locales (simp add: bundle_release_def insert_utxo_stxos)

text \<open>
  \<open>moved m es s t\<close>: the states differ in that the outputs \<open>es\<close> are unspent in \<open>s\<close> and taken by the
  bundle \<open>m\<close> in \<open>t\<close>.
\<close>

definition moved :: "m6id \<Rightarrow> (outpoint \<times> filled_output) list \<Rightarrow> peg_state \<Rightarrow> peg_state \<Rightarrow> bool" where
  "moved m es s t \<longleftrightarrow>
     (\<forall>op out. map_of es op = Some out \<longrightarrow>
        db_get (utxos s) op = Some out \<and> db_get (stxos s) op = None \<and>
        db_get (utxos t) op = None \<and> db_get (stxos t) op = Some (taken_by m out))
     \<and> (\<forall>op. map_of es op = None \<longrightarrow>
        db_get (utxos t) op = db_get (utxos s) op \<and> db_get (stxos t) op = db_get (stxos s) op)"

lemma retable_index: "index_ok (retable U I S s) \<Longrightarrow> index_ok (retable U I S t)"
  by (simp add: index_ok_def)

lemma retable_eq:
  assumes "index_ok (retable U I S t)" and "index_ok s"
    and "\<And>op. db_get U op = db_get (utxos s) op" and "\<And>op. db_get S op = db_get (stxos s) op"
  shows "retable U I S t = retable (utxos s) (utxos_by_address s) (stxos s) t"
proof -
  have U: "U = utxos s" and S: "S = stxos s" using assms(3,4) by (auto intro: db_ext)
  moreover have "I = utxos_by_address s"
    using index_determined [OF retable_index [OF assms(1), of s] assms(2)] U by simp
  ultimately show ?thesis by simp
qed

lemma map_of_keys: "op \<in> fst ` set es \<longleftrightarrow> map_of es op \<noteq> None"
  by (metis map_of_eq_None_iff)

lemma ball_keys: "(\<forall>op \<in> fst ` set es. P op) \<longleftrightarrow> (\<forall>op out. map_of es op = Some out \<longrightarrow> P op)"
  using map_of_keys [of _ es] by fastforce

lemma movedD:
  "moved m es s t \<Longrightarrow> map_of es op = Some out \<Longrightarrow>
     db_get (utxos s) op = Some out \<and> db_get (stxos s) op = None \<and>
     db_get (utxos t) op = None \<and> db_get (stxos t) op = Some (taken_by m out)"
  "moved m es s t \<Longrightarrow> map_of es op = None \<Longrightarrow>
     db_get (utxos t) op = db_get (utxos s) op \<and> db_get (stxos t) op = db_get (stxos s) op"
  by (simp_all add: moved_def)

context taking
begin

lemma take_moves:
  assumes "index_ok s" and "try_fold take es s = Inr t" and "distinct (map fst es)"
    and "\<And>op out. map_of es op = Some out \<Longrightarrow>
      db_get (stxos s) op = None \<and> (\<forall>out'. db_get (utxos s) op = Some out' \<longrightarrow> out' = out)"
  shows "moved m es s t \<and> index_ok t \<and> t = retable (utxos t) (utxos_by_address t) (stxos t) s"
proof -
  obtain U I S where u: "t = retable U I S s" "index_ok t"
    "\<forall>op. db_get U op = (if op \<in> fst ` set es then None else db_get (utxos s) op)"
    "\<forall>op. db_get S op = (case map_of es op of Some out \<Rightarrow> Some (taken_by m out)
                             | None \<Rightarrow> db_get (stxos s) op)"
    "\<forall>op \<in> fst ` set es. db_get (utxos s) op \<noteq> None"
    using take_fold [OF assms(1-3)] by (elim exE conjE) (rule that)
  have present: "\<exists>out'. db_get (utxos s) op = Some out'" if "map_of es op = Some out" for op out
    using u(5) that unfolding ball_keys by blast
  have "db_get (utxos s) op = Some out" if "map_of es op = Some out" for op out
    using present [OF that] assms(4) [OF that] by auto
  then have "moved m es s t"
    using u(3,4) assms(4) by (simp add: moved_def map_of_keys u(1))
  with u(1,2) show ?thesis by simp
qed

lemma take_back:
  assumes "moved m es s t" and "index_ok s" and "index_ok t"
    and "distinct (map fst es')" and "map_of es' = map_of es" and "utxos r = utxos s"
    and "utxos_by_address r = utxos_by_address s" and "stxos r = stxos s"
  shows "try_fold take es' r = Inr (retable (utxos t) (utxos_by_address t) (stxos t) r)"
proof -
  have r: "index_ok r" using index_ok_cong [OF assms(6,7)] assms(2) by simp
  have present: "\<forall>op \<in> fst ` set es'. db_get (utxos r) op \<noteq> None"
    unfolding ball_keys assms(5,6) using movedD(1) [OF assms(1)] by simp
  obtain r' where r': "try_fold take es' r = Inr r'"
    using take_fold_ok [OF assms(4) present r] by blast
  obtain U I S where u: "r' = retable U I S r" "index_ok r'"
    "\<forall>op. db_get U op = (if op \<in> fst ` set es' then None else db_get (utxos r) op)"
    "\<forall>op. db_get S op = (case map_of es' op of Some out \<Rightarrow> Some (taken_by m out)
                             | None \<Rightarrow> db_get (stxos r) op)"
    using take_fold [OF r r' assms(4)] by (elim exE conjE) (rule that)
  have "db_get U op = db_get (utxos t) op \<and> db_get S op = db_get (stxos t) op" for op
    using movedD [OF assms(1)] u(3,4)
    by (cases "map_of es op") (simp_all add: map_of_keys assms(5,6,8))
  then show ?thesis
    using retable_eq [where U = U and I = I and S = S and t = r, OF _ assms(3)] u(1,2) r' by simp
qed

end

context returning
begin

lemma give_moves:
  assumes "index_ok s" and "try_fold give es s = Inr t" and "distinct (map fst es)"
    and "\<And>op out. map_of es op = Some out \<Longrightarrow>
      db_get (utxos s) op = None \<and> db_get (stxos s) op = Some (taken_by m out)"
  shows "moved m es t s \<and> index_ok t \<and> t = retable (utxos t) (utxos_by_address t) (stxos t) s"
proof -
  have ready: "\<forall>op \<in> fst ` set es. db_get (stxos s) op \<noteq> None \<and> db_get (utxos s) op = None"
    unfolding ball_keys using assms(4) by simp
  obtain U I S where u: "try_fold give es s = Inr (retable U I S s)" "index_ok (retable U I S s)"
    "\<forall>op. db_get U op = (case map_of es op of Some out \<Rightarrow> Some out | None \<Rightarrow> db_get (utxos s) op)"
    "\<forall>op. db_get S op = (if op \<in> fst ` set es then None else db_get (stxos s) op)"
    using give_fold [OF assms(1,3) ready] by (elim exE conjE) (rule that)
  have t: "t = retable U I S s" using u(1) assms(2) by simp
  have "moved m es t s"
    using u(3,4) assms(4) by (simp add: moved_def map_of_keys t)
  with u(2) t show ?thesis by simp
qed

lemma give_back:
  assumes "moved m es s t" and "index_ok s" and "index_ok t"
    and "distinct (map fst es')" and "map_of es' = map_of es" and "utxos r = utxos t"
    and "utxos_by_address r = utxos_by_address t" and "stxos r = stxos t"
  shows "try_fold give es' r = Inr (retable (utxos s) (utxos_by_address s) (stxos s) r)"
proof -
  have r: "index_ok r" using index_ok_cong [OF assms(6,7)] assms(3) by simp
  have ready: "\<forall>op \<in> fst ` set es'. db_get (stxos r) op \<noteq> None \<and> db_get (utxos r) op = None"
    unfolding ball_keys assms(5,6,8) using movedD(1) [OF assms(1)] by simp
  obtain U I S where u: "try_fold give es' r = Inr (retable U I S r)" "index_ok (retable U I S r)"
    "\<forall>op. db_get U op = (case map_of es' op of Some out \<Rightarrow> Some out | None \<Rightarrow> db_get (utxos r) op)"
    "\<forall>op. db_get S op = (if op \<in> fst ` set es' then None else db_get (stxos r) op)"
    using give_fold [OF r assms(4) ready] by (elim exE conjE) (rule that)
  have "db_get U op = db_get (utxos s) op \<and> db_get S op = db_get (stxos s) op" for op
    using movedD [OF assms(1)] u(3,4)
    by (cases "map_of es op") (simp_all add: map_of_keys assms(5,6,8))
  then show ?thesis
    using retable_eq [OF u(2) assms(2)] u(1) by simp
qed

end

section \<open>The peg invariant\<close>

text \<open>
  \<open>names s op out\<close>: somewhere in the state the outpoint \<open>op\<close> stands for the output \<open>out\<close>. The
  invariant: an outpoint stands for one output, is never both spent and unspent, the address
  index is exact, and the outputs of a submitted known bundle are spent by that bundle.
\<close>

definition names :: "peg_state \<Rightarrow> outpoint \<Rightarrow> filled_output \<Rightarrow> bool" where
  "names s op out \<longleftrightarrow> db_get (utxos s) op = Some out
     \<or> (\<exists>sp. db_get (stxos s) op = Some sp \<and> so_output sp = out)
     \<or> (\<exists>m b r. db_get (withdrawal_bundles s) m = Some (Known b, r)
          \<and> db_get (wb_spend_utxos b) op = Some out)"

definition submitted_spent :: "peg_state \<Rightarrow> bool" where
  "submitted_spent s \<longleftrightarrow> (\<forall>m b r op out. db_get (withdrawal_bundles s) m = Some (Known b, r)
     \<longrightarrow> status_of r = Submitted \<longrightarrow> db_get (wb_spend_utxos b) op = Some out
     \<longrightarrow> db_get (stxos s) op = Some (taken_by m out))"

definition peg_ok :: "peg_state \<Rightarrow> bool" where
  "peg_ok s \<longleftrightarrow> index_ok s \<and> submitted_spent s
     \<and> (\<forall>op. db_get (utxos s) op = None \<or> db_get (stxos s) op = None)
     \<and> (\<forall>op out out'. names s op out \<longrightarrow> names s op out' \<longrightarrow> out = out')"

lemma peg_okD:
  assumes "peg_ok s"
  shows "index_ok s" and "submitted_spent s"
    and "db_get (utxos s) op = Some out \<Longrightarrow> db_get (stxos s) op = None"
    and "db_get (stxos s) op = Some sp \<Longrightarrow> db_get (utxos s) op = None"
    and "names s op out \<Longrightarrow> names s op out' \<Longrightarrow> out = out'"
proof -
  show "index_ok s" "submitted_spent s" using assms by (simp_all add: peg_ok_def)
  have "db_get (utxos s) op = None \<or> db_get (stxos s) op = None"
    using assms by (simp add: peg_ok_def)
  then show "db_get (utxos s) op = Some out \<Longrightarrow> db_get (stxos s) op = None"
    and "db_get (stxos s) op = Some sp \<Longrightarrow> db_get (utxos s) op = None" by auto
  show "names s op out \<Longrightarrow> names s op out' \<Longrightarrow> out = out'"
    using assms unfolding peg_ok_def by blast
qed

lemma peg_okI:
  assumes "index_ok s" and "submitted_spent s"
    and "\<And>op. db_get (utxos s) op = None \<or> db_get (stxos s) op = None"
    and "\<And>op out out'. names s op out \<Longrightarrow> names s op out' \<Longrightarrow> out = out'"
  shows "peg_ok s"
  using assms unfolding peg_ok_def by blast

lemma names_bundle:
  "db_get (withdrawal_bundles s) m = Some (Known b, r) \<Longrightarrow> map_of (db_entries (wb_spend_utxos b)) op = Some out
     \<Longrightarrow> names s op out"
  unfolding map_of_db_entries names_def by blast

lemma names_utxo: "db_get (utxos s) op = Some out \<Longrightarrow> names s op out"
  by (simp add: names_def)

lemma push_status_ok:
  assumes "push_status st h r = Inr r'"
  shows "rb_pop r' = (Some r, \<lparr> stamp_value = st, stamp_height = h \<rparr>)" and "status_of r' = st"
  using assms by (simp_all add: push_status_def rb.pop_push rb.top_push status_of_def)

lemma distinct_spends: "distinct (map fst (db_entries d))" "distinct (map fst (rev (db_entries d)))"
  "map_of (rev (db_entries d)) = map_of (db_entries d)"
  by (simp_all add: distinct_entries rev_map map_of_rev_distinct)
    (metis distinct_entries distinct_rev rev_map)

text \<open>Spending the outputs of a known bundle moves them; the rest of the state stays.\<close>

lemma spend_moves:
  assumes "peg_ok s" and "db_get (withdrawal_bundles s) m = Some (Known b, r)"
    and "try_fold (bundle_spend err m) (db_entries (wb_spend_utxos b)) s = Inr t"
  shows "moved m (db_entries (wb_spend_utxos b)) s t \<and> index_ok t
    \<and> t = retable (utxos t) (utxos_by_address t) (stxos t) s"
proof (rule spend.take_moves [OF peg_okD(1) [OF assms(1)] assms(3) distinct_spends(1)])
  fix op out assume e: "map_of (db_entries (wb_spend_utxos b)) op = Some out"
  then have "op \<in> fst ` set (db_entries (wb_spend_utxos b))" by (simp add: map_of_keys)
  then obtain out' where u: "db_get (utxos s) op = Some out'"
    using spend.take_fold [OF peg_okD(1) [OF assms(1)] assms(3) distinct_spends(1)] by blast
  with peg_okD(3,5) [OF assms(1)] names_bundle [OF assms(2) e] names_utxo [OF u]
  show "db_get (stxos s) op = None \<and> (\<forall>out'. db_get (utxos s) op = Some out' \<longrightarrow> out' = out)"
    by (metis option.inject)
qed

section \<open>Disconnecting an event undoes it\<close>

lemma put_bundle_fields [simp]:
  "utxos (put_bundle m i r s) = utxos s" "stxos (put_bundle m i r s) = stxos s"
  "utxos_by_address (put_bundle m i r s) = utxos_by_address s"
  "withdrawal_bundles (put_bundle m i r s) = db_put (withdrawal_bundles s) m (i, r)"
  "pending_withdrawal_bundle (put_bundle m i r s) = pending_withdrawal_bundle s"
  "latest_failed_withdrawal_bundle (put_bundle m i r s) = latest_failed_withdrawal_bundle s"
  by (simp_all add: put_bundle_def)

lemma put_bundle_put: "put_bundle m i' r' (put_bundle m i r s) = put_bundle m i' r' s"
  by (simp add: put_bundle_def kv.put_put)

lemma put_bundle_same: "db_get (withdrawal_bundles s) m = Some (i, r) \<Longrightarrow> put_bundle m i r s = s"
  by (simp add: put_bundle_def kv.put_same)

lemma put_bundle_retable: "put_bundle m i r (retable U I S s) = retable U I S (put_bundle m i r s)"
  by (simp add: put_bundle_def)

lemma submitted_pendingE:
  assumes "connect_withdrawal_bundle_submitted h m s = Inr (s', spends)"
    and "pending_withdrawal_bundle s = Some m"
  obtains b r t r' where "db_get (withdrawal_bundles s) m = Some (Known b, r)"
    "try_fold (bundle_spend NoUtxo m) (db_entries (wb_spend_utxos b)) s = Inr t"
    "status_of r = Pending" "push_status Submitted h r = Inr r'"
    "s' = (put_bundle m (Known b) r' t) \<lparr> pending_withdrawal_bundle := None \<rparr>"
proof -
  obtain i r where i: "db_get (withdrawal_bundles s) m = Some (i, r)"
    using assms by (auto simp: connect_withdrawal_bundle_submitted_def)
  then obtain b where "i = Known b"
    using assms by (cases i) (auto simp: connect_withdrawal_bundle_submitted_def)
  with i assms that show thesis
    by (auto simp: connect_withdrawal_bundle_submitted_def split: if_split_asm)
qed

lemma submitted_otherE:
  assumes "connect_withdrawal_bundle_submitted h m s = Inr (s', spends)"
    and "pending_withdrawal_bundle s \<noteq> Some m"
  obtains (unknown) "db_get (withdrawal_bundles s) m = None" "s' = put_bundle m Unknown (rb_new Submitted h) s"
  | (again) i r r' where "db_get (withdrawal_bundles s) m = Some (i, r)"
    "check_resubmission i (status_of r) = Inr ()" "push_status SubmittedUnexpected h r = Inr r'"
    "s' = put_bundle m i r' s"
  using assms
  by (auto simp: connect_withdrawal_bundle_submitted_def split: option.split_asm)

lemma submitted_pending_roundtrip:
  assumes "peg_ok s" and "pending_withdrawal_bundle s = Some m"
    and "connect_withdrawal_bundle_submitted h m s = Inr (s', spends)"
  shows "disconnect_withdrawal_bundle_submitted h m s' = Inr s"
proof -
  obtain b r t r' where b: "db_get (withdrawal_bundles s) m = Some (Known b, r)"
    and t: "try_fold (bundle_spend NoUtxo m) (db_entries (wb_spend_utxos b)) s = Inr t"
    and pend: "status_of r = Pending" and r': "push_status Submitted h r = Inr r'"
    and s': "s' = (put_bundle m (Known b) r' t) \<lparr> pending_withdrawal_bundle := None \<rparr>"
    using assms(3,2) by (rule submitted_pendingE)
  let ?es = "db_entries (wb_spend_utxos b)"
  have mv: "moved m ?es s t" and ok: "index_ok t" and tt: "t = retable (utxos t) (utxos_by_address t) (stxos t) s"
    using spend_moves [OF assms(1) b t] by blast+
  have undo: "try_fold bundle_unspend (rev ?es) s' = Inr (retable (utxos s) (utxos_by_address s) (stxos s) s')"
    using unspend.give_back [OF mv peg_okD(1) [OF assms(1)] ok distinct_spends(2,3)] by (simp add: s')
  have get: "db_get (withdrawal_bundles s') m = Some (Known b, r')"
    by (subst s', subst tt) simp
  have "put_bundle m (Known b) r ((retable (utxos s) (utxos_by_address s) (stxos s) s')
      \<lparr> pending_withdrawal_bundle := Some m \<rparr>) = s"
    unfolding s' by (subst tt) (use b assms(2) in \<open>simp add: put_bundle_def kv.put_put kv.put_same\<close>)
  then show ?thesis
    by (simp add: disconnect_withdrawal_bundle_submitted_def get push_status_ok [OF r'] is_submitted_def
        pend undo)
qed

lemma submitted_roundtrip:
  assumes "peg_ok s" and "connect_withdrawal_bundle_submitted h m s = Inr (s', spends)"
  shows "disconnect_withdrawal_bundle_submitted h m s' = Inr s"
proof (cases "pending_withdrawal_bundle s = Some m")
  case True
  with assms show ?thesis by (rule_tac submitted_pending_roundtrip)
next
  case False
  show ?thesis
    using assms(2) False
  proof (cases rule: submitted_otherE)
    case unknown
    then show ?thesis
      by (simp add: disconnect_withdrawal_bundle_submitted_def is_submitted_def put_bundle_def
          kv.delete_put_fresh)
  next
    case (again i r r')
    have "status_of r \<noteq> Pending" using again(2) by (cases i; cases "status_of r") auto
    with again show ?thesis
      by (cases i) (simp_all add: disconnect_withdrawal_bundle_submitted_def push_status_ok [OF again(3)]
          is_submitted_def put_bundle_put put_bundle_same)
  qed
qed

lemma confirmedE:
  assumes "connect_withdrawal_bundle_confirmed h event_hash m s = Inr s'"
    and "\<And>i r. db_get (withdrawal_bundles s) m = Some (i, r) \<Longrightarrow> status_of r \<noteq> Confirmed"
  obtains i r i' t r' where "db_get (withdrawal_bundles s) m = Some (i, r)" "is_submitted (status_of r)"
    "confirm_bundle h event_hash m i (status_of r) s = Inr (i', t)"
    "push_status Confirmed h r = Inr r'" "s' = put_bundle m i' r' t"
proof -
  obtain i r where b: "db_get (withdrawal_bundles s) m = Some (i, r)"
    using assms(1) by (auto simp: connect_withdrawal_bundle_confirmed_def)
  from assms(1) assms(2) [OF b] obtain x r' where "is_submitted (status_of r)"
    "confirm_bundle h event_hash m i (status_of r) s = Inr x"
    "push_status Confirmed h r = Inr r'" "s' = put_bundle m (fst x) r' (snd x)"
    by (auto simp: connect_withdrawal_bundle_confirmed_def b simp del: put_bundle_fields split: if_split_asm)
  then show thesis using that [OF b, of "fst x" "snd x"] by simp
qed

lemma confirm_bundleE:
  assumes "confirm_bundle h event_hash m i st s = Inr (i', t)"
  obtains (all) "i = Unknown" "i' = UnknownConfirmed (utxos s)"
    "t = clear_utxos (s \<lparr> stxos := db_put_all (map (\<lambda>e. (fst e, taken_by m (snd e)))
        (db_entries (utxos s))) (stxos s) \<rparr>)"
  | (unexpected) b where "i = Known b" "i' = i" "st = SubmittedUnexpected"
    "try_fold (bundle_spend (UnexpectedWithdrawalBundleInsolvency event_hash m) m)
       (db_entries (wb_spend_utxos b)) s = Inr t"
  | (expected) b where "i = Known b" "i' = i" "st \<noteq> SubmittedUnexpected" "t = s"
proof (cases i)
  case (Known b)
  have "i' = i \<and> (if st = SubmittedUnexpected
      then try_fold (bundle_spend (UnexpectedWithdrawalBundleInsolvency event_hash m) m)
             (db_entries (wb_spend_utxos b)) s = Inr t
      else t = s)"
    using assms Known by (auto simp add: confirm_bundle_def)
  with unexpected [OF Known] expected [OF Known] show thesis by (simp split: if_split_asm)
next
  case Unknown
  have "i' = UnknownConfirmed (utxos s) \<and>
      t = clear_utxos (s \<lparr> stxos := db_put_all (map (\<lambda>e. (fst e, taken_by m (snd e)))
        (db_entries (utxos s))) (stxos s) \<rparr>)"
    using assms Unknown by (simp add: confirm_bundle_def split: if_split_asm)
  with all [OF Unknown] show thesis by blast
qed (use assms in \<open>simp add: confirm_bundle_def\<close>)

lemma clear_moves:
  assumes "peg_ok s"
    and t: "t = clear_utxos (s \<lparr> stxos := db_put_all (map (\<lambda>e. (fst e, taken_by m (snd e)))
        (db_entries (utxos s))) (stxos s) \<rparr>)"
  shows "moved m (db_entries (utxos s)) s t \<and> index_ok t
    \<and> t = retable (utxos t) (utxos_by_address t) (stxos t) s"
proof -
  have "distinct (map fst (map (\<lambda>e. (fst e, taken_by m (snd e))) (db_entries (utxos s))))"
    by (simp add: o_def distinct_entries)
  then have "db_get (stxos t) op = (case db_get (utxos s) op of Some out \<Rightarrow> Some (taken_by m out)
      | None \<Rightarrow> db_get (stxos s) op)" for op
    using db_get_put_all_distinct [of "map (\<lambda>e. (fst e, taken_by m (snd e))) (db_entries (utxos s))" "stxos s"]
    unfolding map_of_map_values [where f = "taken_by m"] map_of_db_entries
    by (simp add: t clear_utxos_def map_add_def split: option.split)
  moreover have "utxos t = db_empty" by (simp add: t clear_utxos_def)
  ultimately show ?thesis
    using peg_okD(3) [OF assms(1)]
    by (auto simp: moved_def map_of_db_entries t clear_utxos_def index_ok_def)
qed

lemma confirmed_roundtrip:
  assumes "peg_ok s" and "connect_withdrawal_bundle_confirmed h event_hash m s = Inr s'"
    and "\<And>i r. db_get (withdrawal_bundles s) m = Some (i, r) \<Longrightarrow> status_of r \<noteq> Confirmed"
  shows "disconnect_withdrawal_bundle_confirmed h m s' = Inr s"
proof -
  obtain i r i' t r' where b: "db_get (withdrawal_bundles s) m = Some (i, r)" and sub: "is_submitted (status_of r)"
    and t: "confirm_bundle h event_hash m i (status_of r) s = Inr (i', t)"
    and r': "push_status Confirmed h r = Inr r'" and s': "s' = put_bundle m i' r' t"
    using assms(2,3) by (rule confirmedE)
  have get: "db_get (withdrawal_bundles s') m = Some (i', r')" by (simp add: s')
  have restore: "put_bundle m i r (retable (utxos s) (utxos_by_address s) (stxos s) s') = s"
    if "t = retable (utxos t) (utxos_by_address t) (stxos t) s"
    unfolding s' by (subst that) (simp add: put_bundle_def kv.put_put kv.put_same [OF b])
  have undo: "try_fold bundle_unconfirm (db_entries d) s'
      = Inr (retable (utxos s) (utxos_by_address s) (stxos s) s')"
    if "moved m (db_entries d) s t" "index_ok t" for d
    by (rule unconfirm.give_back [OF that(1) peg_okD(1) [OF assms(1)] that(2) distinct_entries])
      (simp_all add: s')
  note base = disconnect_withdrawal_bundle_confirmed_def get push_status_ok [OF r'] is_submitted_def
  from t show ?thesis
  proof (cases rule: confirm_bundleE)
    case all
    have "moved m (db_entries (utxos s)) s t" "index_ok t" "t = retable (utxos t) (utxos_by_address t) (stxos t) s"
      using clear_moves [OF assms(1) all(3)] by blast+
    with restore undo show ?thesis using sub all(1,2) by (simp add: base)
  next
    case (unexpected b')
    have "moved m (db_entries (wb_spend_utxos b')) s t" "index_ok t"
      "t = retable (utxos t) (utxos_by_address t) (stxos t) s"
      using spend_moves [OF assms(1) b [unfolded unexpected(1)] unexpected(4)] by blast+
    with restore undo show ?thesis using sub unexpected(1-3) by (simp add: base)
  next
    case (expected b')
    then show ?thesis using sub b by (simp add: base) (simp add: s' put_bundle_put put_bundle_same)
  qed
qed

lemma failedE:
  assumes "connect_withdrawal_bundle_failed h m s = Inr s'"
    and "\<forall>i r. db_get (withdrawal_bundles s) m = Some (i, r) \<longrightarrow> status_of r \<noteq> Failed"
  obtains (released) b r t u r' where "db_get (withdrawal_bundles s) m = Some (Known b, r)"
    "status_of r = Submitted" "try_fold bundle_release (db_entries (wb_spend_utxos b)) s = Inr t"
    "push_latest_failed m h t = Inr u" "push_status Failed h r = Inr r'" "s' = put_bundle m (Known b) r' u"
  | (marked) i r r' where "db_get (withdrawal_bundles s) m = Some (i, r)" "is_submitted (status_of r)"
    "\<forall>b. i = Known b \<longrightarrow> status_of r = SubmittedUnexpected"
    "push_status Failed h r = Inr r'" "s' = put_bundle m i r' s"
proof -
  obtain i r where b: "db_get (withdrawal_bundles s) m = Some (i, r)"
    using assms(1) by (auto simp: connect_withdrawal_bundle_failed_def)
  have sub: "is_submitted (status_of r)"
    using assms(1) assms(2) b by (simp add: connect_withdrawal_bundle_failed_def b split: if_split_asm)
  show thesis
  proof (cases "\<exists>bu. i = Known bu \<and> status_of r = Submitted")
    case True
    then obtain bu where i: "i = Known bu" "status_of r = Submitted" by blast
    then obtain t u r' where "try_fold bundle_release (db_entries (wb_spend_utxos bu)) s = Inr t"
      "push_latest_failed m h t = Inr u" "push_status Failed h r = Inr r'" "s' = put_bundle m (Known bu) r' u"
      using assms(1) b sub
      by (auto simp add: connect_withdrawal_bundle_failed_def simp del: put_bundle_fields split: if_split_asm)
    then show thesis using released b i by blast
  next
    case False
    then have un: "\<forall>bu. i = Known bu \<longrightarrow> status_of r = SubmittedUnexpected"
      using sub by (auto simp: is_submitted_def)
    have "\<exists>r'. push_status Failed h r = Inr r' \<and> s' = put_bundle m i r' s"
      using assms(1) assms(2) b sub un
      by (cases i) (auto simp add: connect_withdrawal_bundle_failed_def b simp del: put_bundle_fields)
    with marked [OF b sub un] show thesis by blast
  qed
qed

lemma push_latest_failed_ok:
  assumes "push_latest_failed m h s = Inr u"
  obtains f where "u = s \<lparr> latest_failed_withdrawal_bundle := Some f \<rparr>"
    "rb_pop f = (latest_failed_withdrawal_bundle s, \<lparr> stamp_value = m, stamp_height = h \<rparr>)"
  using assms
  by (auto simp: push_latest_failed_def rb.pop_push split: option.split_asm)

lemma release_moves:
  assumes "peg_ok s" and "db_get (withdrawal_bundles s) m = Some (Known b, r)" and "status_of r = Submitted"
    and "try_fold bundle_release (db_entries (wb_spend_utxos b)) s = Inr t"
  shows "moved m (db_entries (wb_spend_utxos b)) t s \<and> index_ok t
    \<and> t = retable (utxos t) (utxos_by_address t) (stxos t) s"
proof (rule release.give_moves [OF peg_okD(1) [OF assms(1)] assms(4) distinct_entries])
  fix op out assume "map_of (db_entries (wb_spend_utxos b)) op = Some out"
  then have "db_get (stxos s) op = Some (taken_by m out)"
    using peg_okD(2) [OF assms(1)] assms(2,3) unfolding submitted_spent_def map_of_db_entries by blast
  with peg_okD(4) [OF assms(1)]
  show "db_get (utxos s) op = None \<and> db_get (stxos s) op = Some (taken_by m out)" by blast
qed

lemma failed_roundtrip:
  assumes "peg_ok s" and "connect_withdrawal_bundle_failed h m s = Inr s'"
    and "\<forall>i r. db_get (withdrawal_bundles s) m = Some (i, r) \<longrightarrow> status_of r \<noteq> Failed"
  shows "disconnect_withdrawal_bundle_failed h m s' = Inr s"
  using assms(2,3)
proof (cases rule: failedE)
  case (released b r t u r')
  let ?es = "db_entries (wb_spend_utxos b)"
  have mv: "moved m ?es t s" and ok: "index_ok t" and tt: "t = retable (utxos t) (utxos_by_address t) (stxos t) s"
    using release_moves [OF assms(1) released(1-3)] by blast+
  obtain f where u: "u = t \<lparr> latest_failed_withdrawal_bundle := Some f \<rparr>"
    and f: "rb_pop f = (latest_failed_withdrawal_bundle t, \<lparr> stamp_value = m, stamp_height = h \<rparr>)"
    using released(4) by (rule push_latest_failed_ok)
  have get: "db_get (withdrawal_bundles s') m = Some (Known b, r')" by (simp add: released(6))
  have undo: "try_fold (bundle_retake m) (rev ?es) s'
      = Inr (retable (utxos s) (utxos_by_address s) (stxos s) s')"
    by (rule retake.take_back [OF mv ok peg_okD(1) [OF assms(1)] distinct_spends(2,3)])
      (simp_all add: released(6) u)
  have pop: "pop_latest_failed m h (retable (utxos s) (utxos_by_address s) (stxos s) s')
      = Inr ((retable (utxos s) (utxos_by_address s) (stxos s) s')
          \<lparr> latest_failed_withdrawal_bundle := latest_failed_withdrawal_bundle t \<rparr>)"
    by (simp add: pop_latest_failed_def released(6) u f)
  have "put_bundle m (Known b) r ((retable (utxos s) (utxos_by_address s) (stxos s) s')
      \<lparr> latest_failed_withdrawal_bundle := latest_failed_withdrawal_bundle t \<rparr>) = s"
    unfolding released(6) u
    by (subst tt, subst tt) (simp add: put_bundle_def kv.put_put kv.put_same [OF released(1)])
  then show ?thesis
    by (simp add: disconnect_withdrawal_bundle_failed_def get push_status_ok [OF released(5)] is_submitted_def
        released(2) undo pop)
next
  case (marked i r r')
  then show ?thesis
    by (cases i) (auto simp: disconnect_withdrawal_bundle_failed_def push_status_ok [OF marked(4)]
        is_submitted_def put_bundle_put put_bundle_same)
qed

text \<open>The event changes the bundle: a confirmation or failure is not a repetition.\<close>

fun event_fresh :: "peg_state \<Rightarrow> m6id \<Rightarrow> bundle_event_status \<Rightarrow> bool" where
  "event_fresh s m EventSubmitted = True"
| "event_fresh s m EventConfirmed =
     (case db_get (withdrawal_bundles s) m of Some b \<Rightarrow> status_of (snd b) \<noteq> Confirmed | None \<Rightarrow> True)"
| "event_fresh s m EventFailed =
     (case db_get (withdrawal_bundles s) m of Some b \<Rightarrow> status_of (snd b) \<noteq> Failed | None \<Rightarrow> True)"

lemma event_roundtrip:
  assumes "peg_ok s" and "connect_withdrawal_bundle_event h event_hash m ev s = Inr (s', spends)"
    and "event_fresh s m ev"
  shows "disconnect_withdrawal_bundle_event h m ev s' = Inr s"
proof (cases ev)
  case EventSubmitted
  then show ?thesis
    using submitted_roundtrip [OF assms(1)] assms(2)
    by (simp add: connect_withdrawal_bundle_event_def disconnect_withdrawal_bundle_event_def)
next
  case EventConfirmed
  have "disconnect_withdrawal_bundle_confirmed h m s' = Inr s"
    by (rule confirmed_roundtrip [OF assms(1)])
      (use assms(2,3) EventConfirmed in \<open>auto simp: connect_withdrawal_bundle_event_def\<close>)
  with EventConfirmed show ?thesis by (simp add: disconnect_withdrawal_bundle_event_def)
next
  case EventFailed
  have "disconnect_withdrawal_bundle_failed h m s' = Inr s"
    by (rule failed_roundtrip [OF assms(1)])
      (use assms(2,3) EventFailed in \<open>auto simp: connect_withdrawal_bundle_event_def\<close>)
  with EventFailed show ?thesis by (simp add: disconnect_withdrawal_bundle_event_def)
qed

text \<open>
  C2. Undoing a withdrawal bundle event restores the state exactly: from a state that satisfies the
  peg invariant, when the connection of a submission, confirmation or failure of a bundle succeeds
  (and the confirmation or failure is not a repetition, which the code ignores), the disconnection
  of the same event at the same height succeeds and gives back the state before it: the unspent and
  spent outputs, the address index, the bundle's status history, the pending bundle and the history
  of failed bundles.
\<close>

theorem bundle_event_roundtrip:
  assumes "peg_ok s" and "connect_withdrawal_bundle_event h event_hash m ev s = Inr (s', spends)"
    and "event_fresh s m ev"
  shows "disconnect_withdrawal_bundle_event h m ev s' = Inr s"
  using assms by (rule event_roundtrip)

definition example_bundle :: withdrawal_bundle where
  "example_bundle = \<lparr> wb_spend_utxos = db_put db_empty (Regular 1 0) example_withdrawal, wb_outputs = [] \<rparr>"

definition example_peg_state :: peg_state where
  "example_peg_state =
     insert_utxo (Regular 1 0) example_withdrawal
       \<lparr> utxos = db_empty, utxos_by_address = db_empty, stxos = db_empty, peg_height = Some 9,
         pending_withdrawal_bundle = Some 7, latest_failed_withdrawal_bundle = None,
         withdrawal_bundles = db_put db_empty 7 (Known example_bundle, rb_new Pending 5),
         block_index_events_db = db_empty, deposit_blocks = db_empty,
         withdrawal_bundle_event_blocks = db_empty \<rparr>"

lemma example_peg_ok: "peg_ok example_peg_state"
proof (rule peg_okI)
  show "index_ok example_peg_state"
    unfolding example_peg_state_def by (rule index_ok_insert) (simp_all add: index_ok_def)
  show "submitted_spent example_peg_state"
    by (simp add: submitted_spent_def example_peg_state_def insert_utxo_def status_of_def)
  show "db_get (utxos example_peg_state) op = None \<or> db_get (stxos example_peg_state) op = None" for op
    by (simp add: example_peg_state_def insert_utxo_def)
  show "names example_peg_state op out \<Longrightarrow> names example_peg_state op out' \<Longrightarrow> out = out'" for op out out'
    by (auto simp: names_def example_peg_state_def insert_utxo_def example_bundle_def split: if_split_asm)
qed

lemma example_submission:
  "\<exists>r. connect_withdrawal_bundle_event 9 1 7 EventSubmitted example_peg_state = Inr r"
  by (simp add: connect_withdrawal_bundle_event_def connect_withdrawal_bundle_submitted_def
      example_peg_state_def insert_utxo_def example_bundle_def bundle_spend_def delete_utxo_def
      db_contains_def status_of_def push_status_def rb_push_def rb_new_def latest_def)

theorem bundle_event_roundtrip_witness:
  "\<exists>s' spends. connect_withdrawal_bundle_event 9 1 7 EventSubmitted example_peg_state = Inr (s', spends)
     \<and> disconnect_withdrawal_bundle_event 9 7 EventSubmitted s' = Inr example_peg_state"
proof -
  obtain s' spends where
    c: "connect_withdrawal_bundle_event 9 1 7 EventSubmitted example_peg_state = Inr (s', spends)"
    using example_submission by auto
  from bundle_event_roundtrip [OF example_peg_ok c] c show ?thesis by auto
qed

end
