(* ===== verification/PegBlocks.thy ===== *)
theory PegBlocks
  imports TwoWayPeg
begin

text \<open>
  The two-way peg block by block: the peg invariant is preserved by every event, by the creation of
  a pending bundle and by \<open>connect\<close> as a whole, and \<open>disconnect\<close> undoes \<open>connect\<close>.
\<close>

section \<open>The invariant is preserved\<close>

definition shuffled :: "m6id \<Rightarrow> peg_state \<Rightarrow> peg_state \<Rightarrow> bool" where
  "shuffled m s t \<longleftrightarrow> (\<exists>es. moved m es s t \<or> moved m es t s)"

lemma shuffled_refl: "utxos t = utxos s \<Longrightarrow> stxos t = stxos s \<Longrightarrow> shuffled m s t"
  unfolding shuffled_def by (rule exI [of _ "[]"]) (simp add: moved_def)

lemma shuffled_outputs:
  assumes "shuffled m s t"
  shows "db_get (utxos t) op = Some out \<Longrightarrow>
      db_get (utxos s) op = Some out \<or> (\<exists>sp. db_get (stxos s) op = Some sp \<and> so_output sp = out)"
    and "db_get (stxos t) op = Some sp \<Longrightarrow>
      db_get (stxos s) op = Some sp \<or> db_get (utxos s) op = Some (so_output sp)"
proof -
  obtain es where es: "moved m es s t \<or> moved m es t s" using assms unfolding shuffled_def by blast
  show "db_get (utxos t) op = Some out \<Longrightarrow>
      db_get (utxos s) op = Some out \<or> (\<exists>sp. db_get (stxos s) op = Some sp \<and> so_output sp = out)"
    using es movedD [of m es s t op] movedD [of m es t s op] by (cases "map_of es op") auto
  show "db_get (stxos t) op = Some sp \<Longrightarrow>
      db_get (stxos s) op = Some sp \<or> db_get (utxos s) op = Some (so_output sp)"
    using es movedD [of m es s t op] movedD [of m es t s op] by (cases "map_of es op") auto
qed

lemma shuffled_disjoint:
  assumes "shuffled m s t" and "db_get (utxos s) op = None \<or> db_get (stxos s) op = None"
  shows "db_get (utxos t) op = None \<or> db_get (stxos t) op = None"
proof -
  obtain es where "moved m es s t \<or> moved m es t s" using assms(1) unfolding shuffled_def by blast
  then show ?thesis
    using assms(2) movedD [of m es s t op] movedD [of m es t s op] by (cases "map_of es op") auto
qed

lemma shuffled_other:
  assumes "shuffled m s t" and "peg_ok s" and "db_get (stxos s) op = Some (taken_by m' out)" and "m' \<noteq> m"
  shows "db_get (stxos t) op = Some (taken_by m' out)"
proof -
  obtain es where "moved m es s t \<or> moved m es t s" using assms(1) unfolding shuffled_def by blast
  then show ?thesis
    using assms(3,4) movedD [of m es s t op] movedD [of m es t s op] by (cases "map_of es op") auto
qed

text \<open>
  One event about the bundle \<open>m\<close>: outputs move between the tables on behalf of \<open>m\<close> and the entry
  of \<open>m\<close> is rewritten with the bundle it had, or with outputs that are unspent.
\<close>

lemma known_names:
  "db_get (withdrawal_bundles s) m = Some (i, r0) \<Longrightarrow> i = Known b \<Longrightarrow>
     db_get (wb_spend_utxos b) op = Some out \<Longrightarrow> names s op out"
  unfolding names_def by blast

lemma names_step:
  assumes "shuffled m s t" and "withdrawal_bundles t = db_put (withdrawal_bundles s) m (i, r)"
    and "\<forall>b op out. i = Known b \<longrightarrow> db_get (wb_spend_utxos b) op = Some out \<longrightarrow> names s op out"
    and "names t op out"
  shows "names s op out"
  using assms(4) unfolding names_def [of t]
proof (elim disjE exE conjE)
  fix m' b r' assume "db_get (withdrawal_bundles t) m' = Some (Known b, r')"
    and sp: "db_get (wb_spend_utxos b) op = Some out"
  then show ?thesis
    using assms(2,3) known_names [of s m' "Known b" r' b op out] by (cases "m' = m") auto
next
  fix sp assume "db_get (stxos t) op = Some sp" "so_output sp = out"
  then show ?thesis using shuffled_outputs(2) [OF assms(1), of op sp] by (auto simp: names_def)
next
  assume "db_get (utxos t) op = Some out"
  then show ?thesis using shuffled_outputs(1) [OF assms(1), of op out] by (auto simp: names_def)
qed

lemma peg_ok_step:
  assumes "peg_ok s" and "shuffled m s t" and "index_ok t"
    and "withdrawal_bundles t = db_put (withdrawal_bundles s) m (i, r)"
    and "\<And>b op out. i = Known b \<Longrightarrow> db_get (wb_spend_utxos b) op = Some out \<Longrightarrow> names s op out"
    and "\<And>b op out. i = Known b \<Longrightarrow> status_of r = Submitted \<Longrightarrow> db_get (wb_spend_utxos b) op = Some out
      \<Longrightarrow> db_get (stxos t) op = Some (taken_by m out)"
  shows "peg_ok t"
proof (rule peg_okI)
  show "index_ok t" by (rule assms(3))
  show "db_get (utxos t) op = None \<or> db_get (stxos t) op = None" for op
    by (rule shuffled_disjoint [OF assms(2)]) (use assms(1) in \<open>simp add: peg_ok_def\<close>)
  have "\<forall>b op out. i = Known b \<longrightarrow> db_get (wb_spend_utxos b) op = Some out \<longrightarrow> names s op out"
    using assms(5) by blast
  from names_step [OF assms(2,4) this]
  show "names t op out \<Longrightarrow> names t op out' \<Longrightarrow> out = out'" for op out out'
    using peg_okD(5) [OF assms(1)] by blast
  show "submitted_spent t"
    unfolding submitted_spent_def
  proof (intro allI impI)
    fix m' b r' op out
    assume b: "db_get (withdrawal_bundles t) m' = Some (Known b, r')" and st: "status_of r' = Submitted"
      and sp: "db_get (wb_spend_utxos b) op = Some out"
    show "db_get (stxos t) op = Some (taken_by m' out)"
    proof (cases "m' = m")
      case True
      with b st sp show ?thesis using assms(4,6) by simp
    next
      case False
      then have "db_get (withdrawal_bundles s) m' = Some (Known b, r')" using b assms(4) by simp
      then have "db_get (stxos s) op = Some (taken_by m' out)"
        using st sp peg_okD(2) [OF assms(1)] unfolding submitted_spent_def by blast
      then show ?thesis using shuffled_other [OF assms(2,1)] False by blast
    qed
  qed
qed

lemma index_ok_put_bundle [simp]: "index_ok (put_bundle m i r s) = index_ok s"
  by (rule index_ok_cong) simp_all

lemma index_ok_pending [simp]: "index_ok (s \<lparr> pending_withdrawal_bundle := p \<rparr>) = index_ok s"
  by (rule index_ok_cong) simp_all

lemma index_ok_failed [simp]: "index_ok (s \<lparr> latest_failed_withdrawal_bundle := p \<rparr>) = index_ok s"
  by (rule index_ok_cong) simp_all

lemma shuffled_cong:
  "shuffled m s t \<Longrightarrow> utxos t' = utxos t \<Longrightarrow> stxos t' = stxos t \<Longrightarrow> shuffled m s t'"
  by (simp add: shuffled_def moved_def)

lemma moved_shuffled: "moved m es s t \<Longrightarrow> shuffled m s t" "moved m es t s \<Longrightarrow> shuffled m s t"
  unfolding shuffled_def by blast+

lemma retable_bundles:
  "t = retable U I S s \<Longrightarrow> withdrawal_bundles t = withdrawal_bundles (s :: peg_state)"
  by simp

text \<open>What every successful bundle event does, in the terms of the step lemma.\<close>

definition event_step :: "m6id \<Rightarrow> peg_state \<Rightarrow> peg_state \<Rightarrow> bool" where
  "event_step m s t \<longleftrightarrow> shuffled m s t \<and> index_ok t \<and> (\<exists>i r.
     withdrawal_bundles t = db_put (withdrawal_bundles s) m (i, r)
     \<and> (\<forall>b op out. i = Known b \<longrightarrow> db_get (wb_spend_utxos b) op = Some out \<longrightarrow> names s op out)
     \<and> (\<forall>b op out. i = Known b \<longrightarrow> status_of r = Submitted \<longrightarrow> db_get (wb_spend_utxos b) op = Some out
          \<longrightarrow> db_get (stxos t) op = Some (taken_by m out)))"

lemma event_stepI:
  assumes "shuffled m s t" and "index_ok t" and "withdrawal_bundles t = db_put (withdrawal_bundles s) m (i, r)"
    and "\<And>b op out. i = Known b \<Longrightarrow> db_get (wb_spend_utxos b) op = Some out \<Longrightarrow> names s op out"
    and "\<And>b op out. i = Known b \<Longrightarrow> status_of r = Submitted \<Longrightarrow> db_get (wb_spend_utxos b) op = Some out
      \<Longrightarrow> db_get (stxos t) op = Some (taken_by m out)"
  shows "event_step m s t"
  using assms unfolding event_step_def by blast

lemma event_step_ok: "peg_ok s \<Longrightarrow> event_step m s t \<Longrightarrow> peg_ok t"
  unfolding event_step_def by (elim conjE exE) (rule peg_ok_step, blast+)

lemma event_step_names: "event_step m s t \<Longrightarrow> names t op out \<Longrightarrow> names s op out"
  unfolding event_step_def by (elim conjE exE) (rule names_step, blast+)
lemma submitted_step:
  assumes "peg_ok s" and "connect_withdrawal_bundle_submitted h m s = Inr (s', spends)"
  shows "event_step m s s'"
proof (cases "pending_withdrawal_bundle s = Some m")
  case True
  with assms(2) obtain b r t r' where b: "db_get (withdrawal_bundles s) m = Some (Known b, r)"
    and t: "try_fold (bundle_spend NoUtxo m) (db_entries (wb_spend_utxos b)) s = Inr t"
    and s': "s' = (put_bundle m (Known b) r' t) \<lparr> pending_withdrawal_bundle := None \<rparr>"
    by (rule submitted_pendingE)
  have mv: "moved m (db_entries (wb_spend_utxos b)) s t" and ok: "index_ok t"
    and tt: "t = retable (utxos t) (utxos_by_address t) (stxos t) s"
    using spend_moves [OF assms(1) b t] by blast+
  show ?thesis
  proof (rule event_stepI [where i = "Known b" and r = r'])
    show "shuffled m s s'" by (rule shuffled_cong [OF moved_shuffled(1) [OF mv]]) (simp_all add: s')
    show "withdrawal_bundles s' = db_put (withdrawal_bundles s) m (Known b, r')"
      using retable_bundles [OF tt] by (simp add: s')
    show "db_get (stxos s') op = Some (taken_by m out)"
      if "Known b = Known b'" "db_get (wb_spend_utxos b') op = Some out" for b' op out
      using movedD(1) [OF mv, of op out] that by (simp add: s' map_of_db_entries)
  qed (use ok known_names [OF b] in \<open>auto simp: s'\<close>)
next
  case False
  from assms(2) False show ?thesis
  proof (cases rule: submitted_otherE)
    case unknown
    show ?thesis
      by (rule event_stepI [where i = Unknown and r = "rb_new Submitted h"])
        (use peg_okD(1) [OF assms(1)] in \<open>auto simp: unknown intro: shuffled_refl\<close>)
  next
    case (again i r r')
    show ?thesis
      by (rule event_stepI [where i = i and r = r'])
        (use peg_okD(1) [OF assms(1)] known_names [OF again(1)] push_status_ok(2) [OF again(3)]
          in \<open>auto simp: again(4) intro: shuffled_refl\<close>)
  qed
qed

lemma confirmed_step:
  assumes "peg_ok s" and "connect_withdrawal_bundle_confirmed h event_hash m s = Inr s'"
  shows "s' = s \<or> event_step m s s'"
proof (cases "\<exists>i r. db_get (withdrawal_bundles s) m = Some (i, r) \<and> status_of r = Confirmed")
  case True
  then show ?thesis using assms(2) by (auto simp: connect_withdrawal_bundle_confirmed_def)
next
  case False
  obtain i r i' t r' where b: "db_get (withdrawal_bundles s) m = Some (i, r)"
    and t: "confirm_bundle h event_hash m i (status_of r) s = Inr (i', t)"
    and r': "push_status Confirmed h r = Inr r'" and s': "s' = put_bundle m i' r' t"
    using assms(2) False by (elim confirmedE) blast+
  have step: "event_step m s s'"
    if "shuffled m s t" "index_ok t" "withdrawal_bundles t = withdrawal_bundles s"
      "\<And>bu. i' = Known bu \<Longrightarrow> i = Known bu"
    by (rule event_stepI [where i = i' and r = r'])
      (use that known_names [OF b] push_status_ok(2) [OF r'] in \<open>auto simp: s' intro: shuffled_cong\<close>)
  from t show ?thesis
  proof (cases rule: confirm_bundleE)
    case all
    have "moved m (db_entries (utxos s)) s t" "index_ok t" "t = retable (utxos t) (utxos_by_address t) (stxos t) s"
      using clear_moves [OF assms(1) all(3)] by blast+
    then show ?thesis using step [OF moved_shuffled(1)] all(2) retable_bundles by blast
  next
    case (unexpected b')
    have "moved m (db_entries (wb_spend_utxos b')) s t" "index_ok t"
      "t = retable (utxos t) (utxos_by_address t) (stxos t) s"
      using spend_moves [OF assms(1) b [unfolded unexpected(1)] unexpected(4)] by blast+
    then show ?thesis using step [OF moved_shuffled(1)] unexpected(2) retable_bundles by blast
  next
    case (expected b')
    then show ?thesis using step [OF shuffled_refl] peg_okD(1) [OF assms(1)] by blast
  qed
qed

lemma failed_step:
  assumes "peg_ok s" and "connect_withdrawal_bundle_failed h m s = Inr s'"
  shows "s' = s \<or> event_step m s s'"
proof (cases "\<exists>i r. db_get (withdrawal_bundles s) m = Some (i, r) \<and> status_of r = Failed")
  case True
  then show ?thesis using assms(2) by (auto simp: connect_withdrawal_bundle_failed_def)
next
  case False
  then have nf: "\<forall>i r. db_get (withdrawal_bundles s) m = Some (i, r) \<longrightarrow> status_of r \<noteq> Failed" by blast
  from assms(2) nf show ?thesis
  proof (cases rule: failedE)
    case (released b r t u r')
    have mv: "moved m (db_entries (wb_spend_utxos b)) t s" and ok: "index_ok t"
      and tt: "t = retable (utxos t) (utxos_by_address t) (stxos t) s"
      using release_moves [OF assms(1) released(1-3)] by blast+
    obtain f where u: "u = t \<lparr> latest_failed_withdrawal_bundle := Some f \<rparr>"
      using released(4) by (rule push_latest_failed_ok)
    have "event_step m s s'"
      by (rule event_stepI [where i = "Known b" and r = r'])
        (use ok known_names [OF released(1)] push_status_ok(2) [OF released(5)] retable_bundles [OF tt]
          moved_shuffled(2) [OF mv] in \<open>auto simp: released(6) u intro: shuffled_cong\<close>)
    then show ?thesis ..
  next
    case (marked i r r')
    have "event_step m s s'"
      by (rule event_stepI [where i = i and r = r'])
        (use peg_okD(1) [OF assms(1)] known_names [OF marked(1)] push_status_ok(2) [OF marked(4)]
          in \<open>auto simp: marked(5) intro: shuffled_refl\<close>)
    then show ?thesis ..
  qed
qed

lemma bundle_event_step:
  assumes "peg_ok s" and "connect_withdrawal_bundle_event h event_hash m ev s = Inr (s', spends)"
  shows "s' = s \<or> event_step m s s'"
  using assms(2) submitted_step [OF assms(1)]
  by (cases ev) (auto simp: connect_withdrawal_bundle_event_def
      dest: confirmed_step [OF assms(1)] failed_step [OF assms(1)])

section \<open>Blocks as sequences of events\<close>

text \<open>
  The two nested loops of \<open>connect\<close> and \<open>disconnect\<close> run over one sequence of events, forwards and
  backwards. \<open>apply_event\<close> and \<open>undo_event\<close> are what an event does to the state alone.
\<close>

definition flat_events :: "(block_hash \<times> block_event list) list \<Rightarrow> (block_hash \<times> block_event) list" where
  "flat_events data = concat (map (\<lambda>info. map (Pair (fst info)) (snd info)) data)"

definition apply_event :: "nat \<Rightarrow> block_hash \<times> block_event \<Rightarrow> peg_state \<Rightarrow> (error, peg_state) result" where
  "apply_event h e s =
     (case snd e of
        DepositEvent t v out \<Rightarrow> Inr (insert_utxo (Deposit t v) out s)
      | BundleEvent m st \<Rightarrow> rbind (connect_withdrawal_bundle_event h (fst e) m st s) (\<lambda>r. Inr (fst r)))"

definition undo_event :: "nat \<Rightarrow> block_hash \<times> block_event \<Rightarrow> peg_state \<Rightarrow> (error, peg_state) result" where
  "undo_event h e s =
     (case snd e of
        DepositEvent t v out \<Rightarrow> delete_or_fail (Deposit t v) s
      | BundleEvent m st \<Rightarrow> disconnect_withdrawal_bundle_event h m st s)"

text \<open>
  An event is admissible when a deposit has a new outpoint, and a confirmation or failure is not a
  repetition; a block is ready when each of its events is admissible where it is applied.
\<close>

fun admissible :: "block_event \<Rightarrow> peg_state \<Rightarrow> bool" where
  "admissible (DepositEvent t v out) s = (\<forall>out'. \<not> names s (Deposit t v) out')"
| "admissible (BundleEvent m st) s = event_fresh s m st"

fun block_ready :: "nat \<Rightarrow> (block_hash \<times> block_event) list \<Rightarrow> peg_state \<Rightarrow> bool" where
  "block_ready h [] s = True"
| "block_ready h (e # es) s =
     (admissible (snd e) s \<and> (case apply_event h e s of Inr s' \<Rightarrow> block_ready h es s' | Inl _ \<Rightarrow> True))"

lemma try_fold_concat: "try_fold f (concat xss) s = try_fold (try_fold f) xss s"
  by (induction xss arbitrary: s) (simp_all add: try_fold_append fun_eq_iff [symmetric], metis)

lemma try_fold_map_eta: "try_fold f (map g xs) = try_fold (\<lambda>x. f (g x)) xs"
  by (rule ext) (rule try_fold_map)

lemma unnamed_absent:
  assumes "\<forall>out. \<not> names s op out"
  shows "db_get (utxos s) op = None" and "db_get (stxos s) op = None"
  using assms by (cases "db_get (utxos s) op"; cases "db_get (stxos s) op"; auto simp: names_def)+

lemma connect_events_flat:
  "connect_events h data p = try_fold (\<lambda>e. connect_2wpd_event h (fst e) (snd e)) (flat_events data) p"
  by (simp add: connect_events_def flat_events_def try_fold_concat try_fold_map_eta)

lemma rev_flat_events:
  "rev (flat_events data) = concat (map (\<lambda>info. map (Pair (fst info)) (rev (snd info))) (rev data))"
  by (induction data) (simp_all add: flat_events_def rev_map)

lemma disconnect_events_flat:
  "disconnect_events h data p
     = try_fold (\<lambda>e. disconnect_event h (fst e) (snd e)) (rev (flat_events data)) p"
  unfolding rev_flat_events
  by (simp add: disconnect_events_def try_fold_concat try_fold_map_eta)

subsection \<open>The state part\<close>

lemma deposit_ok:
  assumes "peg_ok s" and "\<forall>out'. \<not> names s op out'"
  shows "peg_ok (insert_utxo op out s)"
proof (rule peg_okI)
  note fresh = unnamed_absent [OF assms(2)]
  let ?t = "insert_utxo op out s"
  show "index_ok ?t" using peg_okD(1) [OF assms(1)] fresh by (intro index_ok_insert) auto
  have names: "names ?t q o' \<Longrightarrow> (q = op \<and> o' = out) \<or> names s q o'" for q o'
    using assms(2) by (auto simp: names_def insert_utxo_def split: if_split_asm)
  show "o1 = o2" if "names ?t q o1" "names ?t q o2" for q o1 o2
    using names [OF that(1)] names [OF that(2)] assms(2) peg_okD(5) [OF assms(1), of q o1 o2] by auto
  show "db_get (utxos ?t) q = None \<or> db_get (stxos ?t) q = None" for q
    using fresh assms(1) by (auto simp: peg_ok_def insert_utxo_def)
  show "submitted_spent ?t"
    using peg_okD(2) [OF assms(1)] by (simp add: submitted_spent_def insert_utxo_def)
qed

lemma apply_event_ok:
  assumes "peg_ok s" and "admissible (snd e) s" and "apply_event h e s = Inr s'"
  shows "peg_ok s'"
proof (cases "snd e")
  case (DepositEvent t v out)
  then show ?thesis using assms deposit_ok by (auto simp: apply_event_def)
next
  case (BundleEvent m st)
  then obtain spends where "connect_withdrawal_bundle_event h (fst e) m st s = Inr (s', spends)"
    using assms(3) by (auto simp: apply_event_def)
  from bundle_event_step [OF assms(1) this] show ?thesis
    using assms(1) event_step_ok by blast
qed

lemma undo_apply_event:
  assumes "peg_ok s" and "admissible (snd e) s" and "apply_event h e s = Inr s'"
  shows "undo_event h e s' = Inr s"
proof (cases "snd e")
  case (DepositEvent t v out)
  then have "db_get (utxos s) (Deposit t v) = None" using assms(2) unnamed_absent(1) by simp
  then show ?thesis
    using DepositEvent assms(3) delete_insert_utxo [OF peg_okD(1) [OF assms(1)]]
    by (auto simp: apply_event_def undo_event_def delete_or_fail_def)
next
  case (BundleEvent m st)
  then obtain spends where c: "connect_withdrawal_bundle_event h (fst e) m st s = Inr (s', spends)"
    using assms(3) by (auto simp: apply_event_def)
  show ?thesis
    using event_roundtrip [OF assms(1) c] BundleEvent assms(2) by (simp add: undo_event_def)
qed

interpretation events: reversible "apply_event h" "undo_event h" "\<lambda>es s. peg_ok s \<and> block_ready h es s"
  by unfold_locales (auto intro: undo_apply_event apply_event_ok)

subsection \<open>The hashes of the last event blocks\<close>

fun is_deposit_event :: "block_event \<Rightarrow> bool" where
  "is_deposit_event (DepositEvent _ _ _) = True"
| "is_deposit_event (BundleEvent _ _) = False"

definition last_hash :: "(block_event \<Rightarrow> bool) \<Rightarrow> (block_hash \<times> block_event) list \<Rightarrow> block_hash option" where
  "last_hash P es = (let ys = filter (\<lambda>e. P (snd e)) es in if ys = [] then None else Some (fst (last ys)))"

lemma last_hash_snoc:
  "last_hash P (es @ [e]) = (if P (snd e) then Some (fst e) else last_hash P es)"
  by (simp add: last_hash_def)

lemma connect_fold:
  assumes "try_fold (\<lambda>e. connect_2wpd_event h (fst e) (snd e)) es (start_progress s) = Inr p"
  shows "try_fold (apply_event h) es s = Inr (pp_state p)
    \<and> pp_deposit_hash p = last_hash is_deposit_event es
    \<and> pp_event_hash p = last_hash (\<lambda>e. \<not> is_deposit_event e) es"
  using assms
proof (induction es arbitrary: p rule: rev_induct)
  case Nil
  then show ?case by (auto simp add: start_progress_def last_hash_def)
next
  case (snoc e es)
  obtain q where q: "try_fold (\<lambda>e. connect_2wpd_event h (fst e) (snd e)) es (start_progress s) = Inr q"
    and p: "connect_2wpd_event h (fst e) (snd e) q = Inr p"
    using snoc.prems by (auto simp: try_fold_append)
  note IH = snoc.IH [OF q]
  show ?case
    using IH p
    by (cases "snd e") (auto simp: try_fold_append connect_2wpd_event_def apply_event_def last_hash_snoc)
qed

lemma disconnect_fold:
  assumes "try_fold (undo_event h) (rev es) s = Inr t"
  shows "\<exists>p. try_fold (\<lambda>e. disconnect_event h (fst e) (snd e)) (rev es) (start_progress s) = Inr p
    \<and> pp_state p = t \<and> pp_deposit_hash p = last_hash is_deposit_event es
    \<and> pp_event_hash p = last_hash (\<lambda>e. \<not> is_deposit_event e) es"
  using assms
proof (induction es arbitrary: t)
  case Nil
  then show ?case by (simp add: start_progress_def last_hash_def)
next
  case (Cons e es)
  obtain u where u: "try_fold (undo_event h) (rev es) s = Inr u" and t: "undo_event h e u = Inr t"
    using Cons.prems by (auto simp: try_fold_append)
  from Cons.IH [OF u] obtain q where
    q: "try_fold (\<lambda>e. disconnect_event h (fst e) (snd e)) (rev es) (start_progress s) = Inr q"
    and qs: "pp_state q = u" "pp_deposit_hash q = last_hash is_deposit_event es"
      "pp_event_hash q = last_hash (\<lambda>e. \<not> is_deposit_event e) es" by blast
  have hash: "last_hash P (e # es) = (if last_hash P es = None \<and> P (snd e) then Some (fst e) else last_hash P es)" for P
    by (simp add: last_hash_def)
  have "\<exists>p. disconnect_event h (fst e) (snd e) q = Inr p
    \<and> pp_state p = t \<and> pp_deposit_hash p = last_hash is_deposit_event (e # es)
    \<and> pp_event_hash p = last_hash (\<lambda>e. \<not> is_deposit_event e) (e # es)"
    using t by (cases "snd e")
      (auto simp: undo_event_def disconnect_event_def delete_or_fail_def qs hash split: prod.splits if_splits)
  with q show ?case by (simp add: try_fold_append)
qed

subsection \<open>Undoing does not read the block tables\<close>

definition map_ok :: "('a \<Rightarrow> 'b) \<Rightarrow> ('e, 'a) result \<Rightarrow> ('e, 'b) result" where
  "map_ok f r = rbind r (\<lambda>x. Inr (f x))"

lemma map_ok_simps [simp]: "map_ok f (Inr x) = Inr (f x)" "map_ok f (Inl e) = Inl e"
  by (simp_all add: map_ok_def)

abbreviation tables ::
    "(nat, block_index_events) db \<Rightarrow> (nat, block_hash \<times> nat) db \<Rightarrow> (nat, block_hash \<times> nat) db
       \<Rightarrow> nat option \<Rightarrow> peg_state \<Rightarrow> peg_state" where
  "tables a b c d s \<equiv> s \<lparr> peg_height := d, block_index_events_db := a, deposit_blocks := b,
     withdrawal_bundle_event_blocks := c \<rparr>"

lemma delete_utxo_tables:
  "delete_utxo op (tables a b c d s) = (tables a b c d (fst (delete_utxo op s)), snd (delete_utxo op s))"
  by (cases "db_get (utxos s) op") (simp_all add: delete_utxo_present delete_utxo_absent)

lemma try_fold_tables:
  assumes "\<And>e s. f e (tables a b c d s) = map_ok (tables a b c d) (f e s)"
  shows "try_fold f es (tables a b c d s) = map_ok (tables a b c d) (try_fold f es s)"
proof (induction es arbitrary: s)
  case (Cons e es)
  then show ?case by (cases "f e s") (simp_all add: assms)
qed simp

lemma step_tables:
  "bundle_unspend e (tables a b c d s) = map_ok (tables a b c d) (bundle_unspend e s)"
  "bundle_unconfirm e (tables a b c d s) = map_ok (tables a b c d) (bundle_unconfirm e s)"
  "bundle_retake m e (tables a b c d s) = map_ok (tables a b c d) (bundle_retake m e s)"
  by (simp_all add: bundle_unspend_def bundle_unconfirm_def insert_utxo_def Let_def)
    (cases "db_get (utxos s) (fst e)",
      simp_all add: bundle_retake_def Let_def delete_utxo_present delete_utxo_absent)

lemmas fold_tables =
  try_fold_tables [of bundle_unspend, OF step_tables(1)]
  try_fold_tables [of bundle_unconfirm, OF step_tables(2)]
  try_fold_tables [of "bundle_retake m" for m, OF step_tables(3)]

lemma put_bundle_tables: "put_bundle m i r (tables a b c d s) = tables a b c d (put_bundle m i r s)"
  by (simp add: put_bundle_def)

lemma rbind_map_ok: "rbind (map_ok f r) g = rbind r (\<lambda>x. g (f x))" "map_ok f (rbind r g) = rbind r (\<lambda>x. map_ok f (g x))"
  by (cases r; simp)+

lemma tables_commute:
  "(tables a b c d s) \<lparr> withdrawal_bundles := w \<rparr> = tables a b c d (s \<lparr> withdrawal_bundles := w \<rparr>)"
  "(tables a b c d s) \<lparr> pending_withdrawal_bundle := p \<rparr> = tables a b c d (s \<lparr> pending_withdrawal_bundle := p \<rparr>)"
  "(tables a b c d s) \<lparr> latest_failed_withdrawal_bundle := f \<rparr>
     = tables a b c d (s \<lparr> latest_failed_withdrawal_bundle := f \<rparr>)"
  by simp_all

lemmas tables_simps = fold_tables rbind_map_ok rbind_assoc put_bundle_def tables_commute

lemma submitted_tables:
  "disconnect_withdrawal_bundle_submitted h m (tables a b c d s)
     = map_ok (tables a b c d) (disconnect_withdrawal_bundle_submitted h m s)"
  by (auto simp: disconnect_withdrawal_bundle_submitted_def tables_simps
      split: option.split prod.split bundle_info.split)

lemma confirmed_tables:
  "disconnect_withdrawal_bundle_confirmed h m (tables a b c d s)
     = map_ok (tables a b c d) (disconnect_withdrawal_bundle_confirmed h m s)"
  by (cases "db_get (withdrawal_bundles s) m")
    (auto simp: disconnect_withdrawal_bundle_confirmed_def tables_simps ok_or_def
      split: option.split prod.split bundle_info.split)

lemma pop_latest_failed_tables:
  "pop_latest_failed m h (tables a b c d s) = map_ok (tables a b c d) (pop_latest_failed m h s)"
  by (cases "latest_failed_withdrawal_bundle s") (auto simp: pop_latest_failed_def split: prod.split)

lemma failed_tables:
  "disconnect_withdrawal_bundle_failed h m (tables a b c d s)
     = map_ok (tables a b c d) (disconnect_withdrawal_bundle_failed h m s)"
  by (cases "db_get (withdrawal_bundles s) m")
    (auto simp: disconnect_withdrawal_bundle_failed_def tables_simps pop_latest_failed_tables ok_or_def
      split: option.split prod.split bundle_info.split)

lemma undo_event_tables: "undo_event h e (tables a b c d s) = map_ok (tables a b c d) (undo_event h e s)"
proof (cases "snd e")
  case (DepositEvent t v out)
  then show ?thesis
    by (simp add: undo_event_def delete_or_fail_def delete_utxo_tables split: prod.split)
next
  case (BundleEvent m st)
  then show ?thesis
    by (cases st) (simp_all add: undo_event_def disconnect_withdrawal_bundle_event_def submitted_tables
        confirmed_tables failed_tables)
qed

lemmas undo_fold_tables = try_fold_tables [of "undo_event h" for h, OF undo_event_tables]

section \<open>The sequences of event blocks\<close>

definition next_key :: "(nat \<Rightarrow> nat) \<Rightarrow> (nat, 'v) db \<Rightarrow> nat" where
  "next_key cursor d = (case db_last cursor d of None \<Rightarrow> 0 | Some e \<Rightarrow> wrapping_add 32 (fst e) 1)"

text \<open>The storage engine lists the next sequence number after the numbers in use.\<close>

definition appendable :: "(nat \<Rightarrow> nat) \<Rightarrow> (nat, 'v) db \<Rightarrow> bool" where
  "appendable cursor d \<longleftrightarrow> (\<forall>k \<in> set (db_keys d). cursor k < cursor (next_key cursor d))"

lemma fold_last:
  fixes cursor :: "nat \<Rightarrow> nat"
  assumes "\<forall>x \<in> set es. x = e \<or> cursor (fst x) < cursor (fst e)"
    and "e \<in> set es \<or> acc = Some e"
    and "acc = None \<or> acc = Some e \<or> (\<exists>x. acc = Some x \<and> cursor (fst x) < cursor (fst e))"
  shows "fold (\<lambda>e acc. case acc of None \<Rightarrow> Some e
           | Some e' \<Rightarrow> if cursor (fst e') \<le> cursor (fst e) then Some e else acc) es acc = Some (e :: nat \<times> 'v)"
  using assms
proof (induction es arbitrary: acc)
  case (Cons x es)
  let ?acc = "case acc of None \<Rightarrow> Some x | Some e' \<Rightarrow> if cursor (fst e') \<le> cursor (fst x) then Some x else acc"
  have "?acc = Some e" if "x = e" using Cons.prems(3) that by (auto simp: less_imp_le split: option.split)
  moreover have "?acc = None \<or> ?acc = Some e \<or> (\<exists>y. ?acc = Some y \<and> cursor (fst y) < cursor (fst e))"
    using Cons.prems(1,3) by (cases x) (auto split: option.split)
  moreover have "?acc = Some e" if "acc = Some e" "x \<noteq> e"
    using Cons.prems(1) that by auto
  ultimately show ?case
    using Cons.prems(1,2) Cons.IH [of ?acc] by (cases "x = e") auto
qed simp

lemma db_last_append:
  assumes "\<forall>k' \<in> set (db_keys d). cursor k' < cursor k"
  shows "db_last cursor (db_put d k v) = Some (k, v)"
  unfolding db_last_def
proof (rule fold_last)
  have fresh: "x \<in> set (db_entries (db_put d k v)) \<longleftrightarrow> x = (k, v) \<or> fst x \<noteq> k \<and> x \<in> set (db_entries d)" for x
    using db_get_iff_entries [of "db_put d k v" "fst x" "snd x"] db_get_iff_entries [of d "fst x" "snd x"]
    by (cases x) (auto split: if_split_asm)
  show "\<forall>x \<in> set (db_entries (db_put d k v)). x = (k, v) \<or> cursor (fst x) < cursor (fst (k, v))"
    using assms fresh by (auto simp: db_keys_def simp del: db_entries_put)
  show "(k, v) \<in> set (db_entries (db_put d k v)) \<or> None = Some (k, v)"
    unfolding fresh by blast
qed simp

lemma remove_append:
  assumes "appendable cursor d"
  shows "remove_block cursor err hash h (append_block cursor hash h d) = Inr d"
proof (cases hash)
  case None
  then show ?thesis by (simp add: remove_block_def append_block_def)
next
  case (Some b)
  let ?k = "next_key cursor d"
  have app: "append_block cursor hash h d = db_put d ?k (b, h)"
    by (simp add: append_block_def Some next_key_def)
  have "?k \<notin> set (db_keys d)" using assms by (auto simp: appendable_def)
  then have fresh: "db_get d ?k = None" by (auto simp: set_db_keys)
  have "db_last cursor (db_put d ?k (b, h)) = Some (?k, b, h)"
    using assms by (intro db_last_append) (simp add: appendable_def)
  then show ?thesis
    unfolding app by (simp add: remove_block_def Some db_contains_def kv.delete_put_fresh [OF fresh])
qed

section \<open>Connecting a block\<close>

text \<open>A block that connects: its events are applied, the block tables updated, and perhaps a pending bundle stored.\<close>

lemma connectE:
  assumes "connect env cursor data s = Inr s'" and "peg_height s = Some h"
  obtains p where "try_fold (apply_event h) (flat_events data) s = Inr (pp_state p)"
    "pp_deposit_hash p = last_hash is_deposit_event (flat_events data)"
    "pp_event_hash p = last_hash (\<lambda>e. \<not> is_deposit_event e) (flat_events data)"
    "new_pending_bundle env h (record_block_events cursor h p) = Inr s'"
proof -
  obtain p where p: "connect_events h data (start_progress s) = Inr p"
    and n: "new_pending_bundle env h (record_block_events cursor h p) = Inr s'"
    using assms by (auto simp: connect_def)
  from connect_fold [OF p [unfolded connect_events_flat]] n that show thesis by blast
qed

lemma record_tables:
  "record_block_events cursor h p = (let s = pp_state p in
     tables (if index_is_empty (pp_index p) then block_index_events_db s
             else db_put (block_index_events_db s) h (pp_index p))
       (append_block cursor (pp_deposit_hash p) h (deposit_blocks s))
       (append_block cursor (pp_event_hash p) h (withdrawal_bundle_event_blocks s)) (peg_height s) s)"
  by (simp add: record_block_events_def Let_def)

lemma peg_ok_tables [simp]: "peg_ok (tables a b c d s) = peg_ok s"
  by (simp add: peg_ok_def submitted_spent_def names_def index_ok_def)

lemma new_pendingE:
  assumes "new_pending_bundle env h s = Inr s'"
  obtains (unchanged) "s' = s"
  | (created) wb where "failure_gap_over h s = Inr True"
    "pending_withdrawal_bundle s = None" "collect_withdrawal_bundle env h s = Inr (Some wb)"
    "put_pending_bundle h (compute_m6id env wb) wb s = Inr s'"
  using assms
  by (auto simp: new_pending_bundle_def split: if_split_asm option.split_asm)

lemma put_pendingE:
  assumes "put_pending_bundle h m bundle s = Inr s'"
  obtains r where "s' = put_bundle m (Known bundle) r (s \<lparr> pending_withdrawal_bundle := Some m \<rparr>)"
    "status_of r = Pending" "stamp_height (latest r) = h"
    "db_get (withdrawal_bundles s) m = None \<Longrightarrow> r = rb_new Pending h"
    "\<And>i r0. db_get (withdrawal_bundles s) m = Some (i, r0) \<Longrightarrow> push_status Pending h r0 = Inr r"
proof -
  obtain r where r: "(case db_get (withdrawal_bundles s) m of
        Some b \<Rightarrow> push_status Pending h (snd b) | None \<Rightarrow> Inr (rb_new Pending h)) = Inr r"
    and s': "s' = put_bundle m (Known bundle) r (s \<lparr> pending_withdrawal_bundle := Some m \<rparr>)"
    using assms by (auto simp: put_pending_bundle_def simp del: put_bundle_fields)
  have "latest r = \<lparr> stamp_value = Pending, stamp_height = h \<rparr>"
    using r by (auto simp: push_status_def rb.top_push split: option.split_asm)
  with r s' show thesis by (intro that [OF s']) (auto simp: status_of_def)
qed

lemma new_pending_ok:
  assumes "peg_ok s" and "new_pending_bundle env h s = Inr s'"
  shows "peg_ok s'"
  using assms(2)
proof (cases rule: new_pendingE)
  case (created wb)
  let ?m = "compute_m6id env wb"
  obtain r where s': "s' = put_bundle ?m (Known wb) r (s \<lparr> pending_withdrawal_bundle := Some ?m \<rparr>)"
    and st: "status_of r = Pending"
    using created(4) by (rule put_pendingE)
  have "event_step ?m s s'"
    by (rule event_stepI [where i = "Known wb" and r = r])
      (use peg_okD(1) [OF assms(1)] collected_spends_unspent [OF created(3)] st in
        \<open>auto simp: s' intro: shuffled_refl names_utxo\<close>)
  then show ?thesis using assms(1) event_step_ok by blast
qed (use assms(1) in simp)

text \<open>
  Connecting the peg data of a block preserves the peg invariant: afterwards an outpoint still
  stands for one output everywhere in the state, no output is both spent and unspent, the address
  index is exact, and the outputs of every submitted bundle are marked as spent by that bundle.
\<close>

theorem connect_preserves_invariant:
  assumes "peg_ok s" and "peg_height s = Some h" and "connect env cursor data s = Inr s'"
    and "block_ready h (flat_events data) s"
  shows "peg_ok s'"
proof -
  obtain p where p: "try_fold (apply_event h) (flat_events data) s = Inr (pp_state p)"
    and n: "new_pending_bundle env h (record_block_events cursor h p) = Inr s'"
    using assms(3,2) by (rule connectE)
  have "peg_ok (pp_state p)"
    using events.fold_ready [where h = h and xs = "flat_events data" and ys = "[]", OF _ p] assms(1,4)
    by simp
  then show ?thesis
    by (intro new_pending_ok [OF _ n]) (unfold record_tables Let_def peg_ok_tables)
qed

section \<open>Disconnecting undoes connecting\<close>

lemma latest_failed_tables:
  "get_latest_failed_withdrawal_bundle (tables a b c d s) = get_latest_failed_withdrawal_bundle s"
  by (simp add: get_latest_failed_withdrawal_bundle_def split: option.split)

lemma gap_tables: "failure_gap_over h (tables a b c d s) = failure_gap_over h s"
  by (simp add: failure_gap_over_def latest_failed_tables)

text \<open>The pending bundle of the state is older than the block, and the failure history is readable.\<close>

definition settled :: "nat \<Rightarrow> peg_state \<Rightarrow> bool" where
  "settled h s \<longleftrightarrow> is_ok (get_latest_failed_withdrawal_bundle s)
     \<and> (\<forall>m. pending_withdrawal_bundle s = Some m \<longrightarrow>
          (\<exists>i r. db_get (withdrawal_bundles s) m = Some (i, r) \<and> stamp_height (latest r) \<noteq> h))"

lemma drop_settled:
  assumes "settled h s" shows "drop_pending_bundle h s = Inr s"
proof -
  obtain over where over: "failure_gap_over h s = Inr over"
    using assms by (auto simp: settled_def failure_gap_over_def is_ok_iff)
  show ?thesis
  proof (cases "pending_withdrawal_bundle s")
    case None
    then show ?thesis by (simp add: drop_pending_bundle_def over)
  next
    case (Some m)
    then obtain i r where "db_get (withdrawal_bundles s) m = Some (i, r)" "stamp_height (latest r) \<noteq> h"
      using assms unfolding settled_def by blast
    then show ?thesis by (simp add: drop_pending_bundle_def over Some)
  qed
qed

lemma settled_tables: "settled h (tables a b c d s) = settled h s"
  unfolding settled_def latest_failed_tables by simp

text \<open>Undoing the events of a block that connected gives back the tables and the state before it.\<close>

lemma undo_events:
  assumes "peg_ok s" and "block_ready h (flat_events data) s"
    and "try_fold (apply_event h) (flat_events data) s = Inr t"
  shows "\<exists>p. disconnect_events h data (start_progress (tables a b c d t)) = Inr p
      \<and> pp_state p = tables a b c d s
      \<and> pp_deposit_hash p = last_hash is_deposit_event (flat_events data)
      \<and> pp_event_hash p = last_hash (\<lambda>e. \<not> is_deposit_event e) (flat_events data)"
    and "t = tables (block_index_events_db s) (deposit_blocks s) (withdrawal_bundle_event_blocks s) (peg_height s) t"
proof -
  have undo: "try_fold (undo_event h) (rev (flat_events data)) t = Inr s"
    using events.fold_undo [where h = h, OF _ assms(3)] assms(1,2) by blast
  have "try_fold (undo_event h) (rev (flat_events data)) (tables a b c d t) = Inr (tables a b c d s)"
    for a b c d by (simp add: undo_fold_tables undo)
  from disconnect_fold [OF this]
  show "\<exists>p. disconnect_events h data (start_progress (tables a b c d t)) = Inr p
      \<and> pp_state p = tables a b c d s
      \<and> pp_deposit_hash p = last_hash is_deposit_event (flat_events data)
      \<and> pp_event_hash p = last_hash (\<lambda>e. \<not> is_deposit_event e) (flat_events data)"
    unfolding disconnect_events_flat .
  have "s = tables (block_index_events_db t) (deposit_blocks t) (withdrawal_bundle_event_blocks t) (peg_height t) s"
    using undo undo_fold_tables [where h = h and es = "rev (flat_events data)" and s = t
        and a = "block_index_events_db t" and b = "deposit_blocks t"
        and c = "withdrawal_bundle_event_blocks t" and d = "peg_height t"] by simp
  then have "block_index_events_db s = block_index_events_db t" "deposit_blocks s = deposit_blocks t"
    "withdrawal_bundle_event_blocks s = withdrawal_bundle_event_blocks t" "peg_height s = peg_height t"
    by - (drule arg_cong [where f = block_index_events_db], simp,
        drule arg_cong [where f = deposit_blocks], simp,
        drule arg_cong [where f = withdrawal_bundle_event_blocks], simp,
        drule arg_cong [where f = peg_height], simp)
  then show "t = tables (block_index_events_db s) (deposit_blocks s) (withdrawal_bundle_event_blocks s) (peg_height s) t"
    by simp
qed

text \<open>Undoing deposits does not read the bundle tables.\<close>

abbreviation bundles ::
    "(m6id, bundle_info \<times> bundle_status height_stamped roll_back) db \<Rightarrow> m6id option \<Rightarrow> peg_state \<Rightarrow> peg_state" where
  "bundles w q s \<equiv> s \<lparr> withdrawal_bundles := w, pending_withdrawal_bundle := q \<rparr>"

lemma undo_deposits_bundles:
  assumes "\<forall>e \<in> set es. is_deposit_event (snd e)"
  shows "try_fold (undo_event h) es (bundles w q s) = map_ok (bundles w q) (try_fold (undo_event h) es s)"
  using assms
proof (induction es arbitrary: s)
  case (Cons e es)
  have "undo_event h e (bundles w q s) = map_ok (bundles w q) (undo_event h e s)"
  proof (cases "snd e")
    case (DepositEvent t v out)
    then show ?thesis
      by (cases "db_get (utxos s) (Deposit t v)")
        (simp_all add: undo_event_def delete_or_fail_def delete_utxo_present delete_utxo_absent)
  qed (use Cons.prems in auto)
  with Cons show ?case by (cases "undo_event h e s") simp_all
qed simp

lemma drop_created:
  assumes "failure_gap_over h s = Inr True" and "pending_withdrawal_bundle s = None"
    and "db_get (withdrawal_bundles s) m = None"
  shows "drop_pending_bundle h (bundles (db_put (withdrawal_bundles s) m (Known wb, rb_new Pending h)) (Some m) s)
    = Inr s"
proof -
  let ?s = "bundles (db_put (withdrawal_bundles s) m (Known wb, rb_new Pending h)) (Some m) s"
  obtain lf where lf: "get_latest_failed_withdrawal_bundle s = Inr lf"
    using assms(1) by (auto simp: failure_gap_over_def)
  have "get_latest_failed_withdrawal_bundle ?s = get_latest_failed_withdrawal_bundle s"
  proof (cases "latest_failed_withdrawal_bundle s")
    case None
    then show ?thesis by (simp add: get_latest_failed_withdrawal_bundle_def)
  next
    case (Some r)
    then have "stamp_value (latest r) \<noteq> m"
      using lf assms(3) by (auto simp: get_latest_failed_withdrawal_bundle_def Let_def)
    then show ?thesis using Some by (simp add: get_latest_failed_withdrawal_bundle_def Let_def)
  qed
  then have "failure_gap_over h ?s = Inr True"
    using assms(1) by (simp add: failure_gap_over_def)
  then show ?thesis
    using assms(2) by (simp add: drop_pending_bundle_def kv.delete_put_fresh [OF assms(3)])
qed

lemma disconnect_from_undo:
  assumes "peg_height s' = Some h"
    and "disconnect_events h data (start_progress (s' \<lparr> block_index_events_db := db_delete (block_index_events_db s') h \<rparr>)) = Inr p"
    and "remove_block cursor NoWithdrawalBundleEventBlock (pp_event_hash p) h
      (withdrawal_bundle_event_blocks (pp_state p)) = Inr c"
    and "drop_pending_bundle h ((pp_state p) \<lparr> withdrawal_bundle_event_blocks := c \<rparr>) = Inr s1"
    and "remove_block cursor NoDepositBlock (pp_deposit_hash p) h (deposit_blocks s1) = Inr b"
  shows "disconnect cursor data s' = Inr (s1 \<lparr> deposit_blocks := b \<rparr>)"
  using assms by (simp add: disconnect_def)

text \<open>
  What the block may have done with the pending bundle: the pending bundle after the block is an older
  one, or the block has only deposits and its pending bundle is new.
\<close>

definition pending_undoable ::
    "nat \<Rightarrow> (block_hash \<times> block_event list) list \<Rightarrow> peg_state \<Rightarrow> peg_state \<Rightarrow> bool" where
  "pending_undoable h data s s' \<longleftrightarrow>
     (\<forall>m i r. pending_withdrawal_bundle s' = Some m \<longrightarrow> db_get (withdrawal_bundles s') m = Some (i, r)
        \<longrightarrow> stamp_height (latest r) \<noteq> h)
     \<or> ((\<forall>e \<in> set (flat_events data). is_deposit_event (snd e))
        \<and> (\<forall>m. pending_withdrawal_bundle s' = Some m \<longrightarrow> db_get (withdrawal_bundles s) m = None))"

text \<open>The state after the events and the bookkeeping, before a pending bundle is looked for.\<close>

lemma recorded_state:
  assumes "peg_ok s" and "block_ready h (flat_events data) s"
    and "try_fold (apply_event h) (flat_events data) s = Inr (pp_state p)"
    and "db_get (block_index_events_db s) h = None"
  obtains a where "record_block_events cursor h p = tables a
      (append_block cursor (pp_deposit_hash p) h (deposit_blocks s))
      (append_block cursor (pp_event_hash p) h (withdrawal_bundle_event_blocks s)) (peg_height s) (pp_state p)"
    "db_delete a h = block_index_events_db s"
proof -
  let ?t = "pp_state p"
  let ?a = "if index_is_empty (pp_index p) then block_index_events_db s
            else db_put (block_index_events_db s) h (pp_index p)"
  have t: "?t = tables (block_index_events_db s) (deposit_blocks s) (withdrawal_bundle_event_blocks s) (peg_height s) ?t"
    by (rule undo_events(2) [OF assms(1-3)])
  have own: "block_index_events_db ?t = block_index_events_db s" "deposit_blocks ?t = deposit_blocks s"
    "withdrawal_bundle_event_blocks ?t = withdrawal_bundle_event_blocks s" "peg_height ?t = peg_height s"
    by (subst t, simp)+
  show thesis
    by (rule that [of ?a])
      (simp_all add: record_tables own Let_def kv.delete_put_fresh kv.delete_absent assms(4))
qed

lemma disconnect_unchanged:
  assumes "peg_ok s" and "peg_height s = Some h" and "block_ready h (flat_events data) s"
    and "try_fold (apply_event h) (flat_events data) s = Inr (pp_state p)"
    and hashes: "pp_deposit_hash p = last_hash is_deposit_event (flat_events data)"
      "pp_event_hash p = last_hash (\<lambda>e. \<not> is_deposit_event e) (flat_events data)"
    and "db_get (block_index_events_db s) h = None"
    and seqs: "appendable cursor (deposit_blocks s)" "appendable cursor (withdrawal_bundle_event_blocks s)"
    and "settled h s"
  shows "disconnect cursor data (record_block_events cursor h p) = Inr s"
proof -
  let ?t = "pp_state p"
  let ?b = "append_block cursor (pp_deposit_hash p) h (deposit_blocks s)"
  let ?c = "append_block cursor (pp_event_hash p) h (withdrawal_bundle_event_blocks s)"
  obtain a where rec: "record_block_events cursor h p = tables a ?b ?c (peg_height s) ?t"
    and del: "db_delete a h = block_index_events_db s"
    by (rule recorded_state [OF assms(1,3,4,7)]) (rule that)
  obtain q where q: "disconnect_events h data
        (start_progress (tables (block_index_events_db s) ?b ?c (peg_height s) ?t)) = Inr q"
    "pp_state q = tables (block_index_events_db s) ?b ?c (peg_height s) s"
    "pp_deposit_hash q = pp_deposit_hash p" "pp_event_hash q = pp_event_hash p"
    using undo_events(1) [OF assms(1,3,4)] unfolding hashes by blast
  have reindexed: "(record_block_events cursor h p)
      \<lparr> block_index_events_db := db_delete (block_index_events_db (record_block_events cursor h p)) h \<rparr>
      = tables (block_index_events_db s) ?b ?c (peg_height s) ?t"
    by (simp add: rec del)
  have "disconnect cursor data (record_block_events cursor h p)
      = Inr ((tables (block_index_events_db s) ?b (withdrawal_bundle_event_blocks s) (peg_height s) s)
          \<lparr> deposit_blocks := deposit_blocks s \<rparr>)"
  proof (rule disconnect_from_undo)
    show "peg_height (record_block_events cursor h p) = Some h" by (simp add: rec assms(2))
    show "disconnect_events h data (start_progress ((record_block_events cursor h p)
        \<lparr> block_index_events_db := db_delete (block_index_events_db (record_block_events cursor h p)) h \<rparr>)) = Inr q"
      using q(1) reindexed by simp
    show "remove_block cursor NoWithdrawalBundleEventBlock (pp_event_hash q) h
        (withdrawal_bundle_event_blocks (pp_state q)) = Inr (withdrawal_bundle_event_blocks s)"
      using remove_append [OF seqs(2)] by (simp add: q)
    show "drop_pending_bundle h ((pp_state q) \<lparr> withdrawal_bundle_event_blocks := withdrawal_bundle_event_blocks s \<rparr>)
        = Inr (tables (block_index_events_db s) ?b (withdrawal_bundle_event_blocks s) (peg_height s) s)"
    proof -
      have "(pp_state q) \<lparr> withdrawal_bundle_event_blocks := withdrawal_bundle_event_blocks s \<rparr>
          = tables (block_index_events_db s) ?b (withdrawal_bundle_event_blocks s) (peg_height s) s"
        by (simp add: q)
      then show ?thesis using drop_settled [OF iffD2 [OF settled_tables assms(10)]] by metis
    qed
    show "remove_block cursor NoDepositBlock (pp_deposit_hash q) h (deposit_blocks
        (tables (block_index_events_db s) ?b (withdrawal_bundle_event_blocks s) (peg_height s) s))
        = Inr (deposit_blocks s)"
      using remove_append [OF seqs(1)] by (simp add: q)
  qed
  then show ?thesis by simp
qed

lemma deposits_keep_bundles:
  assumes "peg_ok s" and "block_ready h (flat_events data) s"
    and "try_fold (apply_event h) (flat_events data) s = Inr t"
    and "\<forall>e \<in> set (flat_events data). is_deposit_event (snd e)"
  shows "withdrawal_bundles t = withdrawal_bundles s \<and> pending_withdrawal_bundle t = pending_withdrawal_bundle s
    \<and> latest_failed_withdrawal_bundle t = latest_failed_withdrawal_bundle s"
proof -
  have "\<forall>e \<in> set es. is_deposit_event (snd e) \<Longrightarrow> try_fold (apply_event h) es s = Inr t \<Longrightarrow>
      withdrawal_bundles t = withdrawal_bundles s \<and> pending_withdrawal_bundle t = pending_withdrawal_bundle s
      \<and> latest_failed_withdrawal_bundle t = latest_failed_withdrawal_bundle s" for es
  proof (induction es arbitrary: s)
    case (Cons e es)
    then obtain u v w where e: "snd e = DepositEvent u v w" by (cases "snd e") auto
    have "try_fold (apply_event h) es (insert_utxo (Deposit u v) w s) = Inr t"
      using Cons.prems(2) by (simp add: apply_event_def [of h e] e)
    from Cons.IH [OF _ this] Cons.prems(1) show ?case by (simp add: insert_utxo_def)
  qed simp
  with assms(3,4) show ?thesis by blast
qed

lemma no_bundle_events: "\<forall>e \<in> set es. is_deposit_event (snd e) \<Longrightarrow> last_hash (\<lambda>e. \<not> is_deposit_event e) es = None"
  by (simp add: last_hash_def Let_def filter_empty_conv)

lemma disconnect_created:
  assumes "peg_ok s" and "peg_height s = Some h" and "block_ready h (flat_events data) s"
    and "try_fold (apply_event h) (flat_events data) s = Inr (pp_state p)"
    and hashes: "pp_deposit_hash p = last_hash is_deposit_event (flat_events data)"
      "pp_event_hash p = last_hash (\<lambda>e. \<not> is_deposit_event e) (flat_events data)"
    and "db_get (block_index_events_db s) h = None" and seq: "appendable cursor (deposit_blocks s)"
    and deposits: "\<forall>e \<in> set (flat_events data). is_deposit_event (snd e)"
    and gap: "failure_gap_over h (record_block_events cursor h p) = Inr True"
    and free: "pending_withdrawal_bundle (record_block_events cursor h p) = None"
    and put: "put_pending_bundle h m wb (record_block_events cursor h p) = Inr s'"
    and fresh: "db_get (withdrawal_bundles s) m = None"
  shows "disconnect cursor data s' = Inr s"
proof -
  let ?t = "pp_state p" and ?c = "withdrawal_bundle_event_blocks s"
  let ?b = "append_block cursor (pp_deposit_hash p) h (deposit_blocks s)"
  let ?w = "db_put (withdrawal_bundles s) m (Known wb, rb_new Pending h)"
  have none: "pp_event_hash p = None" using hashes(2) no_bundle_events [OF deposits] by simp
  have skip: "append_block cursor (pp_event_hash p) h ?c = ?c" by (simp add: none append_block_def)
  obtain a where rec: "record_block_events cursor h p = tables a ?b ?c (peg_height s) ?t"
    and del: "db_delete a h = block_index_events_db s"
    by (rule recorded_state [OF assms(1,3,4,7), where cursor = cursor, unfolded skip]) (rule that)
  have keep: "withdrawal_bundles ?t = withdrawal_bundles s" "pending_withdrawal_bundle s = None"
    "latest_failed_withdrawal_bundle ?t = latest_failed_withdrawal_bundle s"
    using deposits_keep_bundles [OF assms(1,3,4) deposits] free by (simp_all add: rec)
  have s': "s' = bundles ?w (Some m) (tables a ?b ?c (peg_height s) ?t)"
    using put fresh keep(1) by (auto simp add: put_pending_bundle_def put_bundle_def rec)
  have undo: "try_fold (undo_event h) (rev (flat_events data)) ?t = Inr s"
    using events.fold_undo [where h = h, OF _ assms(4)] assms(1,3) by blast
  have reindexed: "s' \<lparr> block_index_events_db := db_delete (block_index_events_db s') h \<rparr>
      = bundles ?w (Some m) (tables (block_index_events_db s) ?b ?c (peg_height s) ?t)"
    by (simp add: s' del)
  have dep: "\<forall>e \<in> set (rev (flat_events data)). is_deposit_event (snd e)" using deposits by simp
  have "try_fold (undo_event h) (rev (flat_events data))
        (bundles ?w (Some m) (tables (block_index_events_db s) ?b ?c (peg_height s) ?t))
      = Inr (bundles ?w (Some m) (tables (block_index_events_db s) ?b ?c (peg_height s) s))"
    unfolding undo_deposits_bundles [OF dep] undo_fold_tables undo by simp
  from disconnect_fold [OF this, folded disconnect_events_flat, unfolded hashes [symmetric], folded reindexed]
  obtain q where q: "disconnect_events h data
        (start_progress (s' \<lparr> block_index_events_db := db_delete (block_index_events_db s') h \<rparr>)) = Inr q"
    "pp_state q = bundles ?w (Some m) (tables (block_index_events_db s) ?b ?c (peg_height s) s)"
    "pp_deposit_hash q = pp_deposit_hash p" "pp_event_hash q = pp_event_hash p" by blast
  let ?u = "tables (block_index_events_db s) ?b ?c (peg_height s) s"
  have gap': "failure_gap_over h ?u = Inr True"
    using gap keep(1,3) unfolding rec gap_tables
    by (simp add: failure_gap_over_def get_latest_failed_withdrawal_bundle_def split: option.split_asm)
  have "disconnect cursor data s' = Inr (?u \<lparr> deposit_blocks := deposit_blocks s \<rparr>)"
  proof (rule disconnect_from_undo [OF _ q(1)])
    show "peg_height s' = Some h" by (simp add: s' assms(2))
    show "remove_block cursor NoWithdrawalBundleEventBlock (pp_event_hash q) h
        (withdrawal_bundle_event_blocks (pp_state q)) = Inr ?c"
      by (simp add: q none remove_block_def)
    show "drop_pending_bundle h ((pp_state q) \<lparr> withdrawal_bundle_event_blocks := ?c \<rparr>) = Inr ?u"
    proof -
      have "(pp_state q) \<lparr> withdrawal_bundle_event_blocks := ?c \<rparr>
          = bundles (db_put (withdrawal_bundles ?u) m (Known wb, rb_new Pending h)) (Some m) ?u"
        by (simp add: q)
      then show ?thesis using drop_created [OF gap', of m wb] keep(2) fresh by simp
    qed
    show "remove_block cursor NoDepositBlock (pp_deposit_hash q) h (deposit_blocks ?u) = Inr (deposit_blocks s)"
      using remove_append [OF seq] by (simp add: q)
  qed
  then show ?thesis by simp
qed

text \<open>
  C3. Disconnecting the peg data of a block undoes connecting it: from a state with the peg invariant
  whose pending bundle is older than the block, when the block connects, its deposits are new and
  its confirmations and failures are no repetitions, and the storage engine lists new sequence
  numbers after the old ones, \<open>disconnect\<close> succeeds and restores the whole state, provided that the
  block stored no new pending bundle, or that it has only deposits and its pending bundle is new.
\<close>

theorem disconnect_undoes_connect:
  assumes "peg_ok s" and "peg_height s = Some h" and "settled h s"
    and "db_get (block_index_events_db s) h = None"
    and "appendable cursor (deposit_blocks s)" and "appendable cursor (withdrawal_bundle_event_blocks s)"
    and "block_ready h (flat_events data) s"
    and "connect env cursor data s = Inr s'" and "pending_undoable h data s s'"
  shows "disconnect cursor data s' = Inr s"
proof -
  obtain p where p: "try_fold (apply_event h) (flat_events data) s = Inr (pp_state p)"
    "pp_deposit_hash p = last_hash is_deposit_event (flat_events data)"
    "pp_event_hash p = last_hash (\<lambda>e. \<not> is_deposit_event e) (flat_events data)"
    and n: "new_pending_bundle env h (record_block_events cursor h p) = Inr s'"
    using assms(8,2) by (rule connectE)
  from n show ?thesis
  proof (cases rule: new_pendingE)
    case unchanged
    show ?thesis unfolding unchanged
      by (rule disconnect_unchanged [OF assms(1,2,7) p assms(4-6,3)])
  next
    case (created wb)
    let ?m = "compute_m6id env wb"
    obtain r where s': "s' = put_bundle ?m (Known wb) r ((record_block_events cursor h p)
        \<lparr> pending_withdrawal_bundle := Some ?m \<rparr>)" and "stamp_height (latest r) = h"
      using created(4) by (rule put_pendingE)
    then have stored: "pending_withdrawal_bundle s' = Some ?m"
      "db_get (withdrawal_bundles s') ?m = Some (Known wb, r)" "stamp_height (latest r) = h"
      by simp_all
    then have "(\<forall>e \<in> set (flat_events data). is_deposit_event (snd e)) \<and> db_get (withdrawal_bundles s) ?m = None"
      using assms(9) unfolding pending_undoable_def by blast
    then show ?thesis
      using disconnect_created [OF assms(1,2,7) p assms(4,5) _ created(1,2,4)] by blast
  qed
qed

definition example_data :: "(block_hash \<times> block_event list) list" where
  "example_data = [(11, [DepositEvent 2 0 \<lparr> fo_address = 6, fo_content = FilledBitcoin 900, fo_memo = [] \<rparr>]),
     (12, [BundleEvent 7 EventSubmitted])]"

lemmas example_peg_simps = example_peg_state_def insert_utxo_def example_bundle_def bundle_spend_def
  delete_utxo_def db_contains_def status_of_def push_status_def rb_push_def rb_new_def latest_def
  connect_withdrawal_bundle_event_def connect_withdrawal_bundle_submitted_def put_bundle_def

lemma example_flat:
  "flat_events example_data = [(11, DepositEvent 2 0 \<lparr> fo_address = 6, fo_content = FilledBitcoin 900, fo_memo = [] \<rparr>),
     (12, BundleEvent 7 EventSubmitted)]"
  by (simp add: flat_events_def example_data_def)

lemma example_connects:
  "\<exists>t. connect example_btc_env id example_data example_peg_state = Inr t
     \<and> pending_withdrawal_bundle t = None"
  by (simp add: connect_def connect_events_flat example_flat connect_2wpd_event_def start_progress_def
      example_peg_simps record_block_events_def index_is_empty_def append_block_def db_last_def
      new_pending_bundle_def failure_gap_over_def get_latest_failed_withdrawal_bundle_def
      WITHDRAWAL_BUNDLE_FAILURE_GAP_def wrapping_sub_def Let_def collect_withdrawal_bundle_def
      aggregate_withdrawal_def)

lemma example_ready: "block_ready 9 (flat_events example_data) example_peg_state"
proof -
  have "\<not> names example_peg_state (Deposit 2 0) out" for out
    by (simp add: names_def example_peg_state_def insert_utxo_def example_bundle_def)
  then show ?thesis
    by (simp add: example_flat apply_event_def split: sum.split)
qed

lemma example_settled: "settled 9 example_peg_state"
  by (simp add: settled_def example_peg_simps get_latest_failed_withdrawal_bundle_def)

theorem disconnect_undoes_connect_witness:
  "\<exists>t. connect example_btc_env id example_data example_peg_state = Inr t
     \<and> disconnect id example_data t = Inr example_peg_state"
proof -
  obtain t where t: "connect example_btc_env id example_data example_peg_state = Inr t"
    "pending_withdrawal_bundle t = None" using example_connects by blast
  have "disconnect id example_data t = Inr example_peg_state"
    by (rule disconnect_undoes_connect [OF example_peg_ok _ example_settled _ _ _ example_ready t(1)])
      (simp_all add: example_peg_state_def insert_utxo_def appendable_def db_keys_def
        pending_undoable_def t(2))
  with t show ?thesis by blast
qed

theorem connect_preserves_invariant_witness:
  "\<exists>t. connect example_btc_env id example_data example_peg_state = Inr t \<and> peg_ok t"
proof -
  obtain t where t: "connect example_btc_env id example_data example_peg_state = Inr t"
    using example_connects by blast
  have "peg_ok t"
    by (rule connect_preserves_invariant [OF example_peg_ok _ t example_ready])
      (simp add: example_peg_state_def insert_utxo_def)
  with t show ?thesis by blast
qed

section \<open>A submission and a new pending bundle in one block\<close>

text \<open>
  The case left out above: the block submits the pending bundle and stores a new one. Undoing the
  events does not read the record of the new bundle, and the pointer to it is overwritten when the
  submission is undone.
\<close>

abbreviation extra ::
    "m6id \<Rightarrow> bundle_info \<times> bundle_status height_stamped roll_back \<Rightarrow> m6id option \<Rightarrow> peg_state \<Rightarrow> peg_state" where
  "extra m e q s \<equiv> bundles (db_put (withdrawal_bundles s) m e) q s"

definition shadowed :: "m6id \<Rightarrow> m6id option \<Rightarrow> peg_state \<Rightarrow> bool" where
  "shadowed m q s \<longleftrightarrow> q = pending_withdrawal_bundle s \<or> (pending_withdrawal_bundle s = None \<and> q = Some m)"

lemma step_bundles:
  "bundle_unspend e (bundles w q s) = map_ok (bundles w q) (bundle_unspend e s)"
  "bundle_unconfirm e (bundles w q s) = map_ok (bundles w q) (bundle_unconfirm e s)"
  "bundle_retake m e (bundles w q s) = map_ok (bundles w q) (bundle_retake m e s)"
  by (simp_all add: bundle_unspend_def bundle_unconfirm_def insert_utxo_def Let_def)
    (cases "db_get (utxos s) (fst e)",
      simp_all add: bundle_retake_def Let_def delete_utxo_present delete_utxo_absent)

lemma bundles_kept:
  assumes "\<And>w q. g (bundles w q s) = map_ok (bundles w q) (g s)" and "g s = Inr t"
  shows "g (bundles w q s) = Inr (bundles w q t)"
    and "withdrawal_bundles t = withdrawal_bundles s" and "pending_withdrawal_bundle t = pending_withdrawal_bundle s"
proof -
  show "g (bundles w q s) = Inr (bundles w q t)" by (simp add: assms)
  have "t = bundles (withdrawal_bundles s) (pending_withdrawal_bundle s) t"
    using assms(1) [where w = "withdrawal_bundles s" and q = "pending_withdrawal_bundle s"] assms(2) by simp
  then show "withdrawal_bundles t = withdrawal_bundles s" "pending_withdrawal_bundle t = pending_withdrawal_bundle s"
    by - (drule arg_cong [where f = withdrawal_bundles], simp, drule arg_cong [where f = pending_withdrawal_bundle], simp)
qed

lemma try_fold_bundles:
  assumes "\<And>e s w q. f e (bundles w q s) = map_ok (bundles w q) (f e s)"
  shows "try_fold f es (bundles w q s) = map_ok (bundles w q) (try_fold f es s)"
proof (induction es arbitrary: s)
  case (Cons e es)
  then show ?case by (cases "f e s") (simp_all add: assms)
qed simp

lemmas retake_bundles = try_fold_bundles [of "bundle_retake m" for m, OF step_bundles(3)]

lemmas folds_bundles =
  bundles_kept [of "try_fold bundle_unspend es" for es, OF try_fold_bundles [of bundle_unspend, OF step_bundles(1)]]
  bundles_kept [of "try_fold bundle_unconfirm es" for es, OF try_fold_bundles [of bundle_unconfirm, OF step_bundles(2)]]

lemma put_swap: "m \<noteq> m' \<Longrightarrow> db_put (db_put d m' e) m x = db_put (db_put d m x) m' e"
  by (rule db_ext) simp

lemma delete_swap: "m \<noteq> m' \<Longrightarrow> db_delete (db_put d m' e) m = db_put (db_delete d m) m' e"
  by (rule db_ext) simp

lemma submitted_extra:
  assumes "disconnect_withdrawal_bundle_submitted h m s = Inr t" and "m \<noteq> m'" and "shadowed m' q s"
  shows "\<exists>q'. disconnect_withdrawal_bundle_submitted h m (extra m' e q s) = Inr (extra m' e q' t) \<and> shadowed m' q' t"
proof (cases "db_get (withdrawal_bundles s) m")
  case None
  then have "pending_withdrawal_bundle s = Some m" "t = s"
    using assms(1) by (auto simp: disconnect_withdrawal_bundle_submitted_def split: if_splits)
  then show ?thesis using None assms(2,3) by (auto simp: disconnect_withdrawal_bundle_submitted_def shadowed_def)
next
  case (Some b)
  obtain prev newest where pop: "rb_pop (snd b) = (prev, newest)" by force
  have guards: "is_submitted (stamp_value newest)" "stamp_height newest = h"
    using assms(1) by (auto simp: disconnect_withdrawal_bundle_submitted_def Some pop split: if_splits)
  have other: "db_get (withdrawal_bundles (extra m' e q s)) m = Some b" using Some assms(2) by simp
  show ?thesis
  proof (cases "\<exists>wb p. fst b = Known wb \<and> prev = Some p \<and> status_of p = Pending")
    case True
    then obtain wb p x where c: "fst b = Known wb" "prev = Some p" "status_of p = Pending"
      and x: "try_fold bundle_unspend (rev (db_entries (wb_spend_utxos wb))) s = Inr x"
        "t = put_bundle m (Known wb) p (x \<lparr> pending_withdrawal_bundle := Some m \<rparr>)"
      using assms(1) guards by (auto simp: disconnect_withdrawal_bundle_submitted_def Some pop simp del: put_bundle_fields)
    have "disconnect_withdrawal_bundle_submitted h m (extra m' e q s) = Inr (put_bundle m (Known wb) p
        ((bundles (db_put (withdrawal_bundles s) m' e) q x) \<lparr> pending_withdrawal_bundle := Some m \<rparr>))"
      unfolding disconnect_withdrawal_bundle_submitted_def other
      using folds_bundles(1) [OF x(1), where w = "db_put (withdrawal_bundles s) m' e" and q = q]
      by (simp add: pop guards c)
    then show ?thesis
      using folds_bundles(2) [OF x(1)] assms(2) by (intro exI [of _ "Some m"]) (simp add: x(2) put_bundle_def put_swap shadowed_def)
  next
    case False
    then have "t = (case prev of Some p \<Rightarrow> put_bundle m (fst b) p s
        | None \<Rightarrow> s \<lparr> withdrawal_bundles := db_delete (withdrawal_bundles s) m \<rparr>)"
      using assms(1) guards
      by (cases "fst b"; cases prev) (auto simp: disconnect_withdrawal_bundle_submitted_def Some pop simp del: put_bundle_fields)
    moreover have "disconnect_withdrawal_bundle_submitted h m (extra m' e q s) = Inr (case prev of Some p \<Rightarrow> put_bundle m (fst b) p (extra m' e q s)
        | None \<Rightarrow> (extra m' e q s) \<lparr> withdrawal_bundles := db_delete (withdrawal_bundles (extra m' e q s)) m \<rparr>)"
      unfolding disconnect_withdrawal_bundle_submitted_def other using False
      by (cases "fst b"; cases prev) (auto simp: pop guards)
    ultimately show ?thesis
      using assms(2,3) by (intro exI [of _ q]) (cases prev; simp add: put_bundle_def put_swap delete_swap shadowed_def)
  qed
qed

lemma put_bundle_extra:
  assumes "m \<noteq> m'" and "withdrawal_bundles x = withdrawal_bundles s"
  shows "put_bundle m i r (bundles (db_put (withdrawal_bundles s) m' e) q x) = extra m' e q (put_bundle m i r x)"
proof -
  have "db_put (db_put (withdrawal_bundles s) m' e) m (i, r) = db_put (db_put (withdrawal_bundles s) m (i, r)) m' e"
    by (rule put_swap [OF assms(1)])
  then show ?thesis by (simp add: put_bundle_def assms(2))
qed

lemma confirmed_extra:
  assumes "disconnect_withdrawal_bundle_confirmed h m s = Inr t" and "m \<noteq> m'"
  shows "disconnect_withdrawal_bundle_confirmed h m (extra m' e q s) = Inr (extra m' e q t)
    \<and> pending_withdrawal_bundle t = pending_withdrawal_bundle s"
proof -
  obtain b where b: "db_get (withdrawal_bundles s) m = Some b"
    using assms(1) by (auto simp: disconnect_withdrawal_bundle_confirmed_def)
  then have other: "db_get (withdrawal_bundles (extra m' e q s)) m = Some b" using assms(2) by simp
  obtain prev newest where pop: "rb_pop (snd b) = (prev, newest)" by force
  show ?thesis
  proof (cases "is_submitted (stamp_value newest)")
    case True
    then show ?thesis using assms(1) unfolding disconnect_withdrawal_bundle_confirmed_def other b by (auto simp: pop)
  next
    case False
    obtain p where g: "stamp_value newest = Confirmed" "stamp_height newest = h" "prev = Some p" "is_submitted (status_of p)"
      using assms(1) False unfolding disconnect_withdrawal_bundle_confirmed_def b by (auto simp: pop split: if_splits)
    let ?es = "case fst b of Known wb \<Rightarrow> if status_of p = SubmittedUnexpected then db_entries (wb_spend_utxos wb) else []
      | UnknownConfirmed spends \<Rightarrow> db_entries spends | Unknown \<Rightarrow> []"
    let ?i = "case fst b of UnknownConfirmed _ \<Rightarrow> Unknown | _ \<Rightarrow> fst b"
    have run: "disconnect_withdrawal_bundle_confirmed h m x = rbind (try_fold bundle_unconfirm ?es x) (\<lambda>y. Inr (put_bundle m ?i p y))"
      if "db_get (withdrawal_bundles x) m = Some b" for x
      using that False g by (cases "fst b") (auto simp: disconnect_withdrawal_bundle_confirmed_def pop rbind_assoc)
    obtain y where y: "try_fold bundle_unconfirm ?es s = Inr y" "t = put_bundle m ?i p y"
      using assms(1) unfolding run [OF b] by auto
    note f = folds_bundles(4-6) [OF y(1)]
    show ?thesis
      unfolding run [OF other] y(2) f(1) using put_bundle_extra [OF assms(2) f(2)] f(3) by simp
  qed
qed

lemma pop_latest_failed_bundles:
  "pop_latest_failed m h (bundles w q s) = map_ok (bundles w q) (pop_latest_failed m h s)"
  by (cases "latest_failed_withdrawal_bundle s") (auto simp: pop_latest_failed_def split: prod.split)

lemma retake_pop_bundles:
  "rbind (try_fold (bundle_retake m) es (bundles w q s)) (pop_latest_failed m h)
     = map_ok (bundles w q) (rbind (try_fold (bundle_retake m) es s) (pop_latest_failed m h))"
  unfolding retake_bundles rbind_map_ok by (simp add: pop_latest_failed_bundles)

lemma failed_extra:
  assumes "disconnect_withdrawal_bundle_failed h m s = Inr t" and "m \<noteq> m'"
  shows "disconnect_withdrawal_bundle_failed h m (extra m' e q s) = Inr (extra m' e q t)
    \<and> pending_withdrawal_bundle t = pending_withdrawal_bundle s"
proof -
  obtain b where b: "db_get (withdrawal_bundles s) m = Some b"
    using assms(1) by (auto simp: disconnect_withdrawal_bundle_failed_def)
  then have other: "db_get (withdrawal_bundles (extra m' e q s)) m = Some b" using assms(2) by simp
  obtain prev newest where pop: "rb_pop (snd b) = (prev, newest)" by force
  show ?thesis
  proof (cases "stamp_value newest = Submitted")
    case True
    then show ?thesis using assms(1) unfolding disconnect_withdrawal_bundle_failed_def other b by (auto simp: pop)
  next
    case False
    obtain p where g: "stamp_value newest = Failed" "stamp_height newest = h" "prev = Some p" "is_submitted (status_of p)"
      using assms(1) False unfolding disconnect_withdrawal_bundle_failed_def b by (auto simp: pop split: if_splits)
    define moves where "moves = (\<lambda>x. case fst b of
        Known wb \<Rightarrow> (if status_of p = SubmittedUnexpected then Inr x
          else rbind (try_fold (bundle_retake m) (rev (db_entries (wb_spend_utxos wb))) x) (pop_latest_failed m h))
      | _ \<Rightarrow> Inr x)"
    have run: "disconnect_withdrawal_bundle_failed h m x = rbind (moves x) (\<lambda>y. Inr (put_bundle m (fst b) p y))"
      if "db_get (withdrawal_bundles x) m = Some b" for x
      using that False g by (simp add: disconnect_withdrawal_bundle_failed_def pop moves_def)
    obtain y where y: "moves s = Inr y" "t = put_bundle m (fst b) p y" using assms(1) unfolding run [OF b] by auto
    have "moves (bundles w q s) = map_ok (bundles w q) (moves s)" for w q
      unfolding moves_def by (cases "fst b") (simp_all add: retake_pop_bundles)
    note f = bundles_kept [where g = moves, OF this y(1)]
    show ?thesis
      unfolding run [OF other] y(2) f(1) using put_bundle_extra [OF assms(2) f(2)] f(3) by simp
  qed
qed

lemma undo_event_extra:
  assumes "undo_event h ev s = Inr t" and "\<forall>st. snd ev \<noteq> BundleEvent m st" and "shadowed m q s"
  shows "\<exists>q'. undo_event h ev (extra m e q s) = Inr (extra m e q' t) \<and> shadowed m q' t"
proof (cases "snd ev")
  case (DepositEvent d v out)
  have g: "undo_event h ev (bundles w q s) = map_ok (bundles w q) (undo_event h ev s)" for w q
    using undo_deposits_bundles [of "[ev]", where h = h and w = w and q = q and s = s] DepositEvent by (cases "undo_event h ev s"; cases "undo_event h ev (bundles w q s)") simp_all
  note f = bundles_kept [where g = "undo_event h ev", OF g assms(1)]
  show ?thesis unfolding f(1) using f(2,3) assms(3) by (intro exI [of _ q]) (simp add: shadowed_def)
next
  case (BundleEvent k st)
  then have k: "k \<noteq> m" using assms(2) by auto
  have undo: "undo_event h ev x = disconnect_withdrawal_bundle_event h k st x" for x
    by (simp add: undo_event_def BundleEvent)
  have step: "disconnect_withdrawal_bundle_event h k st s = Inr t" using assms(1) by (simp add: undo)
  show ?thesis
  proof (cases st)
    case EventSubmitted
    then show ?thesis
      using submitted_extra [of h k s t m q e] step k assms(3) by (simp add: undo disconnect_withdrawal_bundle_event_def)
  next
    case EventConfirmed
    then show ?thesis
      using confirmed_extra [of h k s t m q e] step k assms(3)
      by (intro exI [of _ q]) (simp add: undo disconnect_withdrawal_bundle_event_def shadowed_def)
  next
    case EventFailed
    then show ?thesis
      using failed_extra [of h k s t m q e] step k assms(3)
      by (intro exI [of _ q]) (simp add: undo disconnect_withdrawal_bundle_event_def shadowed_def)
  qed
qed

lemma undo_events_extra:
  assumes "try_fold (undo_event h) es s = Inr t" and "\<forall>ev \<in> set es. \<forall>st. snd ev \<noteq> BundleEvent m st" and "shadowed m q s"
  shows "\<exists>q'. try_fold (undo_event h) es (extra m e q s) = Inr (extra m e q' t) \<and> shadowed m q' t"
  using assms
proof (induction es arbitrary: s q)
  case (Cons ev es)
  obtain s1 where s1: "undo_event h ev s = Inr s1" "try_fold (undo_event h) es s1 = Inr t" using Cons.prems(1) by auto
  obtain q1 where q1: "undo_event h ev (extra m e q s) = Inr (extra m e q1 s1)" "shadowed m q1 s1"
    using undo_event_extra [OF s1(1)] Cons.prems(2,3) by (metis list.set_intros(1))
  show ?case using Cons.IH [OF s1(2) _ q1(2)] Cons.prems(2) q1(1) by simp
qed auto

lemma retable_pending: "t = retable U I S s \<Longrightarrow> pending_withdrawal_bundle t = pending_withdrawal_bundle (s :: peg_state)"
  by simp

lemma apply_event_pending:
  assumes "peg_ok s" and "apply_event h ev s = Inr t"
  shows "pending_withdrawal_bundle t = pending_withdrawal_bundle s \<or> pending_withdrawal_bundle t = None"
proof (cases "snd ev")
  case (DepositEvent d v out)
  then show ?thesis using assms(2) by (auto simp: apply_event_def insert_utxo_def)
next
  case (BundleEvent m st)
  obtain spends where c: "connect_withdrawal_bundle_event h (fst ev) m st s = Inr (t, spends)"
    using assms(2) by (auto simp: apply_event_def BundleEvent)
  show ?thesis
  proof (cases st)
    case EventSubmitted
    then have c: "connect_withdrawal_bundle_submitted h m s = Inr (t, spends)" using c by (simp add: connect_withdrawal_bundle_event_def)
    show ?thesis
    proof (cases "pending_withdrawal_bundle s = Some m")
      case True
      with c obtain b x r' where "t = (put_bundle m (Known b) r' x) \<lparr> pending_withdrawal_bundle := None \<rparr>"
        by (rule submitted_pendingE)
      then show ?thesis by simp
    next
      case False
      from c False show ?thesis by (cases rule: submitted_otherE) simp_all
    qed
  next
    case EventConfirmed
    then have c: "connect_withdrawal_bundle_confirmed h (fst ev) m s = Inr t" using c by (auto simp: connect_withdrawal_bundle_event_def)
    show ?thesis
    proof (cases "\<exists>i r. db_get (withdrawal_bundles s) m = Some (i, r) \<and> status_of r = Confirmed")
      case True
      then show ?thesis using c by (auto simp: connect_withdrawal_bundle_confirmed_def)
    next
      case False
      obtain i r i' u r' where b: "db_get (withdrawal_bundles s) m = Some (i, r)"
        and u: "confirm_bundle h (fst ev) m i (status_of r) s = Inr (i', u)" and t: "t = put_bundle m i' r' u"
        using c False by (elim confirmedE) blast+
      from u have "pending_withdrawal_bundle u = pending_withdrawal_bundle s"
      proof (cases rule: confirm_bundleE)
        case all
        then show ?thesis using clear_moves [OF assms(1) all(3)] retable_pending by blast
      next
        case (unexpected b')
        then show ?thesis using spend_moves [OF assms(1) b [unfolded unexpected(1)] unexpected(4)] retable_pending by blast
      qed simp
      then show ?thesis by (simp add: t)
    qed
  next
    case EventFailed
    then have c: "connect_withdrawal_bundle_failed h m s = Inr t" using c by (auto simp: connect_withdrawal_bundle_event_def)
    show ?thesis
    proof (cases "\<exists>i r. db_get (withdrawal_bundles s) m = Some (i, r) \<and> status_of r = Failed")
      case True
      then show ?thesis using c by (auto simp: connect_withdrawal_bundle_failed_def)
    next
      case False
      then have nf: "\<forall>i r. db_get (withdrawal_bundles s) m = Some (i, r) \<longrightarrow> status_of r \<noteq> Failed" by blast
      from c nf show ?thesis
      proof (cases rule: failedE)
        case (released b r x u r')
        have "pending_withdrawal_bundle x = pending_withdrawal_bundle s"
          using release_moves [OF assms(1) released(1-3)] retable_pending by blast
        moreover obtain f where "u = x \<lparr> latest_failed_withdrawal_bundle := Some f \<rparr>" using released(4) by (rule push_latest_failed_ok)
        ultimately show ?thesis by (simp add: released(6))
      qed simp
    qed
  qed
qed

lemma apply_events_pending:
  assumes "try_fold (apply_event h) es s = Inr t" and "peg_ok s" and "block_ready h es s"
  shows "pending_withdrawal_bundle t = pending_withdrawal_bundle s \<or> pending_withdrawal_bundle t = None"
  using assms
proof (induction es arbitrary: s)
  case (Cons ev es)
  obtain s1 where s1: "apply_event h ev s = Inr s1" "try_fold (apply_event h) es s1 = Inr t" using Cons.prems(1) by auto
  have "peg_ok s1" by (rule apply_event_ok [OF Cons.prems(2) _ s1(1)]) (use Cons.prems(3) in simp)
  then show ?case
    using Cons.IH [OF s1(2)] apply_event_pending [OF Cons.prems(2) s1(1)] Cons.prems(3) s1(1) by auto
qed simp

lemma settled_extra:
  assumes "settled h s" and "db_get (withdrawal_bundles s) m = None"
  shows "settled h (extra m e (pending_withdrawal_bundle s) s)"
proof -
  let ?s = "extra m e (pending_withdrawal_bundle s) s"
  have "get_latest_failed_withdrawal_bundle ?s = get_latest_failed_withdrawal_bundle s"
  proof (cases "latest_failed_withdrawal_bundle s")
    case None
    then show ?thesis by (simp add: get_latest_failed_withdrawal_bundle_def)
  next
    case (Some r)
    then have "stamp_value (latest r) \<noteq> m"
      using assms by (auto simp: settled_def is_ok_iff get_latest_failed_withdrawal_bundle_def Let_def)
    then show ?thesis using Some by (simp add: get_latest_failed_withdrawal_bundle_def Let_def)
  qed
  then show ?thesis using assms by (auto simp: settled_def)
qed



text \<open>
  C38. A block that replaces the pending bundle is not undone. Take a state as in the roundtrip above with
  a pending bundle, and a block that connects and after which another bundle is pending that the state did
  not know and that no event of the block is about: the block has submitted the old bundle and stored a
  new one. Then \<open>disconnect\<close> succeeds, the old bundle is pending again, and the result is the old state
  except that the record of the new bundle stays in \<open>withdrawal_bundles\<close>.
\<close>

theorem leftover_pending_bundle:
  assumes "peg_ok s" and "peg_height s = Some h" and "settled h s"
    and "db_get (block_index_events_db s) h = None"
    and "appendable cursor (deposit_blocks s)" and "appendable cursor (withdrawal_bundle_event_blocks s)"
    and "block_ready h (flat_events data) s" and "connect env cursor data s = Inr s'"
    and "pending_withdrawal_bundle s = Some old" and "pending_withdrawal_bundle s' = Some new"
    and "db_get (withdrawal_bundles s) new = None" and "\<forall>ev \<in> set (flat_events data). \<forall>st. snd ev \<noteq> BundleEvent new st"
  shows "\<exists>e. db_get (withdrawal_bundles s') new = Some e
    \<and> disconnect cursor data s' = Inr (s \<lparr> withdrawal_bundles := db_put (withdrawal_bundles s) new e \<rparr>)"
proof -
  obtain p where p: "try_fold (apply_event h) (flat_events data) s = Inr (pp_state p)"
    "pp_deposit_hash p = last_hash is_deposit_event (flat_events data)"
    "pp_event_hash p = last_hash (\<lambda>e. \<not> is_deposit_event e) (flat_events data)"
    and n: "new_pending_bundle env h (record_block_events cursor h p) = Inr s'"
    using assms(8,2) by (rule connectE)
  let ?t = "pp_state p"
  let ?b = "append_block cursor (pp_deposit_hash p) h (deposit_blocks s)"
  let ?c = "append_block cursor (pp_event_hash p) h (withdrawal_bundle_event_blocks s)"
  obtain a where rec: "record_block_events cursor h p = tables a ?b ?c (peg_height s) ?t"
    and del: "db_delete a h = block_index_events_db s"
    by (rule recorded_state [OF assms(1,7) p(1) assms(4)]) (rule that)
  have undo: "try_fold (undo_event h) (rev (flat_events data)) ?t = Inr s"
    using events.fold_undo [where h = h, OF _ p(1)] assms(1,7) by blast
  obtain e where e: "s' = extra new e (Some new) (tables a ?b ?c (peg_height s) ?t)" and free: "pending_withdrawal_bundle ?t = None"
    using n
  proof (cases rule: new_pendingE)
    case unchanged
    then have "pending_withdrawal_bundle ?t = Some new" using assms(10) by (simp add: rec)
    then show ?thesis using apply_events_pending [OF p(1) assms(1,7)] assms(3,9,11) by (auto simp: settled_def)
  next
    case (created wb)
    obtain r where "s' = put_bundle (compute_m6id env wb) (Known wb) r ((record_block_events cursor h p)
        \<lparr> pending_withdrawal_bundle := Some (compute_m6id env wb) \<rparr>)"
      using created(4) by (rule put_pendingE)
    moreover from this have "compute_m6id env wb = new" using assms(10) by simp
    ultimately show ?thesis using created(2) that [of "(Known wb, r)"] by (simp add: put_bundle_def rec)
  qed
  let ?v = "tables (block_index_events_db s) ?b ?c (peg_height s)"
  have start: "s' \<lparr> block_index_events_db := db_delete (block_index_events_db s') h \<rparr> = extra new e (Some new) (?v ?t)"
    by (simp add: e del)
  have "try_fold (undo_event h) (rev (flat_events data)) (?v ?t) = Inr (?v s)" by (simp add: undo_fold_tables undo)
  from undo_events_extra [OF this, of new "Some new" e] assms(12) free obtain q where
    "try_fold (undo_event h) (rev (flat_events data)) (extra new e (Some new) (?v ?t)) = Inr (extra new e q (?v s))"
    and "shadowed new q (?v s)" by (auto simp: shadowed_def)
  then have "try_fold (undo_event h) (rev (flat_events data)) (extra new e (Some new) (?v ?t))
      = Inr (extra new e (pending_withdrawal_bundle s) (?v s))" using assms(9) by (simp add: shadowed_def)
  from disconnect_fold [OF this, folded disconnect_events_flat, folded start]
  obtain d where d: "disconnect_events h data
        (start_progress (s' \<lparr> block_index_events_db := db_delete (block_index_events_db s') h \<rparr>)) = Inr d"
    "pp_state d = extra new e (pending_withdrawal_bundle s) (?v s)"
    "pp_deposit_hash d = pp_deposit_hash p" "pp_event_hash d = pp_event_hash p" unfolding p(2,3) by blast
  let ?w = "tables (block_index_events_db s) ?b (withdrawal_bundle_event_blocks s) (peg_height s) s"
  let ?u = "extra new e (pending_withdrawal_bundle s) ?w"
  have "disconnect cursor data s' = Inr (?u \<lparr> deposit_blocks := deposit_blocks s \<rparr>)"
  proof (rule disconnect_from_undo [OF _ d(1)])
    show "peg_height s' = Some h" by (simp add: e assms(2))
    show "remove_block cursor NoWithdrawalBundleEventBlock (pp_event_hash d) h
        (withdrawal_bundle_event_blocks (pp_state d)) = Inr (withdrawal_bundle_event_blocks s)"
      using remove_append [OF assms(6)] by (simp add: d)
    have w: "settled h ?w" using assms(3) by (simp only: settled_tables)
    have "settled h ?u" using settled_extra [OF w, of new e] assms(11) by simp
    moreover have "(pp_state d) \<lparr> withdrawal_bundle_event_blocks := withdrawal_bundle_event_blocks s \<rparr> = ?u" by (simp add: d)
    ultimately show "drop_pending_bundle h ((pp_state d) \<lparr> withdrawal_bundle_event_blocks := withdrawal_bundle_event_blocks s \<rparr>) = Inr ?u"
      using drop_settled by metis
    show "remove_block cursor NoDepositBlock (pp_deposit_hash d) h (deposit_blocks ?u) = Inr (deposit_blocks s)"
      using remove_append [OF assms(5)] by (simp add: d)
  qed
  moreover have "db_get (withdrawal_bundles s') new = Some e" by (simp add: e)
  ultimately show ?thesis by (intro exI [of _ e]) simp
qed

text \<open>
  An instance: the state has the pending bundle 7 and a second withdrawal; the block submits the bundle 7,
  and the second withdrawal goes into the pending bundle 77 of the same block.
\<close>

definition busy_state :: peg_state where
  "busy_state = insert_utxo (Regular 2 0) example_withdrawal example_peg_state"

definition busy_data :: "(block_hash \<times> block_event list) list" where
  "busy_data = [(12, [BundleEvent 7 EventSubmitted])]"

lemma busy_connects:
  "\<exists>t. connect example_btc_env id busy_data busy_state = Inr t \<and> pending_withdrawal_bundle t = Some 77"
  by (simp add: busy_state_def busy_data_def connect_def connect_events_def connect_2wpd_event_def start_progress_def
      example_peg_simps record_block_events_def index_is_empty_def append_block_def db_last_def
      new_pending_bundle_def failure_gap_over_def get_latest_failed_withdrawal_bundle_def
      WITHDRAWAL_BUNDLE_FAILURE_GAP_def wrapping_sub_def Let_def collect_withdrawal_bundle_def
      aggregate_withdrawal_def less_outpoint_def example_withdrawal_def checked_add_def sorted_withdrawals_def
      pack_one_def txout_size_def predict_weight_def txin_base_size_def tx_base_size_def checked_mul_def
      example_btc_env_def withdrawal_bundle_new_def compute_m6id_def put_pending_bundle_def less_eq_outpoint_def)

lemma busy_facts:
  "peg_height busy_state = Some 9" "settled 9 busy_state" "pending_withdrawal_bundle busy_state = Some 7"
  "db_get (withdrawal_bundles busy_state) 77 = None" "db_get (block_index_events_db busy_state) 9 = None"
  "deposit_blocks busy_state = db_empty" "withdrawal_bundle_event_blocks busy_state = db_empty"
  by (simp_all add: busy_state_def settled_def example_peg_simps get_latest_failed_withdrawal_bundle_def)

lemma busy_ok: "peg_ok busy_state"
proof -
  have "\<not> names example_peg_state (Regular 2 0) out" for out
    by (simp add: names_def example_peg_state_def insert_utxo_def example_bundle_def)
  then show ?thesis unfolding busy_state_def by (intro deposit_ok example_peg_ok) simp
qed

theorem leftover_pending_bundle_witness:
  "\<exists>t e. connect example_btc_env id busy_data busy_state = Inr t \<and> db_get (withdrawal_bundles busy_state) 77 = None
     \<and> disconnect id busy_data t = Inr (busy_state \<lparr> withdrawal_bundles := db_put (withdrawal_bundles busy_state) 77 e \<rparr>)"
proof -
  obtain t where t: "connect example_btc_env id busy_data busy_state = Inr t" "pending_withdrawal_bundle t = Some 77"
    using busy_connects by blast
  have "block_ready 9 (flat_events busy_data) busy_state"
    by (simp add: flat_events_def busy_data_def split: sum.split)
  from leftover_pending_bundle [OF busy_ok busy_facts(1,2,5) _ _ this t(1) busy_facts(3) t(2) busy_facts(4)]
  show ?thesis using t(1) busy_facts(4) by (auto simp: busy_facts appendable_def db_keys_def flat_events_def busy_data_def)
qed

end
