(* ===== verification/Mempool.thy ===== *)
theory Mempool
  imports Transactions
begin

text \<open>
  The mempool (\<open>lib/mempool.rs\<close>) and the two loops of \<open>lib/node/net_task.rs\<close> that keep it in step
  with the chain. Its databases are a record of stores; the version row and the change
  notifications are left out. \<open>txid_of\<close> is the transaction hash; \<open>order\<close> ranks the encoded 64-bit
  sequence numbers in the order in which the storage engine lists them. An authorization is the
  address of its key, the only part of it that the mempool reads. A hash set is an ordered set.

  An operation that fails returns no state: its write transaction is dropped, and the one caller
  that continues does so after the check of \<open>put_decision_claims\<close>, which runs before any write.
\<close>

type_synonym decision_bytes = "8 word \<times> 8 word \<times> 8 word"

record authorized_transaction =
  at_transaction :: transaction
  at_authorizations :: "address list"
  at_actor_proof :: "address option"

datatype mempool_error =
    MissingTransaction txid
  | MempoolUtxoDoubleSpent
  | DecisionAlreadyClaimedInMempool decision_bytes
  | MempoolFull nat nat

record mempool =
  transactions :: "(txid, authorized_transaction) db"
  spent_utxos :: "(outpoint, inpoint) db"
  address_to_txs :: "(address, txid oset) db"
  pending_decision_claims :: "(decision_bytes, txid) db"
  trade_insertion_order :: "(nat, txid) db"
  trade_order_counter :: "nat option"

definition MAX_MEMPOOL_TRANSACTIONS :: nat where "MAX_MEMPOOL_TRANSACTIONS = 5000"

definition mempool_new :: mempool where
  "mempool_new = \<lparr> transactions = db_empty, spent_utxos = db_empty, address_to_txs = db_empty,
     pending_decision_claims = db_empty, trade_insertion_order = db_empty, trade_order_counter = None \<rparr>"

definition relevant_addresses :: "authorized_transaction \<Rightarrow> address oset" where
  "relevant_addresses tx =
     oset_of_list (at_authorizations tx
       @ (case at_actor_proof tx of None \<Rightarrow> [] | Some a \<Rightarrow> [a])
       @ map o_address (t_outputs (at_transaction tx)))"

section \<open>Operations\<close>

definition put_stxo :: "outpoint \<times> inpoint \<Rightarrow> mempool \<Rightarrow> (mempool_error, mempool) result" where
  "put_stxo e s =
     (if db_get (spent_utxos s) (fst e) \<noteq> None then Inl MempoolUtxoDoubleSpent
      else Inr (s \<lparr> spent_utxos := db_put (spent_utxos s) (fst e) (snd e) \<rparr>))"

definition put_stxos :: "(outpoint \<times> inpoint) list \<Rightarrow> mempool \<Rightarrow> (mempool_error, mempool) result" where
  "put_stxos es s = try_fold put_stxo es s"

definition delete_stxos :: "outpoint list \<Rightarrow> mempool \<Rightarrow> mempool" where
  "delete_stxos ops s = s \<lparr> spent_utxos := db_delete_all ops (spent_utxos s) \<rparr>"

definition assoc_txid_with_address :: "txid \<Rightarrow> address \<Rightarrow> mempool \<Rightarrow> mempool" where
  "assoc_txid_with_address txid addr s =
     s \<lparr> address_to_txs := db_put (address_to_txs s) addr
           (oset_insert txid (unwrap_or db_empty (db_get (address_to_txs s) addr))) \<rparr>"

definition index_tx_addresses ::
    "(transaction \<Rightarrow> txid) \<Rightarrow> authorized_transaction \<Rightarrow> mempool \<Rightarrow> mempool" where
  "index_tx_addresses txid_of tx s =
     fold (assoc_txid_with_address (txid_of (at_transaction tx))) (oset_elems (relevant_addresses tx)) s"

definition unassoc_txid_with_address :: "txid \<Rightarrow> address \<Rightarrow> mempool \<Rightarrow> mempool" where
  "unassoc_txid_with_address txid addr s =
     (case db_get (address_to_txs s) addr of
        None \<Rightarrow> s
      | Some associated_txs \<Rightarrow>
          (let remaining = oset_remove txid associated_txs in
           if oset_elems remaining \<noteq> []
           then s \<lparr> address_to_txs := db_put (address_to_txs s) addr remaining \<rparr>
           else s \<lparr> address_to_txs := db_delete (address_to_txs s) addr \<rparr>))"

definition unindex_tx_addresses ::
    "(transaction \<Rightarrow> txid) \<Rightarrow> authorized_transaction \<Rightarrow> mempool \<Rightarrow> mempool" where
  "unindex_tx_addresses txid_of tx s =
     fold (unassoc_txid_with_address (txid_of (at_transaction tx))) (oset_elems (relevant_addresses tx)) s"

definition is_trade_tx :: "authorized_transaction \<Rightarrow> bool" where
  "is_trade_tx tx = (case t_data (at_transaction tx) of Some (Trade _ _ _ _ _) \<Rightarrow> True | _ \<Rightarrow> False)"

definition get_claimed_decision_ids :: "transaction \<Rightarrow> decision_bytes list" where
  "get_claimed_decision_ids tx =
     (case t_data tx of
        Some (ClaimDecision payload) \<Rightarrow> map decision_id_bytes (payload_decisions payload)
      | Some (CreateMarket new_claims) \<Rightarrow>
          concat (map (\<lambda>payload. map decision_id_bytes (payload_decisions payload)) new_claims)
      | _ \<Rightarrow> [])"

fun check_claims :: "txid \<Rightarrow> decision_bytes list \<Rightarrow> mempool \<Rightarrow> (mempool_error, unit) result" where
  "check_claims txid [] s = Inr ()"
| "check_claims txid (d # ds) s =
     (case db_get (pending_decision_claims s) d of
        Some existing_txid \<Rightarrow>
          if existing_txid \<noteq> txid then Inl (DecisionAlreadyClaimedInMempool d)
          else check_claims txid ds s
      | None \<Rightarrow> check_claims txid ds s)"

definition put_decision_claims ::
    "txid \<Rightarrow> decision_bytes list \<Rightarrow> mempool \<Rightarrow> (mempool_error, mempool) result" where
  "put_decision_claims txid ds s =
     rbind (check_claims txid ds s) (\<lambda>_.
     Inr (s \<lparr> pending_decision_claims :=
               db_put_all (map (\<lambda>d. (d, txid)) ds) (pending_decision_claims s) \<rparr>))"

definition delete_decision_claims :: "authorized_transaction \<Rightarrow> mempool \<Rightarrow> mempool" where
  "delete_decision_claims tx s =
     s \<lparr> pending_decision_claims :=
           db_delete_all (get_claimed_decision_ids (at_transaction tx)) (pending_decision_claims s) \<rparr>"

definition tx_count :: "mempool \<Rightarrow> nat" where
  "tx_count s = length (db_entries (transactions s))"

definition put_trade_order :: "txid \<Rightarrow> mempool \<Rightarrow> mempool" where
  "put_trade_order txid s =
     (let next_counter = wrapping_add 64 (unwrap_or 0 (trade_order_counter s)) 1
      in s \<lparr> trade_insertion_order := db_put (trade_insertion_order s) next_counter txid,
             trade_order_counter := Some next_counter \<rparr>)"

definition mempool_put ::
    "(transaction \<Rightarrow> txid) \<Rightarrow> authorized_transaction \<Rightarrow> mempool \<Rightarrow> (mempool_error, mempool) result" where
  "mempool_put txid_of tx s =
     (let txid = txid_of (at_transaction tx);
          claimed_decisions = get_claimed_decision_ids (at_transaction tx)
      in if MAX_MEMPOOL_TRANSACTIONS \<le> tx_count s
         then Inl (MempoolFull (tx_count s) MAX_MEMPOOL_TRANSACTIONS)
         else
           rbind (if claimed_decisions \<noteq> [] then put_decision_claims txid claimed_decisions s else Inr s) (\<lambda>s1.
           rbind (put_stxos (map (\<lambda>e. (snd e, RegularIn txid (as_u 32 (fst e))))
                    (enumerate 0 (t_inputs (at_transaction tx)))) s1) (\<lambda>s2.
           let s3 = index_tx_addresses txid_of tx
                      (s2 \<lparr> transactions := db_put (transactions s2) txid tx \<rparr>)
           in Inr (if is_trade_tx tx then put_trade_order txid s3 else s3))))"

definition trades_listed :: "(nat \<Rightarrow> nat) \<Rightarrow> mempool \<Rightarrow> (nat \<times> txid) list" where
  "trades_listed order s = sort_key (\<lambda>e. order (fst e)) (db_entries (trade_insertion_order s))"

definition delete_trade_order :: "(nat \<Rightarrow> nat) \<Rightarrow> txid \<Rightarrow> mempool \<Rightarrow> mempool" where
  "delete_trade_order order txid s =
     (case find (\<lambda>e. snd e = txid) (trades_listed order s) of
        None \<Rightarrow> s
      | Some e \<Rightarrow> s \<lparr> trade_insertion_order := db_delete (trade_insertion_order s) (fst e) \<rparr>)"

definition remove_tx ::
    "(transaction \<Rightarrow> txid) \<Rightarrow> (nat \<Rightarrow> nat) \<Rightarrow> txid \<Rightarrow> authorized_transaction \<Rightarrow> mempool \<Rightarrow> mempool" where
  "remove_tx txid_of order txid tx s =
     (let s1 = delete_stxos (t_inputs (at_transaction tx)) s;
          s2 = unindex_tx_addresses txid_of tx s1;
          s3 = delete_decision_claims tx s2;
          s4 = (if is_trade_tx tx then delete_trade_order order txid s3 else s3)
      in s4 \<lparr> transactions := db_delete (transactions s4) txid \<rparr>)"

definition spending_children :: "txid \<Rightarrow> authorized_transaction \<Rightarrow> mempool \<Rightarrow> txid list" where
  "spending_children txid tx s =
     List.map_filter (\<lambda>vout.
         case db_get (spent_utxos s) (Regular txid (as_u 32 vout)) of
           Some (RegularIn child_txid _) \<Rightarrow> Some child_txid
         | _ \<Rightarrow> None)
       [0..<length (t_outputs (at_transaction tx))]"

lemma remove_tx_transactions [simp]:
  "transactions (remove_tx txid_of order txid tx s) = db_delete (transactions s) txid"
proof -
  have a: "transactions (unassoc_txid_with_address t a s) = transactions s" for t a s
    by (simp add: unassoc_txid_with_address_def Let_def split: option.split)
  have "transactions (fold (unassoc_txid_with_address t) as s) = transactions s" for t as s
    by (induction as arbitrary: s) (simp_all add: a)
  then show ?thesis
    by (simp add: remove_tx_def Let_def delete_stxos_def unindex_tx_addresses_def
        delete_decision_claims_def delete_trade_order_def split: option.split)
qed

lemma length_db_delete:
  "db_get d k = Some v \<Longrightarrow> length (db_entries (db_delete d k)) < length (db_entries d)"
  by (auto simp: db_get_iff_entries entries_delete_def intro!: length_filter_less)

function delete_loop ::
    "(transaction \<Rightarrow> txid) \<Rightarrow> (nat \<Rightarrow> nat) \<Rightarrow> txid list \<Rightarrow> mempool \<Rightarrow> mempool" where
  "delete_loop txid_of order [] s = s"
| "delete_loop txid_of order (txid # pending_deletes) s =
     (case db_get (transactions s) txid of
        None \<Rightarrow> delete_loop txid_of order pending_deletes s
      | Some tx \<Rightarrow>
          (let s' = remove_tx txid_of order txid tx s
           in delete_loop txid_of order (pending_deletes @ spending_children txid tx s') s'))"
  by pat_completeness auto

termination
  by (relation "measures [\<lambda>(_, _, _, s). length (db_entries (transactions s)), \<lambda>(_, _, q, _). length q]")
    (auto simp: length_db_delete simp del: db_entries_delete)

definition mempool_delete :: "(transaction \<Rightarrow> txid) \<Rightarrow> (nat \<Rightarrow> nat) \<Rightarrow> txid \<Rightarrow> mempool \<Rightarrow> mempool" where
  "mempool_delete txid_of order txid s = delete_loop txid_of order [txid] s"

definition evict_conflict ::
    "(transaction \<Rightarrow> txid) \<Rightarrow> (nat \<Rightarrow> nat) \<Rightarrow> txid \<Rightarrow> decision_bytes \<Rightarrow> mempool \<times> txid list
       \<Rightarrow> mempool \<times> txid list" where
  "evict_conflict txid_of order confirmed_txid d acc =
     (case db_get (pending_decision_claims (fst acc)) d of
        Some zombie_txid \<Rightarrow>
          if zombie_txid \<noteq> confirmed_txid
          then (mempool_delete txid_of order zombie_txid (fst acc), snd acc @ [zombie_txid]) else acc
      | None \<Rightarrow> acc)"

definition evict_decision_claim_conflicts ::
    "(transaction \<Rightarrow> txid) \<Rightarrow> (nat \<Rightarrow> nat) \<Rightarrow> transaction \<Rightarrow> mempool \<Rightarrow> mempool \<times> txid list" where
  "evict_decision_claim_conflicts txid_of order confirmed_tx s =
     fold (evict_conflict txid_of order (txid_of confirmed_tx)) (get_claimed_decision_ids confirmed_tx) (s, [])"

section \<open>Queries\<close>

definition mempool_take :: "nat \<Rightarrow> mempool \<Rightarrow> authorized_transaction list" where
  "mempool_take number s = map snd (take number (db_entries (transactions s)))"

definition take_all :: "mempool \<Rightarrow> authorized_transaction list" where
  "take_all s = map snd (db_entries (transactions s))"

definition take_trades_ordered :: "(nat \<Rightarrow> nat) \<Rightarrow> mempool \<Rightarrow> authorized_transaction list" where
  "take_trades_ordered order s =
     List.map_filter (\<lambda>e. db_get (transactions s) (snd e)) (trades_listed order s)"

definition get_txids_relevant_to_address :: "address \<Rightarrow> mempool \<Rightarrow> txid oset" where
  "get_txids_relevant_to_address addr s = unwrap_or db_empty (db_get (address_to_txs s) addr)"

fun collect_transactions :: "txid list \<Rightarrow> mempool \<Rightarrow> (mempool_error, authorized_transaction list) result" where
  "collect_transactions [] s = Inr []"
| "collect_transactions (t # ts) s =
     rbind (ok_or (db_get (transactions s) t) (MissingTransaction t)) (\<lambda>tx.
     rbind (collect_transactions ts s) (\<lambda>txs. Inr (tx # txs)))"

definition get_txs_relevant_to_address ::
    "address \<Rightarrow> mempool \<Rightarrow> (mempool_error, authorized_transaction list) result" where
  "get_txs_relevant_to_address addr s =
     collect_transactions (oset_elems (get_txids_relevant_to_address addr s)) s"

definition get_unconfirmed_utxos ::
    "(transaction \<Rightarrow> txid) \<Rightarrow> address \<Rightarrow> mempool \<Rightarrow> (mempool_error, (outpoint, tx_output) db) result" where
  "get_unconfirmed_utxos txid_of addr s =
     rbind (get_txs_relevant_to_address addr s) (\<lambda>relevant_txs.
     Inr (db_put_all (concat (map (\<lambda>tx. List.map_filter (\<lambda>e.
             if o_address (snd e) = addr
             then Some (Regular (txid_of (at_transaction tx)) (as_u 32 (fst e)), snd e) else None)
           (enumerate 0 (t_outputs (at_transaction tx)))) relevant_txs)) db_empty))"

definition pending_decision_claim_ids :: "mempool \<Rightarrow> decision_bytes list" where
  "pending_decision_claim_ids s = db_keys (pending_decision_claims s)"

section \<open>Following the chain\<close>

text \<open>The loops of \<open>connect_tip_\<close> and \<open>disconnect_tip_\<close> over the transactions of a block.\<close>

definition confirm_transactions ::
    "(transaction \<Rightarrow> txid) \<Rightarrow> (nat \<Rightarrow> nat) \<Rightarrow> transaction list \<Rightarrow> mempool \<Rightarrow> mempool" where
  "confirm_transactions txid_of order txs s =
     fold (\<lambda>tx s. mempool_delete txid_of order (txid_of tx)
             (fst (evict_decision_claim_conflicts txid_of order tx s))) txs s"



section \<open>What the operations do to each table\<close>

abbreviation input_entries :: "txid \<Rightarrow> transaction \<Rightarrow> (outpoint \<times> inpoint) list" where
  "input_entries txid tx \<equiv> map (\<lambda>e. (snd e, RegularIn txid (as_u 32 (fst e)))) (enumerate 0 (t_inputs tx))"

lemma put_stxos_eq:
  "put_stxos es s =
     (if distinct (map fst es) \<and> (\<forall>e \<in> set es. db_get (spent_utxos s) (fst e) = None)
      then Inr (s \<lparr> spent_utxos := db_put_all es (spent_utxos s) \<rparr>) else Inl MempoolUtxoDoubleSpent)"
proof (induction es arbitrary: s)
  case (Cons e es)
  show ?case
  proof (cases "db_get (spent_utxos s) (fst e)")
    case None
    have "put_stxos (e # es) s = put_stxos es (s \<lparr> spent_utxos := db_put (spent_utxos s) (fst e) (snd e) \<rparr>)"
      by (simp add: put_stxos_def put_stxo_def None)
    moreover have "(fst e \<notin> fst ` set es \<and> (\<forall>x \<in> set es. db_get (spent_utxos s) (fst x) = None)) =
        (\<forall>x \<in> set es. (if fst x = fst e then Some (snd e) else db_get (spent_utxos s) (fst x)) = None)"
      by (auto simp: image_iff split: if_split_asm)
    ultimately show ?thesis unfolding Cons.IH using None by (simp add: conj_ac)
  qed (simp add: put_stxos_def put_stxo_def)
qed (simp add: put_stxos_def)

lemma map_fst_input_entries [simp]: "map fst (input_entries txid tx) = t_inputs tx"
  by (simp add: o_def)

lemma check_claims_eq:
  "check_claims txid ds s = Inr u \<longleftrightarrow> (\<forall>d \<in> set ds. \<forall>t. db_get (pending_decision_claims s) d = Some t \<longrightarrow> t = txid)"
  by (induction ds) (auto split: option.splits)

lemma put_claims_eq:
  "(if ds \<noteq> [] then put_decision_claims txid ds s else Inr s) = Inr s1 \<longleftrightarrow>
     (\<forall>d \<in> set ds. \<forall>t. db_get (pending_decision_claims s) d = Some t \<longrightarrow> t = txid)
     \<and> s1 = s \<lparr> pending_decision_claims := db_put_all (map (\<lambda>d. (d, txid)) ds) (pending_decision_claims s) \<rparr>"
  by (cases "ds = []") (auto simp: put_decision_claims_def check_claims_eq)

lemma db_get_put_const:
  "db_get (db_put_all (map (\<lambda>k. (k, v)) ks) d) k = (if k \<in> set ks then Some v else db_get d k)"
  by (induction ks arbitrary: d) auto

abbreviation with_addresses :: "mempool \<Rightarrow> (address, txid oset) db \<Rightarrow> mempool" where
  "with_addresses s a \<equiv> s \<lparr> address_to_txs := a \<rparr>"

text \<open>The address index as a relation, with no empty set stored.\<close>

definition indexed :: "(address, txid oset) db \<Rightarrow> address \<Rightarrow> txid \<Rightarrow> bool" where
  "indexed a addr t \<longleftrightarrow> (\<exists>ts. db_get a addr = Some ts \<and> t \<in> set (oset_elems ts))"

definition no_empty_row :: "(address, txid oset) db \<Rightarrow> bool" where
  "no_empty_row a \<longleftrightarrow> (\<forall>addr. db_get a addr \<noteq> Some db_empty)"

lemma index_fold:
  "\<exists>a. fold (assoc_txid_with_address txid) addrs s = with_addresses s a
     \<and> (\<forall>addr t. indexed a addr t \<longleftrightarrow> indexed (address_to_txs s) addr t \<or> (t = txid \<and> addr \<in> set addrs))
     \<and> (no_empty_row (address_to_txs s) \<longrightarrow> no_empty_row a)"
proof (induction addrs arbitrary: s)
  case Nil
  show ?case by (rule exI [of _ "address_to_txs s"]) simp
next
  case (Cons x xs)
  let ?row = "oset_insert txid (unwrap_or db_empty (db_get (address_to_txs s) x))"
  let ?a = "db_put (address_to_txs s) x ?row"
  have step: "indexed ?a addr t \<longleftrightarrow> indexed (address_to_txs s) addr t \<or> (t = txid \<and> addr = x)" for addr t
    by (cases "db_get (address_to_txs s) x") (auto simp: indexed_def)
  have "?row \<noteq> db_empty" using set_oset_insert [of txid] by (metis insert_not_empty set_oset_empty)
  then have rows: "no_empty_row (address_to_txs s) \<longrightarrow> no_empty_row ?a" by (simp add: no_empty_row_def)
  obtain a where "fold (assoc_txid_with_address txid) xs (with_addresses s ?a) = with_addresses (with_addresses s ?a) a"
    "\<forall>addr t. indexed a addr t \<longleftrightarrow> indexed ?a addr t \<or> (t = txid \<and> addr \<in> set xs)"
    "no_empty_row ?a \<longrightarrow> no_empty_row a"
    using Cons.IH [of "with_addresses s ?a"] by auto
  then show ?case
    using step rows by (intro exI [of _ a]) (auto simp: assoc_txid_with_address_def [of txid x])
qed

lemma unindex_fold:
  "\<exists>a. fold (unassoc_txid_with_address txid) addrs s = with_addresses s a
     \<and> (\<forall>addr t. indexed a addr t \<longleftrightarrow> indexed (address_to_txs s) addr t \<and> \<not> (t = txid \<and> addr \<in> set addrs))
     \<and> (no_empty_row (address_to_txs s) \<longrightarrow> no_empty_row a)"
proof (induction addrs arbitrary: s)
  case Nil
  show ?case by (rule exI [of _ "address_to_txs s"]) simp
next
  case (Cons x xs)
  obtain b where b: "unassoc_txid_with_address txid x s = with_addresses s b"
    and step: "\<And>addr t. indexed b addr t \<longleftrightarrow> indexed (address_to_txs s) addr t \<and> \<not> (t = txid \<and> addr = x)"
    and rows: "no_empty_row (address_to_txs s) \<longrightarrow> no_empty_row b"
  proof (cases "db_get (address_to_txs s) x")
    case None
    show thesis
      by (rule that [of "address_to_txs s"]) (use None in \<open>auto simp: unassoc_txid_with_address_def indexed_def\<close>)
  next
    case (Some ts)
    let ?r = "oset_remove txid ts"
    let ?b = "if oset_elems ?r \<noteq> [] then db_put (address_to_txs s) x ?r else db_delete (address_to_txs s) x"
    have r: "set (oset_elems ?r) = set (oset_elems ts) - {txid}" by simp
    have member: "t \<in> set (oset_elems ts) \<and> t \<noteq> txid" if "oset_elems ?r \<noteq> []" "t \<in> set (oset_elems ?r)" for t
      using that r by blast
    show thesis
    proof (rule that [of ?b])
      show "indexed ?b addr t \<longleftrightarrow> indexed (address_to_txs s) addr t \<and> \<not> (t = txid \<and> addr = x)" for addr t
        using r Some by (cases "addr = x"; cases "oset_elems ?r = []") (auto simp: indexed_def)
      show "no_empty_row (address_to_txs s) \<longrightarrow> no_empty_row ?b"
        by (auto simp: no_empty_row_def oset_elems_Nil_iff)
    qed (auto simp: unassoc_txid_with_address_def Some Let_def)
  qed
  obtain a where "fold (unassoc_txid_with_address txid) xs (with_addresses s b) = with_addresses (with_addresses s b) a"
    "\<forall>addr t. indexed a addr t \<longleftrightarrow> indexed b addr t \<and> \<not> (t = txid \<and> addr \<in> set xs)"
    "no_empty_row b \<longrightarrow> no_empty_row a"
    using Cons.IH [of "with_addresses s b"] by auto
  then show ?case using step rows by (intro exI [of _ a]) (auto simp: b)
qed

section \<open>The mempool invariant\<close>

text \<open>
  Every table is a function of the set of transactions: the spent outputs are the inputs of the
  pool, the claims are those of the pool, the address index lists the pool by address, and the
  trade order lists each trade once, with numbers up to the counter.
\<close>

definition spent_ok :: "mempool \<Rightarrow> bool" where
  "spent_ok s \<longleftrightarrow> (\<forall>op ip. db_get (spent_utxos s) op = Some ip \<longleftrightarrow>
     (\<exists>t tx. db_get (transactions s) t = Some tx \<and> (op, ip) \<in> set (input_entries t (at_transaction tx))))"

definition claims_ok :: "mempool \<Rightarrow> bool" where
  "claims_ok s \<longleftrightarrow> (\<forall>d t. db_get (pending_decision_claims s) d = Some t \<longleftrightarrow>
     (\<exists>tx. db_get (transactions s) t = Some tx \<and> d \<in> set (get_claimed_decision_ids (at_transaction tx))))"

definition addresses_ok :: "mempool \<Rightarrow> bool" where
  "addresses_ok s \<longleftrightarrow> no_empty_row (address_to_txs s) \<and> (\<forall>addr t. indexed (address_to_txs s) addr t \<longleftrightarrow>
     (\<exists>tx. db_get (transactions s) t = Some tx \<and> addr \<in> set (oset_elems (relevant_addresses tx))))"

definition trades_ok :: "mempool \<Rightarrow> bool" where
  "trades_ok s \<longleftrightarrow>
     (\<forall>k t. db_get (trade_insertion_order s) k = Some t \<longrightarrow> k \<le> unwrap_or 0 (trade_order_counter s))
     \<and> (\<forall>t. (\<exists>k. db_get (trade_insertion_order s) k = Some t) \<longleftrightarrow>
          (\<exists>tx. db_get (transactions s) t = Some tx \<and> is_trade_tx tx))
     \<and> (\<forall>k k' t. db_get (trade_insertion_order s) k = Some t \<longrightarrow>
          db_get (trade_insertion_order s) k' = Some t \<longrightarrow> k = k')"

definition txids_ok :: "(transaction \<Rightarrow> txid) \<Rightarrow> mempool \<Rightarrow> bool" where
  "txids_ok txid_of s \<longleftrightarrow> (\<forall>t tx. db_get (transactions s) t = Some tx \<longrightarrow> txid_of (at_transaction tx) = t)"

definition pool_ok :: "(transaction \<Rightarrow> txid) \<Rightarrow> mempool \<Rightarrow> bool" where
  "pool_ok txid_of s \<longleftrightarrow> txids_ok txid_of s \<and> spent_ok s \<and> claims_ok s \<and> addresses_ok s \<and> trades_ok s"

lemma pool_ok_new: "pool_ok txid_of mempool_new"
  by (simp add: pool_ok_def txids_ok_def spent_ok_def claims_ok_def addresses_ok_def trades_ok_def
      mempool_new_def no_empty_row_def indexed_def)

section \<open>Adding a transaction\<close>

text \<open>A transaction is accepted exactly when there is room, it claims no decision of another one, and its inputs are distinct and free.\<close>

definition acceptable :: "(transaction \<Rightarrow> txid) \<Rightarrow> authorized_transaction \<Rightarrow> mempool \<Rightarrow> bool" where
  "acceptable txid_of tx s \<longleftrightarrow> tx_count s < MAX_MEMPOOL_TRANSACTIONS
     \<and> (\<forall>d \<in> set (get_claimed_decision_ids (at_transaction tx)). \<forall>t.
          db_get (pending_decision_claims s) d = Some t \<longrightarrow> t = txid_of (at_transaction tx))
     \<and> distinct (t_inputs (at_transaction tx))
     \<and> (\<forall>op \<in> set (t_inputs (at_transaction tx)). db_get (spent_utxos s) op = None)"

lemma snd_enumerate_set: "snd ` set (enumerate n xs) = set xs"
  by (metis list.set_map map_snd_enumerate)

lemma put_inputs_eq:
  "put_stxos (input_entries txid tx) s =
     (if distinct (t_inputs tx) \<and> (\<forall>op \<in> set (t_inputs tx). db_get (spent_utxos s) op = None)
      then Inr (s \<lparr> spent_utxos := db_put_all (input_entries txid tx) (spent_utxos s) \<rparr>)
      else Inl MempoolUtxoDoubleSpent)"
proof -
  have "(\<forall>e \<in> set (input_entries txid tx). db_get (spent_utxos s) (fst e) = None)
      \<longleftrightarrow> (\<forall>op \<in> snd ` set (enumerate 0 (t_inputs tx)). db_get (spent_utxos s) op = None)"
    by simp
  then show ?thesis unfolding put_stxos_eq map_fst_input_entries snd_enumerate_set by simp
qed

lemma mempool_put_result:
  fixes tx s and txid_of :: "transaction \<Rightarrow> txid"
  defines "txid \<equiv> txid_of (at_transaction tx)"
  shows "(\<exists>s'. mempool_put txid_of tx s = Inr s') \<longleftrightarrow> acceptable txid_of tx s"
    and "mempool_put txid_of tx s = Inr s' \<Longrightarrow> \<exists>a.
      s' = s \<lparr> transactions := db_put (transactions s) txid tx,
               spent_utxos := db_put_all (input_entries txid (at_transaction tx)) (spent_utxos s),
               address_to_txs := a,
               pending_decision_claims := db_put_all (map (\<lambda>d. (d, txid))
                 (get_claimed_decision_ids (at_transaction tx))) (pending_decision_claims s),
               trade_insertion_order := (if is_trade_tx tx then trade_insertion_order (put_trade_order txid s)
                 else trade_insertion_order s),
               trade_order_counter := (if is_trade_tx tx then trade_order_counter (put_trade_order txid s)
                 else trade_order_counter s) \<rparr>
      \<and> (\<forall>addr t. indexed a addr t \<longleftrightarrow> indexed (address_to_txs s) addr t
           \<or> (t = txid \<and> addr \<in> set (oset_elems (relevant_addresses tx))))
      \<and> (no_empty_row (address_to_txs s) \<longrightarrow> no_empty_row a)"
proof -
  let ?ds = "get_claimed_decision_ids (at_transaction tx)"
  let ?s1 = "s \<lparr> pending_decision_claims := db_put_all (map (\<lambda>d. (d, txid)) ?ds) (pending_decision_claims s) \<rparr>"
  show iff: "(\<exists>s'. mempool_put txid_of tx s = Inr s') \<longleftrightarrow> acceptable txid_of tx s"
    unfolding mempool_put_def Let_def acceptable_def txid_def [symmetric] put_inputs_eq
    by (auto simp: put_claims_eq not_le split: if_split_asm)
  assume put: "mempool_put txid_of tx s = Inr s'"
  let ?s2 = "?s1 \<lparr> spent_utxos := db_put_all (input_entries txid (at_transaction tx)) (spent_utxos s),
      transactions := db_put (transactions s) txid tx \<rparr>"
  have s': "s' = (if is_trade_tx tx then put_trade_order txid (index_tx_addresses txid_of tx ?s2)
      else index_tx_addresses txid_of tx ?s2)"
    using put unfolding mempool_put_def Let_def txid_def [symmetric] put_inputs_eq
    by (auto simp: put_claims_eq split: if_split_asm)
  obtain a where a: "index_tx_addresses txid_of tx ?s2 = with_addresses ?s2 a"
    "\<forall>addr t. indexed a addr t \<longleftrightarrow> indexed (address_to_txs s) addr t
       \<or> (t = txid \<and> addr \<in> set (oset_elems (relevant_addresses tx)))"
    "no_empty_row (address_to_txs s) \<longrightarrow> no_empty_row a"
    using index_fold [of txid "oset_elems (relevant_addresses tx)" ?s2]
    unfolding index_tx_addresses_def txid_def by auto
  show "\<exists>a. s' = s \<lparr> transactions := db_put (transactions s) txid tx,
               spent_utxos := db_put_all (input_entries txid (at_transaction tx)) (spent_utxos s),
               address_to_txs := a,
               pending_decision_claims := db_put_all (map (\<lambda>d. (d, txid)) ?ds) (pending_decision_claims s),
               trade_insertion_order := (if is_trade_tx tx then trade_insertion_order (put_trade_order txid s)
                 else trade_insertion_order s),
               trade_order_counter := (if is_trade_tx tx then trade_order_counter (put_trade_order txid s)
                 else trade_order_counter s) \<rparr>
      \<and> (\<forall>addr t. indexed a addr t \<longleftrightarrow> indexed (address_to_txs s) addr t
           \<or> (t = txid \<and> addr \<in> set (oset_elems (relevant_addresses tx))))
      \<and> (no_empty_row (address_to_txs s) \<longrightarrow> no_empty_row a)"
    using a(2,3) by (intro exI [of _ a]) (simp add: s' a(1) put_trade_order_def Let_def)
qed

lemma db_get_put_all_map:
  "distinct (map fst es) \<Longrightarrow> db_get (db_put_all es d) k = Some v \<longleftrightarrow>
     (k, v) \<in> set es \<or> (k \<notin> fst ` set es \<and> db_get d k = Some v)"
  by (auto simp: db_get_put_all_distinct map_add_Some_iff map_of_eq_None_iff [symmetric] map_of_eq_Some_iff
      simp del: map_of_eq_None_iff dest: map_of_SomeD split: option.splits)

lemma put_spent_ok:
  assumes "spent_ok s" and "acceptable txid_of tx s" and "db_get (transactions s) t = None"
    and "transactions s' = db_put (transactions s) t tx"
    and "spent_utxos s' = db_put_all (input_entries t (at_transaction tx)) (spent_utxos s)"
  shows "spent_ok s'"
  unfolding spent_ok_def
proof (intro allI)
  fix op ip
  have dist: "distinct (map fst (input_entries t (at_transaction tx)))"
    using assms(2) unfolding map_fst_input_entries acceptable_def by blast
  have fresh: "db_get (spent_utxos s) op = None" if "op \<in> fst ` set (input_entries t (at_transaction tx))"
    using that assms(2) unfolding acceptable_def by (metis list.set_map map_fst_input_entries)
  show "db_get (spent_utxos s') op = Some ip \<longleftrightarrow>
      (\<exists>u ux. db_get (transactions s') u = Some ux \<and> (op, ip) \<in> set (input_entries u (at_transaction ux)))"
    unfolding assms(5) db_get_put_all_map [OF dist]
  proof
    assume "(op, ip) \<in> set (input_entries t (at_transaction tx))
      \<or> op \<notin> fst ` set (input_entries t (at_transaction tx)) \<and> db_get (spent_utxos s) op = Some ip"
    then show "\<exists>u ux. db_get (transactions s') u = Some ux \<and> (op, ip) \<in> set (input_entries u (at_transaction ux))"
    proof
      assume "(op, ip) \<in> set (input_entries t (at_transaction tx))"
      then show ?thesis by (intro exI [of _ t] exI [of _ tx]) (simp add: assms(4))
    next
      assume "op \<notin> fst ` set (input_entries t (at_transaction tx)) \<and> db_get (spent_utxos s) op = Some ip"
      then obtain u ux where "db_get (transactions s) u = Some ux"
        "(op, ip) \<in> set (input_entries u (at_transaction ux))"
        using assms(1) unfolding spent_ok_def by blast
      then show ?thesis using assms(3,4) by (intro exI [of _ u] exI [of _ ux]) auto
    qed
  next
    assume "\<exists>u ux. db_get (transactions s') u = Some ux \<and> (op, ip) \<in> set (input_entries u (at_transaction ux))"
    then obtain u ux where u: "db_get (transactions s') u = Some ux"
      "(op, ip) \<in> set (input_entries u (at_transaction ux))" by blast
    show "(op, ip) \<in> set (input_entries t (at_transaction tx))
      \<or> op \<notin> fst ` set (input_entries t (at_transaction tx)) \<and> db_get (spent_utxos s) op = Some ip"
    proof (cases "u = t")
      case True
      with u show ?thesis by (simp add: assms(4))
    next
      case False
      then have "db_get (spent_utxos s) op = Some ip"
        using u assms(1,4) unfolding spent_ok_def by auto
      then show ?thesis using fresh by auto
    qed
  qed
qed

lemma put_claims_ok:
  assumes "claims_ok s" and "acceptable txid_of tx s" and "t = txid_of (at_transaction tx)"
    and "db_get (transactions s) t = None" and "transactions s' = db_put (transactions s) t tx"
    and "pending_decision_claims s' = db_put_all (map (\<lambda>d. (d, t)) (get_claimed_decision_ids (at_transaction tx)))
      (pending_decision_claims s)"
  shows "claims_ok s'"
proof -
  have free: "db_get (pending_decision_claims s) d = None"
    if "d \<in> set (get_claimed_decision_ids (at_transaction tx))" for d
  proof (cases "db_get (pending_decision_claims s) d")
    case (Some u)
    then have "u = t" using assms(2,3) that unfolding acceptable_def by blast
    then show ?thesis using Some assms(1,4) unfolding claims_ok_def by auto
  qed
  show ?thesis
    unfolding claims_ok_def
  proof (intro allI)
    fix d u
    have old: "db_get (pending_decision_claims s) d = Some u \<longleftrightarrow>
        (\<exists>ux. db_get (transactions s) u = Some ux \<and> d \<in> set (get_claimed_decision_ids (at_transaction ux)))"
      using assms(1) unfolding claims_ok_def by blast
    show "db_get (pending_decision_claims s') d = Some u \<longleftrightarrow>
        (\<exists>ux. db_get (transactions s') u = Some ux \<and> d \<in> set (get_claimed_decision_ids (at_transaction ux)))"
      using old free [of d] assms(4) unfolding assms(5,6) db_get_put_const
      by (cases "u = t"; cases "d \<in> set (get_claimed_decision_ids (at_transaction tx))") auto
  qed
qed

lemma put_addresses_ok:
  assumes "addresses_ok s" and "db_get (transactions s) t = None"
    and "transactions s' = db_put (transactions s) t tx"
    and "\<forall>addr u. indexed (address_to_txs s') addr u \<longleftrightarrow> indexed (address_to_txs s) addr u
           \<or> (u = t \<and> addr \<in> set (oset_elems (relevant_addresses tx)))"
    and "no_empty_row (address_to_txs s) \<longrightarrow> no_empty_row (address_to_txs s')"
  shows "addresses_ok s'"
  using assms(1,2,5) unfolding addresses_ok_def assms(3,4) [rule_format] by auto

lemma put_trades_ok:
  assumes "trades_ok s" and "db_get (transactions s) t = None"
    and "transactions s' = db_put (transactions s) t tx"
    and "trade_insertion_order s' = (if is_trade_tx tx then trade_insertion_order (put_trade_order t s)
      else trade_insertion_order s)"
    and "trade_order_counter s' = (if is_trade_tx tx then trade_order_counter (put_trade_order t s)
      else trade_order_counter s)"
    and "unwrap_or 0 (trade_order_counter s) < 2 ^ 64 - 1"
  shows "trades_ok s'"
proof -
  let ?n = "unwrap_or 0 (trade_order_counter s)"
  have keys: "k \<le> ?n" if "db_get (trade_insertion_order s) k = Some u" for k u
    using assms(1) that unfolding trades_ok_def by blast
  have listed: "(\<exists>k. db_get (trade_insertion_order s) k = Some u) \<longleftrightarrow>
      (\<exists>ux. db_get (transactions s) u = Some ux \<and> is_trade_tx ux)" for u
    using assms(1) unfolding trades_ok_def by blast
  have once: "k = k'" if "db_get (trade_insertion_order s) k = Some u" "db_get (trade_insertion_order s) k' = Some u" for k k' u
    using assms(1) that unfolding trades_ok_def by blast
  have new: "db_get (trade_insertion_order s) k \<noteq> Some t" for k using listed [of t] assms(2) by auto
  show ?thesis
  proof (cases "is_trade_tx tx")
    case False
    then show ?thesis using keys listed once assms(2)
      unfolding trades_ok_def assms(3-5) by auto
  next
    case True
    have next_n: "wrapping_add 64 ?n (Suc 0) = Suc ?n" using assms(6) by simp
    have tio: "trade_insertion_order s' = db_put (trade_insertion_order s) (Suc ?n) t"
      and ctr: "trade_order_counter s' = Some (Suc ?n)"
      using True by (simp_all add: assms(4,5) put_trade_order_def Let_def next_n)
    have fresh: "db_get (trade_insertion_order s) (Suc ?n) = None"
      using keys [of "Suc ?n"] by (cases "db_get (trade_insertion_order s) (Suc ?n)") auto
    have "(\<exists>k. db_get (trade_insertion_order s') k = Some u) \<longleftrightarrow>
      (\<exists>ux. db_get (transactions s') u = Some ux \<and> is_trade_tx ux)" for u
    proof (cases "u = t")
      case True
      have "db_get (trade_insertion_order s') (Suc ?n) = Some u" by (simp add: tio True)
      moreover have "db_get (transactions s') u = Some tx" by (simp add: assms(3) True)
      ultimately show ?thesis using \<open>is_trade_tx tx\<close> by blast
    next
      case False
      then have "db_get (trade_insertion_order s') k = Some u \<longleftrightarrow> db_get (trade_insertion_order s) k = Some u" for k
        using fresh by (simp add: tio)
      moreover have "db_get (transactions s') u = db_get (transactions s) u" using False by (simp add: assms(3))
      ultimately show ?thesis using listed [of u] by simp
    qed
    moreover have "k \<le> unwrap_or 0 (trade_order_counter s')" if "db_get (trade_insertion_order s') k = Some u" for k u
      using that keys unfolding tio ctr by (auto split: if_split_asm intro: le_SucI)
    moreover have "k = k'" if "db_get (trade_insertion_order s') k = Some u" "db_get (trade_insertion_order s') k' = Some u" for k k' u
      using that once new unfolding tio by (auto split: if_split_asm)
    ultimately show ?thesis unfolding trades_ok_def by blast
  qed
qed

section \<open>Removing a transaction\<close>

lemma remove_tx_result:
  fixes txid_of :: "transaction \<Rightarrow> txid"
  assumes "txid_of (at_transaction tx) = t"
  shows "\<exists>a. remove_tx txid_of order t tx s =
      s \<lparr> transactions := db_delete (transactions s) t,
          spent_utxos := db_delete_all (t_inputs (at_transaction tx)) (spent_utxos s),
          address_to_txs := a,
          pending_decision_claims :=
            db_delete_all (get_claimed_decision_ids (at_transaction tx)) (pending_decision_claims s),
          trade_insertion_order := (if is_trade_tx tx then trade_insertion_order (delete_trade_order order t s)
            else trade_insertion_order s) \<rparr>
    \<and> (\<forall>addr u. indexed a addr u \<longleftrightarrow> indexed (address_to_txs s) addr u
         \<and> \<not> (u = t \<and> addr \<in> set (oset_elems (relevant_addresses tx))))
    \<and> (no_empty_row (address_to_txs s) \<longrightarrow> no_empty_row a)"
proof -
  let ?s1 = "s \<lparr> spent_utxos := db_delete_all (t_inputs (at_transaction tx)) (spent_utxos s) \<rparr>"
  obtain a where a: "unindex_tx_addresses txid_of tx ?s1 = with_addresses ?s1 a"
    "\<forall>addr u. indexed a addr u \<longleftrightarrow> indexed (address_to_txs s) addr u
       \<and> \<not> (u = t \<and> addr \<in> set (oset_elems (relevant_addresses tx)))"
    "no_empty_row (address_to_txs s) \<longrightarrow> no_empty_row a"
    using unindex_fold [of t "oset_elems (relevant_addresses tx)" ?s1]
    unfolding unindex_tx_addresses_def assms by auto
  have listed: "trades_listed order (s \<lparr> spent_utxos := b, address_to_txs := c, pending_decision_claims := d \<rparr>)
      = trades_listed order s" for b c d by (simp add: trades_listed_def)
  show ?thesis
    using a(2,3)
    by (intro exI [of _ a]) (simp add: remove_tx_def Let_def a(1) delete_stxos_def delete_decision_claims_def
        delete_trade_order_def listed split: option.split)
qed

lemma remove_spent_ok:
  assumes "spent_ok s" and "db_get (transactions s) t = Some tx"
    and "transactions s' = db_delete (transactions s) t"
    and "spent_utxos s' = db_delete_all (t_inputs (at_transaction tx)) (spent_utxos s)"
  shows "spent_ok s'"
  unfolding spent_ok_def
proof (intro allI)
  fix op ip
  let ?in = "\<lambda>u ux ip. db_get (transactions s) u = Some ux \<and> (op, ip) \<in> set (input_entries u (at_transaction ux))"
  have old: "db_get (spent_utxos s) op = Some ip \<longleftrightarrow> (\<exists>u ux. ?in u ux ip)" for ip
    using assms(1) unfolding spent_ok_def by blast
  have mine: "op \<in> set (t_inputs (at_transaction tx)) \<longleftrightarrow> (\<exists>ip. (op, ip) \<in> set (input_entries t (at_transaction tx)))"
  proof -
    have "set (t_inputs (at_transaction tx)) = fst ` set (input_entries t (at_transaction tx))"
      by (metis list.set_map map_fst_input_entries)
    then show ?thesis by force
  qed
  have owner: "u = t" if "?in u ux ip1" "(op, ip2) \<in> set (input_entries t (at_transaction tx))" for u ux ip1 ip2
  proof -
    have "db_get (spent_utxos s) op = Some ip1" "db_get (spent_utxos s) op = Some ip2"
      using that assms(2) old by blast+
    then have "ip1 = ip2" by simp
    with that show ?thesis by auto
  qed
  show "db_get (spent_utxos s') op = Some ip \<longleftrightarrow>
      (\<exists>u ux. db_get (transactions s') u = Some ux \<and> (op, ip) \<in> set (input_entries u (at_transaction ux)))"
  proof (cases "op \<in> set (t_inputs (at_transaction tx))")
    case True
    then obtain ip2 where ip2: "(op, ip2) \<in> set (input_entries t (at_transaction tx))" using mine by blast
    have False if "db_get (transactions s') u = Some ux" "(op, ip) \<in> set (input_entries u (at_transaction ux))" for u ux
    proof -
      have "u \<noteq> t" "db_get (transactions s) u = Some ux" using that(1) by (auto simp: assms(3) split: if_split_asm)
      then show False using owner [OF _ ip2] that(2) by blast
    qed
    then have "\<not> (\<exists>u ux. db_get (transactions s') u = Some ux \<and> (op, ip) \<in> set (input_entries u (at_transaction ux)))"
      by blast
    moreover have "db_get (spent_utxos s') op = None" using True by (simp add: assms(4) db_get_delete_all)
    ultimately show ?thesis by simp
  next
    case False
    then have out: "(op, ip) \<notin> set (input_entries t (at_transaction tx))" using mine by blast
    have "db_get (transactions s') u = Some ux \<and> (op, ip) \<in> set (input_entries u (at_transaction ux)) \<longleftrightarrow> ?in u ux ip" for u ux
    proof (cases "u = t")
      case True
      then have "db_get (transactions s') u = None" by (simp add: assms(3))
      with out True assms(2) show ?thesis by auto
    qed (simp add: assms(3))
    then have "(\<exists>u ux. db_get (transactions s') u = Some ux \<and> (op, ip) \<in> set (input_entries u (at_transaction ux)))
        \<longleftrightarrow> (\<exists>u ux. ?in u ux ip)" by presburger
    then show ?thesis using old [of ip] False by (simp add: assms(4) db_get_delete_all)
  qed
qed

lemma remove_claims_ok:
  assumes "claims_ok s" and "db_get (transactions s) t = Some tx"
    and "transactions s' = db_delete (transactions s) t"
    and "pending_decision_claims s' =
      db_delete_all (get_claimed_decision_ids (at_transaction tx)) (pending_decision_claims s)"
  shows "claims_ok s'"
  unfolding claims_ok_def
proof (intro allI)
  fix d u
  have old: "db_get (pending_decision_claims s) d = Some u \<longleftrightarrow>
      (\<exists>ux. db_get (transactions s) u = Some ux \<and> d \<in> set (get_claimed_decision_ids (at_transaction ux)))" for u
    using assms(1) unfolding claims_ok_def by blast
  show "db_get (pending_decision_claims s') d = Some u \<longleftrightarrow>
      (\<exists>ux. db_get (transactions s') u = Some ux \<and> d \<in> set (get_claimed_decision_ids (at_transaction ux)))"
    using old [of u] old [of t] assms(2) unfolding assms(3,4)
    by (cases "u = t"; cases "d \<in> set (get_claimed_decision_ids (at_transaction tx))")
      (auto simp: db_get_delete_all)
qed

lemma remove_addresses_ok:
  assumes "addresses_ok s" and "db_get (transactions s) t = Some tx"
    and "transactions s' = db_delete (transactions s) t"
    and "\<forall>addr u. indexed (address_to_txs s') addr u \<longleftrightarrow> indexed (address_to_txs s) addr u
         \<and> \<not> (u = t \<and> addr \<in> set (oset_elems (relevant_addresses tx)))"
    and "no_empty_row (address_to_txs s) \<longrightarrow> no_empty_row (address_to_txs s')"
  shows "addresses_ok s'"
  using assms(1,2,5) unfolding addresses_ok_def assms(3,4) [rule_format] by auto

lemma remove_trades_ok:
  assumes "trades_ok s" and "db_get (transactions s) t = Some tx"
    and "transactions s' = db_delete (transactions s) t"
    and "trade_insertion_order s' = (if is_trade_tx tx then trade_insertion_order (delete_trade_order order t s)
      else trade_insertion_order s)"
    and "trade_order_counter s' = trade_order_counter s"
  shows "trades_ok s'"
proof -
  have keys: "k \<le> unwrap_or 0 (trade_order_counter s)" if "db_get (trade_insertion_order s) k = Some u" for k u
    using assms(1) that unfolding trades_ok_def by blast
  have listed: "(\<exists>k. db_get (trade_insertion_order s) k = Some u) \<longleftrightarrow>
      (\<exists>ux. db_get (transactions s) u = Some ux \<and> is_trade_tx ux)" for u
    using assms(1) unfolding trades_ok_def by blast
  have once: "k = k'" if "db_get (trade_insertion_order s) k = Some u" "db_get (trade_insertion_order s) k' = Some u" for k k' u
    using assms(1) that unfolding trades_ok_def by blast
  have lookup: "db_get (trade_insertion_order s') k = Some u \<longleftrightarrow> db_get (trade_insertion_order s) k = Some u \<and> u \<noteq> t" for k u
  proof (cases "is_trade_tx tx")
    case False
    then show ?thesis using listed [of t] assms(2) by (auto simp: assms(4))
  next
    case True
    then obtain k0 where k0: "db_get (trade_insertion_order s) k0 = Some t" using listed [of t] assms(2) by blast
    have "find (\<lambda>e. snd e = t) (trades_listed order s) = Some (k0, t)"
    proof -
      have mem: "(k, u) \<in> set (trades_listed order s) \<longleftrightarrow> db_get (trade_insertion_order s) k = Some u" for k u
        by (simp add: trades_listed_def db_get_iff_entries)
      then obtain e where e: "find (\<lambda>e. snd e = t) (trades_listed order s) = Some e"
        using k0 by (cases "find (\<lambda>e. snd e = t) (trades_listed order s)") (force simp: find_None_iff)+
      then have "e \<in> set (trades_listed order s)" "snd e = t" by (auto simp: find_Some_iff)
      then have "fst e = k0" using mem [of "fst e" "snd e"] once k0 by (cases e) auto
      with \<open>snd e = t\<close> e show ?thesis by (cases e) simp
    qed
    then have "trade_insertion_order s' = db_delete (trade_insertion_order s) k0"
      using True by (simp add: assms(4) delete_trade_order_def)
    then show ?thesis using k0 once by (cases "k = k0") auto
  qed
  have "(\<exists>k. db_get (trade_insertion_order s') k = Some u) \<longleftrightarrow>
      (\<exists>ux. db_get (transactions s') u = Some ux \<and> is_trade_tx ux)" for u
    using listed [of u] lookup unfolding assms(3) by (cases "u = t") simp_all
  then show ?thesis
    using keys once lookup unfolding trades_ok_def assms(5) by blast
qed

lemma remove_ok:
  assumes "pool_ok txid_of s" and "db_get (transactions s) t = Some tx"
  shows "pool_ok txid_of (remove_tx txid_of order t tx s)"
proof -
  let ?s = "remove_tx txid_of order t tx s"
  have id: "txid_of (at_transaction tx) = t"
    using assms unfolding pool_ok_def txids_ok_def by blast
  obtain a where r: "?s = s \<lparr> transactions := db_delete (transactions s) t,
          spent_utxos := db_delete_all (t_inputs (at_transaction tx)) (spent_utxos s),
          address_to_txs := a,
          pending_decision_claims :=
            db_delete_all (get_claimed_decision_ids (at_transaction tx)) (pending_decision_claims s),
          trade_insertion_order := (if is_trade_tx tx then trade_insertion_order (delete_trade_order order t s)
            else trade_insertion_order s) \<rparr>"
    and a: "\<forall>addr u. indexed a addr u \<longleftrightarrow> indexed (address_to_txs s) addr u
         \<and> \<not> (u = t \<and> addr \<in> set (oset_elems (relevant_addresses tx)))"
      "no_empty_row (address_to_txs s) \<longrightarrow> no_empty_row a"
    using remove_tx_result [of txid_of tx t order s, OF id] by (elim exE conjE) (rule that)
  have "spent_ok ?s" "claims_ok ?s" "trades_ok ?s" "txids_ok txid_of ?s"
    using assms(1) remove_spent_ok [OF _ assms(2), of ?s] remove_claims_ok [OF _ assms(2), of ?s]
      remove_trades_ok [OF _ assms(2), of ?s order]
    by (simp_all add: pool_ok_def r txids_ok_def)
  moreover have "addresses_ok ?s"
    using assms(1) remove_addresses_ok [OF _ assms(2), of ?s] a by (simp add: pool_ok_def r)
  ultimately show ?thesis by (simp add: pool_ok_def)
qed

lemma put_ok:
  assumes "pool_ok txid_of s" and "db_get (transactions s) (txid_of (at_transaction tx)) = None"
    and "unwrap_or 0 (trade_order_counter s) < 2 ^ 64 - 1"
    and "mempool_put txid_of tx s = Inr s'"
  shows "pool_ok txid_of s'"
proof -
  let ?t = "txid_of (at_transaction tx)"
  have acc: "acceptable txid_of tx s" using mempool_put_result(1) assms(4) by blast
  obtain a where r: "s' = s \<lparr> transactions := db_put (transactions s) ?t tx,
               spent_utxos := db_put_all (input_entries ?t (at_transaction tx)) (spent_utxos s),
               address_to_txs := a,
               pending_decision_claims := db_put_all (map (\<lambda>d. (d, ?t))
                 (get_claimed_decision_ids (at_transaction tx))) (pending_decision_claims s),
               trade_insertion_order := (if is_trade_tx tx then trade_insertion_order (put_trade_order ?t s)
                 else trade_insertion_order s),
               trade_order_counter := (if is_trade_tx tx then trade_order_counter (put_trade_order ?t s)
                 else trade_order_counter s) \<rparr>"
    and a: "\<forall>addr t. indexed a addr t \<longleftrightarrow> indexed (address_to_txs s) addr t
           \<or> (t = ?t \<and> addr \<in> set (oset_elems (relevant_addresses tx)))"
      "no_empty_row (address_to_txs s) \<longrightarrow> no_empty_row a"
    using mempool_put_result(2) [OF assms(4)] by (elim exE conjE) (rule that)
  have "spent_ok s'"
    using assms(1) put_spent_ok [OF _ acc assms(2), of s'] by (simp add: pool_ok_def r)
  moreover have "claims_ok s'"
    using assms(1) put_claims_ok [OF _ acc refl assms(2), of s'] by (simp add: pool_ok_def r)
  moreover have "addresses_ok s'"
    using assms(1) put_addresses_ok [OF _ assms(2), of s' tx] a by (simp add: pool_ok_def r)
  moreover have "trades_ok s'"
    using assms(1) put_trades_ok [OF _ assms(2) _ _ _ assms(3), of s' tx] by (simp add: pool_ok_def r)
  moreover have "txids_ok txid_of s'"
    using assms(1) by (simp add: pool_ok_def r txids_ok_def)
  ultimately show ?thesis by (simp add: pool_ok_def)
qed

section \<open>Deleting a transaction and its descendants\<close>

definition spends_from :: "mempool \<Rightarrow> txid \<Rightarrow> txid \<Rightarrow> bool" where
  "spends_from s a b \<longleftrightarrow> (\<exists>ta tb v. db_get (transactions s) a = Some ta \<and> db_get (transactions s) b = Some tb
     \<and> v < length (t_outputs (at_transaction ta)) \<and> Regular a (as_u 32 v) \<in> set (t_inputs (at_transaction tb)))"

abbreviation descendant :: "mempool \<Rightarrow> txid \<Rightarrow> txid \<Rightarrow> bool" where
  "descendant s \<equiv> (spends_from s)\<^sup>*\<^sup>*"

lemma input_entries_mem:
  "(\<exists>v. (op, RegularIn b v) \<in> set (input_entries b tx)) \<longleftrightarrow> op \<in> set (t_inputs tx)"
proof -
  have "set (t_inputs tx) = fst ` set (input_entries b tx)"
    by (metis list.set_map map_fst_input_entries)
  then show ?thesis by force
qed

lemma spent_by:
  assumes "pool_ok txid_of s"
  shows "(\<exists>v. db_get (spent_utxos s) op = Some (RegularIn b v)) \<longleftrightarrow>
    (\<exists>tb. db_get (transactions s) b = Some tb \<and> op \<in> set (t_inputs (at_transaction tb)))"
proof -
  have ok: "db_get (spent_utxos s) op = Some ip \<longleftrightarrow>
      (\<exists>t tx. db_get (transactions s) t = Some tx \<and> (op, ip) \<in> set (input_entries t (at_transaction tx)))" for ip
    using assms unfolding pool_ok_def spent_ok_def by blast
  have owner: "t = b" if "(op, RegularIn b v) \<in> set (input_entries t tx)" for t v tx
    using that by auto
  show ?thesis
  proof
    assume "\<exists>v. db_get (spent_utxos s) op = Some (RegularIn b v)"
    then obtain v t tx where t: "db_get (transactions s) t = Some tx"
      "(op, RegularIn b v) \<in> set (input_entries t (at_transaction tx))" unfolding ok by blast
    then have "t = b" by (intro owner)
    with t input_entries_mem [of op b "at_transaction tx"]
    show "\<exists>tb. db_get (transactions s) b = Some tb \<and> op \<in> set (t_inputs (at_transaction tb))" by blast
  next
    assume "\<exists>tb. db_get (transactions s) b = Some tb \<and> op \<in> set (t_inputs (at_transaction tb))"
    then obtain tb v where "db_get (transactions s) b = Some tb"
      "(op, RegularIn b v) \<in> set (input_entries b (at_transaction tb))"
      using input_entries_mem [of op b] by blast
    then show "\<exists>v. db_get (spent_utxos s) op = Some (RegularIn b v)" unfolding ok by blast
  qed
qed

lemma set_spending_children:
  assumes "pool_ok txid_of s"
  shows "set (spending_children t tx s) = {b. \<exists>tb v. db_get (transactions s) b = Some tb
    \<and> v < length (t_outputs (at_transaction tx)) \<and> Regular t (as_u 32 v) \<in> set (t_inputs (at_transaction tb))}"
proof -
  have child: "(case db_get (spent_utxos s) op of Some (RegularIn c _) \<Rightarrow> Some c | _ \<Rightarrow> None) = Some b
      \<longleftrightarrow> (\<exists>v. db_get (spent_utxos s) op = Some (RegularIn b v))" for op b
    by (auto split: option.split inpoint.split)
  have "b \<in> set (spending_children t tx s) \<longleftrightarrow> (\<exists>v < length (t_outputs (at_transaction tx)).
      \<exists>i. db_get (spent_utxos s) (Regular t (as_u 32 v)) = Some (RegularIn b i))" for b
    unfolding spending_children_def set_map_filter_eq by (auto simp: child image_iff)
  then show ?thesis unfolding spent_by [OF assms] by (simp only: set_eq_iff mem_Collect_eq) blast
qed

lemma spends_from_removed:
  assumes "transactions s' = db_delete (transactions s) t"
  shows "spends_from s' a b \<longleftrightarrow> spends_from s a b \<and> a \<noteq> t \<and> b \<noteq> t"
  by (auto simp: spends_from_def assms)

lemma descendant_split:
  assumes "transactions s' = db_delete (transactions s) t" and "descendant s a u"
  shows "u = t \<or> descendant s' a u \<or> (\<exists>b. spends_from s t b \<and> b \<noteq> t \<and> descendant s' b u)"
  using assms(2)
proof induction
  case (step u v)
  note edge = spends_from_removed [OF assms(1), of u v]
  show ?case
  proof (cases "v = t \<or> u = t")
    case True
    then show ?thesis using step.hyps(2) by blast
  next
    case False
    then have "spends_from s' u v" using edge step.hyps(2) by blast
    with step.IH False show ?thesis by (meson rtranclp.rtrancl_into_rtrancl)
  qed
qed blast

lemma descendant_removed:
  assumes "transactions s' = db_delete (transactions s) t" and "descendant s' a u"
  shows "descendant s a u"
  using assms(2) by (rule rtranclp_mono [THEN predicate2D, rotated]) (auto simp: spends_from_removed [OF assms(1)])

lemma descendant_absent: "descendant s a u \<Longrightarrow> db_get (transactions s) a = None \<Longrightarrow> u = a"
  by (erule converse_rtranclpE) (auto simp: spends_from_def)

text \<open>The breadth-first loop removes exactly the descendants of its queue and keeps the invariant.\<close>

lemma delete_loop_spec:
  assumes "pool_ok txid_of s"
  shows "pool_ok txid_of (delete_loop txid_of order q s)
    \<and> (\<forall>u. db_get (transactions (delete_loop txid_of order q s)) u =
         (if \<exists>a \<in> set q. descendant s a u then None else db_get (transactions s) u))"
  using assms
proof (induction txid_of order q s rule: delete_loop.induct)
  case (2 txid_of order t q s)
  show ?case
  proof (cases "db_get (transactions s) t")
    case None
    have "(\<exists>a \<in> set (t # q). descendant s a u) \<longleftrightarrow> u = t \<or> (\<exists>a \<in> set q. descendant s a u)" for u
      using descendant_absent [OF _ None] by auto
    with 2(1) [OF None 2(3)] None show ?thesis by auto
  next
    case (Some tx)
    define s' where "s' = remove_tx txid_of order t tx s"
    let ?q = "q @ spending_children t tx s'"
    have ok: "pool_ok txid_of s'" unfolding s'_def by (rule remove_ok [OF 2(3) Some])
    have del: "transactions s' = db_delete (transactions s) t" by (simp add: s'_def)
    have children: "b \<in> set (spending_children t tx s') \<longleftrightarrow> spends_from s t b \<and> b \<noteq> t" for b
      unfolding set_spending_children [OF ok] by (auto simp: spends_from_def del Some)
    note IH = 2(2) [OF Some s'_def ok]
    have unfold: "delete_loop txid_of order (t # q) s = delete_loop txid_of order ?q s'"
      by (simp add: Some s'_def Let_def)
    have "(\<exists>a \<in> set (t # q). descendant s a u) \<longleftrightarrow> u = t \<or> (\<exists>a \<in> set ?q. descendant s' a u)" for u
    proof
      assume "\<exists>a \<in> set (t # q). descendant s a u"
      then obtain a where a: "a \<in> set (t # q)" "descendant s a u" by blast
      have "u = t" if "descendant s' t u" using descendant_absent [OF that] by (simp add: del)
      with descendant_split [OF del a(2)] a(1) show "u = t \<or> (\<exists>a \<in> set ?q. descendant s' a u)"
        using children by auto
    next
      assume "u = t \<or> (\<exists>a \<in> set ?q. descendant s' a u)"
      then show "\<exists>a \<in> set (t # q). descendant s a u"
      proof (elim disjE bexE)
        fix a assume "a \<in> set ?q" "descendant s' a u"
        moreover from this(2) have "descendant s a u" by (rule descendant_removed [OF del])
        ultimately show ?thesis using children
          by (auto intro: converse_rtranclp_into_rtranclp)
      qed auto
    qed
    then show ?thesis using IH unfolding unfold by (auto simp: del)
  qed
qed simp

section \<open>Evicting conflicting claims\<close>

lemma pool_ok_claims:
  "pool_ok txid_of s \<Longrightarrow> db_get (pending_decision_claims s) d = Some t \<longleftrightarrow>
     (\<exists>tx. db_get (transactions s) t = Some tx \<and> d \<in> set (get_claimed_decision_ids (at_transaction tx)))"
  unfolding pool_ok_def claims_ok_def by blast

lemma delete_keeps_ok:
  assumes "pool_ok txid_of s"
  shows "pool_ok txid_of (mempool_delete txid_of order t s)"
    and "db_get (transactions (mempool_delete txid_of order t s)) u = Some ux \<Longrightarrow> db_get (transactions s) u = Some ux"
    and "db_get (transactions (mempool_delete txid_of order t s)) t = None"
  using delete_loop_spec [OF assms, of order "[t]"] by (auto simp: mempool_delete_def split: if_split_asm)

lemma delete_claims:
  assumes "pool_ok txid_of s"
    and "db_get (pending_decision_claims (mempool_delete txid_of order t s)) d = Some u"
  shows "db_get (pending_decision_claims s) d = Some u \<and> u \<noteq> t"
proof -
  obtain tx where tx: "db_get (transactions (mempool_delete txid_of order t s)) u = Some tx"
    "d \<in> set (get_claimed_decision_ids (at_transaction tx))"
    using assms(2) pool_ok_claims [OF delete_keeps_ok(1) [OF assms(1)]] by blast
  have "db_get (transactions s) u = Some tx" using delete_keeps_ok(2) [OF assms(1) tx(1)] .
  with tx(2) have "db_get (pending_decision_claims s) d = Some u"
    using pool_ok_claims [OF assms(1)] by blast
  moreover have "u \<noteq> t" using tx(1) delete_keeps_ok(3) [OF assms(1), of order t] by auto
  ultimately show ?thesis ..
qed

definition conflict_free :: "txid \<Rightarrow> decision_bytes \<Rightarrow> mempool \<Rightarrow> bool" where
  "conflict_free txid d s \<longleftrightarrow> (\<forall>u. db_get (pending_decision_claims s) d = Some u \<longrightarrow> u = txid)"

lemma evict_conflict_cases:
  obtains (same) "evict_conflict txid_of order c d acc = acc" "conflict_free c d (fst acc)"
  | (gone) z where "db_get (pending_decision_claims (fst acc)) d = Some z"
    "fst (evict_conflict txid_of order c d acc) = mempool_delete txid_of order z (fst acc)"
proof (cases "db_get (pending_decision_claims (fst acc)) d")
  case None
  then show thesis by (intro same) (simp_all add: evict_conflict_def conflict_free_def)
next
  case (Some z)
  show thesis
  proof (cases "z = c")
    case True
    with Some show thesis by (intro same) (simp_all add: evict_conflict_def conflict_free_def)
  next
    case False
    with Some show thesis by (intro gone) (simp_all add: evict_conflict_def)
  qed
qed

lemma evict_conflict_step:
  assumes "pool_ok txid_of (fst acc)"
  shows "pool_ok txid_of (fst (evict_conflict txid_of order c d acc))
    \<and> conflict_free c d (fst (evict_conflict txid_of order c d acc))
    \<and> (\<forall>d'. conflict_free c d' (fst acc) \<longrightarrow> conflict_free c d' (fst (evict_conflict txid_of order c d acc)))
    \<and> (\<forall>u ux. db_get (transactions (fst (evict_conflict txid_of order c d acc))) u = Some ux
         \<longrightarrow> db_get (transactions (fst acc)) u = Some ux)"
proof (cases rule: evict_conflict_cases [of txid_of order c d acc])
  case same
  then show ?thesis using assms by simp
next
  case (gone z)
  have "\<forall>u. db_get (pending_decision_claims (mempool_delete txid_of order z (fst acc))) d = Some u \<longrightarrow> u = c"
    using delete_claims [OF assms, of order z d] gone(1) by auto
  then show ?thesis
    unfolding gone(2) conflict_free_def
    using delete_keeps_ok(1,2) [OF assms, of order z] delete_claims [OF assms, of order z] by blast
qed

lemma evict_fold:
  assumes "pool_ok txid_of (fst acc)"
  shows "pool_ok txid_of (fst (fold (evict_conflict txid_of order c) ds acc))
    \<and> (\<forall>d. conflict_free c d (fst acc) \<or> d \<in> set ds \<longrightarrow>
         conflict_free c d (fst (fold (evict_conflict txid_of order c) ds acc)))
    \<and> (\<forall>u ux. db_get (transactions (fst (fold (evict_conflict txid_of order c) ds acc))) u = Some ux
         \<longrightarrow> db_get (transactions (fst acc)) u = Some ux)"
  using assms
proof (induction ds arbitrary: acc)
  case (Cons d ds)
  let ?acc = "evict_conflict txid_of order c d acc"
  note step = evict_conflict_step [OF Cons.prems, of order c d]
  then have "pool_ok txid_of (fst ?acc)" by blast
  from Cons.IH [OF this] step
  show ?case by (auto simp: fold_simps(2) simp del: fold_simps)
qed simp

section \<open>Reachable mempools\<close>

text \<open>
  The states that a node builds from an empty mempool: a transaction with a new id is submitted, a
  transaction is removed, the conflicts of a confirmed transaction are evicted, and the
  transactions of a block are confirmed. The number counts the submissions.
\<close>

inductive pool_reachable :: "(transaction \<Rightarrow> txid) \<Rightarrow> (nat \<Rightarrow> nat) \<Rightarrow> nat \<Rightarrow> mempool \<Rightarrow> bool"
  for txid_of :: "transaction \<Rightarrow> txid" and order :: "nat \<Rightarrow> nat" where
  start: "pool_reachable txid_of order 0 mempool_new"
| submit: "pool_reachable txid_of order n s \<Longrightarrow> db_get (transactions s) (txid_of (at_transaction tx)) = None
    \<Longrightarrow> mempool_put txid_of tx s = Inr s' \<Longrightarrow> pool_reachable txid_of order (Suc n) s'"
| remove: "pool_reachable txid_of order n s \<Longrightarrow> pool_reachable txid_of order n (mempool_delete txid_of order t s)"
| evict: "pool_reachable txid_of order n s \<Longrightarrow>
    pool_reachable txid_of order n (fst (evict_decision_claim_conflicts txid_of order tx s))"
| confirm: "pool_reachable txid_of order n s \<Longrightarrow>
    pool_reachable txid_of order n (confirm_transactions txid_of order txs s)"

lemma evict_keeps_ok:
  assumes "pool_ok txid_of s"
  shows "pool_ok txid_of (fst (evict_decision_claim_conflicts txid_of order tx s))"
    and "d \<in> set (get_claimed_decision_ids tx) \<Longrightarrow>
      conflict_free (txid_of tx) d (fst (evict_decision_claim_conflicts txid_of order tx s))"
    and "db_get (transactions (fst (evict_decision_claim_conflicts txid_of order tx s))) u = Some ux
      \<Longrightarrow> db_get (transactions s) u = Some ux"
  using evict_fold [of txid_of "(s, [])" order "txid_of tx" "get_claimed_decision_ids tx", unfolded fst_conv, OF assms]
  unfolding evict_decision_claim_conflicts_def by blast+

lemma confirm_keeps_ok:
  "pool_ok txid_of s \<Longrightarrow> pool_ok txid_of (confirm_transactions txid_of order txs s)"
  unfolding confirm_transactions_def
  by (induction txs arbitrary: s) (simp_all add: delete_keeps_ok(1) evict_keeps_ok(1))

lemma remove_tx_counter [simp]:
  "trade_order_counter (remove_tx txid_of order t tx s) = trade_order_counter s"
proof -
  have a: "trade_order_counter (unassoc_txid_with_address t a s) = trade_order_counter s" for t a s
    by (simp add: unassoc_txid_with_address_def Let_def split: option.split)
  have "trade_order_counter (fold (unassoc_txid_with_address t) as s) = trade_order_counter s" for t as s
    by (induction as arbitrary: s) (simp_all add: a)
  then show ?thesis
    by (simp add: remove_tx_def Let_def delete_stxos_def unindex_tx_addresses_def
        delete_decision_claims_def delete_trade_order_def split: option.split)
qed

lemma delete_counter [simp]: "trade_order_counter (mempool_delete txid_of order t s) = trade_order_counter s"
proof -
  have "trade_order_counter (delete_loop txid_of order q s) = trade_order_counter s" for q
    by (induction txid_of order q s rule: delete_loop.induct) (simp_all add: Let_def split: option.split)
  then show ?thesis unfolding mempool_delete_def .
qed

lemma evict_counter [simp]:
  "trade_order_counter (fst (evict_decision_claim_conflicts txid_of order tx s)) = trade_order_counter s"
proof -
  have "trade_order_counter (fst (fold (evict_conflict txid_of order c) ds acc)) = trade_order_counter (fst acc)" for c ds acc
    by (induction ds arbitrary: acc) (simp_all add: evict_conflict_def split: option.split)
  then show ?thesis by (simp add: evict_decision_claim_conflicts_def)
qed

lemma confirm_counter [simp]:
  "trade_order_counter (confirm_transactions txid_of order txs s) = trade_order_counter s"
  unfolding confirm_transactions_def by (induction txs arbitrary: s) simp_all

lemma put_counter:
  assumes "mempool_put txid_of tx s = Inr s'"
  shows "unwrap_or 0 (trade_order_counter s') \<le> Suc (unwrap_or 0 (trade_order_counter s))"
proof -
  obtain a where "trade_order_counter s' = (if is_trade_tx tx
      then trade_order_counter (put_trade_order (txid_of (at_transaction tx)) s) else trade_order_counter s)"
    using mempool_put_result(2) [OF assms] by auto
  then show ?thesis
    using mod_less_eq_dividend [of "Suc (unwrap_or 0 (trade_order_counter s))" "2 ^ 64"]
    by (auto simp: put_trade_order_def Let_def wrapping_add_def)
qed

lemma reachable_ok:
  "pool_reachable txid_of order n s \<Longrightarrow> n < 2 ^ 64 \<Longrightarrow>
     pool_ok txid_of s \<and> unwrap_or 0 (trade_order_counter s) \<le> n"
proof (induction rule: pool_reachable.induct)
  case start
  show ?case using pool_ok_new by (simp add: mempool_new_def)
next
  case (submit n s tx s')
  then show ?case using put_ok [of txid_of s tx s'] put_counter [OF submit.hyps(3)] by simp
qed (simp_all add: delete_keeps_ok(1) evict_keeps_ok(1) confirm_keeps_ok)

section \<open>Correctness\<close>


definition example_txid :: "transaction \<Rightarrow> txid" where
  "example_txid tx = of_nat (length (t_memo tx))"

definition plain_tx :: "string \<Rightarrow> outpoint list \<Rightarrow> authorized_transaction" where
  "plain_tx memo ins = \<lparr> at_transaction = \<lparr> t_inputs = ins,
       t_outputs = [\<lparr> o_address = 5, o_content = Bitcoin 60, o_memo = [] \<rparr>], t_memo = memo, t_data = None \<rparr>,
     at_authorizations = [4], at_actor_proof = None \<rparr>"

lemma plain_tx_simps [simp]:
  "t_inputs (at_transaction (plain_tx m ins)) = ins" "t_memo (at_transaction (plain_tx m ins)) = m"
  "example_txid (at_transaction (plain_tx m ins)) = of_nat (length m)"
  "get_claimed_decision_ids (at_transaction (plain_tx m ins)) = []"
  "length (t_outputs (at_transaction (plain_tx m ins))) = 1"
  "is_trade_tx (plain_tx m ins) = False"
  by (simp_all add: plain_tx_def example_txid_def get_claimed_decision_ids_def is_trade_tx_def)

lemma put_plain:
  assumes "tx_count s < MAX_MEMPOOL_TRANSACTIONS" and "distinct ins"
    and "\<forall>op \<in> set ins. db_get (spent_utxos s) op = None"
  shows "\<exists>s'. mempool_put example_txid (plain_tx m ins) s = Inr s'
    \<and> transactions s' = db_put (transactions s) (of_nat (length m)) (plain_tx m ins)
    \<and> spent_utxos s' = db_put_all (input_entries (of_nat (length m)) (at_transaction (plain_tx m ins))) (spent_utxos s)
    \<and> pending_decision_claims s' = pending_decision_claims s"
proof -
  have "acceptable example_txid (plain_tx m ins) s" using assms by (simp add: acceptable_def)
  then obtain s' where s': "mempool_put example_txid (plain_tx m ins) s = Inr s'"
    unfolding mempool_put_result(1) [symmetric] by blast
  with mempool_put_result(2) [OF s'] show ?thesis by (intro exI [of _ s']) auto
qed

text \<open>A parent with id 1 that spends a confirmed output, and its child with id 2.\<close>

abbreviation parent_tx :: authorized_transaction where
  "parent_tx \<equiv> plain_tx ''p'' [Regular 100 0]"

abbreviation child_tx :: authorized_transaction where
  "child_tx \<equiv> plain_tx ''ch'' [Regular 1 0]"

lemma family_reachable:
  obtains s1 s2 where "mempool_put example_txid parent_tx mempool_new = Inr s1"
    and "mempool_put example_txid child_tx s1 = Inr s2"
    and "pool_reachable example_txid id 2 s2"
    and "transactions s2 = db_put (db_put db_empty 1 parent_tx) 2 child_tx"
    and "spent_utxos s2 = db_put (db_put db_empty (Regular 100 0) (RegularIn 1 0)) (Regular 1 0) (RegularIn 2 0)"
proof -
  have new: "transactions mempool_new = db_empty" "spent_utxos mempool_new = db_empty"
    by (simp_all add: mempool_new_def)
  obtain s1 where s1: "mempool_put example_txid parent_tx mempool_new = Inr s1"
    "transactions s1 = db_put db_empty 1 parent_tx"
    "spent_utxos s1 = db_put db_empty (Regular 100 0) (RegularIn 1 0)"
    using put_plain [of mempool_new "[Regular 100 0]" "''p''"]
    by (auto simp: new tx_count_def MAX_MEMPOOL_TRANSACTIONS_def)
  have free: "db_get (spent_utxos s1) (Regular 1 0) = None" by (simp add: s1)
  obtain s2 where s2: "mempool_put example_txid child_tx s1 = Inr s2"
    "transactions s2 = db_put (transactions s1) 2 child_tx"
    "spent_utxos s2 = db_put (spent_utxos s1) (Regular 1 0) (RegularIn 2 0)"
    using put_plain [of s1 "[Regular 1 0]" "''ch''"] free
    by (auto simp: s1 tx_count_def MAX_MEMPOOL_TRANSACTIONS_def numeral_2_eq_2)
  have "pool_reachable example_txid id (Suc 0) s1"
    by (rule pool_reachable.submit [OF pool_reachable.start _ s1(1)]) (simp add: new)
  then have "pool_reachable example_txid id (Suc (Suc 0)) s2"
    by (rule pool_reachable.submit [OF _ _ s2(1)]) (simp add: s1)
  then show thesis using that s1 s2 by (simp add: numeral_2_eq_2)
qed


text \<open>
  C31. Submission to a consistent mempool: a transaction with a new id is accepted exactly when
  there is room, no other transaction claims one of its decisions, and its inputs are distinct and
  not spent by the pool; then exactly that transaction is added and the mempool stays consistent.
\<close>

theorem mempool_put_correct:
  assumes "pool_ok txid_of s" and "db_get (transactions s) (txid_of (at_transaction tx)) = None"
    and "unwrap_or 0 (trade_order_counter s) < 2 ^ 64 - 1"
  shows "case mempool_put txid_of tx s of
      Inl e \<Rightarrow> \<not> acceptable txid_of tx s
    | Inr s' \<Rightarrow> acceptable txid_of tx s \<and> pool_ok txid_of s'
        \<and> transactions s' = db_put (transactions s) (txid_of (at_transaction tx)) tx"
proof (cases "mempool_put txid_of tx s")
  case (Inl e)
  then show ?thesis using mempool_put_result(1) [of txid_of tx s] by auto
next
  case (Inr s')
  have "transactions s' = db_put (transactions s) (txid_of (at_transaction tx)) tx"
    using mempool_put_result(2) [OF Inr] by auto
  then show ?thesis
    using mempool_put_result(1) [of txid_of tx s] put_ok [OF assms Inr] Inr by auto
qed

theorem mempool_put_correct_witness:
  "\<exists>s'. mempool_put example_txid parent_tx mempool_new = Inr s' \<and> pool_ok example_txid s'"
proof (rule family_reachable)
  fix s1 s2 assume "mempool_put example_txid parent_tx mempool_new = Inr s1"
  then show ?thesis
    using mempool_put_correct [of example_txid mempool_new parent_tx, OF pool_ok_new]
    by (simp add: mempool_new_def)
qed

text \<open>
  C32. Removing a transaction from a consistent mempool removes it together with every transaction
  that spends one of its outputs, directly or through others, and no other transaction; the loop
  ends and the mempool stays consistent.
\<close>

theorem mempool_delete_descendants:
  assumes "pool_ok txid_of s"
  shows "pool_ok txid_of (mempool_delete txid_of order t s)
    \<and> (\<forall>u. db_get (transactions (mempool_delete txid_of order t s)) u =
         (if (spends_from s)\<^sup>*\<^sup>* t u then None else db_get (transactions s) u))"
  using delete_loop_spec [OF assms, of order "[t]"] unfolding mempool_delete_def by simp

theorem mempool_delete_descendants_witness:
  "\<exists>s. pool_ok example_txid s \<and> db_keys (transactions s) = [1, 2]
     \<and> db_get (transactions (mempool_delete example_txid id 1 s)) 2 = None"
proof (rule family_reachable)
  fix s1 s2
  assume s: "pool_reachable example_txid id 2 s2" "transactions s2 = db_put (db_put db_empty 1 parent_tx) 2 child_tx"
  have ok: "pool_ok example_txid s2" using reachable_ok [OF s(1)] by simp
  have "spends_from s2 1 2" by (simp add: spends_from_def s(2))
  then show ?thesis
    using mempool_delete_descendants [OF ok, of id 1] ok by (intro exI [of _ s2]) (simp add: db_keys_def s(2) r_into_rtranclp)
qed

text \<open>
  Evicting the conflicts of a confirmed transaction from a consistent mempool leaves no
  pending claim of another transaction on any decision that the confirmed one claims, only removes
  transactions, and keeps the mempool consistent.
\<close>

theorem evict_clears_conflicts:
  assumes "pool_ok txid_of s"
  shows "case evict_decision_claim_conflicts txid_of order tx s of (s', evicted) \<Rightarrow>
      pool_ok txid_of s'
      \<and> (\<forall>d \<in> set (get_claimed_decision_ids tx). \<forall>u.
           db_get (pending_decision_claims s') d = Some u \<longrightarrow> u = txid_of tx)
      \<and> (\<forall>u ux. db_get (transactions s') u = Some ux \<longrightarrow> db_get (transactions s) u = Some ux)"
proof (cases "evict_decision_claim_conflicts txid_of order tx s")
  case (Pair s' evicted)
  then have s': "fst (evict_decision_claim_conflicts txid_of order tx s) = s'" by simp
  show ?thesis
    using evict_keeps_ok [where order = order and tx = tx, OF assms] Pair
    unfolding conflict_free_def s' by simp
qed

definition claim_tx :: "string \<Rightarrow> decision_bytes \<Rightarrow> authorized_transaction" where
  "claim_tx memo d = \<lparr> at_transaction = \<lparr> t_inputs = [Regular 100 (length memo)], t_outputs = [], t_memo = memo,
       t_data = Some (ClaimDecision \<lparr> payload_decision_type = Binary, payload_decisions = [\<lparr> decision_id_bytes = d,
         claim_header = ''rain'', claim_description = [], claim_option_0_label = None, claim_option_1_label = None,
         claim_option_labels = None, claim_tags = None \<rparr>] \<rparr>) \<rparr>,
     at_authorizations = [4], at_actor_proof = None \<rparr>"

lemma claim_tx_simps [simp]:
  "t_inputs (at_transaction (claim_tx m d)) = [Regular 100 (length m)]"
  "example_txid (at_transaction (claim_tx m d)) = of_nat (length m)"
  "get_claimed_decision_ids (at_transaction (claim_tx m d)) = [d]"
  by (simp_all add: claim_tx_def example_txid_def get_claimed_decision_ids_def)

lemma claim_pool:
  obtains s where "pool_reachable example_txid id 1 s" "db_get (pending_decision_claims s) d = Some 1"
proof -
  have "acceptable example_txid (claim_tx ''a'' d) mempool_new"
    by (simp add: acceptable_def mempool_new_def tx_count_def MAX_MEMPOOL_TRANSACTIONS_def)
  then obtain s where s: "mempool_put example_txid (claim_tx ''a'' d) mempool_new = Inr s"
    unfolding mempool_put_result(1) [symmetric] by blast
  have "db_get (pending_decision_claims s) d = Some 1" using mempool_put_result(2) [OF s] by auto
  moreover have "pool_reachable example_txid id (Suc 0) s"
    by (rule pool_reachable.submit [OF pool_reachable.start _ s]) (simp add: mempool_new_def)
  ultimately show thesis using that by simp
qed

theorem evict_clears_conflicts_witness:
  "\<exists>s. pool_ok example_txid s \<and> db_get (pending_decision_claims s) (1, 0, 0) = Some 1
     \<and> db_get (pending_decision_claims
         (fst (evict_decision_claim_conflicts example_txid id (at_transaction (claim_tx ''ab'' (1, 0, 0))) s))) (1, 0, 0)
       \<noteq> Some 1"
proof (rule claim_pool)
  fix s assume s: "pool_reachable example_txid id 1 s" "db_get (pending_decision_claims s) (1, 0, 0) = Some 1"
  have ok: "pool_ok example_txid s" using reachable_ok [OF s(1)] by simp
  show ?thesis
    using evict_clears_conflicts [where order = id and tx = "at_transaction (claim_tx ''ab'' (1, 0, 0))", OF ok] ok s(2)
    by (intro exI [of _ s]) (auto simp: case_prod_beta)
qed

lemma collect_transactions_ok:
  assumes "\<forall>t \<in> set ts. db_get (transactions s) t \<noteq> None"
  shows "collect_transactions ts s = Inr (map (\<lambda>t. the (db_get (transactions s) t)) ts)"
  using assms by (induction ts) auto

text \<open>
  In a consistent mempool the transactions relevant to an address are found without a
  missing-transaction error, and they are exactly the transactions of the mempool that name the
  address in an authorization, in the actor proof or in an output.
\<close>

theorem relevant_transactions_exact:
  assumes "pool_ok txid_of s"
  shows "\<exists>txs. get_txs_relevant_to_address addr s = Inr txs
    \<and> set txs = {tx. tx \<in> set (take_all s) \<and> addr \<in> set (oset_elems (relevant_addresses tx))}"
proof -
  let ?ts = "oset_elems (get_txids_relevant_to_address addr s)"
  have row: "t \<in> set ?ts \<longleftrightarrow> indexed (address_to_txs s) addr t" for t
    by (cases "db_get (address_to_txs s) addr") (simp_all add: get_txids_relevant_to_address_def indexed_def)
  have listed: "t \<in> set ?ts \<longleftrightarrow> (\<exists>tx. db_get (transactions s) t = Some tx \<and> addr \<in> set (oset_elems (relevant_addresses tx)))" for t
    using assms unfolding row pool_ok_def addresses_ok_def by blast
  have pool: "tx \<in> set (take_all s) \<longleftrightarrow> (\<exists>t. db_get (transactions s) t = Some tx)" for tx
    by (force simp: take_all_def db_get_iff_entries)
  have "set (map (\<lambda>t. the (db_get (transactions s) t)) ?ts)
      = {tx. tx \<in> set (take_all s) \<and> addr \<in> set (oset_elems (relevant_addresses tx))}"
    using listed unfolding pool by (auto simp: image_iff) (metis option.sel)+
  with listed show ?thesis
    by (intro exI [of _ "map (\<lambda>t. the (db_get (transactions s) t)) ?ts"])
      (auto simp: get_txs_relevant_to_address_def intro!: collect_transactions_ok)
qed

theorem relevant_transactions_exact_witness:
  "\<exists>s txs. pool_ok example_txid s \<and> get_txs_relevant_to_address 5 s = Inr txs \<and> set txs = {parent_tx, child_tx}"
proof (rule family_reachable)
  fix s1 s2
  assume s: "pool_reachable example_txid id 2 s2" "transactions s2 = db_put (db_put db_empty 1 parent_tx) 2 child_tx"
  have ok: "pool_ok example_txid s2" using reachable_ok [OF s(1)] by simp
  have "set (take_all s2) = {parent_tx, child_tx}" by (simp add: take_all_def s(2))
  moreover have "5 \<in> set (oset_elems (relevant_addresses (plain_tx m ins)))" for m ins
    by (simp add: relevant_addresses_def plain_tx_def)
  ultimately have "{tx. tx \<in> set (take_all s2) \<and> 5 \<in> set (oset_elems (relevant_addresses tx))} = {parent_tx, child_tx}"
    by auto
  then show ?thesis
    using relevant_transactions_exact [OF ok, of 5] ok by (intro exI [of _ s2]) simp
qed

section \<open>The order of trades\<close>

lemma entries_put_last:
  fixes k :: "'k :: linorder"
  assumes "\<forall>e \<in> set es. fst e < k"
  shows "entries_put k v es = es @ [(k, v)]"
  using assms by (induction es) auto

lemma trades_listed_eq:
  assumes "\<forall>k t. db_get (trade_insertion_order s) k = Some t \<longrightarrow> k \<le> n"
    and "strict_mono_on {..n} order"
  shows "trades_listed order s = db_entries (trade_insertion_order s)"
  unfolding trades_listed_def
proof (rule sort_key_id_if_sorted)
  let ?es = "db_entries (trade_insertion_order s)"
  have bound: "fst e \<le> n" if "e \<in> set ?es" for e
    using assms(1) that db_get_iff_entries [of "trade_insertion_order s" "fst e" "snd e"] by simp
  have "sorted_wrt (\<lambda>e e'. fst e < fst e') ?es"
    using sorted_db_keys [of "trade_insertion_order s"] by (simp add: db_keys_def sorted_wrt_map)
  then have "sorted_wrt (\<lambda>e e'. order (fst e) \<le> order (fst e')) ?es"
    by (rule sorted_wrt_mono_rel [rotated]) (simp add: bound less_imp_le strict_mono_onD [OF assms(2)])
  then show "sorted (map (\<lambda>e. order (fst e)) ?es)" by (simp add: sorted_wrt_map)
qed

lemma map_filter_append: "List.map_filter f (xs @ ys) = List.map_filter f xs @ List.map_filter f ys"
  by (induction xs) (simp_all add: List.map_filter_simps split: option.split)

lemma map_filter_cong_set:
  "(\<And>x. x \<in> set xs \<Longrightarrow> f x = g x) \<Longrightarrow> List.map_filter f xs = List.map_filter g xs"
  by (induction xs) (simp_all add: List.map_filter_simps split: option.split)

text \<open>
  Trades are handed to block building first come, first served: submitting a trade to a
  consistent mempool appends it to the ordered list of trades, provided that the storage engine
  lists the sequence numbers up to the next one in increasing order.
\<close>

theorem trades_first_come_first_served:
  assumes "pool_ok txid_of s" and "db_get (transactions s) (txid_of (at_transaction tx)) = None"
    and "unwrap_or 0 (trade_order_counter s) < 2 ^ 64 - 1"
    and "strict_mono_on {..Suc (unwrap_or 0 (trade_order_counter s))} order"
    and "is_trade_tx tx" and "mempool_put txid_of tx s = Inr s'"
  shows "take_trades_ordered order s' = take_trades_ordered order s @ [tx]"
proof -
  let ?n = "unwrap_or 0 (trade_order_counter s)" and ?t = "txid_of (at_transaction tx)"
  let ?es = "db_entries (trade_insertion_order s)"
  have key: "k \<le> ?n" if "db_get (trade_insertion_order s) k = Some t" for k t
    using that assms(1) unfolding pool_ok_def trades_ok_def by blast
  have old: "t \<noteq> ?t" if "db_get (trade_insertion_order s) k = Some t" for k t
    using that assms(1,2) unfolding pool_ok_def trades_ok_def by (metis option.distinct(1))
  have es: "fst e \<le> ?n \<and> snd e \<noteq> ?t" if "e \<in> set ?es" for e
    using that key old db_get_iff_entries [of "trade_insertion_order s" "fst e" "snd e"] by simp
  have tio: "trade_insertion_order s' = db_put (trade_insertion_order s) (Suc ?n) ?t"
    and txs: "transactions s' = db_put (transactions s) ?t tx"
    using mempool_put_result(2) [OF assms(6)] assms(3,5) by (auto simp: put_trade_order_def Let_def)
  have "trades_listed order s' = db_entries (trade_insertion_order s')"
    by (rule trades_listed_eq [OF _ assms(4)]) (use key in \<open>auto simp: tio le_SucI split: if_split_asm\<close>)
  also have "\<dots> = ?es @ [(Suc ?n, ?t)]"
    using entries_put_last [of ?es "Suc ?n" ?t] es by (auto simp: tio less_Suc_eq_le)
  finally have "take_trades_ordered order s' = List.map_filter (\<lambda>e. db_get (transactions s') (snd e)) ?es @ [tx]"
    by (simp add: take_trades_ordered_def map_filter_append txs List.map_filter_simps)
  moreover have "List.map_filter (\<lambda>e. db_get (transactions s') (snd e)) ?es
      = List.map_filter (\<lambda>e. db_get (transactions s) (snd e)) ?es"
    by (rule map_filter_cong_set) (use es in \<open>auto simp: txs\<close>)
  moreover have "trades_listed order s = ?es"
    by (rule trades_listed_eq [of _ "Suc ?n"]) (use key assms(4) in \<open>auto simp: le_SucI\<close>)
  ultimately show ?thesis by (simp add: take_trades_ordered_def)
qed

definition trade_tx :: "string \<Rightarrow> authorized_transaction" where
  "trade_tx memo = \<lparr> at_transaction = \<lparr> t_inputs = [Regular 100 (length memo)], t_outputs = [], t_memo = memo,
       t_data = Some (Trade 0 0 1 4 1000) \<rparr>,
     at_authorizations = [4], at_actor_proof = None \<rparr>"

lemma trade_tx_simps [simp]:
  "t_inputs (at_transaction (trade_tx m)) = [Regular 100 (length m)]"
  "example_txid (at_transaction (trade_tx m)) = of_nat (length m)"
  "get_claimed_decision_ids (at_transaction (trade_tx m)) = []" "is_trade_tx (trade_tx m)"
  by (simp_all add: trade_tx_def example_txid_def get_claimed_decision_ids_def is_trade_tx_def)

lemma put_trade:
  assumes "tx_count s < MAX_MEMPOOL_TRANSACTIONS" and "db_get (spent_utxos s) (Regular 100 (length m)) = None"
    and "unwrap_or 0 (trade_order_counter s) < 2 ^ 64 - 1"
  obtains s' where "mempool_put example_txid (trade_tx m) s = Inr s'"
    and "transactions s' = db_put (transactions s) (of_nat (length m)) (trade_tx m)"
    and "spent_utxos s' = db_put (spent_utxos s) (Regular 100 (length m)) (RegularIn (of_nat (length m)) 0)"
    and "trade_order_counter s' = Some (Suc (unwrap_or 0 (trade_order_counter s)))"
    and "trade_insertion_order s' =
      db_put (trade_insertion_order s) (Suc (unwrap_or 0 (trade_order_counter s))) (of_nat (length m))"
proof -
  have "acceptable example_txid (trade_tx m) s" using assms by (simp add: acceptable_def)
  then obtain s' where s': "mempool_put example_txid (trade_tx m) s = Inr s'"
    unfolding mempool_put_result(1) [symmetric] by blast
  show thesis
    by (rule that [OF s']) (use mempool_put_result(2) [OF s'] assms(3) in \<open>auto simp: put_trade_order_def Let_def\<close>)
qed

theorem trades_first_come_first_served_witness:
  "\<exists>s s'. mempool_put example_txid (trade_tx ''a'') mempool_new = Inr s
     \<and> mempool_put example_txid (trade_tx ''ab'') s = Inr s'
     \<and> take_trades_ordered id s' = take_trades_ordered id s @ [trade_tx ''ab'']"
proof -
  have new: "tx_count mempool_new < MAX_MEMPOOL_TRANSACTIONS" "spent_utxos mempool_new = db_empty"
    "trade_order_counter mempool_new = None" "transactions mempool_new = db_empty"
    by (simp_all add: mempool_new_def tx_count_def MAX_MEMPOOL_TRANSACTIONS_def)
  obtain s where s: "mempool_put example_txid (trade_tx ''a'') mempool_new = Inr s"
    "transactions s = db_put db_empty 1 (trade_tx ''a'')" "trade_order_counter s = Some 1"
    "spent_utxos s = db_put db_empty (Regular 100 1) (RegularIn 1 0)"
    by (rule put_trade [of mempool_new "''a''"]) (use new in \<open>simp_all\<close>)
  obtain s' where s': "mempool_put example_txid (trade_tx ''ab'') s = Inr s'"
    by (rule put_trade [of s "''ab''"]) (use s in \<open>simp_all add: tx_count_def MAX_MEMPOOL_TRANSACTIONS_def\<close>)
  have ok: "pool_ok example_txid s" by (rule put_ok [OF pool_ok_new _ _ s(1)]) (simp_all add: new)
  have "strict_mono_on {..Suc (unwrap_or 0 (trade_order_counter s))} id"
    by (auto intro: strict_mono_onI)
  then have "take_trades_ordered id s' = take_trades_ordered id s @ [trade_tx ''ab'']"
    by (intro trades_first_come_first_served [OF ok _ _ _ _ s']) (simp_all add: s(2,3))
  with s(1) s' show ?thesis by blast
qed

text \<open>
  The rank of a sequence number among the eight-byte little-endian encodings that the codec of the
  table produces and the storage engine compares byte by byte.
\<close>

definition le_rank :: "nat \<Rightarrow> nat" where
  "le_rank k = foldl (\<lambda>acc i. acc * 256 + k div 256 ^ i mod 256) 0 [0..<8]"

lemma le_rank_bytes: "le_rank k = k mod 256 * 256 ^ 7 + k div 256 mod 256 * 256 ^ 6 + k div 256 ^ 2 mod 256 * 256 ^ 5
    + k div 256 ^ 3 mod 256 * 256 ^ 4 + k div 256 ^ 4 mod 256 * 256 ^ 3 + k div 256 ^ 5 mod 256 * 256 ^ 2
    + k div 256 ^ 6 mod 256 * 256 + k div 256 ^ 7 mod 256"
  by (simp add: le_rank_def upt_rec)

lemma le_rank_first_byte: "k mod 256 < l mod 256 \<Longrightarrow> le_rank k < le_rank l"
proof -
  assume less: "k mod 256 < l mod 256"
  have byte: "k div n mod 256 \<le> 255" for n :: nat by (simp add: less_Suc_eq_le [symmetric])
  have "le_rank k < (k mod 256 + 1) * 256 ^ 7"
    using byte [of 256] byte [of "256 ^ 2"] byte [of "256 ^ 3"] byte [of "256 ^ 4"] byte [of "256 ^ 5"] byte [of "256 ^ 6"] byte [of "256 ^ 7"]
    unfolding le_rank_bytes by simp
  also have "\<dots> \<le> l mod 256 * 256 ^ 7" using less by (intro mult_right_mono) simp_all
  also have "\<dots> \<le> le_rank l" unfolding le_rank_bytes by simp
  finally show ?thesis .
qed

lemma sort_key_precedes:
  assumes "x \<in> set xs" and "y \<in> set xs" and "f x < f y"
  shows "\<exists>as bs cs. sort_key f xs = as @ x # bs @ y # cs"
proof -
  let ?ys = "sort_key f xs"
  obtain as rest where split: "?ys = as @ x # rest" using assms(1) by (metis set_sort split_list)
  have "sorted (map f ?ys)" by simp
  then have "\<forall>z \<in> set as. f z \<le> f x" unfolding split by (auto simp: sorted_append)
  then have "y \<notin> set as" "y \<noteq> x" using assms(3) by (auto simp: leD)
  moreover have "y \<in> set ?ys" using assms(2) by simp
  ultimately have "y \<in> set rest" unfolding split by auto
  then obtain bs cs where "rest = bs @ y # cs" by (metis split_list)
  then show ?thesis using split by blast
qed

text \<open>
  C40. Block building lists the trades by the little-endian encodings of their sequence numbers, which is
  not the order of submission: when two trades are submitted to the mempool one after the other
  and the first receives a sequence number that ends in the byte 255 (the 255th trade, the 511th, ...),
  the second is handed out before the first.
\<close>

theorem trade_order_breaks_at_256:
  assumes "mempool_put txid_of tx s = Inr s1" and "mempool_put txid_of tx' s1 = Inr s2"
    and "is_trade_tx tx" and "is_trade_tx tx'" and "txid_of (at_transaction tx) \<noteq> txid_of (at_transaction tx')"
    and "(unwrap_or 0 (trade_order_counter s) + 1) mod 256 = 255" and "unwrap_or 0 (trade_order_counter s) + 2 < 2 ^ 64"
  shows "\<exists>xs ys zs. take_trades_ordered le_rank s2 = xs @ [tx'] @ ys @ [tx] @ zs"
proof -
  let ?n = "unwrap_or 0 (trade_order_counter s)" and ?t = "txid_of (at_transaction tx)" and ?t' = "txid_of (at_transaction tx')"
  have s1: "trade_insertion_order s1 = db_put (trade_insertion_order s) (?n + 1) ?t" "trade_order_counter s1 = Some (?n + 1)"
    "transactions s1 = db_put (transactions s) ?t tx"
    using mempool_put_result(2) [OF assms(1)] assms(3,7) by (auto simp: put_trade_order_def Let_def)
  have s2: "trade_insertion_order s2 = db_put (trade_insertion_order s1) (?n + 2) ?t'" "transactions s2 = db_put (transactions s1) ?t' tx'"
    using mempool_put_result(2) [OF assms(2)] assms(4,7) s1(2) by (auto simp: put_trade_order_def Let_def)
  have mem: "(?n + 1, ?t) \<in> set (db_entries (trade_insertion_order s2))" "(?n + 2, ?t') \<in> set (db_entries (trade_insertion_order s2))"
    unfolding db_get_iff_entries [symmetric] s2(1) s1(1) by simp_all
  have "(?n + 2) mod 256 < (?n + 1) mod 256" using assms(6) mod_Suc [of "?n + 1" 256] by simp
  then have "le_rank (fst (?n + 2, ?t')) < le_rank (fst (?n + 1, ?t))" using le_rank_first_byte by (simp only: fst_conv)
  from sort_key_precedes [OF mem(2,1) this] obtain as bs cs where
    "trades_listed le_rank s2 = as @ (?n + 2, ?t') # bs @ (?n + 1, ?t) # cs" unfolding trades_listed_def by blast
  moreover have "db_get (transactions s2) ?t = Some tx" "db_get (transactions s2) ?t' = Some tx'"
    using assms(5) by (simp_all add: s2(2) s1(3))
  ultimately have "take_trades_ordered le_rank s2 = List.map_filter (\<lambda>e. db_get (transactions s2) (snd e)) as @ [tx']
      @ List.map_filter (\<lambda>e. db_get (transactions s2) (snd e)) bs @ [tx] @ List.map_filter (\<lambda>e. db_get (transactions s2) (snd e)) cs"
    by (simp add: take_trades_ordered_def map_filter_append List.map_filter_simps)
  then show ?thesis by blast
qed

definition after_254_trades :: mempool where
  "after_254_trades = mempool_new \<lparr> trade_order_counter := Some 254 \<rparr>"

theorem trade_order_breaks_at_256_witness:
  "\<exists>s s' xs ys zs. mempool_put example_txid (trade_tx ''a'') after_254_trades = Inr s
     \<and> mempool_put example_txid (trade_tx ''ab'') s = Inr s'
     \<and> take_trades_ordered le_rank s' = xs @ [trade_tx ''ab''] @ ys @ [trade_tx ''a''] @ zs"
proof -
  have new: "tx_count after_254_trades < MAX_MEMPOOL_TRANSACTIONS" "spent_utxos after_254_trades = db_empty"
    "trade_order_counter after_254_trades = Some 254" "transactions after_254_trades = db_empty"
    by (simp_all add: after_254_trades_def mempool_new_def tx_count_def MAX_MEMPOOL_TRANSACTIONS_def)
  obtain s where s: "mempool_put example_txid (trade_tx ''a'') after_254_trades = Inr s"
    "transactions s = db_put db_empty 1 (trade_tx ''a'')" "trade_order_counter s = Some 255"
    "spent_utxos s = db_put db_empty (Regular 100 1) (RegularIn 1 0)"
    by (rule put_trade [of after_254_trades "''a''"]) (use new in \<open>simp_all\<close>)
  obtain s' where s': "mempool_put example_txid (trade_tx ''ab'') s = Inr s'"
    by (rule put_trade [of s "''ab''"]) (use s in \<open>simp_all add: tx_count_def MAX_MEMPOOL_TRANSACTIONS_def\<close>)
  from trade_order_breaks_at_256 [OF s(1) s'] have "\<exists>xs ys zs. take_trades_ordered le_rank s' = xs @ [trade_tx ''ab''] @ ys @ [trade_tx ''a''] @ zs"
    by (simp add: new)
  with s(1) s' show ?thesis by blast
qed

section \<open>Reorganisation\<close>



end
