(* ===== verification/F64Rounding.thy ===== *)
theory F64Rounding
  imports F64
begin

text \<open>
  Order properties of the rounding of theory \<open>F64\<close>: it is monotone, it leaves doubles alone, and so
  sums of nonnegative doubles bound their terms and a fraction of a double does not exceed it.
\<close>

section \<open>Powers of two\<close>

lemma pow2_powi: "pow2 e = 2 powi e"
  by (simp add: pow2_def power_int_def inverse_eq_divide power_divide)

lemma pow2_pos [simp]: "0 < pow2 e"
  by (simp add: pow2_powi)

lemma pow2_nonzero: "pow2 e \<noteq> 0"
  by (metis pow2_pos less_irrefl)

lemma pow2_add: "pow2 (a + b) = pow2 a * pow2 b"
  by (simp add: pow2_powi power_int_add)

lemma pow2_mono: "a \<le> b \<Longrightarrow> pow2 a \<le> pow2 b"
  by (simp add: pow2_powi power_int_increasing)

lemma pow2_less_iff: "pow2 a < pow2 b \<longleftrightarrow> a < b"
  using power_int_strict_increasing [of a b "2 :: rat"] pow2_mono [of b a]
  by (auto simp: pow2_powi not_le [symmetric])

lemma pow2_of_nat: "pow2 (int n) = of_nat (2 ^ n)"
  by (simp add: pow2_def)

lemma bit_len_bounds: "0 < n \<Longrightarrow> 2 ^ bit_len n \<le> 2 * n \<and> n < 2 ^ bit_len n"
proof (induction n rule: bit_len.induct)
  case (1 n)
  show ?case
  proof (cases "n div 2 = 0")
    case True
    with 1(2) have "n = 1" by simp
    then show ?thesis by (simp add: bit_len.simps [of "Suc 0"] bit_len.simps [of 0])
  next
    case False
    with 1 have "2 ^ bit_len (n div 2) \<le> 2 * (n div 2) \<and> n div 2 < 2 ^ bit_len (n div 2)" by simp
    then show ?thesis using 1(2) by (simp add: bit_len.simps [of n]) linarith
  qed
qed

lemma floor_log2_bounds:
  assumes "0 < a"
  shows "pow2 (floor_log2 a) \<le> a \<and> a < pow2 (floor_log2 a + 1)"
proof -
  obtain n d where q: "quotient_of a = (n, d)" by (cases "quotient_of a")
  then have d: "0 < d" and a: "a = of_int n / of_int d"
    using quotient_of_denom_pos quotient_of_div by auto
  with assms have n: "0 < n" by (simp add: zero_less_divide_iff)
  let ?k = "int (bit_len (nat n)) - int (bit_len (nat d))"
  have bn: "2 ^ bit_len (nat n) \<le> 2 * n" "n < 2 ^ bit_len (nat n)"
    and bd: "2 ^ bit_len (nat d) \<le> 2 * d" "d < 2 ^ bit_len (nat d)"
    using bit_len_bounds [of "nat n"] bit_len_bounds [of "nat d"] n d
    by (auto simp flip: of_nat_le_iff [where 'a = int])
  have k: "pow2 ?k = 2 ^ bit_len (nat n) / 2 ^ bit_len (nat d)"
    by (simp add: pow2_powi power_int_diff)
  have "a < pow2 (?k + 1)"
  proof -
    have "of_int n * 2 ^ bit_len (nat d) < (2 ^ bit_len (nat n) * (2 * of_int d) :: rat)"
      using mult_less_le_imp_less [of n "2 ^ bit_len (nat n)" "2 ^ bit_len (nat d)" "2 * d"] bn bd n d
      by (metis (mono_tags, opaque_lifting) of_int_less_iff of_int_mult of_int_numeral of_int_power zero_less_numeral less_imp_le zero_less_power)
    then show ?thesis unfolding pow2_add k a using d by (simp add: field_simps pow2_def)
  qed
  moreover have "pow2 (?k - 1) \<le> a"
  proof -
    have "(2 ^ bit_len (nat n) * of_int d :: rat) \<le> 2 * of_int n * 2 ^ bit_len (nat d)"
      using mult_mono [of "2 ^ bit_len (nat n)" "2 * n" d "2 ^ bit_len (nat d)"] bn bd n d
      by (metis (mono_tags, opaque_lifting) of_int_le_iff of_int_mult of_int_numeral of_int_power less_imp_le mult_nonneg_nonneg zero_le_numeral)
    then have "2 ^ bit_len (nat n) / 2 ^ bit_len (nat d) / 2 \<le> (of_int n / of_int d :: rat)"
      using d by (simp add: field_simps)
    moreover have "pow2 (?k - 1) = pow2 ?k / 2" by (simp add: pow2_powi power_int_diff)
    ultimately show ?thesis unfolding a k by (simp only:)
  qed
  ultimately show ?thesis
    by (auto simp: floor_log2_def q Let_def)
qed

lemma round_half_even_mono:
  assumes "x \<le> y"
  shows "round_half_even x \<le> round_half_even y"
proof (cases "\<lfloor>x\<rfloor> = \<lfloor>y\<rfloor>")
  case True
  then have "x - of_int \<lfloor>x\<rfloor> \<le> y - of_int \<lfloor>y\<rfloor>" using assms by simp
  with True show ?thesis by (auto simp: round_half_even_def Let_def)
next
  case False
  then have "\<lfloor>x\<rfloor> + 1 \<le> \<lfloor>y\<rfloor>" using floor_mono [OF assms] by linarith
  moreover have "round_half_even x \<le> \<lfloor>x\<rfloor> + 1" "\<lfloor>y\<rfloor> \<le> round_half_even y"
    by (auto simp: round_half_even_def Let_def)
  ultimately show ?thesis by linarith
qed

lemma round_half_even_int [simp]: "round_half_even (of_int n) = n"
  by (simp add: round_half_even_def)

lemma round_half_even_nonneg: "0 \<le> x \<Longrightarrow> 0 \<le> round_half_even x"
  using round_half_even_mono [of 0 x] round_half_even_int [of 0] by simp

text \<open>The magnitude before the overflow check.\<close>

definition round_exp :: "rat \<Rightarrow> int" where
  "round_exp a = max (- 1074) (floor_log2 a - 52)"

definition round_val :: "rat \<Rightarrow> rat" where
  "round_val a = (if a = 0 then 0 else of_int (round_half_even (a / pow2 (round_exp a))) * pow2 (round_exp a))"

lemma round_val_nonneg: "0 \<le> a \<Longrightarrow> 0 \<le> round_val a"
  using round_half_even_nonneg [of "a / pow2 (round_exp a)"]
  by (auto simp: round_val_def less_imp_le intro!: mult_nonneg_nonneg)

lemma round_val_le_mult:
  assumes "0 < a" and "a \<le> of_int m * pow2 (round_exp a)"
  shows "round_val a \<le> of_int m * pow2 (round_exp a)"
proof -
  have "a / pow2 (round_exp a) \<le> of_int m" using assms(2) by (simp add: pos_divide_le_eq)
  from round_half_even_mono [OF this] show ?thesis using assms(1) by (simp add: round_val_def)
qed

lemma round_val_ge_mult:
  assumes "0 < a" and "of_int m * pow2 (round_exp a) \<le> a"
  shows "of_int m * pow2 (round_exp a) \<le> round_val a"
proof -
  have "of_int m \<le> a / pow2 (round_exp a)" using assms(2) by (simp add: pos_le_divide_eq)
  from round_half_even_mono [OF this] show ?thesis using assms(1) by (simp add: round_val_def)
qed

lemma floor_log2_mono:
  assumes "0 < a" and "a \<le> b"
  shows "floor_log2 a \<le> floor_log2 b"
proof -
  have "pow2 (floor_log2 a) < pow2 (floor_log2 b + 1)"
    using floor_log2_bounds [OF assms(1)] floor_log2_bounds [of b] assms by linarith
  then show ?thesis by (simp add: pow2_less_iff)
qed

lemma round_val_mono:
  assumes "0 \<le> a" and "a \<le> b"
  shows "round_val a \<le> round_val b"
proof (cases "a = 0")
  case True
  then show ?thesis using round_val_nonneg assms by (simp add: round_val_def)
next
  case False
  then have a: "0 < a" and b: "0 < b" using assms by auto
  have e: "round_exp a \<le> round_exp b"
    using floor_log2_mono [OF a assms(2)] by (auto simp: round_exp_def)
  show ?thesis
  proof (cases "round_exp a = round_exp b")
    case True
    have "a / pow2 (round_exp b) \<le> b / pow2 (round_exp b)" using assms(2) by (simp add: divide_right_mono less_imp_le)
    from round_half_even_mono [OF this] True a b show ?thesis
      by (simp add: round_val_def mult_right_mono less_imp_le)
  next
    case False
    with e have eb: "round_exp b = floor_log2 b - 52" and lt: "floor_log2 a < floor_log2 b"
      by (auto simp: round_exp_def)
    let ?c = "pow2 (floor_log2 b)"
    have below: "a \<le> ?c"
      using floor_log2_bounds [OF a] pow2_mono [of "floor_log2 a + 1" "floor_log2 b"] lt by linarith
    have mult: "?c = of_int (2 ^ nat (floor_log2 b - e)) * pow2 e" if "e \<le> floor_log2 b" for e
    proof -
      have "?c = pow2 (floor_log2 b - e) * pow2 e" by (simp add: pow2_add [symmetric])
      then show ?thesis using that by (simp add: pow2_def)
    qed
    have "round_val a \<le> ?c"
      using mult [of "round_exp a"] round_val_le_mult [OF a, of "2 ^ nat (floor_log2 b - round_exp a)"] below e eb by simp
    also have "?c \<le> round_val b"
      using mult [of "round_exp b"] round_val_ge_mult [OF b, of "2 ^ nat (floor_log2 b - round_exp b)"]
        floor_log2_bounds [OF b] eb by simp
    finally show ?thesis .
  qed
qed

section \<open>Rounded values\<close>

lemma round_mag_eq:
  "0 \<le> a \<Longrightarrow> round_mag neg a =
     (if round_val a = 0 then F_Zero neg else if 2 ^ 1024 \<le> round_val a then F_Inf neg
      else F_Num (if neg then - round_val a else round_val a))"
  by (simp add: round_mag_def round_val_def round_exp_def Let_def pow2_nonzero)

text \<open>A finite value of the type that is a double: rounding leaves it alone.\<close>

definition is_double :: "f64 \<Rightarrow> bool" where
  "is_double x = (case x of F_Num q \<Rightarrow> q \<noteq> 0 \<and> round_mag (q < 0) \<bar>q\<bar> = F_Num q | _ \<Rightarrow> True)"

lemma round_val_double:
  assumes "is_double x" and "f_is_finite x" and "0 \<le> f_val x"
  shows "round_val (f_val x) = f_val x \<and> f_val x < 2 ^ 1024"
  using assms by (cases x) (auto simp: is_double_def round_mag_eq round_val_def [of 0] split: if_splits)

lemma round_val_bounds:
  assumes "0 \<le> a" and "a \<le> f_val x" and "is_double x" and "f_is_finite x"
  shows "round_val a \<le> f_val x" and "round_val a < 2 ^ 1024"
  using round_val_mono [OF assms(1,2)] round_val_double [OF assms(3,4)] assms(1,2) by auto

lemma round_val_mult:
  assumes "0 < a" and "a = of_int m * pow2 (round_exp a)"
  shows "round_val a = a"
  using round_val_le_mult [OF assms(1), of m] round_val_ge_mult [OF assms(1), of m] assms(2) by simp

lemma round_val_exact:
  assumes "0 \<le> m" and "m < 2 ^ 53" and "- 1074 \<le> e"
  shows "round_val (of_int m * pow2 e) = of_int m * pow2 e"
proof (cases "m = 0")
  case True
  then show ?thesis by (simp add: round_val_def)
next
  case False
  let ?v = "of_int m * pow2 e"
  have pos: "0 < ?v" using False assms(1) by simp
  have "?v < of_int (2 ^ 53) * pow2 e" using assms(2) by (intro mult_strict_right_mono) (simp_all del: of_int_power)
  also have "\<dots> = pow2 (e + 53)" by (simp add: pow2_add) (simp add: pow2_def)
  finally have "floor_log2 ?v < e + 53"
    using floor_log2_bounds [OF pos] by (metis le_less_trans pow2_less_iff)
  then have le: "round_exp ?v \<le> e" using assms(3) by (simp add: round_exp_def)
  have "pow2 e = pow2 (e - round_exp ?v) * pow2 (round_exp ?v)" by (simp add: pow2_add [symmetric])
  then have "pow2 e = of_int (2 ^ nat (e - round_exp ?v)) * pow2 (round_exp ?v)" using le by (simp add: pow2_def)
  then have "?v = of_int (m * 2 ^ nat (e - round_exp ?v)) * pow2 (round_exp ?v)" by (simp add: mult.assoc)
  then show ?thesis by (rule round_val_mult [OF pos])
qed

lemma round_val_idem:
  assumes "0 \<le> a"
  shows "round_val (round_val a) = round_val a"
proof (cases "a = 0")
  case False
  with assms have a: "0 < a" by simp
  let ?e = "round_exp a" and ?m = "round_half_even (a / pow2 (round_exp a))"
  have v: "round_val a = of_int ?m * pow2 ?e" using False by (simp add: round_val_def)
  have "a < pow2 (floor_log2 a + 1)" using floor_log2_bounds [OF a] by simp
  also have "\<dots> \<le> pow2 (53 + ?e)" by (rule pow2_mono) (simp add: round_exp_def)
  also have "\<dots> = of_int (2 ^ 53) * pow2 ?e" unfolding pow2_add by (simp add: pow2_def)
  finally have "a / pow2 ?e \<le> of_int (2 ^ 53)" by (simp add: pos_divide_le_eq del: of_int_power)
  then have m: "?m \<le> 2 ^ 53" using round_half_even_mono by (metis round_half_even_int)
  have m0: "0 \<le> ?m" using a by (intro round_half_even_nonneg divide_nonneg_pos) simp_all
  have e: "- 1074 \<le> ?e" by (simp add: round_exp_def)
  show ?thesis
  proof (cases "?m = 2 ^ 53")
    case True
    then have "round_val a = of_int (2 ^ 52) * pow2 (?e + 1)" by (simp add: v pow2_add) (simp add: pow2_def)
    then show ?thesis using round_val_exact [of "2 ^ 52" "?e + 1"] e by simp
  next
    case False
    then show ?thesis unfolding v using round_val_exact [of ?m ?e] m m0 e by simp
  qed
qed (simp add: round_val_def)

lemma round_val_0 [simp]: "round_val 0 = 0"
  by (simp add: round_val_def)

section \<open>Operations on nonnegative doubles\<close>

text \<open>The finite nonnegative doubles, with the sign of a zero left open.\<close>

definition nonneg_double :: "f64 \<Rightarrow> bool" where
  "nonneg_double x = (f_is_finite x \<and> is_double x \<and> 0 \<le> f_val x)"

lemma nonneg_double_round:
  "nonneg_double x \<Longrightarrow> round_val (f_val x) = f_val x \<and> f_val x < 2 ^ 1024 \<and> 0 \<le> f_val x"
  using round_val_double by (auto simp: nonneg_double_def)

lemma round_mag_double:
  assumes "0 \<le> a" and "round_val a < 2 ^ 1024"
  shows "nonneg_double (round_mag False a)" and "f_val (round_mag False a) = round_val a"
  using assms round_val_nonneg [OF assms(1)] round_val_idem [OF assms(1)]
  by (auto simp: round_mag_eq nonneg_double_def is_double_def)

lemma f_add_nonneg:
  assumes "nonneg_double x" and "nonneg_double y" and "f_is_finite (f_add x y)"
  shows "nonneg_double (f_add x y)" and "f_val x \<le> f_val (f_add x y)" and "f_val y \<le> f_val (f_add x y)"
proof -
  have fin: "f_is_finite x" "f_is_finite y" "0 \<le> f_val x" "0 \<le> f_val y"
    using assms(1,2) by (auto simp: nonneg_double_def)
  let ?q = "f_val x + f_val y"
  have eq: "f_add x y = (if ?q = 0 then F_Zero (f_neg x \<and> f_neg y) else round_mag (?q < 0) \<bar>?q\<bar>)"
    using fin(1,2) by (cases x; cases y) (simp_all add: Let_def)
  have "nonneg_double (f_add x y) \<and> f_val x \<le> f_val (f_add x y) \<and> f_val y \<le> f_val (f_add x y)"
  proof (cases "?q = 0")
    case True
    then show ?thesis using fin unfolding eq by (auto simp: nonneg_double_def is_double_def)
  next
    case False
    then have pos: "0 < ?q" using fin by linarith
    then have r: "f_add x y = round_mag False ?q" unfolding eq by simp
    have lt: "round_val ?q < 2 ^ 1024"
      using assms(3) pos unfolding r by (auto simp: round_mag_eq split: if_splits)
    have "f_val x \<le> round_val ?q" "f_val y \<le> round_val ?q"
      using round_val_mono [of "f_val x" ?q] round_val_mono [of "f_val y" ?q] fin
        nonneg_double_round [OF assms(1)] nonneg_double_round [OF assms(2)] by auto
    then show ?thesis using round_mag_double [OF less_imp_le [OF pos] lt] unfolding r by simp
  qed
  then show "nonneg_double (f_add x y)" "f_val x \<le> f_val (f_add x y)" "f_val y \<le> f_val (f_add x y)" by auto
qed

lemma f_of_nat_exact:
  assumes "n < 2 ^ 53"
  shows "nonneg_double (f_of_nat n)" and "f_val (f_of_nat n) = of_nat n"
proof -
  have "round_val (of_int (int n) * pow2 0) = of_int (int n) * pow2 0"
    using assms by (intro round_val_exact) auto
  then have r: "round_val (of_nat n) = of_nat n" by (simp add: pow2_def)
  have "(of_nat n :: rat) < of_nat (2 ^ 53)" using assms unfolding of_nat_less_iff .
  then have "(of_nat n :: rat) < 2 ^ 1024" by (rule less_trans) simp
  then show "nonneg_double (f_of_nat n)" "f_val (f_of_nat n) = of_nat n"
    using round_mag_double [of "of_nat n"] r by (simp_all add: f_of_nat_def)
qed

lemma f_val_zero: "f_is_finite x \<Longrightarrow> is_double x \<Longrightarrow> f_val x = 0 \<Longrightarrow> \<exists>s. x = F_Zero s"
  by (cases x) (auto simp: is_double_def)

lemma round_mag_below:
  assumes "0 \<le> a" and "a \<le> f_val y" and "nonneg_double y"
  shows "nonneg_double (round_mag (s \<and> a = 0) a)" and "f_val (round_mag (s \<and> a = 0) a) \<le> f_val y"
proof -
  have y: "is_double y" "f_is_finite y" using assms(3) by (auto simp: nonneg_double_def)
  have "nonneg_double (round_mag (s \<and> a = 0) a) \<and> f_val (round_mag (s \<and> a = 0) a) \<le> f_val y"
  proof (cases "a = 0")
    case True
    then show ?thesis using assms(2) by (auto simp: round_mag_eq nonneg_double_def is_double_def)
  next
    case False
    then show ?thesis
      using round_mag_double [OF assms(1)] round_val_bounds [OF assms(1,2) y] by simp
  qed
  then show "nonneg_double (round_mag (s \<and> a = 0) a)" "f_val (round_mag (s \<and> a = 0) a) \<le> f_val y" by auto
qed

lemma one_double: "nonneg_double (F_Num 1)"
  using f_of_nat_exact [of 1] by (cases "f_of_nat 1") (auto simp: nonneg_double_def)

lemma f_div_at_most_one:
  assumes "nonneg_double x" and "nonneg_double y" and "f_val x \<le> f_val y" and "0 < f_val y"
  shows "nonneg_double (f_div x y)" and "f_val (f_div x y) \<le> 1"
proof -
  obtain q where y: "y = F_Num q" "0 < q" using assms(2,4) by (cases y) (auto simp: nonneg_double_def)
  have x: "f_is_finite x" "is_double x" "0 \<le> f_val x" using assms(1) by (auto simp: nonneg_double_def)
  have neg: "f_neg x \<longrightarrow> f_val x = 0" using x by (cases x) auto
  have "f_div x y = round_mag (f_neg x \<and> f_val x / q = 0) (f_val x / q)"
    using x neg y by (cases x) (auto simp: f_div_def Let_def)
  moreover have "0 \<le> f_val x / q" "f_val x / q \<le> f_val (F_Num 1)" using x(3) y assms(3) by auto
  ultimately show "nonneg_double (f_div x y)" "f_val (f_div x y) \<le> 1"
    using round_mag_below [OF _ _ one_double, of "f_val x / q" "f_neg x"] by simp_all
qed

lemma f_mul_fraction:
  assumes "nonneg_double x" and "f_val x \<le> 1" and "nonneg_double y"
  shows "nonneg_double (f_mul x y)" and "f_val (f_mul x y) \<le> f_val y"
proof -
  have x: "f_is_finite x" "is_double x" "0 \<le> f_val x" and y: "f_is_finite y" "is_double y" "0 \<le> f_val y"
    using assms by (auto simp: nonneg_double_def)
  let ?a = "f_val x * f_val y"
  have "f_neg x \<noteq> f_neg y \<longrightarrow> ?a = 0" using x y by (cases x; cases y) auto
  then have "f_mul x y = round_mag (f_neg x \<noteq> f_neg y \<and> ?a = 0) ?a"
    using x y by (cases x; cases y) (auto simp: f_mul_def Let_def)
  moreover have "0 \<le> ?a" using x y by simp
  moreover have "?a \<le> f_val y" using assms(2) y(3) by (simp add: mult_left_le_one_le x(3))
  ultimately show "nonneg_double (f_mul x y)" "f_val (f_mul x y) \<le> f_val y"
    using round_mag_below [OF _ _ assms(3), of ?a "f_neg x \<noteq> f_neg y"] by simp_all
qed

end
