(* ===== verification/SafeMath.thy ===== *)
theory SafeMath
  imports F64Rounding
begin

text \<open>
  Conversion of floating-point amounts to satoshis, basis points and canonical rounding
  (\<open>lib/math/safe_math.rs\<close>). Basis points are the number of the tuple struct; signed amounts are
  integers. \<open>10f64.powi\<close> is the exact power of ten, which is a double for up to 22 decimals.
\<close>

datatype satoshi_error =
    NonFinite f64
  | Negative f64
  | Overflow f64

datatype rounding = RoundUp | RoundDown | RoundNearest

text \<open>\<open>f64::ceil\<close> and \<open>f64::floor\<close>.\<close>

fun f_ceil :: "f64 \<Rightarrow> f64" where
  "f_ceil (F_Num q) = (if \<lceil>q\<rceil> = 0 then F_Zero True else F_Num (of_int \<lceil>q\<rceil>))"
| "f_ceil a = a"

fun f_floor :: "f64 \<Rightarrow> f64" where
  "f_floor (F_Num q) = (if \<lfloor>q\<rfloor> = 0 then F_Zero False else F_Num (of_int \<lfloor>q\<rfloor>))"
| "f_floor a = a"

text \<open>\<open>as i64\<close>: truncation towards zero, saturating, NaN to zero.\<close>

definition f_to_i64 :: "f64 \<Rightarrow> int" where
  "f_to_i64 a =
     (case a of F_NaN \<Rightarrow> 0
      | F_Inf s \<Rightarrow> (if s then - (2 ^ 63) else 2 ^ 63 - 1)
      | F_Zero _ \<Rightarrow> 0
      | F_Num q \<Rightarrow> max (- (2 ^ 63)) (min (2 ^ 63 - 1) (if q < 0 then \<lceil>q\<rceil> else \<lfloor>q\<rfloor>)))"

definition U64_MAX_F64_BOUND :: f64 where "U64_MAX_F64_BOUND = F_Num (2 ^ 64)"
definition I64_MAX_F64_BOUND :: f64 where "I64_MAX_F64_BOUND = F_Num (2 ^ 63)"
definition I64_MIN_F64_BOUND :: f64 where "I64_MIN_F64_BOUND = F_Num (- (2 ^ 63))"

definition to_sats :: "f64 \<Rightarrow> rounding \<Rightarrow> (satoshi_error, nat) result" where
  "to_sats value mode =
     (if \<not> f_is_finite value then Inl (NonFinite value)
      else if f_lt value (F_Zero False) then Inl (Negative value)
      else
        (let rounded = (case mode of RoundUp \<Rightarrow> f_ceil value | RoundDown \<Rightarrow> f_floor value
                                   | RoundNearest \<Rightarrow> f_round value)
         in if f_le U64_MAX_F64_BOUND rounded then Inl (Overflow value)
            else Inr (f_to_u64 rounded)))"

definition to_sats_signed :: "f64 \<Rightarrow> rounding \<Rightarrow> (satoshi_error, int) result" where
  "to_sats_signed value mode =
     (if \<not> f_is_finite value then Inl (NonFinite value)
      else
        (let up = f_le (F_Zero False) value;
             rounded = (case mode of
                 RoundUp \<Rightarrow> (if up then f_ceil value else f_floor value)
               | RoundDown \<Rightarrow> (if up then f_floor value else f_ceil value)
               | RoundNearest \<Rightarrow> f_round value)
         in if \<not> (f_le I64_MIN_F64_BOUND rounded \<and> f_lt rounded I64_MAX_F64_BOUND)
            then Inl (Overflow value)
            else Inr (f_to_i64 rounded)))"

section \<open>Basis points\<close>

type_synonym basis_points = nat

definition BASIS_POINTS_MAX :: nat where "BASIS_POINTS_MAX = 10000"

definition basis_points_new :: "nat \<Rightarrow> (satoshi_error, basis_points) result" where
  "basis_points_new value =
     (if BASIS_POINTS_MAX < value then Inl (Overflow (f_of_nat value)) else Inr value)"

definition basis_points_from_f64 :: "f64 \<Rightarrow> (satoshi_error, basis_points) result" where
  "basis_points_from_f64 rate =
     (if \<not> f_is_finite rate then Inl (NonFinite rate)
      else if \<not> (f_le (F_Zero False) rate \<and> f_le rate (F_Num 1)) then Inl (Overflow rate)
      else basis_points_new (min (f_to_u64 (f_round (f_mul rate (F_Num 10000)))) (2 ^ 32 - 1)))"

definition apply_to_u64 :: "basis_points \<Rightarrow> nat \<Rightarrow> nat" where
  "apply_to_u64 bp amount = as_u 64 (wrapping_mul 128 amount bp div 10000)"

definition apply_to_u64_ceil :: "basis_points \<Rightarrow> nat \<Rightarrow> nat" where
  "apply_to_u64_ceil bp amount = as_u 64 ((wrapping_mul 128 amount bp + 9999) div 10000)"

text \<open>Signed division of the language truncates; the product fits 128 bits for every \<open>i64\<close> amount.\<close>

definition apply_to_i64 :: "basis_points \<Rightarrow> int \<Rightarrow> int" where
  "apply_to_i64 bp amount = sgn amount * (\<bar>amount\<bar> * int bp div 10000)"

definition checked_apply_to_u64_as_i64 :: "basis_points \<Rightarrow> nat \<Rightarrow> nat option" where
  "checked_apply_to_u64_as_i64 bp amount =
     (let result = wrapping_mul 128 amount bp div 10000
      in if 2 ^ 63 - 1 < result then None else Some result)"

definition from_ratio :: "nat \<Rightarrow> nat \<Rightarrow> basis_points option" where
  "from_ratio numerator denominator =
     (if denominator = 0 then None
      else let result = wrapping_mul 128 numerator 10000 div denominator
           in if 10000 < result then None else Some result)"

definition basis_points_to_f64 :: "basis_points \<Rightarrow> f64" where
  "basis_points_to_f64 bp = f_div (f_of_nat bp) (F_Num 10000)"

section \<open>Comparison and precision\<close>

datatype ordering = Less | Equal | Greater

definition partial_cmp :: "f64 \<Rightarrow> f64 \<Rightarrow> ordering option" where
  "partial_cmp a b =
     (if f_lt a b then Some Less else if f_eq a b then Some Equal
      else if f_lt b a then Some Greater else None)"

definition safe_cmp_f64 :: "f64 \<Rightarrow> f64 \<Rightarrow> ordering" where
  "safe_cmp_f64 a b =
     (case (f_is_nan a, f_is_nan b) of
        (True, True) \<Rightarrow> Equal
      | (True, False) \<Rightarrow> Less
      | (False, True) \<Rightarrow> Greater
      | (False, False) \<Rightarrow> unwrap_or Equal (partial_cmp a b))"

definition round_to_precision :: "f64 \<Rightarrow> nat \<Rightarrow> f64" where
  "round_to_precision value decimals =
     (if \<not> f_is_finite value then value
      else let multiplier = f_of_nat (10 ^ decimals)
           in f_div (f_round (f_mul value multiplier)) multiplier)"

section \<open>Properties\<close>

text \<open>The rounding of an exact value that a mode stands for.\<close>

definition round_mode :: "rounding \<Rightarrow> rat \<Rightarrow> int" where
  "round_mode mode q =
     (case mode of RoundUp \<Rightarrow> \<lceil>q\<rceil> | RoundDown \<Rightarrow> \<lfloor>q\<rfloor> | RoundNearest \<Rightarrow> \<lfloor>q + 1 / 2\<rfloor>)"

lemma floor_half [simp]: "\<lfloor>1 / 2 :: rat\<rfloor> = 0"
  by (simp add: floor_eq_iff)

lemma f_lt_zero: "f_is_finite v \<Longrightarrow> f_lt v (F_Zero s) \<longleftrightarrow> f_val v < 0"
  by (cases v) auto

lemma to_sats_eq:
  assumes "f_is_finite v" and "0 \<le> f_val v"
  shows "to_sats v mode =
    (if round_mode mode (f_val v) < 2 ^ 64 then Inr (nat (round_mode mode (f_val v))) else Inl (Overflow v))"
proof -
  let ?r = "case mode of RoundUp \<Rightarrow> f_ceil v | RoundDown \<Rightarrow> f_floor v | RoundNearest \<Rightarrow> f_round v"
  let ?n = "round_mode mode (f_val v)"
  have n: "0 \<le> ?n" using assms(2) by (cases mode) (simp_all add: round_mode_def)
  have r: "(\<exists>s. ?r = F_Zero s \<and> ?n = 0) \<or> (?r = F_Num (of_int ?n) \<and> ?n \<noteq> 0)"
    using assms by (cases v; cases mode) (auto simp: round_mode_def Let_def)
  have "f_le U64_MAX_F64_BOUND ?r \<longleftrightarrow> 2 ^ 64 \<le> ?n"
    using r by (auto simp: f_le_def U64_MAX_F64_BOUND_def)
  moreover have "f_to_u64 ?r = nat ?n" if "?n < 2 ^ 64"
    using r n that by (auto simp: f_to_u64_def)
  ultimately show ?thesis
    using assms by (simp add: to_sats_def f_lt_zero Let_def)
qed

lemma to_sats_ok:
  assumes "to_sats v mode = Inr n"
  shows "f_is_finite v" and "0 \<le> f_val v" and "n = nat (round_mode mode (f_val v))" and "n < 2 ^ 64"
proof -
  show v: "f_is_finite v" "0 \<le> f_val v"
    using assms f_lt_zero [of v False] by (auto simp: to_sats_def split: if_splits)
  show "n = nat (round_mode mode (f_val v))" "n < 2 ^ 64"
    using assms to_sats_eq [OF v, of mode] by (auto split: if_splits)
qed

lemma round_mode_le: "q \<le> of_nat n \<Longrightarrow> round_mode mode q \<le> int n"
  by (cases mode) (auto simp: round_mode_def ceiling_le_iff floor_le_iff)

lemma round_mode_error: "\<bar>of_int (round_mode mode q) - q\<bar> < 1"
  by (cases mode) (simp_all add: round_mode_def; linarith)+

lemma apply_to_u64_eq:
  assumes "amount < 2 ^ 64" and "bp \<le> BASIS_POINTS_MAX"
  shows "apply_to_u64 bp amount = amount * bp div 10000"
    and "apply_to_u64_ceil bp amount = (amount * bp + 9999) div 10000"
proof -
  have le: "amount * bp \<le> amount * 10000"
    using assms(2) by (simp add: BASIS_POINTS_MAX_def)
  also have "\<dots> < 2 ^ 128" using assms(1) by simp
  finally have w: "wrapping_mul 128 amount bp = amount * bp" by simp
  have "amount * bp div 10000 \<le> amount" using div_le_mono [OF le, of 10000] by simp
  moreover have "(amount * bp + 9999) div 10000 \<le> amount"
    using div_le_mono [OF add_le_mono1 [OF le, of 9999], of 10000] by simp
  moreover note assms(1)
  ultimately have small: "amount * bp div 10000 < 2 ^ 64" "(amount * bp + 9999) div 10000 < 2 ^ 64"
    by linarith+
  then show "apply_to_u64 bp amount = amount * bp div 10000"
    and "apply_to_u64_ceil bp amount = (amount * bp + 9999) div 10000"
    using small unfolding apply_to_u64_def apply_to_u64_ceil_def w by simp_all
qed

end
