(* ===== verification/Votes.thy ===== *)
theory Votes
  imports DecisionDb Transactions SafeMath "HOL-Library.Multiset"
begin

text \<open>
  Votes, ballots and reputation: the types of \<open>lib/state/voting/types.rs\<close>, the databases of
  \<open>lib/state/voting/database.rs\<close> and \<open>lib/state/reputation.rs\<close>, the checks of
  \<open>lib/validation/vote.rs\<close> and the application and reversal of vote, ballot and reputation-transfer
  transactions in \<open>lib/state/block.rs\<close>.

  A voting period identifier is its number. The vote table is ordered by the bytes of its keys,
  which start with the little-endian period; \<open>le_rank32\<close> is the rank of a period in that order. A
  hash map that is only read by key is a store. Log messages are left out.
\<close>

section \<open>Types\<close>

datatype vote_value =
    BinaryVote bool
  | ScalarVote f64
  | CategoricalVote nat
  | AbstainVote

fun to_float_opt :: "vote_value \<Rightarrow> f64 option" where
  "to_float_opt (BinaryVote b) = Some (if b then F_Num 1 else F_Zero False)"
| "to_float_opt (ScalarVote v) = Some v"
| "to_float_opt (CategoricalVote idx) = Some (f_of_nat idx)"
| "to_float_opt AbstainVote = None"

fun is_abstain :: "vote_value \<Rightarrow> bool" where
  "is_abstain AbstainVote = True"
| "is_abstain _ = False"

record vote =
  voter_address :: address
  vote_period :: nat
  vote_decision :: decision_id
  vote_value_of :: vote_value
  vote_timestamp :: nat
  vote_height :: nat
  vote_tx_hash :: hash

type_synonym vote_key = "nat \<times> address \<times> decision_id"

record vote_entry =
  entry_value :: vote_value
  entry_timestamp :: nat
  entry_height :: nat

record ballot =
  ballot_period :: nat
  ballot_votes :: "vote list"
  ballot_created_at :: nat
  ballot_height :: nat

datatype resolution_status =
    ResolutionPending | AwaitingResolution | ResolutionResolved | Defaulted | ResolutionCancelled

record decision_resolution =
  res_decision :: decision_id
  res_period :: nat
  res_status :: resolution_status
  res_changed_at :: nat
  res_changed_height :: nat
  res_vote_count :: nat
  res_min_votes :: nat
  res_deadline :: nat
  res_outcome_ready :: bool
  res_reason :: "string option"

definition decision_resolution_new ::
    "decision_id \<Rightarrow> nat \<Rightarrow> nat \<Rightarrow> nat \<Rightarrow> nat \<Rightarrow> nat \<Rightarrow> decision_resolution" where
  "decision_resolution_new d period deadline min_votes ts height =
     \<lparr> res_decision = d, res_period = period, res_status = ResolutionPending, res_changed_at = ts,
       res_changed_height = height, res_vote_count = 0, res_min_votes = min_votes,
       res_deadline = deadline, res_outcome_ready = False, res_reason = None \<rparr>"

definition mark_outcome_ready :: "decision_resolution \<Rightarrow> decision_resolution" where
  "mark_outcome_ready r = r \<lparr> res_outcome_ready := True \<rparr>"

record decision_outcome =
  out_decision :: decision_id
  out_period :: nat
  out_value :: f64
  out_min :: f64
  out_max :: f64
  out_confidence :: f64
  out_total_votes :: nat
  out_total_weight :: f64
  out_finalized_at :: nat
  out_height :: nat
  out_is_consensus :: bool
  out_resolution :: decision_resolution
  out_categorical_winner :: "nat option option"

text \<open>\<open>f64::clamp\<close> to the unit interval; NaN passes through.\<close>

definition f_clamp_unit :: "f64 \<Rightarrow> f64" where
  "f_clamp_unit x =
     (if f_lt x (F_Zero False) then F_Zero False else if f_lt (F_Num 1) x then F_Num 1 else x)"

definition decision_outcome_new ::
    "decision_id \<Rightarrow> nat \<Rightarrow> f64 \<Rightarrow> f64 \<Rightarrow> f64 \<Rightarrow> f64 \<Rightarrow> nat \<Rightarrow> f64 \<Rightarrow> nat \<Rightarrow> nat \<Rightarrow> bool
       \<Rightarrow> decision_resolution \<Rightarrow> nat option option \<Rightarrow> decision_outcome" where
  "decision_outcome_new d period v mn mx conf votes wt at_ts height cons res winner =
     \<lparr> out_decision = d, out_period = period, out_value = v, out_min = mn, out_max = mx,
       out_confidence = f_clamp_unit conf, out_total_votes = votes, out_total_weight = wt,
       out_finalized_at = at_ts, out_height = height, out_is_consensus = cons,
       out_resolution = res, out_categorical_winner = winner \<rparr>"

record period_stats =
  ps_period :: nat
  ps_total_voters :: nat
  ps_total_votes :: nat
  ps_total_decisions :: nat
  ps_participation :: f64
  ps_total_weight :: f64
  ps_consensus_decisions :: nat
  ps_calculated_at :: nat
  ps_first_loading :: "f64 list option"
  ps_certainty :: "f64 option"
  ps_reputation_changes :: "(address, f64 \<times> f64) db option"

definition period_stats_new :: "nat \<Rightarrow> nat \<Rightarrow> period_stats" where
  "period_stats_new period at_ts =
     \<lparr> ps_period = period, ps_total_voters = 0, ps_total_votes = 0, ps_total_decisions = 0,
       ps_participation = F_Zero False, ps_total_weight = F_Zero False, ps_consensus_decisions = 0,
       ps_calculated_at = at_ts, ps_first_loading = None, ps_certainty = None,
       ps_reputation_changes = None \<rparr>"

section \<open>Voting databases\<close>

record voting_dbs =
  votes :: "(vote_key, vote_entry) db"
  ballots :: "(nat \<times> nat, ballot) db"
  decision_outcomes :: "(decision_id, decision_outcome) db"
  period_stats_db :: "(nat, period_stats) db"

definition voting_dbs_new :: voting_dbs where
  "voting_dbs_new = \<lparr> votes = db_empty, ballots = db_empty, decision_outcomes = db_empty,
     period_stats_db = db_empty \<rparr>"

definition vote_key_of :: "vote \<Rightarrow> vote_key" where
  "vote_key_of v = (vote_period v, voter_address v, vote_decision v)"

definition put_vote :: "vote \<Rightarrow> voting_dbs \<Rightarrow> voting_dbs" where
  "put_vote v dbs =
     dbs \<lparr> votes := db_put (votes dbs) (vote_key_of v)
              \<lparr> entry_value = vote_value_of v, entry_timestamp = vote_timestamp v,
                entry_height = vote_height v \<rparr> \<rparr>"

definition get_vote :: "nat \<Rightarrow> address \<Rightarrow> decision_id \<Rightarrow> voting_dbs \<Rightarrow> vote_entry option" where
  "get_vote period voter d dbs = db_get (votes dbs) (period, voter, d)"

text \<open>The rank of a period among its four-byte little-endian encodings, compared byte by byte.\<close>

definition le_rank32 :: "nat \<Rightarrow> nat" where
  "le_rank32 k = foldl (\<lambda>acc i. acc * 256 + k div 256 ^ i mod 256) 0 [0..<4]"

definition votes_listed :: "voting_dbs \<Rightarrow> (vote_key \<times> vote_entry) list" where
  "votes_listed dbs = sort_key (\<lambda>e. le_rank32 (fst (fst e))) (db_entries (votes dbs))"

fun scan_period ::
    "nat \<Rightarrow> (vote_key \<times> vote_entry) list \<Rightarrow> (vote_key, vote_entry) db \<Rightarrow> (vote_key, vote_entry) db" where
  "scan_period period [] acc = acc"
| "scan_period period ((key, entry) # rest) acc =
     (if fst key < period then scan_period period rest acc
      else if fst key = period then scan_period period rest (db_put acc key entry)
      else acc)"

definition get_votes_for_period :: "nat \<Rightarrow> voting_dbs \<Rightarrow> (vote_key, vote_entry) db" where
  "get_votes_for_period period dbs = scan_period period (votes_listed dbs) db_empty"

definition filter_votes ::
    "(vote_key \<Rightarrow> bool) \<Rightarrow> voting_dbs \<Rightarrow> (vote_key, vote_entry) db" where
  "filter_votes P dbs = db_put_all (filter (\<lambda>e. P (fst e)) (db_entries (votes dbs))) db_empty"

definition get_votes_by_voter :: "address \<Rightarrow> voting_dbs \<Rightarrow> (vote_key, vote_entry) db" where
  "get_votes_by_voter voter dbs = filter_votes (\<lambda>k. fst (snd k) = voter) dbs"

definition get_votes_for_decision :: "decision_id \<Rightarrow> voting_dbs \<Rightarrow> (vote_key, vote_entry) db" where
  "get_votes_for_decision d dbs = filter_votes (\<lambda>k. snd (snd k) = d) dbs"

definition delete_vote :: "nat \<Rightarrow> address \<Rightarrow> decision_id \<Rightarrow> voting_dbs \<Rightarrow> voting_dbs" where
  "delete_vote period voter d dbs = dbs \<lparr> votes := db_delete (votes dbs) (period, voter, d) \<rparr>"

definition put_ballot :: "ballot \<Rightarrow> nat \<Rightarrow> voting_dbs \<Rightarrow> voting_dbs" where
  "put_ballot b idx dbs = dbs \<lparr> ballots := db_put (ballots dbs) (ballot_period b, idx) b \<rparr>"

definition get_ballot :: "nat \<Rightarrow> nat \<Rightarrow> voting_dbs \<Rightarrow> ballot option" where
  "get_ballot period idx dbs = db_get (ballots dbs) (period, idx)"

definition get_ballots_for_period :: "nat \<Rightarrow> voting_dbs \<Rightarrow> ballot list" where
  "get_ballots_for_period period dbs =
     sort_key ballot_created_at
       (map snd (filter (\<lambda>e. fst (fst e) = period) (db_entries (ballots dbs))))"

definition put_decision_outcome :: "decision_outcome \<Rightarrow> voting_dbs \<Rightarrow> voting_dbs" where
  "put_decision_outcome oc dbs =
     dbs \<lparr> decision_outcomes := db_put (decision_outcomes dbs) (out_decision oc) oc \<rparr>"

definition get_decision_outcome :: "decision_id \<Rightarrow> voting_dbs \<Rightarrow> decision_outcome option" where
  "get_decision_outcome d dbs = db_get (decision_outcomes dbs) d"

definition get_outcomes_for_period :: "nat \<Rightarrow> voting_dbs \<Rightarrow> (decision_id, decision_outcome) db" where
  "get_outcomes_for_period period dbs =
     (let target = saturating_sub period 1
      in db_put_all (filter (\<lambda>e. period_index (fst e) = target \<and> out_period (snd e) = period)
           (db_entries (decision_outcomes dbs))) db_empty)"

definition put_period_stats :: "period_stats \<Rightarrow> voting_dbs \<Rightarrow> voting_dbs" where
  "put_period_stats st dbs =
     dbs \<lparr> period_stats_db := db_put (period_stats_db dbs) (ps_period st) st \<rparr>"

definition get_period_stats :: "nat \<Rightarrow> voting_dbs \<Rightarrow> period_stats option" where
  "get_period_stats period dbs = db_get (period_stats_db dbs) period"

definition count_total_votes :: "voting_dbs \<Rightarrow> nat" where
  "count_total_votes dbs = length (db_entries (votes dbs))"

definition get_all_voters :: "voting_dbs \<Rightarrow> address oset" where
  "get_all_voters dbs = oset_of_list (map (\<lambda>e. fst (snd (fst e))) (db_entries (votes dbs)))"

definition get_consensus_outcome :: "decision_id \<Rightarrow> voting_dbs \<Rightarrow> f64 option" where
  "get_consensus_outcome d dbs = map_option out_value (db_get (decision_outcomes dbs) d)"

definition get_consensus_outcomes_for_period :: "nat \<Rightarrow> voting_dbs \<Rightarrow> (decision_id, f64) db" where
  "get_consensus_outcomes_for_period period dbs =
     (let target = saturating_sub period 1
      in db_put_all (map (\<lambda>e. (fst e, out_value (snd e)))
           (filter (\<lambda>e. period_index (fst e) = target \<and> out_period (snd e) = period)
             (db_entries (decision_outcomes dbs)))) db_empty)"

definition has_consensus :: "nat \<Rightarrow> voting_dbs \<Rightarrow> bool" where
  "has_consensus period dbs = db_contains (period_stats_db dbs) period"

definition delete_decision_outcome :: "decision_id \<Rightarrow> voting_dbs \<Rightarrow> voting_dbs" where
  "delete_decision_outcome d dbs =
     dbs \<lparr> decision_outcomes := db_delete (decision_outcomes dbs) d \<rparr>"

definition delete_period_stats :: "nat \<Rightarrow> voting_dbs \<Rightarrow> voting_dbs" where
  "delete_period_stats period dbs = dbs \<lparr> period_stats_db := db_delete (period_stats_db dbs) period \<rparr>"

section \<open>Reputation\<close>

type_synonym reputation_dbs = "(address, f64) db"

definition get_reputation :: "address \<Rightarrow> reputation_dbs \<Rightarrow> f64" where
  "get_reputation a rep = unwrap_or (F_Zero False) (db_get rep a)"

definition get_all_reputations :: "reputation_dbs \<Rightarrow> (address, f64) db" where
  "get_all_reputations rep =
     db_put_all (filter (\<lambda>e. f_lt (F_Zero False) (snd e)) (db_entries rep)) db_empty"

definition set_reputation :: "address \<Rightarrow> f64 \<Rightarrow> reputation_dbs \<Rightarrow> reputation_dbs" where
  "set_reputation a r rep = (if f_le r (F_Zero False) then db_delete rep a else db_put rep a r)"

definition delete_reputation :: "address \<Rightarrow> reputation_dbs \<Rightarrow> reputation_dbs" where
  "delete_reputation a rep = db_delete rep a"

definition clear_and_restore :: "(address, f64) db \<Rightarrow> reputation_dbs \<Rightarrow> reputation_dbs" where
  "clear_and_restore snapshot rep =
     db_put_all (filter (\<lambda>e. f_lt (F_Zero False) (snd e)) (db_entries snapshot)) db_empty"

definition count_holders :: "reputation_dbs \<Rightarrow> nat" where
  "count_holders rep = length (filter (\<lambda>e. f_lt (F_Zero False) (snd e)) (db_entries rep))"

section \<open>Validation\<close>

record vote_state =
  vs_decisions :: decisions_dbs
  vs_voting :: voting_dbs
  vs_reputation :: reputation_dbs
  vs_transfer_undo :: "(nat, (address \<times> f64 \<times> address \<times> f64) list) db"
  vs_timestamp :: "nat option"

definition convert_vote_value_with_decision :: "f64 \<Rightarrow> decision option \<Rightarrow> vote_value" where
  "convert_vote_value_with_decision v d =
     (if f_is_nan v then AbstainVote
      else if (case d of Some dec \<Rightarrow> is_categorical dec | None \<Rightarrow> False)
      then CategoricalVote (min (f_to_u64 (f_round v)) (2 ^ 16 - 1))
      else if f_eq v (F_Zero False) \<or> f_eq v (F_Num 1) then BinaryVote (f_eq v (F_Num 1))
      else ScalarVote v)"

definition convert_vote_value :: "f64 \<Rightarrow> vote_value" where
  "convert_vote_value v = convert_vote_value_with_decision v None"

definition validate_voter_eligibility :: "address \<Rightarrow> vote_state \<Rightarrow> (error, unit) result" where
  "validate_voter_eligibility voter s =
     ensure (\<not> f_le (get_reputation voter (vs_reputation s)) (F_Zero False))
       (InvalidTransaction ''Voter has no reputation (voting rights)'')"

definition validate_decision_entry :: "decision_id \<Rightarrow> vote_state \<Rightarrow> (error, decision) result" where
  "validate_decision_entry d s =
     rbind (ok_or (get_decision_entry (vs_decisions s) d) (InvalidDecisionId ''Decision does not exist'')) (\<lambda>e.
     ok_or (entry_decision e) (InvalidDecisionId ''Decision has no decision''))"

definition validate_normalized_vote :: "decision \<Rightarrow> f64 \<Rightarrow> (error, unit) result" where
  "validate_normalized_vote dec v =
     (if f_is_nan v then Inr ()
      else if is_categorical dec
      then
        (let max_idx = f_of_nat (unwrap_or 0 (option_count dec));
             idx = f_to_u64 v
         in ensure (f_le (F_Zero False) v \<and> f_eq v (f_of_nat idx) \<and> f_le v max_idx)
              (InvalidTransaction ''Categorical vote value must be an integer index''))
      else ensure (f_le (F_Zero False) v \<and> f_le v (F_Num 1))
             (InvalidTransaction ''Vote value outside valid normalized range [0.0, 1.0]''))"

definition validate_voting_period :: "decision_id \<Rightarrow> vote_state \<Rightarrow> (error, unit) result" where
  "validate_voting_period d s =
     ensure (is_decision_in_voting (vs_decisions s) d) (InvalidTransaction ''Decision is not in voting period'')"

definition validate_no_duplicate_vote ::
    "address \<Rightarrow> nat \<Rightarrow> decision_id \<Rightarrow> vote_state \<Rightarrow> (error, unit) result" where
  "validate_no_duplicate_vote voter period d s =
     ensure (get_vote period voter d (vs_voting s) = None)
       (InvalidTransaction ''Duplicate vote: voter already voted on this decision in this period'')"

definition has_voter_proof :: "address \<Rightarrow> filled_transaction \<Rightarrow> bool" where
  "has_voter_proof voter ftx \<longleftrightarrow>
     list_ex (\<lambda>u. fo_address u = voter) (ft_spent_utxos ftx) \<or> ft_actor_address ftx = Some voter"

definition submit_vote :: "filled_transaction \<Rightarrow> (address \<times> (8 word \<times> 8 word \<times> 8 word) \<times> f64 \<times> nat) option" where
  "submit_vote ftx =
     (case t_data (ft_transaction ftx) of
        Some (SubmitVote voter d v period) \<Rightarrow> Some (voter, d, v, period) | _ \<Rightarrow> None)"

definition submit_ballot ::
    "filled_transaction \<Rightarrow> (address \<times> ((8 word \<times> 8 word \<times> 8 word) \<times> f64) list \<times> nat) option" where
  "submit_ballot ftx =
     (case t_data (ft_transaction ftx) of
        Some (SubmitBallot voter vs period) \<Rightarrow> Some (voter, vs, period) | _ \<Rightarrow> None)"

definition transfer_reputation :: "filled_transaction \<Rightarrow> (address \<times> address \<times> f64) option" where
  "transfer_reputation ftx =
     (case t_data (ft_transaction ftx) of
        Some (TransferReputation sender dest amount) \<Rightarrow> Some (sender, dest, amount) | _ \<Rightarrow> None)"

fun decision_from_bytes :: "8 word \<times> 8 word \<times> 8 word \<Rightarrow> (error, decision_id) result" where
  "decision_from_bytes (a, b, c) = from_bytes a b c"

definition validate_vote_item ::
    "address \<Rightarrow> decision_id \<Rightarrow> f64 \<Rightarrow> vote_state \<Rightarrow> (error, unit) result" where
  "validate_vote_item voter d v s =
     rbind (validate_decision_entry d s) (\<lambda>dec.
     rbind (validate_normalized_vote dec v) (\<lambda>_.
     rbind (validate_voting_period d s) (\<lambda>_.
     validate_no_duplicate_vote voter (voting_period d) d s)))"

definition validate_vote_submission :: "filled_transaction \<Rightarrow> vote_state \<Rightarrow> (error, unit) result" where
  "validate_vote_submission ftx s =
     rbind (ok_or (submit_vote ftx) (InvalidTransaction ''Not a vote submission transaction'')) (\<lambda>(voter, bytes, v, _).
     if \<not> has_voter_proof voter ftx then Inl (InvalidTransaction ''No proof of voter identity'')
     else
       rbind (validate_voter_eligibility voter s) (\<lambda>_.
       rbind (decision_from_bytes bytes) (\<lambda>d. validate_vote_item voter d v s)))"

definition validate_ballot_item ::
    "address \<Rightarrow> vote_state \<Rightarrow> (8 word \<times> 8 word \<times> 8 word) \<times> f64 \<Rightarrow> (nat \<times> decision_id) list
       \<Rightarrow> (error, (nat \<times> decision_id) list) result" where
  "validate_ballot_item voter s item seen_votes =
     rbind (decision_from_bytes (fst item)) (\<lambda>d.
     if (voting_period d, d) \<in> set seen_votes
     then Inl (InvalidTransaction ''Ballot item: duplicate vote'')
     else
       rbind (validate_vote_item voter d (snd item) s) (\<lambda>_. Inr ((voting_period d, d) # seen_votes)))"

definition validate_ballot :: "filled_transaction \<Rightarrow> vote_state \<Rightarrow> (error, unit) result" where
  "validate_ballot ftx s =
     rbind (ok_or (submit_ballot ftx) (InvalidTransaction ''Not a ballot submission transaction'')) (\<lambda>(voter, items, _).
     if \<not> has_voter_proof voter ftx then Inl (InvalidTransaction ''No proof of voter identity'')
     else
       rbind (validate_voter_eligibility voter s) (\<lambda>_.
       rbind (try_fold (validate_ballot_item voter s) items []) (\<lambda>_. Inr ())))"

definition REPUTATION_PRECISION_DECIMALS :: nat where "REPUTATION_PRECISION_DECIMALS = 10"

definition round_reputation :: "f64 \<Rightarrow> f64" where
  "round_reputation v = round_to_precision v REPUTATION_PRECISION_DECIMALS"

definition validate_reputation_transfer :: "filled_transaction \<Rightarrow> vote_state \<Rightarrow> (error, unit) result" where
  "validate_reputation_transfer ftx s =
     rbind (ok_or (transfer_reputation ftx) (InvalidTransaction ''Not a reputation transfer transaction'')) (\<lambda>(sender, dest, amount).
     if \<not> list_ex (\<lambda>u. fo_address u = sender) (ft_spent_utxos ftx)
     then Inl (InvalidTransaction ''Reputation transfer must spend a Bitcoin UTXO owned by the sender'')
     else if f_le amount (F_Zero False) then Inl (InvalidTransaction ''Transfer amount must be positive'')
     else if \<not> f_is_finite amount then Inl (InvalidTransaction ''Transfer amount must be a finite number'')
     else if \<not> f_eq amount (round_reputation amount)
     then Inl (InvalidTransaction ''Transfer amount exceeds reputation precision'')
     else if sender = dest then Inl (InvalidTransaction ''Cannot transfer reputation to self'')
     else if f_lt (get_reputation sender (vs_reputation s)) amount
     then Inl (InvalidTransaction ''Insufficient reputation'')
     else Inr ())"

section \<open>Application\<close>

text \<open>Submitted votes are collected in a pending list and stored at the end of the block.\<close>

definition vote_of ::
    "vote_state \<Rightarrow> nat \<Rightarrow> txid \<Rightarrow> address \<Rightarrow> decision_id \<Rightarrow> f64 \<Rightarrow> nat \<Rightarrow> vote" where
  "vote_of s height txid voter d v timestamp =
     \<lparr> voter_address = voter, vote_period = voting_period d, vote_decision = d,
       vote_value_of = convert_vote_value_with_decision v
         (Option.bind (get_decision_entry (vs_decisions s) d) entry_decision),
       vote_timestamp = timestamp, vote_height = height, vote_tx_hash = txid \<rparr>"

definition apply_submit_vote ::
    "(transaction \<Rightarrow> txid) \<Rightarrow> filled_transaction \<Rightarrow> nat \<Rightarrow> vote_state \<Rightarrow> vote list \<Rightarrow> (error, vote list) result" where
  "apply_submit_vote txid_of ftx height s pending =
     rbind (ok_or (submit_vote ftx) (InvalidTransaction ''Not a vote submission transaction'')) (\<lambda>(voter, bytes, v, period).
     rbind (decision_from_bytes bytes) (\<lambda>d.
     if period \<noteq> voting_period d then Inl (InvalidTransaction ''Vote period mismatch'')
     else
       rbind (ok_or (vs_timestamp s) (InvalidTransaction ''No mainchain timestamp available'')) (\<lambda>ts.
       Inr (pending @ [vote_of s height (txid_of (ft_transaction ftx)) voter d v ts]))))"

definition apply_ballot_item ::
    "vote_state \<Rightarrow> nat \<Rightarrow> txid \<Rightarrow> address \<Rightarrow> nat \<Rightarrow> nat \<Rightarrow> (8 word \<times> 8 word \<times> 8 word) \<times> f64
       \<Rightarrow> nat option \<times> vote list \<Rightarrow> (error, nat option \<times> vote list) result" where
  "apply_ballot_item s height txid voter period ts item acc =
     rbind (decision_from_bytes (fst item)) (\<lambda>d.
     rbind (case fst acc of
              Some expected \<Rightarrow>
                ensure (voting_period d = expected) (InvalidTransaction ''Ballot period mismatch'')
            | None \<Rightarrow>
                ensure (period = voting_period d) (InvalidTransaction ''Ballot period mismatch'')) (\<lambda>_.
     Inr (Some (unwrap_or (voting_period d) (fst acc)),
          snd acc @ [vote_of s height txid voter d (snd item) ts])))"

definition apply_submit_ballot ::
    "(transaction \<Rightarrow> txid) \<Rightarrow> filled_transaction \<Rightarrow> nat \<Rightarrow> vote_state \<Rightarrow> vote list \<Rightarrow> (error, vote list) result" where
  "apply_submit_ballot txid_of ftx height s pending =
     rbind (ok_or (submit_ballot ftx) (InvalidTransaction ''Not a ballot submission transaction'')) (\<lambda>(voter, items, period).
     rbind (ok_or (vs_timestamp s) (InvalidTransaction ''No mainchain timestamp available'')) (\<lambda>ts.
     rbind (try_fold (apply_ballot_item s height (txid_of (ft_transaction ftx)) voter period ts) items (None, pending)) (\<lambda>acc.
     Inr (snd acc))))"

definition store_votes :: "vote list \<Rightarrow> vote_state \<Rightarrow> vote_state" where
  "store_votes pending s = s \<lparr> vs_voting := fold put_vote pending (vs_voting s) \<rparr>"

definition revert_submit_vote :: "filled_transaction \<Rightarrow> vote_state \<Rightarrow> (error, vote_state) result" where
  "revert_submit_vote ftx s =
     rbind (ok_or (submit_vote ftx) (InvalidTransaction ''Not a vote submission transaction'')) (\<lambda>(voter, bytes, _, _).
     rbind (decision_from_bytes bytes) (\<lambda>d.
     Inr (s \<lparr> vs_voting := delete_vote (voting_period d) voter d (vs_voting s) \<rparr>)))"

definition revert_submit_ballot :: "filled_transaction \<Rightarrow> vote_state \<Rightarrow> (error, vote_state) result" where
  "revert_submit_ballot ftx s =
     rbind (ok_or (submit_ballot ftx) (InvalidTransaction ''Not a ballot submission transaction'')) (\<lambda>(voter, items, _).
     try_fold (\<lambda>item s. rbind (decision_from_bytes (fst item)) (\<lambda>d.
         Inr (s \<lparr> vs_voting := delete_vote (voting_period d) voter d (vs_voting s) \<rparr>))) items s)"

definition apply_transfer_reputation ::
    "filled_transaction \<Rightarrow> nat \<Rightarrow> vote_state \<Rightarrow> (error, vote_state) result" where
  "apply_transfer_reputation ftx height s =
     rbind (ok_or (transfer_reputation ftx) (InvalidTransaction ''Not a reputation transfer transaction'')) (\<lambda>(sender, dest, amount).
     let sender_rep = get_reputation sender (vs_reputation s) in
     if f_lt sender_rep amount then Inl (InvalidTransaction ''Insufficient reputation at apply'')
     else
       (let receiver_rep = get_reputation dest (vs_reputation s);
            undo = unwrap_or [] (db_get (vs_transfer_undo s) height)
        in Inr (s \<lparr> vs_transfer_undo := db_put (vs_transfer_undo s) height
                      (undo @ [(sender, sender_rep, dest, receiver_rep)]),
                    vs_reputation := set_reputation dest (f_add receiver_rep amount)
                      (set_reputation sender (f_sub sender_rep amount) (vs_reputation s)) \<rparr>)))"

definition revert_reputation_transfers :: "nat \<Rightarrow> vote_state \<Rightarrow> vote_state" where
  "revert_reputation_transfers height s =
     (case db_get (vs_transfer_undo s) height of
        None \<Rightarrow> s
      | Some entries \<Rightarrow>
          s \<lparr> vs_reputation := fold (\<lambda>(sender, sender_pre, receiver, receiver_pre) rep.
                 set_reputation receiver receiver_pre (set_reputation sender sender_pre rep))
                 (rev entries) (vs_reputation s),
              vs_transfer_undo := db_delete (vs_transfer_undo s) height \<rparr>)"

section \<open>Transfers can be undone\<close>

text \<open>The reputation table never holds a value that is zero or negative.\<close>

definition rep_ok :: "reputation_dbs \<Rightarrow> bool" where
  "rep_ok rep \<longleftrightarrow> (\<forall>a r. db_get rep a = Some r \<longrightarrow> \<not> f_le r (F_Zero False))"

lemma rep_ok_set: "rep_ok rep \<Longrightarrow> rep_ok (set_reputation a r rep)"
  by (auto simp: rep_ok_def set_reputation_def split: if_splits)

lemma db_get_set_reputation:
  "db_get (set_reputation a r rep) b =
     (if b = a then (if f_le r (F_Zero False) then None else Some r) else db_get rep b)"
  by (simp add: set_reputation_def)

lemma stored_reputation:
  "rep_ok rep \<Longrightarrow> db_get rep a =
     (if f_le (get_reputation a rep) (F_Zero False) then None else Some (get_reputation a rep))"
  by (cases "db_get rep a") (auto simp: rep_ok_def get_reputation_def f_le_def)

lemma restore_reputation:
  assumes "rep_ok rep" and "\<And>c. c \<noteq> a \<Longrightarrow> c \<noteq> b \<Longrightarrow> db_get rep' c = db_get rep c"
  shows "set_reputation b (get_reputation b rep) (set_reputation a (get_reputation a rep) rep') = rep"
  using assms(2) stored_reputation [OF assms(1)] by (intro db_ext) (simp add: db_get_set_reputation)

definition undo_transfers ::
    "(address \<times> f64 \<times> address \<times> f64) list \<Rightarrow> reputation_dbs \<Rightarrow> reputation_dbs" where
  "undo_transfers entries rep =
     fold (\<lambda>(sender, sender_pre, receiver, receiver_pre) rep.
       set_reputation receiver receiver_pre (set_reputation sender sender_pre rep)) (rev entries) rep"

lemma apply_transfer_step:
  assumes "rep_ok (vs_reputation s)" and "apply_transfer_reputation ftx height s = Inr s'"
  obtains e where "vs_transfer_undo s' = db_put (vs_transfer_undo s) height
      (unwrap_or [] (db_get (vs_transfer_undo s) height) @ [e])"
    and "undo_transfers [e] (vs_reputation s') = vs_reputation s" and "rep_ok (vs_reputation s')"
    and "s' = s \<lparr> vs_transfer_undo := vs_transfer_undo s', vs_reputation := vs_reputation s' \<rparr>"
proof -
  let ?rep = "vs_reputation s"
  obtain sender dest amount where t: "transfer_reputation ftx = Some (sender, dest, amount)"
    using assms(2) by (auto simp: apply_transfer_reputation_def)
  let ?e = "(sender, get_reputation sender ?rep, dest, get_reputation dest ?rep)"
  let ?rep' = "set_reputation dest (f_add (get_reputation dest ?rep) amount)
      (set_reputation sender (f_sub (get_reputation sender ?rep) amount) ?rep)"
  have s': "s' = s \<lparr> vs_transfer_undo := db_put (vs_transfer_undo s) height
      (unwrap_or [] (db_get (vs_transfer_undo s) height) @ [?e]), vs_reputation := ?rep' \<rparr>"
    using assms(2) t by (auto simp: apply_transfer_reputation_def Let_def split: if_splits)
  show thesis
  proof (rule that [of ?e])
    show "undo_transfers [?e] (vs_reputation s') = ?rep"
      unfolding s' by (simp add: undo_transfers_def)
        (rule restore_reputation [OF assms(1)], simp add: db_get_set_reputation)
    show "rep_ok (vs_reputation s')" unfolding s' by (simp add: rep_ok_set assms(1))
  qed (simp_all add: s')
qed

lemma transfers_log:
  assumes "rep_ok (vs_reputation s)" and "ftxs \<noteq> []"
    and "try_fold (\<lambda>ftx. apply_transfer_reputation ftx height) ftxs s = Inr s'"
  shows "\<exists>es. vs_transfer_undo s' = db_put (vs_transfer_undo s) height
      (unwrap_or [] (db_get (vs_transfer_undo s) height) @ es)
    \<and> undo_transfers es (vs_reputation s') = vs_reputation s
    \<and> s' = s \<lparr> vs_transfer_undo := vs_transfer_undo s', vs_reputation := vs_reputation s' \<rparr>"
  using assms
proof (induction ftxs arbitrary: s)
  case (Cons ftx ftxs)
  from Cons.prems(3) obtain s1 where s1: "apply_transfer_reputation ftx height s = Inr s1"
    and rest: "try_fold (\<lambda>ftx. apply_transfer_reputation ftx height) ftxs s1 = Inr s'" by auto
  obtain e where e: "vs_transfer_undo s1 = db_put (vs_transfer_undo s) height
      (unwrap_or [] (db_get (vs_transfer_undo s) height) @ [e])"
    "undo_transfers [e] (vs_reputation s1) = vs_reputation s" "rep_ok (vs_reputation s1)"
    "s1 = s \<lparr> vs_transfer_undo := vs_transfer_undo s1, vs_reputation := vs_reputation s1 \<rparr>"
    by (rule apply_transfer_step [OF Cons.prems(1) s1])
  show ?case
  proof (cases "ftxs = []")
    case True
    then show ?thesis using rest e(1,2,4) by (intro exI [of _ "[e]"]) simp
  next
    case False
    obtain es where es: "vs_transfer_undo s' = db_put (vs_transfer_undo s1) height
        (unwrap_or [] (db_get (vs_transfer_undo s1) height) @ es)"
      "undo_transfers es (vs_reputation s') = vs_reputation s1"
      "s' = s1 \<lparr> vs_transfer_undo := vs_transfer_undo s', vs_reputation := vs_reputation s' \<rparr>"
      using Cons.IH [OF e(3) False rest] by blast
    have "undo_transfers (e # es) (vs_reputation s') = vs_reputation s"
      using e(2) es(2) by (simp add: undo_transfers_def)
    moreover have "vs_transfer_undo s' = db_put (vs_transfer_undo s) height
        (unwrap_or [] (db_get (vs_transfer_undo s) height) @ e # es)"
      using es(1) e(1) by (simp add: kv.put_put)
    moreover have "s' = s \<lparr> vs_transfer_undo := vs_transfer_undo s', vs_reputation := vs_reputation s' \<rparr>"
      using es(3) e(4) by (cases s; cases s1; cases s') simp
    ultimately show ?thesis by blast
  qed
qed simp

text \<open>
  The reputation transfers of a block are undone exactly: when the table holds no value that
  is zero or negative and the block has no undo record yet, applying any list of transfers and then
  reverting the block's undo record gives back the state, whatever accounts the transfers share.
\<close>

theorem transfers_roundtrip:
  assumes "rep_ok (vs_reputation s)" and "db_get (vs_transfer_undo s) height = None"
    and "try_fold (\<lambda>ftx. apply_transfer_reputation ftx height) ftxs s = Inr s'"
  shows "revert_reputation_transfers height s' = s"
proof (cases "ftxs = []")
  case True
  then show ?thesis using assms(2,3) by (simp add: revert_reputation_transfers_def)
next
  case False
  obtain es where es: "vs_transfer_undo s' = db_put (vs_transfer_undo s) height es"
    "undo_transfers es (vs_reputation s') = vs_reputation s"
    "s' = s \<lparr> vs_transfer_undo := vs_transfer_undo s', vs_reputation := vs_reputation s' \<rparr>"
    using transfers_log [OF assms(1) False assms(3)] assms(2) by auto
  have "revert_reputation_transfers height s' =
      s' \<lparr> vs_reputation := undo_transfers es (vs_reputation s'),
           vs_transfer_undo := db_delete (vs_transfer_undo s') height \<rparr>"
    by (simp add: revert_reputation_transfers_def es(1) undo_transfers_def)
  also have "\<dots> = s"
    using es(3) unfolding es(1,2) kv.delete_put_fresh [OF assms(2)] by (cases s; cases s') simp
  finally show ?thesis .
qed

section \<open>Votes can be undone\<close>

definition vote_tx_keys :: "filled_transaction \<Rightarrow> vote_key list" where
  "vote_tx_keys ftx =
     (case t_data (ft_transaction ftx) of
        Some (SubmitVote voter (a, b, c) _ _) \<Rightarrow> [(voting_period (DecisionId a b c), voter, DecisionId a b c)]
      | Some (SubmitBallot voter items _) \<Rightarrow>
          map (\<lambda>((a, b, c), _). (voting_period (DecisionId a b c), voter, DecisionId a b c)) items
      | _ \<Rightarrow> [])"

text \<open>The arms of the matches in \<open>connect_prevalidated\<close> and \<open>disconnect_tip\<close> for votes and ballots.\<close>

definition validate_vote_tx :: "filled_transaction \<Rightarrow> vote_state \<Rightarrow> (error, unit) result" where
  "validate_vote_tx ftx s =
     (case t_data (ft_transaction ftx) of
        Some (SubmitVote _ _ _ _) \<Rightarrow> validate_vote_submission ftx s
      | Some (SubmitBallot _ _ _) \<Rightarrow> validate_ballot ftx s
      | _ \<Rightarrow> Inr ())"

definition apply_vote_tx ::
    "(transaction \<Rightarrow> txid) \<Rightarrow> nat \<Rightarrow> vote_state \<Rightarrow> filled_transaction \<Rightarrow> vote list \<Rightarrow> (error, vote list) result" where
  "apply_vote_tx txid_of height s ftx pending =
     (case t_data (ft_transaction ftx) of
        Some (SubmitVote _ _ _ _) \<Rightarrow> apply_submit_vote txid_of ftx height s pending
      | Some (SubmitBallot _ _ _) \<Rightarrow> apply_submit_ballot txid_of ftx height s pending
      | _ \<Rightarrow> Inr pending)"

definition revert_vote_tx :: "filled_transaction \<Rightarrow> vote_state \<Rightarrow> (error, vote_state) result" where
  "revert_vote_tx ftx s =
     (case t_data (ft_transaction ftx) of
        Some (SubmitVote _ _ _ _) \<Rightarrow> revert_submit_vote ftx s
      | Some (SubmitBallot _ _ _) \<Rightarrow> revert_submit_ballot ftx s
      | _ \<Rightarrow> Inr s)"

abbreviation with_votes :: "vote_state \<Rightarrow> (vote_key, vote_entry) db \<Rightarrow> vote_state" where
  "with_votes s v \<equiv> s \<lparr> vs_voting := (vs_voting s) \<lparr> votes := v \<rparr> \<rparr>"

lemma decision_from_bytes_ok: "decision_from_bytes bs = Inr (case bs of (a, b, c) \<Rightarrow> DecisionId a b c)"
  by (cases bs) (simp add: from_bytes_ok)

lemma revert_items_eq:
  "try_fold (\<lambda>item s. rbind (decision_from_bytes (fst item)) (\<lambda>d.
       Inr (s \<lparr> vs_voting := delete_vote (voting_period d) voter d (vs_voting s) \<rparr>))) items s =
   Inr (with_votes s (db_delete_all (map (\<lambda>((a, b, c), _).
       (voting_period (DecisionId a b c), voter, DecisionId a b c)) items) (votes (vs_voting s))))"
  by (induction items arbitrary: s) (auto simp: decision_from_bytes_ok delete_vote_def split: prod.split)

lemma revert_vote_tx_eq:
  "revert_vote_tx ftx s = Inr (with_votes s (db_delete_all (vote_tx_keys ftx) (votes (vs_voting s))))"
proof (cases "t_data (ft_transaction ftx)")
  case (Some data)
  show ?thesis
  proof (cases data)
    case (SubmitVote voter bytes v period)
    with Some show ?thesis
      by (cases bytes) (simp add: revert_vote_tx_def revert_submit_vote_def submit_vote_def vote_tx_keys_def
          decision_from_bytes_ok delete_vote_def)
  next
    case (SubmitBallot voter items period)
    with Some show ?thesis
      by (simp only: revert_vote_tx_def revert_submit_ballot_def submit_ballot_def vote_tx_keys_def
          option.case transaction_data.case ok_or_simps rbind.simps prod.case revert_items_eq)
  qed (use Some in \<open>simp_all add: revert_vote_tx_def vote_tx_keys_def\<close>)
qed (simp add: revert_vote_tx_def vote_tx_keys_def)

lemma apply_items_keys:
  assumes "try_fold (apply_ballot_item s height txid voter period ts) items acc = Inr acc'"
  shows "map vote_key_of (snd acc') = map vote_key_of (snd acc) @ map (\<lambda>((a, b, c), _).
      (voting_period (DecisionId a b c), voter, DecisionId a b c)) items"
  using assms
proof (induction items arbitrary: acc)
  case (Cons item items)
  from Cons.prems obtain acc1 where acc1: "apply_ballot_item s height txid voter period ts item acc = Inr acc1"
    and rest: "try_fold (apply_ballot_item s height txid voter period ts) items acc1 = Inr acc'" by auto
  have "map vote_key_of (snd acc1) = map vote_key_of (snd acc) @ map (\<lambda>((a, b, c), _).
      (voting_period (DecisionId a b c), voter, DecisionId a b c)) [item]"
    using acc1 by (auto simp: apply_ballot_item_def decision_from_bytes_ok vote_of_def vote_key_of_def
        split: option.splits prod.split)
  with Cons.IH [OF rest] show ?case by simp
qed simp

lemma apply_vote_tx_keys:
  assumes "apply_vote_tx txid_of height s ftx pending = Inr pending'"
  shows "map vote_key_of pending' = map vote_key_of pending @ vote_tx_keys ftx"
proof (cases "t_data (ft_transaction ftx)")
  case (Some data)
  show ?thesis
  proof (cases data)
    case (SubmitVote voter bytes v period)
    then show ?thesis using assms Some
      by (auto simp: apply_vote_tx_def apply_submit_vote_def submit_vote_def decision_from_bytes_ok
          vote_tx_keys_def vote_of_def vote_key_of_def split: if_splits prod.split)
  next
    case (SubmitBallot voter items period)
    with assms Some obtain ts acc' where "pending' = snd acc'"
      "try_fold (apply_ballot_item s height (txid_of (ft_transaction ftx)) voter period ts) items (None, pending) = Inr acc'"
      by (auto simp: apply_vote_tx_def apply_submit_ballot_def submit_ballot_def)
    with apply_items_keys [OF this(2)] SubmitBallot Some show ?thesis by (simp add: vote_tx_keys_def)
  qed (use assms Some in \<open>simp_all add: apply_vote_tx_def vote_tx_keys_def\<close>)
qed (use assms in \<open>simp add: apply_vote_tx_def vote_tx_keys_def\<close>)

lemma store_votes_get:
  "\<exists>v. store_votes pending s = with_votes s v
     \<and> (\<forall>k. k \<notin> vote_key_of ` set pending \<longrightarrow> db_get v k = db_get (votes (vs_voting s)) k)"
proof (induction pending arbitrary: s)
  case Nil
  show ?case by (rule exI [of _ "votes (vs_voting s)"]) (simp add: store_votes_def)
next
  case (Cons p pending)
  let ?s = "s \<lparr> vs_voting := put_vote p (vs_voting s) \<rparr>"
  obtain v where "store_votes pending ?s = with_votes ?s v"
    "\<forall>k. k \<notin> vote_key_of ` set pending \<longrightarrow> db_get v k = db_get (votes (vs_voting ?s)) k"
    using Cons.IH by blast
  then show ?case by (intro exI [of _ v]) (auto simp: store_votes_def put_vote_def)
qed

lemma revert_vote_txs:
  "try_fold revert_vote_tx ftxs s =
     Inr (with_votes s (db_delete_all (concat (map vote_tx_keys ftxs)) (votes (vs_voting s))))"
proof (induction ftxs arbitrary: s)
  case (Cons ftx ftxs)
  have "db_delete_all (xs @ ys) d = db_delete_all ys (db_delete_all xs d)"
    for xs ys :: "vote_key list" and d :: "(vote_key, vote_entry) db"
    by (intro db_ext) (simp add: db_get_delete_all)
  with Cons.IH show ?case by (simp add: revert_vote_tx_eq)
qed simp

lemma validate_item_fresh:
  "validate_vote_item voter d v s = Inr u \<Longrightarrow> db_get (votes (vs_voting s)) (voting_period d, voter, d) = None"
  by (auto simp: validate_vote_item_def validate_no_duplicate_vote_def get_vote_def)

lemma validate_items_fresh:
  assumes "try_fold (validate_ballot_item voter s) items seen = Inr seen'" and "((a, b, c), v) \<in> set items"
  shows "db_get (votes (vs_voting s)) (voting_period (DecisionId a b c), voter, DecisionId a b c) = None"
  using assms
proof (induction items arbitrary: seen)
  case (Cons item items)
  then show ?case
    by (auto simp: validate_ballot_item_def decision_from_bytes_ok split: if_splits dest: validate_item_fresh)
qed simp

lemma validated_keys_fresh:
  assumes "validate_vote_tx ftx s = Inr u" and "k \<in> set (vote_tx_keys ftx)"
  shows "db_get (votes (vs_voting s)) k = None"
proof (cases "t_data (ft_transaction ftx)")
  case (Some data)
  show ?thesis
  proof (cases data)
    case (SubmitVote voter bytes v period)
    with Some assms show ?thesis
      by (cases bytes) (auto simp: validate_vote_tx_def validate_vote_submission_def submit_vote_def
          vote_tx_keys_def decision_from_bytes_ok split: if_splits dest: validate_item_fresh)
  next
    case (SubmitBallot voter items period)
    with Some assms(1) obtain seen where seen: "try_fold (validate_ballot_item voter s) items [] = Inr seen"
      by (auto simp: validate_vote_tx_def validate_ballot_def submit_ballot_def split: if_splits)
    from SubmitBallot Some assms(2) obtain a b c v where "((a, b, c), v) \<in> set items"
      "k = (voting_period (DecisionId a b c), voter, DecisionId a b c)"
      by (auto simp: vote_tx_keys_def)
    with validate_items_fresh [OF seen] show ?thesis by simp
  qed (use Some assms in \<open>simp_all add: vote_tx_keys_def\<close>)
qed (use assms in \<open>simp add: vote_tx_keys_def\<close>)

lemma apply_vote_txs_keys:
  assumes "try_fold (apply_vote_tx txid_of height s) ftxs pending = Inr pending'"
  shows "map vote_key_of pending' = map vote_key_of pending @ concat (map vote_tx_keys ftxs)"
  using assms
proof (induction ftxs arbitrary: pending)
  case (Cons ftx ftxs)
  then show ?case by (auto dest: apply_vote_tx_keys)
qed simp

text \<open>
  C25. The votes and ballots of a block are undone exactly: when every transaction passed its
  validation against the state before the block, storing the votes that the block submits and then
  reverting its transactions in reverse order gives back the state.
\<close>

theorem votes_roundtrip:
  assumes "\<forall>ftx \<in> set ftxs. validate_vote_tx ftx s = Inr ()"
    and "try_fold (apply_vote_tx txid_of height s) ftxs [] = Inr pending"
  shows "try_fold revert_vote_tx (rev ftxs) (store_votes pending s) = Inr s"
proof -
  let ?ks = "concat (map vote_tx_keys (rev ftxs))"
  have "map vote_key_of pending = concat (map vote_tx_keys ftxs)"
    using apply_vote_txs_keys [OF assms(2)] by simp
  then have "set (map vote_key_of pending) = set (concat (map vote_tx_keys ftxs))" by simp
  then have keys: "vote_key_of ` set pending = set ?ks" by simp
  obtain v where v: "store_votes pending s = with_votes s v"
    "\<forall>k. k \<notin> vote_key_of ` set pending \<longrightarrow> db_get v k = db_get (votes (vs_voting s)) k"
    using store_votes_get by blast
  have fresh: "db_get (votes (vs_voting s)) k = None" if "k \<in> set ?ks" for k
  proof -
    from that obtain ftx where "ftx \<in> set ftxs" "k \<in> set (vote_tx_keys ftx)" by auto
    with assms(1) show ?thesis using validated_keys_fresh [of ftx s "()" k] by blast
  qed
  have "db_delete_all ?ks v = votes (vs_voting s)"
  proof (rule db_ext)
    fix k show "db_get (db_delete_all ?ks v) k = db_get (votes (vs_voting s)) k"
      using v(2) [rule_format, of k] fresh [of k] unfolding keys db_get_delete_all by (cases "k \<in> set ?ks") auto
  qed
  then show ?thesis unfolding revert_vote_txs v(1) by simp
qed

section \<open>Scanning the votes of a period\<close>

lemma le_rank32_mono: "a < b \<Longrightarrow> b < 256 \<Longrightarrow> le_rank32 a < le_rank32 b"
  by (simp add: le_rank32_def upt_rec)

lemma scan_period_get:
  assumes "sorted (map (\<lambda>e. fst (fst e)) es)" and "distinct (map fst es)"
  shows "db_get (scan_period period es acc) k =
    (if fst k = period \<and> map_of es k \<noteq> None then map_of es k else db_get acc k)"
  using assms
proof (induction es arbitrary: acc)
  case (Cons e es)
  obtain key entry where e: "e = (key, entry)" by (cases e)
  show ?case
  proof (cases "period < fst key")
    case True
    have "fst k \<noteq> period \<or> map_of (e # es) k = None"
    proof (cases "map_of (e # es) k")
      case (Some x)
      then have "(k, x) \<in> set (e # es)" by (rule map_of_SomeD)
      then have "fst key \<le> fst k" using Cons.prems(1) by (auto simp: e)
      then show ?thesis using True by simp
    qed simp
    moreover have "scan_period period (e # es) acc = acc" using True by (simp add: e)
    ultimately show ?thesis by auto
  next
    case False
    let ?acc = "if fst key = period then db_put acc key entry else acc"
    have none: "map_of es key = None" using Cons.prems(2) by (simp add: e map_of_eq_None_iff)
    have "scan_period period (e # es) acc = scan_period period es ?acc" using False by (simp add: e)
    moreover have "db_get (scan_period period es ?acc) k =
        (if fst k = period \<and> map_of es k \<noteq> None then map_of es k else db_get ?acc k)"
      using Cons.IH Cons.prems by simp
    ultimately show ?thesis using none by (cases "k = key"; cases "map_of es k") (simp_all add: e)
  qed
qed simp

text \<open>Every stored vote is keyed by the voting period of its decision.\<close>

definition votes_keyed :: "voting_dbs \<Rightarrow> bool" where
  "votes_keyed dbs \<longleftrightarrow> (\<forall>k e. db_get (votes dbs) k = Some e \<longrightarrow> fst k = voting_period (snd (snd k)))"

lemma voting_period_less: "voting_period d < 256"
  using period_index_less [of d] by (simp add: voting_period_def)

lemma votes_keyed_store: "votes_keyed (vs_voting s) \<Longrightarrow>
    \<forall>v \<in> set pending. vote_period v = voting_period (vote_decision v) \<Longrightarrow>
    votes_keyed (vs_voting (store_votes pending s))"
proof (induction pending arbitrary: s)
  case (Cons p pending)
  let ?s = "s \<lparr> vs_voting := put_vote p (vs_voting s) \<rparr>"
  have "votes_keyed (vs_voting ?s)"
    using Cons.prems by (auto simp: votes_keyed_def put_vote_def vote_key_of_def split: if_splits)
  from Cons.IH [OF this] Cons.prems show ?case by (simp add: store_votes_def)
qed (simp add: store_votes_def)

lemma votes_listed_sorted:
  assumes "votes_keyed dbs"
  shows "sorted (map (\<lambda>e. fst (fst e)) (votes_listed dbs))"
proof -
  have small: "fst (fst e) < 256" if "e \<in> set (votes_listed dbs)" for e
  proof -
    have "db_get (votes dbs) (fst e) = Some (snd e)" using that by (simp add: votes_listed_def db_get_iff_entries)
    then show ?thesis using assms voting_period_less unfolding votes_keyed_def by metis
  qed
  have "sorted_wrt (\<lambda>x y. le_rank32 (fst (fst x)) \<le> le_rank32 (fst (fst y))) (votes_listed dbs)"
    using sorted_sort_key [of "\<lambda>e. le_rank32 (fst (fst e))" "db_entries (votes dbs)"]
    unfolding votes_listed_def sorted_map .
  then have "sorted_wrt (\<lambda>x y. fst (fst x) \<le> fst (fst y)) (votes_listed dbs)"
  proof (rule sorted_wrt_mono_rel [rotated])
    fix x y assume "x \<in> set (votes_listed dbs)" "y \<in> set (votes_listed dbs)"
      "le_rank32 (fst (fst x)) \<le> le_rank32 (fst (fst y))"
    then show "fst (fst x) \<le> fst (fst y)"
      using le_rank32_mono [of "fst (fst y)" "fst (fst x)"] small by (meson leD not_le)
  qed
  then show ?thesis by (simp add: sorted_map)
qed

lemma period_votes_get:
  assumes "votes_keyed dbs"
  shows "db_get (get_votes_for_period period dbs) k = (if fst k = period then db_get (votes dbs) k else None)"
proof -
  have mset: "mset (map fst (votes_listed dbs)) = mset (map fst (db_entries (votes dbs)))"
    by (simp add: votes_listed_def)
  have "distinct (map fst (db_entries (votes dbs)))" by (rule distinct_entries)
  then have dist: "distinct (map fst (votes_listed dbs))"
    using mset by (metis distinct_count_atmost_1 mset_eq_setD)
  have "map_of (votes_listed dbs) = map_of (db_entries (votes dbs))"
    using dist distinct_entries [of "votes dbs"] by (intro map_of_eqI) (auto simp: votes_listed_def)
  then have "map_of (votes_listed dbs) k = db_get (votes dbs) k" by (simp add: map_of_db_entries)
  then show ?thesis
    using scan_period_get [OF votes_listed_sorted [OF assms] dist, of period db_empty k]
    by (cases "db_get (votes dbs) k") (auto simp: get_votes_for_period_def)
qed

text \<open>
  C26. Although the scan stops at the first later period and the table is listed by the
  little-endian bytes of its keys, the votes of a period are found exactly, because the period of
  a stored vote is the voting period of its decision and so fits one byte.
\<close>

theorem votes_for_period_exact:
  assumes "votes_keyed dbs"
  shows "db_get (get_votes_for_period period dbs) k = (if fst k = period then db_get (votes dbs) k else None)"
  using assms by (rule period_votes_get)

section \<open>A state with an open decision\<close>

definition open_decisions :: decisions_dbs where
  "open_decisions = (new_with_config (testing 10))
     \<lparr> period_decisions := db_put db_empty 1
         (oset_insert (DecisionEntry example_id (Some example_decision) 9) db_empty),
       decision_state_histories := db_put db_empty example_id
         \<lparr> state_history = [(Claimed, 1, None), (Voting, 2, None)] \<rparr> \<rparr>"

definition example_vote_state :: vote_state where
  "example_vote_state = \<lparr> vs_decisions = open_decisions, vs_voting = voting_dbs_new,
     vs_reputation = db_put db_empty 7 (F_Num 1), vs_transfer_undo = db_empty, vs_timestamp = Some 5 \<rparr>"

definition actor_tx :: "address \<Rightarrow> transaction_data \<Rightarrow> filled_transaction" where
  "actor_tx actor data = \<lparr> ft_transaction = \<lparr> t_inputs = [Regular 1 0], t_outputs = [], t_memo = [], t_data = Some data \<rparr>,
     ft_spent_utxos = [\<lparr> fo_address = actor, fo_content = FilledBitcoin 100, fo_memo = [] \<rparr>],
     ft_actor_address = None \<rparr>"

definition example_vote_tx :: filled_transaction where
  "example_vote_tx = actor_tx 7 (SubmitVote 7 (0x81, 0, 0) (F_Num 1) 2)"

lemma example_vote_state_simps [simp]:
  "vs_decisions example_vote_state = open_decisions" "vs_voting example_vote_state = voting_dbs_new"
  "vs_reputation example_vote_state = db_put db_empty 7 (F_Num 1)" "vs_timestamp example_vote_state = Some 5"
  "vs_transfer_undo example_vote_state = db_empty" "votes voting_dbs_new = db_empty"
  by (simp_all add: example_vote_state_def voting_dbs_new_def)

lemma open_decision_entry: "get_decision_entry open_decisions example_id = Some (DecisionEntry example_id (Some example_decision) 9)"
  by (simp add: get_decision_entry_find entries_of_period_def open_decisions_def example_id_fields
      oset_insert_def oset_elems_def db_keys_def)

lemma open_decision_voting: "is_decision_in_voting open_decisions example_id"
  by (simp add: is_decision_in_voting_def get_decision_current_state_def get_decision_state_history_def
      open_decisions_def current_state_def)

lemma example_vote_tx_data:
  "t_data (ft_transaction example_vote_tx) = Some (SubmitVote 7 (0x81, 0, 0) (F_Num 1) 2)"
  "has_voter_proof 7 example_vote_tx"
  by (simp_all add: example_vote_tx_def actor_tx_def has_voter_proof_def)

lemma example_voting_period: "voting_period example_id = 2"
  by (simp add: voting_period_def example_id_fields)

lemma example_vote_validates: "validate_vote_tx example_vote_tx example_vote_state = Inr ()"
proof -
  have "validate_normalized_vote example_decision (F_Num 1) = Inr ()"
    by (simp add: validate_normalized_vote_def example_decision_def is_categorical_def f_le_def)
  then show ?thesis
    by (simp add: validate_vote_tx_def validate_vote_submission_def submit_vote_def example_vote_tx_data
        validate_voter_eligibility_def get_reputation_def f_le_def decision_from_bytes_ok
        validate_vote_item_def validate_decision_entry_def validate_voting_period_def
        validate_no_duplicate_vote_def get_vote_def open_decision_entry open_decision_voting
        flip: example_id_def)
qed

lemma example_vote_applies:
  "\<exists>v. apply_vote_tx txid_of 3 example_vote_state example_vote_tx [] = Inr [v] \<and> vote_key_of v = (2, 7, example_id)"
  by (simp add: apply_vote_tx_def apply_submit_vote_def submit_vote_def example_vote_tx_data
      decision_from_bytes_ok vote_of_def vote_key_of_def example_voting_period flip: example_id_def)

theorem votes_roundtrip_witness:
  "\<exists>v. try_fold (apply_vote_tx (\<lambda>_. 9) 3 example_vote_state) [example_vote_tx] [] = Inr [v]
     \<and> try_fold revert_vote_tx (rev [example_vote_tx]) (store_votes [v] example_vote_state) = Inr example_vote_state"
proof -
  obtain v where v: "try_fold (apply_vote_tx (\<lambda>_. 9) 3 example_vote_state) [example_vote_tx] [] = Inr [v]"
    using example_vote_applies [of "\<lambda>_. 9"] by auto
  then show ?thesis
    using votes_roundtrip [OF _ v] example_vote_validates by (intro exI [of _ v]) simp
qed

theorem votes_for_period_exact_witness:
  "\<exists>v. votes_keyed (vs_voting (store_votes [v] example_vote_state))
     \<and> db_get (get_votes_for_period 2 (vs_voting (store_votes [v] example_vote_state))) (2, 7, example_id) \<noteq> None"
proof -
  obtain v where v: "vote_key_of v = (2, 7, example_id)" using example_vote_applies by blast
  have "votes_keyed voting_dbs_new" by (simp add: votes_keyed_def)
  then have keyed: "votes_keyed (vs_voting (store_votes [v] example_vote_state))"
    using v by (intro votes_keyed_store) (auto simp: vote_key_of_def example_voting_period)
  have "db_get (votes (vs_voting (store_votes [v] example_vote_state))) (2, 7, example_id) \<noteq> None"
    by (simp add: store_votes_def put_vote_def v)
  with keyed votes_for_period_exact [OF keyed, of 2 "(2, 7, example_id)"] show ?thesis by auto
qed

theorem transfers_roundtrip_witness:
  "\<exists>s'. try_fold (\<lambda>ftx. apply_transfer_reputation ftx 3)
        [actor_tx 7 (TransferReputation 7 8 (F_Num 1))] example_vote_state = Inr s'
     \<and> db_get (vs_reputation s') 7 = None \<and> revert_reputation_transfers 3 s' = example_vote_state"
proof -
  have sub: "f_sub (F_Num 1) (F_Num 1) = F_Zero False" by (simp add: f_sub_def)
  obtain s' where s': "try_fold (\<lambda>ftx. apply_transfer_reputation ftx 3)
      [actor_tx 7 (TransferReputation 7 8 (F_Num 1))] example_vote_state = Inr s'"
    "db_get (vs_reputation s') 7 = None"
    by (simp add: apply_transfer_reputation_def transfer_reputation_def actor_tx_def get_reputation_def
        db_get_set_reputation sub f_le_def Let_def)
  have "rep_ok (vs_reputation example_vote_state)" by (simp add: rep_ok_def f_le_def)
  then show ?thesis using transfers_roundtrip [OF _ _ s'(1)] s' by (intro exI [of _ s']) simp
qed

end
