(* ===== verification/Allocation.thy ===== *)
theory Allocation
  imports SafeMath "HOL-Library.Multiset"
begin

text \<open>
  Proportional allocation of a pool with remainder handling (\<open>lib/math/allocation.rs\<close>) and the
  amounts of a trade (\<open>lib/math/trading.rs\<close>). Plain operators on 64-bit integers wrap, as in the
  release profile. The result is proved exact: on nonnegative weights the shares of the
  participants always add up to the pool.
\<close>

record 'k allocation_result =
  allocations :: "('k \<times> nat) list"
  total_allocated :: nat

record 'k allocation_result_i64 =
  allocations_i64 :: "('k \<times> int) list"
  total_allocated_i64 :: int

definition F_EPSILON :: f64 where "F_EPSILON = F_Num (1 / 2 ^ 52)"

text \<open>The sum of a float iterator starts from negative zero.\<close>

definition f_sum :: "f64 list \<Rightarrow> f64" where
  "f_sum ws = foldl f_add (F_Zero True) ws"

text \<open>\<open>max_by_key\<close> finds the last of several maxima, \<open>min_by_key\<close> the first of several minima.\<close>

definition max_index :: "'a::linorder list \<Rightarrow> nat option" where
  "max_index xs = find (\<lambda>i. \<forall>x \<in> set xs. x \<le> xs ! i) (rev [0..<length xs])"

definition min_index :: "'a::linorder list \<Rightarrow> nat option" where
  "min_index xs = find (\<lambda>i. \<forall>x \<in> set xs. xs ! i \<le> x) [0..<length xs]"

definition update_fallback :: "'k \<Rightarrow> f64 \<Rightarrow> ('k \<times> f64) option \<Rightarrow> ('k \<times> f64) option" where
  "update_fallback key weight fallback =
     (case fallback of
        Some (_, best) \<Rightarrow> (if f_le weight best then fallback else Some (key, weight))
      | None \<Rightarrow> Some (key, weight))"

section \<open>Unsigned allocation\<close>

record 'k alloc_state =
  al_shares :: "('k \<times> nat) list"
  al_total :: nat
  al_fallback :: "('k \<times> f64) option"

definition share_of :: "nat \<Rightarrow> f64 \<Rightarrow> f64 \<Rightarrow> (satoshi_error, nat) result" where
  "share_of total_pool total_weight weight =
     to_sats (f_mul (f_div weight total_weight) (f_of_nat total_pool)) RoundNearest"

definition allocate_one ::
    "nat \<Rightarrow> f64 \<Rightarrow> 'k \<times> f64 \<Rightarrow> 'k alloc_state \<Rightarrow> (satoshi_error, 'k alloc_state) result" where
  "allocate_one total_pool total_weight p s =
     (if f_lt (snd p) F_EPSILON then Inr s
      else
        (let s1 = s \<lparr> al_fallback := update_fallback (fst p) (snd p) (al_fallback s) \<rparr>
         in rbind (share_of total_pool total_weight (snd p)) (\<lambda>sats.
            Inr (if 0 < sats
                 then s1 \<lparr> al_shares := al_shares s1 @ [(fst p, sats)],
                           al_total := wrapping_add 64 (al_total s1) sats \<rparr>
                 else s1))))"

fun take_excess :: "('k \<times> nat) list \<Rightarrow> nat \<Rightarrow> ('k \<times> nat) list \<times> nat" where
  "take_excess [] remaining = ([], remaining)"
| "take_excess ((k, amt) # rest) remaining =
     (if remaining = 0 then ((k, amt) # rest, remaining)
      else let t = min amt remaining
           in case take_excess rest (remaining - t) of (rest', r) \<Rightarrow> ((k, amt - t) # rest', r))"

definition wrapping_sum :: "nat list \<Rightarrow> nat" where
  "wrapping_sum xs = foldl (wrapping_add 64) 0 xs"

definition add_remainder ::
    "nat \<Rightarrow> 'k alloc_state \<Rightarrow> (satoshi_error, 'k allocation_result) result" where
  "add_remainder total_pool s =
     (let remainder = total_pool - al_total s
      in rbind (case max_index (map snd (al_shares s)) of
             Some i \<Rightarrow> Inr ((al_shares s)[i := (fst (al_shares s ! i),
                                               wrapping_add 64 (snd (al_shares s ! i)) remainder)])
           | None \<Rightarrow>
               (case al_fallback s of
                  None \<Rightarrow> Inl (Overflow (f_of_nat remainder))
                | Some (key, _) \<Rightarrow> Inr (al_shares s @ [(key, remainder)]))) (\<lambda>shares.
         Inr \<lparr> allocations = shares, total_allocated = wrapping_add 64 (al_total s) remainder \<rparr>))"

definition remove_excess ::
    "nat \<Rightarrow> 'k alloc_state \<Rightarrow> (satoshi_error, 'k allocation_result) result" where
  "remove_excess total_pool s =
     (case take_excess (sort_key snd (al_shares s)) (al_total s - total_pool) of (shares, remaining) \<Rightarrow>
        if remaining \<noteq> 0 then Inl (Overflow (f_of_nat remaining))
        else Inr \<lparr> allocations = shares, total_allocated = wrapping_sum (map snd shares) \<rparr>)"

definition allocate_proportionally_u64 ::
    "('k \<times> f64) list \<Rightarrow> nat \<Rightarrow> (satoshi_error, 'k allocation_result) result" where
  "allocate_proportionally_u64 participants total_pool =
     (if participants = [] \<or> total_pool = 0
      then Inr \<lparr> allocations = [], total_allocated = 0 \<rparr>
      else
        (let total_weight = f_sum (map snd participants)
         in if f_le total_weight (F_Zero False)
            then Inr \<lparr> allocations = [], total_allocated = 0 \<rparr>
            else
              rbind (try_fold (allocate_one total_pool total_weight) participants
                       \<lparr> al_shares = [], al_total = 0, al_fallback = None \<rparr>) (\<lambda>s.
              rbind (if al_total s < total_pool then add_remainder total_pool s
                     else if total_pool < al_total s then remove_excess total_pool s
                     else Inr \<lparr> allocations = al_shares s, total_allocated = al_total s \<rparr>) (\<lambda>r.
              if total_allocated r \<noteq> total_pool then Inl (Overflow (f_of_nat total_pool)) else Inr r))))"

section \<open>Signed allocation\<close>

definition wrap_i64 :: "int \<Rightarrow> int" where
  "wrap_i64 x = (x + 2 ^ 63) mod 2 ^ 64 - 2 ^ 63"

definition checked_add_i64 :: "int \<Rightarrow> int \<Rightarrow> int option" where
  "checked_add_i64 a b = (if - (2 ^ 63) \<le> a + b \<and> a + b < 2 ^ 63 then Some (a + b) else None)"

definition f_of_int :: "int \<Rightarrow> f64" where
  "f_of_int n = (if n = 0 then F_Zero False else round_mag (n < 0) (of_int \<bar>n\<bar>))"

record 'k alloc_state_i64 =
  ai_shares :: "('k \<times> int) list"
  ai_total :: int
  ai_fallback :: "('k \<times> f64) option"

definition allocate_one_i64 ::
    "int \<Rightarrow> f64 \<Rightarrow> 'k \<times> f64 \<Rightarrow> 'k alloc_state_i64 \<Rightarrow> (satoshi_error, 'k alloc_state_i64) result" where
  "allocate_one_i64 total_pool total_weight p s =
     (let weight = f_abs (snd p) in
      if f_lt weight F_EPSILON then Inr s
      else
        (let s1 = s \<lparr> ai_fallback := update_fallback (fst p) weight (ai_fallback s) \<rparr>
         in rbind (to_sats_signed (f_mul (f_div weight total_weight) (f_of_int total_pool)) RoundNearest) (\<lambda>sats.
            Inr (if sats \<noteq> 0
                 then s1 \<lparr> ai_shares := ai_shares s1 @ [(fst p, sats)],
                           ai_total := wrap_i64 (ai_total s1 + sats) \<rparr>
                 else s1))))"

definition adjust_i64 ::
    "int \<Rightarrow> 'k alloc_state_i64 \<Rightarrow> (satoshi_error, 'k allocation_result_i64) result" where
  "adjust_i64 diff s =
     (if ai_shares s = []
      then (case ai_fallback s of
              None \<Rightarrow> Inl (Overflow (f_of_int diff))
            | Some (key, _) \<Rightarrow> Inr \<lparr> allocations_i64 = [(key, diff)], total_allocated_i64 = diff \<rparr>)
      else
        rbind (ok_or (if 0 < diff then max_index (map snd (ai_shares s)) else min_index (map snd (ai_shares s)))
                 (Overflow (f_of_int diff))) (\<lambda>idx.
        rbind (ok_or (checked_add_i64 (snd (ai_shares s ! idx)) diff) (Overflow (f_of_int diff))) (\<lambda>amt.
        let shares = (ai_shares s)[idx := (fst (ai_shares s ! idx), amt)]
        in Inr \<lparr> allocations_i64 = shares,
                 total_allocated_i64 = foldl (\<lambda>a b. wrap_i64 (a + b)) 0 (map snd shares) \<rparr>)))"

definition allocate_proportionally_i64 ::
    "('k \<times> f64) list \<Rightarrow> int \<Rightarrow> (satoshi_error, 'k allocation_result_i64) result" where
  "allocate_proportionally_i64 participants total_pool =
     (if participants = [] \<or> total_pool = 0
      then Inr \<lparr> allocations_i64 = [], total_allocated_i64 = 0 \<rparr>
      else
        (let total_weight = f_sum (map (\<lambda>p. f_abs (snd p)) participants)
         in if f_le total_weight (F_Zero False)
            then Inr \<lparr> allocations_i64 = [], total_allocated_i64 = 0 \<rparr>
            else
              rbind (try_fold (allocate_one_i64 total_pool total_weight) participants
                       \<lparr> ai_shares = [], ai_total = 0, ai_fallback = None \<rparr>) (\<lambda>s.
              let diff = wrap_i64 (total_pool - ai_total s)
              in rbind (if diff \<noteq> 0 then adjust_i64 diff s
                        else Inr \<lparr> allocations_i64 = ai_shares s, total_allocated_i64 = ai_total s \<rparr>) (\<lambda>r.
                 if total_allocated_i64 r \<noteq> total_pool then Inl (Overflow (f_of_int total_pool)) else Inr r))))"

section \<open>The amounts of a trade\<close>

definition MIN_TRADING_FEE_SATS :: nat where "MIN_TRADING_FEE_SATS = 1000"
definition TRADE_MINER_FEE_SATS :: nat where "TRADE_MINER_FEE_SATS = 1000"

record buy_cost =
  base_cost_sats :: nat
  bc_trading_fee_sats :: nat
  total_cost_sats :: nat

record sell_proceeds =
  gross_proceeds_sats :: nat
  sp_trading_fee_sats :: nat
  net_proceeds_sats :: nat

definition calculate_buy_cost :: "f64 \<Rightarrow> f64 \<Rightarrow> (satoshi_error, buy_cost) result" where
  "calculate_buy_cost base_cost_f64 trading_fee_pct =
     rbind (to_sats base_cost_f64 RoundUp) (\<lambda>base_cost.
     rbind (to_sats (f_mul base_cost_f64 trading_fee_pct) RoundNearest) (\<lambda>calculated_fee.
     let trading_fee = max calculated_fee MIN_TRADING_FEE_SATS
     in Inr \<lparr> base_cost_sats = base_cost, bc_trading_fee_sats = trading_fee,
              total_cost_sats = wrapping_add 64 base_cost trading_fee \<rparr>))"

definition calculate_sell_proceeds :: "f64 \<Rightarrow> f64 \<Rightarrow> (satoshi_error, sell_proceeds) result" where
  "calculate_sell_proceeds gross_proceeds_f64 trading_fee_pct =
     rbind (to_sats gross_proceeds_f64 RoundDown) (\<lambda>gross_proceeds.
     rbind (to_sats (f_mul gross_proceeds_f64 trading_fee_pct) RoundNearest) (\<lambda>calculated_fee.
     let trading_fee = max calculated_fee MIN_TRADING_FEE_SATS
     in if gross_proceeds < trading_fee then Inl (Overflow gross_proceeds_f64)
        else Inr \<lparr> gross_proceeds_sats = gross_proceeds, sp_trading_fee_sats = trading_fee,
                   net_proceeds_sats = gross_proceeds - trading_fee \<rparr>))"

section \<open>Sums and indices\<close>

lemma max_index_Some:
  assumes "xs \<noteq> ([] :: 'a::linorder list)"
  shows "\<exists>i. max_index xs = Some i \<and> i < length xs"
proof -
  have "Max (set xs) \<in> set xs" using assms by simp
  then obtain j where j: "j < length xs" "xs ! j = Max (set xs)" unfolding in_set_conv_nth by blast
  then have "\<forall>x \<in> set xs. x \<le> xs ! j" by simp
  with j(1) have "max_index xs \<noteq> None" unfolding max_index_def find_None_iff by auto
  then obtain i where "max_index xs = Some i" by blast
  moreover from this have "i < length xs" unfolding max_index_def find_Some_iff
    by (metis atLeastLessThan_iff length_rev length_upt nth_mem set_rev set_upt)
  ultimately show ?thesis by blast
qed

lemma max_index_Nil [simp]: "max_index [] = None"
  by (simp add: max_index_def)

lemma sum_list_update_add:
  assumes "i < length xs"
  shows "sum_list (xs[i := xs ! i + r]) = sum_list xs + (r :: nat)"
  using assms by (simp add: sum_list_update)

lemma f_sum_bounds:
  assumes "\<forall>w \<in> set ws. nonneg_double w" and "nonneg_double acc" and "f_is_finite (foldl f_add acc ws)"
  shows "nonneg_double (foldl f_add acc ws) \<and> f_val acc \<le> f_val (foldl f_add acc ws)
    \<and> (\<forall>w \<in> set ws. f_val w \<le> f_val (foldl f_add acc ws))"
  using assms
proof (induction ws arbitrary: acc)
  case (Cons w ws)
  have fin: "f_is_finite (f_add acc w)"
  proof (rule ccontr)
    have absorb: "\<not> f_is_finite (foldl f_add x vs)" if "\<not> f_is_finite x" for x vs
      using that
    proof (induction vs arbitrary: x)
      case (Cons v vs)
      have "\<not> f_is_finite (f_add x v)" using Cons.prems by (cases x; cases v) auto
      then show ?case using Cons.IH by simp
    qed simp
    assume "\<not> f_is_finite (f_add acc w)"
    from absorb [OF this] Cons.prems(3) show False by simp
  qed
  have w: "nonneg_double w" using Cons.prems(1) by simp
  note step = f_add_nonneg [OF Cons.prems(2) w fin]
  have "nonneg_double (foldl f_add (f_add acc w) ws)
    \<and> f_val (f_add acc w) \<le> f_val (foldl f_add (f_add acc w) ws)
    \<and> (\<forall>v \<in> set ws. f_val v \<le> f_val (foldl f_add (f_add acc w) ws))"
    using Cons.IH [OF _ step(1)] Cons.prems(1,3) by simp
  with step(2,3) show ?case by fastforce
qed simp

lemma zero_nonneg_double [simp]: "nonneg_double (F_Zero s)"
  by (simp add: nonneg_double_def is_double_def)

lemma f_lt_epsilon: "nonneg_double w \<Longrightarrow> f_lt w F_EPSILON \<longleftrightarrow> f_val w < 1 / 2 ^ 52"
  by (cases w) (auto simp: F_EPSILON_def nonneg_double_def)

section \<open>Every share is within the pool\<close>

lemma share_of_ok:
  assumes "nonneg_double w" and "nonneg_double wt" and "f_val w \<le> f_val wt" and "0 < f_val wt"
    and "pool < 2 ^ 53"
  obtains n where "share_of pool wt w = Inr n" and "n \<le> pool"
proof -
  let ?s = "f_mul (f_div w wt) (f_of_nat pool)"
  have s: "nonneg_double ?s" "f_val ?s \<le> of_nat pool"
    using f_mul_fraction [OF f_div_at_most_one [OF assms(1-4)] f_of_nat_exact(1) [OF assms(5)]]
      f_of_nat_exact(2) [OF assms(5)] by auto
  let ?n = "round_mode RoundNearest (f_val ?s)"
  have le: "?n \<le> int pool" using s(2) by (rule round_mode_le)
  have "f_is_finite ?s" "0 \<le> f_val ?s" using s(1) by (auto simp: nonneg_double_def)
  then have "share_of pool wt w = Inr (nat ?n)"
    using to_sats_eq [of ?s RoundNearest] le assms(5) by (simp add: share_of_def)
  then show thesis using le by (intro that [of "nat ?n"]) auto
qed

text \<open>What holds after each participant: the running total is exact and every share is within the pool.\<close>

definition heavy_keys :: "('k \<times> f64) list \<Rightarrow> 'k set" where
  "heavy_keys ps = fst ` {p \<in> set ps. \<not> f_lt (snd p) F_EPSILON}"

definition alloc_ok :: "nat \<Rightarrow> ('k \<times> f64) list \<Rightarrow> 'k alloc_state \<Rightarrow> bool" where
  "alloc_ok pool done_ps s \<longleftrightarrow>
     al_total s = sum_list (map snd (al_shares s))
     \<and> (\<forall>e \<in> set (al_shares s). snd e \<le> pool)
     \<and> length (al_shares s) \<le> length done_ps
     \<and> fst ` set (al_shares s) \<subseteq> heavy_keys done_ps
     \<and> fst ` set_option (al_fallback s) \<subseteq> heavy_keys done_ps
     \<and> (heavy_keys done_ps \<noteq> {} \<longrightarrow> al_fallback s \<noteq> None)"

lemma heavy_keys_snoc:
  "heavy_keys (ps @ [p]) = (if f_lt (snd p) F_EPSILON then heavy_keys ps else insert (fst p) (heavy_keys ps))"
  by (auto simp: heavy_keys_def)

lemma update_fallback_keys:
  "fst ` set_option (update_fallback k w fb) \<subseteq> insert k (fst ` set_option fb)"
  "update_fallback k w fb \<noteq> None"
  by (auto simp: update_fallback_def split: option.splits)

lemma sum_list_bound: "(\<forall>x \<in> set xs. x \<le> (b :: nat)) \<Longrightarrow> sum_list xs \<le> length xs * b"
  by (induction xs) auto

lemma allocate_one_ok:
  assumes "alloc_ok pool ps s" and "nonneg_double (snd p)" and "nonneg_double wt"
    and "f_val (snd p) \<le> f_val wt" and "0 < f_val wt" and "pool < 2 ^ 53"
    and "Suc (length ps) * pool < 2 ^ 64"
  shows "\<exists>s'. allocate_one pool wt p s = Inr s' \<and> alloc_ok pool (ps @ [p]) s'"
proof (cases "f_lt (snd p) F_EPSILON")
  case True
  then show ?thesis using assms(1) by (simp add: allocate_one_def alloc_ok_def heavy_keys_snoc)
next
  case False
  obtain n where n: "share_of pool wt (snd p) = Inr n" "n \<le> pool"
    by (rule share_of_ok [OF assms(2-6)])
  let ?s1 = "s \<lparr> al_fallback := update_fallback (fst p) (snd p) (al_fallback s) \<rparr>"
  let ?s' = "if 0 < n then ?s1 \<lparr> al_shares := al_shares s @ [(fst p, n)], al_total := al_total s + n \<rparr> else ?s1"
  have "sum_list (map snd (al_shares s)) \<le> length (map snd (al_shares s)) * pool"
    by (rule sum_list_bound) (use assms(1) in \<open>auto simp: alloc_ok_def\<close>)
  also have "\<dots> \<le> length ps * pool" using assms(1) by (simp add: alloc_ok_def)
  finally have "al_total s + n < 2 ^ 64" using assms(1,7) n(2) by (simp add: alloc_ok_def)
  then have "allocate_one pool wt p s = Inr ?s'" using False n(1) by (simp add: allocate_one_def Let_def)
  moreover have "alloc_ok pool (ps @ [p]) ?s'"
    using assms(1) n(2) False update_fallback_keys [of "fst p" "snd p" "al_fallback s"]
    unfolding alloc_ok_def by (auto simp: heavy_keys_snoc)
  ultimately show ?thesis by blast
qed

lemma allocate_loop_ok:
  assumes "alloc_ok pool ps s" and "\<forall>p \<in> set qs. nonneg_double (snd p) \<and> f_val (snd p) \<le> f_val wt"
    and "nonneg_double wt" and "0 < f_val wt" and "pool < 2 ^ 53"
    and "(length ps + length qs) * pool < 2 ^ 64"
  shows "\<exists>s'. try_fold (allocate_one pool wt) qs s = Inr s' \<and> alloc_ok pool (ps @ qs) s'"
  using assms
proof (induction qs arbitrary: ps s)
  case (Cons q qs)
  have "Suc (length ps) * pool \<le> (length ps + length (q # qs)) * pool" by (intro mult_le_mono1) simp
  then have "Suc (length ps) * pool < 2 ^ 64" using Cons.prems(6) by (rule le_less_trans)
  then obtain s1 where s1: "allocate_one pool wt q s = Inr s1" "alloc_ok pool (ps @ [q]) s1"
    using allocate_one_ok [OF Cons.prems(1), of q wt] Cons.prems(2-5) by auto
  have "(length (ps @ [q]) + length qs) * pool < 2 ^ 64" using Cons.prems(6) by simp
  from Cons.IH [OF s1(2) _ Cons.prems(3-5) this] Cons.prems(2) s1(1) show ?case by simp
qed simp

section \<open>The remainder\<close>

lemma take_excess_spec:
  assumes "r \<le> sum_list (map snd xs)" and "take_excess xs r = (ys, q)"
  shows "q = 0 \<and> sum_list (map snd ys) = sum_list (map snd xs) - r \<and> map fst ys = map fst xs"
  using assms
proof (induction xs r arbitrary: ys q rule: take_excess.induct)
  case (2 k amt rest r)
  show ?case
  proof (cases "r = 0")
    case False
    let ?t = "min amt r"
    obtain rest' q' where rec: "take_excess rest (r - ?t) = (rest', q')" by fastforce
    have le: "r - ?t \<le> sum_list (map snd rest)" using 2(2) by auto
    have IH: "q' = 0 \<and> sum_list (map snd rest') = sum_list (map snd rest) - (r - ?t) \<and> map fst rest' = map fst rest"
      using 2(1) [OF False refl le rec] .
    have "ys = (k, amt - ?t) # rest'" "q = q'" using 2(3) False rec by (auto simp: Let_def)
    with IH le show ?thesis by auto
  qed (use 2 in auto)
qed simp

lemma sum_sort_key: "sum_list (map snd (sort_key f xs)) = (sum_list (map snd xs) :: nat)"
proof -
  have "mset (map snd (sort_key f xs)) = mset (map snd xs)" by simp
  then show ?thesis by (metis sum_mset_sum_list)
qed

lemma add_remainder_ok:
  assumes "alloc_ok pool ps s" and "heavy_keys ps \<noteq> {}" and "al_total s < pool" and "pool < 2 ^ 64"
  obtains r where "add_remainder pool s = Inr r" and "total_allocated r = pool"
    and "sum_list (map snd (allocations r)) = pool" and "fst ` set (allocations r) \<subseteq> heavy_keys ps"
proof (cases "al_shares s = []")
  case True
  obtain k w where k: "al_fallback s = Some (k, w)" using assms(1,2) by (auto simp: alloc_ok_def)
  then have "k \<in> heavy_keys ps" using assms(1) by (simp add: alloc_ok_def)
  moreover have "al_total s = 0" using assms(1) True by (simp add: alloc_ok_def)
  ultimately show thesis
    using assms(4) True k by (intro that [of "\<lparr> allocations = [(k, pool)], total_allocated = pool \<rparr>"])
      (simp_all add: add_remainder_def Let_def)
next
  case False
  let ?xs = "al_shares s" and ?r = "pool - al_total s"
  obtain i where i: "max_index (map snd ?xs) = Some i" "i < length ?xs"
    using max_index_Some [of "map snd ?xs"] False by auto
  have total: "al_total s = sum_list (map snd ?xs)" using assms(1) by (simp add: alloc_ok_def)
  have "snd (?xs ! i) \<le> sum_list (map snd ?xs)" using i(2) by (metis elem_le_sum_list length_map nth_map)
  then have w: "wrapping_add 64 (snd (?xs ! i)) ?r = snd (?xs ! i) + ?r"
    using assms(3,4) total by (intro wrapping_add_exact) linarith
  let ?ys = "?xs[i := (fst (?xs ! i), snd (?xs ! i) + ?r)]"
  have "map snd ?ys = (map snd ?xs)[i := map snd ?xs ! i + ?r]" using i(2) by (simp add: map_update)
  then have sum: "sum_list (map snd ?ys) = pool"
    using sum_list_update_add [of i "map snd ?xs" ?r] i(2) total assms(3) by simp
  have "fst ` set ?ys = fst ` set ?xs"
  proof -
    have "map fst ?ys = map fst ?xs" using i(2) by (simp add: map_update) (metis length_map list_update_id nth_map)
    then show ?thesis by (metis list.set_map)
  qed
  then have keys: "fst ` set ?ys \<subseteq> heavy_keys ps" using assms(1) by (simp add: alloc_ok_def)
  show thesis
    using assms(3,4) i w sum keys
    by (intro that [of "\<lparr> allocations = ?ys, total_allocated = pool \<rparr>"]) (simp_all add: add_remainder_def Let_def)
qed

lemma remove_excess_ok:
  assumes "alloc_ok pool ps s" and "pool < al_total s" and "pool < 2 ^ 64"
  obtains r where "remove_excess pool s = Inr r" and "total_allocated r = pool"
    and "sum_list (map snd (allocations r)) = pool" and "fst ` set (allocations r) \<subseteq> heavy_keys ps"
proof -
  let ?xs = "sort_key snd (al_shares s)"
  obtain ys q where t: "take_excess ?xs (al_total s - pool) = (ys, q)" by fastforce
  have total: "al_total s = sum_list (map snd ?xs)" using assms(1) by (simp add: alloc_ok_def sum_sort_key)
  have r: "q = 0" "sum_list (map snd ys) = pool" "map fst ys = map fst ?xs"
    using take_excess_spec [OF _ t] total assms(2) by auto
  have "fst ` set ys = fst ` set (al_shares s)" using r(3) by (metis list.set_map set_sort)
  then have "fst ` set ys \<subseteq> heavy_keys ps" using assms(1) by (simp add: alloc_ok_def)
  moreover have "wrapping_sum (map snd ys) = pool"
    using foldl_wrapping_add_exact [of 0 "map snd ys"] r(2) assms(3) by (simp add: wrapping_sum_def)
  ultimately show thesis
    using r t by (intro that [of "\<lparr> allocations = ys, total_allocated = pool \<rparr>"]) (simp_all add: remove_excess_def)
qed

section \<open>Correctness\<close>

lemma allocate_ok:
  assumes "\<forall>p \<in> set ps. nonneg_double (snd p)" and "f_is_finite (f_sum (map snd ps))"
    and "heavy_keys ps \<noteq> {}" and "0 < pool" and "pool < 2 ^ 53" and "length ps * pool < 2 ^ 64"
  obtains r where "allocate_proportionally_u64 ps pool = Inr r" and "total_allocated r = pool"
    and "sum_list (map snd (allocations r)) = pool" and "fst ` set (allocations r) \<subseteq> heavy_keys ps"
proof -
  let ?w = "f_sum (map snd ps)"
  have wt: "nonneg_double ?w" "\<forall>p \<in> set ps. f_val (snd p) \<le> f_val ?w"
    using f_sum_bounds [of "map snd ps" "F_Zero True"] assms(1,2) by (auto simp: f_sum_def)
  obtain p where p: "p \<in> set ps" "\<not> f_lt (snd p) F_EPSILON" using assms(3) by (auto simp: heavy_keys_def)
  then have "1 / 2 ^ 52 \<le> f_val (snd p)" using f_lt_epsilon assms(1) by fastforce
  moreover have "f_val (snd p) \<le> f_val ?w" using wt(2) p(1) by blast
  ultimately have pos: "0 < f_val ?w" by (smt (verit) divide_pos_pos less_le_trans zero_less_one zero_less_numeral zero_less_power)
  have nle: "\<not> f_le ?w (F_Zero False)" using pos by (cases ?w) (auto simp: f_le_def)
  have start: "alloc_ok pool [] \<lparr> al_shares = [], al_total = 0, al_fallback = None \<rparr>"
    by (simp add: alloc_ok_def heavy_keys_def)
  obtain s where s: "try_fold (allocate_one pool ?w) ps \<lparr> al_shares = [], al_total = 0, al_fallback = None \<rparr> = Inr s"
    "alloc_ok pool ps s"
    using allocate_loop_ok [OF start, of ps ?w] assms wt pos by auto
  have pool64: "pool < 2 ^ 64" using assms(5) by simp
  let ?adjust = "if al_total s < pool then add_remainder pool s
      else if pool < al_total s then remove_excess pool s
      else Inr \<lparr> allocations = al_shares s, total_allocated = al_total s \<rparr>"
  obtain r where r: "?adjust = Inr r" "total_allocated r = pool"
    "sum_list (map snd (allocations r)) = pool" "fst ` set (allocations r) \<subseteq> heavy_keys ps"
  proof (cases "al_total s" pool rule: linorder_cases)
    case less
    obtain r where "add_remainder pool s = Inr r" "total_allocated r = pool"
      "sum_list (map snd (allocations r)) = pool" "fst ` set (allocations r) \<subseteq> heavy_keys ps"
      by (rule add_remainder_ok [OF s(2) assms(3) less pool64])
    then show thesis using less by (intro that [of r]) simp_all
  next
    case greater
    obtain r where "remove_excess pool s = Inr r" "total_allocated r = pool"
      "sum_list (map snd (allocations r)) = pool" "fst ` set (allocations r) \<subseteq> heavy_keys ps"
      by (rule remove_excess_ok [OF s(2) greater pool64])
    then show thesis using greater by (intro that [of r]) simp_all
  next
    case equal
    then show thesis using s(2)
      by (intro that [of "\<lparr> allocations = al_shares s, total_allocated = al_total s \<rparr>"]) (simp_all add: alloc_ok_def)
  qed
  have "allocate_proportionally_u64 ps pool = rbind ?adjust
      (\<lambda>r. if total_allocated r \<noteq> pool then Inl (Overflow (f_of_nat pool)) else Inr r)"
    using p(1) assms(4) nle s(1) by (auto simp: allocate_proportionally_u64_def Let_def)
  then have "allocate_proportionally_u64 ps pool = Inr r" using r(1,2) by simp
  with r show thesis by (intro that [of r])
qed

text \<open>
  C24. Proportional allocation never fails on sane input and conserves the pool exactly: when all
  weights are nonnegative doubles with a finite sum, at least one of them is not below the machine
  epsilon, and the pool is positive and small enough that no sum of shares overflows, every
  satoshi of the pool is allocated, and only to participants whose weight is not negligible.
\<close>

theorem allocation_conserves_pool:
  assumes "\<forall>p \<in> set ps. nonneg_double (snd p)" and "f_is_finite (f_sum (map snd ps))"
    and "\<exists>p \<in> set ps. \<not> f_lt (snd p) F_EPSILON"
    and "0 < pool" and "pool < 2 ^ 53" and "length ps * pool < 2 ^ 64"
  shows "\<exists>r. allocate_proportionally_u64 ps pool = Inr r \<and> total_allocated r = pool
    \<and> sum_list (map snd (allocations r)) = pool
    \<and> (\<forall>k \<in> fst ` set (allocations r). \<exists>w. (k, w) \<in> set ps \<and> \<not> f_lt w F_EPSILON)"
proof -
  have "heavy_keys ps \<noteq> {}" using assms(3) by (fastforce simp: heavy_keys_def)
  then obtain r where "allocate_proportionally_u64 ps pool = Inr r" "total_allocated r = pool"
    "sum_list (map snd (allocations r)) = pool" "fst ` set (allocations r) \<subseteq> heavy_keys ps"
    by (rule allocate_ok [OF assms(1,2) _ assms(4-6)])
  moreover have "\<exists>w. (k, w) \<in> set ps \<and> \<not> f_lt w F_EPSILON" if "k \<in> heavy_keys ps" for k
    using that by (auto simp: heavy_keys_def)
  ultimately show ?thesis by blast
qed

definition example_weights :: "(string \<times> f64) list" where
  "example_weights = [(''alice'', F_Num 1), (''bob'', F_Num 1), (''carol'', F_Num 1)]"

lemma small_double: "0 < n \<Longrightarrow> n < 2 ^ 53 \<Longrightarrow> f_of_nat n = F_Num (of_nat n)"
  using f_of_nat_exact [of n] by (cases "f_of_nat n") (auto simp: nonneg_double_def)

lemma f_add_small:
  assumes "0 < n" and "0 < m" and "n + m < 2 ^ 53"
  shows "f_add (F_Num (of_nat n)) (F_Num (of_nat m)) = F_Num (of_nat (n + m))"
proof -
  have "of_nat n + of_nat m \<noteq> (0 :: rat)" "\<not> (of_nat n + of_nat m :: rat) < 0" using assms(1) by auto
  then have "f_add (F_Num (of_nat n)) (F_Num (of_nat m)) = f_of_nat (n + m)"
    by (simp add: f_of_nat_def Let_def)
  then show ?thesis using small_double [of "n + m"] assms by simp
qed

theorem allocation_conserves_pool_witness:
  "\<exists>r. allocate_proportionally_u64 example_weights 100 = Inr r \<and> sum_list (map snd (allocations r)) = 100"
proof -
  have "f_add (F_Zero True) (F_Num 1) = F_Num 1"
    using small_double [of 1] by (simp add: f_of_nat_def Let_def)
  then have "f_sum (map snd example_weights) = F_Num 3"
    using f_add_small [of 1 1] f_add_small [of 2 1] by (simp add: f_sum_def example_weights_def)
  then show ?thesis
    using allocation_conserves_pool [of example_weights 100] one_double
    by (auto simp: example_weights_def F_EPSILON_def)
qed

lemma buy_cost_ok:
  assumes "calculate_buy_cost c f = Inr b"
  shows "f_is_finite c" and "0 \<le> f_val c" and "base_cost_sats b = nat \<lceil>f_val c\<rceil>"
    and "MIN_TRADING_FEE_SATS \<le> bc_trading_fee_sats b"
    and "total_cost_sats b = wrapping_add 64 (base_cost_sats b) (bc_trading_fee_sats b)"
    and "\<exists>fee. to_sats (f_mul c f) RoundNearest = Inr fee \<and> bc_trading_fee_sats b = max fee MIN_TRADING_FEE_SATS"
  using assms to_sats_ok [of c RoundUp] by (auto simp: calculate_buy_cost_def Let_def round_mode_def)

lemma sell_proceeds_ok:
  assumes "calculate_sell_proceeds c f = Inr s"
  shows "f_is_finite c" and "0 \<le> f_val c" and "gross_proceeds_sats s = nat \<lfloor>f_val c\<rfloor>"
    and "gross_proceeds_sats s = net_proceeds_sats s + sp_trading_fee_sats s"
    and "\<exists>fee. to_sats (f_mul c f) RoundNearest = Inr fee \<and> sp_trading_fee_sats s = max fee MIN_TRADING_FEE_SATS"
  using assms to_sats_ok [of c RoundDown]
  by (auto simp: calculate_sell_proceeds_def Let_def round_mode_def split: if_splits)

text \<open>
  C27. Rounding always favours the market: the base cost of a buy covers the exact cost, the gross
  proceeds of a sale do not exceed it, both fees are equal and at least the minimum, so buying and
  selling at one price loses the two fees at least.
\<close>

theorem trade_round_trip_costs:
  assumes "calculate_buy_cost c f = Inr b" and "calculate_sell_proceeds c f = Inr s"
    and "base_cost_sats b + bc_trading_fee_sats b < 2 ^ 64"
  shows "of_nat (gross_proceeds_sats s) \<le> f_val c \<and> f_val c \<le> of_nat (base_cost_sats b)
    \<and> bc_trading_fee_sats b = sp_trading_fee_sats s \<and> MIN_TRADING_FEE_SATS \<le> bc_trading_fee_sats b
    \<and> net_proceeds_sats s + 2 * bc_trading_fee_sats b \<le> total_cost_sats b"
proof -
  note b = buy_cost_ok [OF assms(1)] and s = sell_proceeds_ok [OF assms(2)]
  have fee: "bc_trading_fee_sats b = sp_trading_fee_sats s" using b(6) s(5) by auto
  have gross: "of_nat (gross_proceeds_sats s) \<le> f_val c" and base: "f_val c \<le> of_nat (base_cost_sats b)"
    using b(2) unfolding b(3) s(3) by (simp_all add: le_nat_iff)
  have "rat_of_nat (gross_proceeds_sats s) \<le> of_nat (base_cost_sats b)" using gross base by linarith
  then have "gross_proceeds_sats s \<le> base_cost_sats b" by simp
  moreover have "total_cost_sats b = base_cost_sats b + bc_trading_fee_sats b" using b(5) assms(3) by simp
  ultimately show ?thesis using gross base fee b(4) s(4) by linarith
qed

theorem trade_round_trip_costs_witness:
  "\<exists>b s. calculate_buy_cost (F_Num 10000) (F_Zero False) = Inr b
     \<and> calculate_sell_proceeds (F_Num 10000) (F_Zero False) = Inr s
     \<and> net_proceeds_sats s + 2000 \<le> total_cost_sats b"
proof -
  have fee: "to_sats (f_mul (F_Num 10000) (F_Zero False)) RoundNearest = Inr 0"
    by (simp add: f_mul_def round_mag_def to_sats_eq round_mode_def)
  obtain b where b: "calculate_buy_cost (F_Num 10000) (F_Zero False) = Inr b"
    "base_cost_sats b = 10000" "bc_trading_fee_sats b = 1000"
    by (simp add: calculate_buy_cost_def fee to_sats_eq round_mode_def MIN_TRADING_FEE_SATS_def)
  obtain s where s: "calculate_sell_proceeds (F_Num 10000) (F_Zero False) = Inr s"
    by (simp add: calculate_sell_proceeds_def fee to_sats_eq round_mode_def MIN_TRADING_FEE_SATS_def)
  show ?thesis using trade_round_trip_costs [OF b(1) s] b s by (intro exI [of _ b] exI [of _ s]) simp
qed

end
