(* ===== verification/Consensus.thy ===== *)
theory Consensus
  imports Votes Allocation
begin

text \<open>
  The consensus of a voting period (\<open>lib/state/voting/mod.rs\<close>) with the sparse vote matrix and the
  weight vector it hands to the oracle (\<open>lib/math/voting/mod.rs\<close>), and its reversal
  (\<open>revert_consensus\<close> of \<open>lib/state/block.rs\<close>).

  The oracle itself is a principal-component analysis with a singular value decomposition of the
  \<open>nalgebra\<close> crate: it is the argument \<open>run_consensus\<close> of the definitions, and the properties hold for
  every such function. Hash maps that the code iterates are stores, iterated in key order.
\<close>

section \<open>The vote matrix\<close>

record vote_matrix =
  vm_entries :: "(nat \<times> nat, f64) db"
  vm_voter_indices :: "(address, nat) db"
  vm_decision_indices :: "(decision_id, nat) db"
  vm_voters :: "address list"
  vm_decisions :: "decision_id list"
  vm_row_entries :: "nat oset list"
  vm_col_entries :: "nat oset list"

datatype voting_math_error = InvalidReputation string | NumericalError

definition index_of_list :: "'a::linorder list \<Rightarrow> ('a, nat) db" where
  "index_of_list xs = db_put_all (map (\<lambda>e. (snd e, fst e)) (enumerate 0 xs)) db_empty"

definition vote_matrix_new :: "address list \<Rightarrow> decision_id list \<Rightarrow> vote_matrix" where
  "vote_matrix_new vs ds =
     \<lparr> vm_entries = db_empty, vm_voter_indices = index_of_list vs, vm_decision_indices = index_of_list ds,
       vm_voters = vs, vm_decisions = ds,
       vm_row_entries = replicate (length vs) db_empty, vm_col_entries = replicate (length ds) db_empty \<rparr>"

definition set_vote :: "address \<Rightarrow> decision_id \<Rightarrow> f64 \<Rightarrow> vote_matrix \<Rightarrow> (voting_math_error, vote_matrix) result" where
  "set_vote voter d v m =
     rbind (ok_or (db_get (vm_voter_indices m) voter) (InvalidReputation ''Voter not found in matrix'')) (\<lambda>i.
     rbind (ok_or (db_get (vm_decision_indices m) d) (InvalidReputation ''Decision not found in matrix'')) (\<lambda>j.
     Inr (m \<lparr> vm_entries := db_put (vm_entries m) (i, j) v,
              vm_row_entries := (vm_row_entries m)[i := oset_insert j (vm_row_entries m ! i)],
              vm_col_entries := (vm_col_entries m)[j := oset_insert i (vm_col_entries m ! j)] \<rparr>)))"

definition matrix_get_vote :: "address \<Rightarrow> decision_id \<Rightarrow> vote_matrix \<Rightarrow> f64 option" where
  "matrix_get_vote voter d m =
     Option.bind (db_get (vm_voter_indices m) voter) (\<lambda>i.
     Option.bind (db_get (vm_decision_indices m) d) (\<lambda>j.
     db_get (vm_entries m) (i, j)))"

definition num_votes :: "vote_matrix \<Rightarrow> nat" where
  "num_votes m = length (db_entries (vm_entries m))"

definition get_voter_votes :: "address \<Rightarrow> vote_matrix \<Rightarrow> (decision_id, f64) db" where
  "get_voter_votes voter m =
     (case db_get (vm_voter_indices m) voter of
        None \<Rightarrow> db_empty
      | Some i \<Rightarrow> db_put_all (List.map_filter (\<lambda>j.
            map_option (\<lambda>v. (vm_decisions m ! j, v)) (db_get (vm_entries m) (i, j)))
            (oset_elems (vm_row_entries m ! i))) db_empty)"

definition get_decision_votes :: "decision_id \<Rightarrow> vote_matrix \<Rightarrow> (address, f64) db" where
  "get_decision_votes d m =
     (case db_get (vm_decision_indices m) d of
        None \<Rightarrow> db_empty
      | Some j \<Rightarrow> db_put_all (List.map_filter (\<lambda>i.
            map_option (\<lambda>v. (vm_voters m ! i, v)) (db_get (vm_entries m) (i, j)))
            (oset_elems (vm_col_entries m ! j))) db_empty)"

section \<open>The weight vector\<close>

definition weight_vector_from_reputation_map :: "(address, f64) db \<Rightarrow> (address, f64) db" where
  "weight_vector_from_reputation_map reps =
     db_put_all (map (\<lambda>e. (fst e, f_clamp_unit (snd e)))
       (filter (\<lambda>e. f_lt (F_Zero False) (snd e)) (db_entries reps))) db_empty"

section \<open>Computing a consensus\<close>

record math_consensus =
  mc_outcomes :: "(decision_id, f64 option) db"
  mc_first_loading :: "f64 list"
  mc_certainty :: f64
  mc_updated_reputations :: "(address, f64) db"
  mc_categorical_winners :: "(decision_id, nat option) db"

type_synonym consensus_oracle =
  "vote_matrix \<Rightarrow> (address, f64) db \<Rightarrow> decision_id oset \<Rightarrow> (decision_id, nat) db
     \<Rightarrow> (voting_math_error, math_consensus) result"

record consensus_result =
  cr_period :: nat
  cr_stats :: period_stats
  cr_outcomes :: "decision_outcome list"
  cr_resolutions :: "(decision_id \<times> f64) list"
  cr_updated_reputations :: "(address, f64) db"
  cr_height :: nat
  cr_timestamp :: nat
  cr_decision_count :: nat

definition NEUTRAL :: f64 where "NEUTRAL = F_Num (1 / 2)"

definition default_outcome :: "nat \<Rightarrow> decision_id \<Rightarrow> decision_outcome" where
  "default_outcome period d =
     decision_outcome_new d period NEUTRAL (F_Zero False) (F_Num 1) (F_Zero False) 0 (F_Zero False) 0 0 True
       (mark_outcome_ready (decision_resolution_new d period 0 0 0 0)) None"

definition no_vote_consensus :: "nat \<Rightarrow> decision_id list \<Rightarrow> nat \<Rightarrow> nat \<Rightarrow> consensus_result" where
  "no_vote_consensus period ds ts height =
     \<lparr> cr_period = period, cr_stats = (period_stats_new period 0) \<lparr> ps_certainty := Some (F_Zero False) \<rparr>,
       cr_outcomes = map (default_outcome period) ds, cr_resolutions = map (\<lambda>d. (d, NEUTRAL)) ds,
       cr_updated_reputations = db_empty, cr_height = height, cr_timestamp = ts,
       cr_decision_count = length ds \<rparr>"

definition decision_of :: "vote_state \<Rightarrow> decision_id \<Rightarrow> decision option" where
  "decision_of s d = Option.bind (get_decision_entry (vs_decisions s) d) entry_decision"

definition scaled_decisions :: "vote_state \<Rightarrow> decision_id list \<Rightarrow> decision_id oset" where
  "scaled_decisions s ds =
     oset_of_list (filter (\<lambda>d. case decision_of s d of Some dec \<Rightarrow> is_scaled dec | None \<Rightarrow> False) ds)"

definition categorical_decisions :: "vote_state \<Rightarrow> decision_id list \<Rightarrow> (decision_id, nat) db" where
  "categorical_decisions s ds =
     db_put_all (List.map_filter (\<lambda>d.
         case decision_of s d of
           Some dec \<Rightarrow> (if is_scaled dec then None else map_option (\<lambda>n. (d, as_u 16 n)) (option_count dec))
         | None \<Rightarrow> None) ds) db_empty"

definition fill_matrix ::
    "(vote_key, vote_entry) db \<Rightarrow> vote_matrix \<Rightarrow> (error, vote_matrix) result" where
  "fill_matrix all_votes m =
     try_fold (\<lambda>(key, entry) m.
       case to_float_opt (entry_value entry) of
         None \<Rightarrow> Inr m
       | Some v \<Rightarrow> map_err (\<lambda>_. InvalidTransaction ''Failed to set vote in matrix'')
           (set_vote (fst (snd key)) (snd (snd key)) v m)) (db_entries all_votes) m"

definition svd_outcome ::
    "math_consensus \<Rightarrow> nat \<Rightarrow> nat \<Rightarrow> f64 \<Rightarrow> decision_id \<Rightarrow> f64 \<Rightarrow> decision_outcome" where
  "svd_outcome mc period vote_count total_weight d v =
     decision_outcome_new d period v (F_Zero False) (F_Num 1) (F_Num 1) vote_count total_weight 0 0 True
       (mark_outcome_ready (decision_resolution_new d period 0 1 0 0)) (db_get (mc_categorical_winners mc) d)"

definition vote_consensus ::
    "math_consensus \<Rightarrow> nat \<Rightarrow> decision_id list \<Rightarrow> (vote_key, vote_entry) db \<Rightarrow> (address, f64) db \<Rightarrow> f64
       \<Rightarrow> vote_state \<Rightarrow> nat \<Rightarrow> nat \<Rightarrow> consensus_result" where
  "vote_consensus mc period ds all_votes reputations total_weight s ts height =
     (let st = unwrap_or (period_stats_new period 0) (get_period_stats period (vs_voting s));
          changes = map (\<lambda>e. (fst e, (unwrap_or (F_Zero False) (db_get reputations (fst e)), snd e)))
                      (db_entries (mc_updated_reputations mc));
          resolved = map (\<lambda>e. (fst e, unwrap_or NEUTRAL (snd e))) (db_entries (mc_outcomes mc));
          rest = filter (\<lambda>d. d \<notin> set (db_keys (mc_outcomes mc))) ds
      in \<lparr> cr_period = period,
           cr_stats = st \<lparr> ps_first_loading := Some (mc_first_loading mc), ps_certainty := Some (mc_certainty mc),
             ps_reputation_changes :=
               (if changes \<noteq> [] then Some (db_put_all changes db_empty) else ps_reputation_changes st) \<rparr>,
           cr_outcomes = map (\<lambda>e. svd_outcome mc period (length (db_entries all_votes)) total_weight (fst e) (snd e)) resolved
             @ map (default_outcome period) rest,
           cr_resolutions = resolved @ map (\<lambda>d. (d, NEUTRAL)) rest,
           cr_updated_reputations = mc_updated_reputations mc, cr_height = height, cr_timestamp = ts,
           cr_decision_count = length ds \<rparr>)"

definition compute_consensus ::
    "consensus_oracle \<Rightarrow> nat \<Rightarrow> decision_id list \<Rightarrow> nat \<Rightarrow> nat \<Rightarrow> vote_state \<Rightarrow> (error, consensus_result option) result" where
  "compute_consensus run_consensus period ds ts height s =
     (if db_entries (get_consensus_outcomes_for_period period (vs_voting s)) \<noteq> [] then Inr None
      else
        (let all_votes = get_votes_for_period period (vs_voting s)
         in if db_entries all_votes = [] then Inr (Some (no_vote_consensus period ds ts height))
            else
              (let reputations = get_all_reputations (vs_reputation s);
                   total_weight = f_sum (map snd (db_entries reputations));
                   sorted_ds = sort ds
               in if db_entries reputations = [] \<or> f_le total_weight (F_Zero False) then Inr None
                  else
                    rbind (fill_matrix all_votes (vote_matrix_new (db_keys reputations) sorted_ds)) (\<lambda>m.
                    rbind (map_err (\<lambda>_. InvalidTransaction ''Failed to calculate consensus'')
                             (run_consensus m (weight_vector_from_reputation_map reputations)
                               (scaled_decisions s sorted_ds) (categorical_decisions s sorted_ds))) (\<lambda>mc.
                    Inr (Some (vote_consensus mc period ds all_votes reputations total_weight s ts height)))))))"

section \<open>Committing and reverting\<close>

record consensus_undo_entry =
  cu_period :: nat
  cu_outcome_ids :: "decision_id list"
  cu_had_stats :: bool
  cu_resolved_ids :: "decision_id list"
  cu_pre_reputation :: "(address, f64) db"

definition compute_post_consensus_reputation ::
    "(address, f64) db \<Rightarrow> (address, f64) db \<Rightarrow> (address, f64) db" where
  "compute_post_consensus_reputation pre updates =
     fold (\<lambda>(a, r) post. if f_lt (F_Zero False) r then db_put post a r else db_delete post a)
       (db_entries updates) pre"

text \<open>The reference order of the maximum: by value, ties and NaN by address; the last maximum wins.\<close>

definition rep_greater :: "address \<times> f64 \<Rightarrow> address \<times> f64 \<Rightarrow> bool" where
  "rep_greater x y =
     (case unwrap_or Equal (partial_cmp (snd x) (snd y)) of
        Greater \<Rightarrow> True | Less \<Rightarrow> False | Equal \<Rightarrow> fst y < fst x)"

fun max_reputation :: "(address \<times> f64) list \<Rightarrow> (address \<times> f64) option" where
  "max_reputation [] = None"
| "max_reputation (e # es) = Some (foldl (\<lambda>x y. if rep_greater x y then x else y) e es)"

definition INITIAL_REPUTATION_TOTAL :: f64 where "INITIAL_REPUTATION_TOTAL = F_Num 1"

definition reanchor_to_initial_total :: "(address, f64) db \<Rightarrow> (address, f64) db" where
  "reanchor_to_initial_total post =
     (let residual = f_sub INITIAL_REPUTATION_TOTAL (f_sum (map snd (db_entries post)))
      in if f_eq residual (F_Zero False) then post
         else case max_reputation (db_entries post) of
             None \<Rightarrow> post
           | Some (a, r) \<Rightarrow> db_put post a (f_add r residual))"

definition CONSENSUS_CONSERVATION_EPSILON :: f64 where
  "CONSENSUS_CONSERVATION_EPSILON = round_mag False (1 / 10 ^ 9)"
definition REPUTATION_ANCHOR_EPSILON :: f64 where
  "REPUTATION_ANCHOR_EPSILON = round_mag False (1 / 10 ^ 6)"

definition verify_reputation_conservation ::
    "(address, f64) db \<Rightarrow> (address, f64) db \<Rightarrow> (error, unit) result" where
  "verify_reputation_conservation pre post =
     (let pre_sum = f_sum (map snd (db_entries pre));
          post_sum = f_sum (map snd (db_entries post))
      in if f_lt CONSENSUS_CONSERVATION_EPSILON (f_abs (f_sub post_sum pre_sum))
         then Inl ConsensusConservationViolation
         else if f_lt REPUTATION_ANCHOR_EPSILON (f_abs (f_sub post_sum INITIAL_REPUTATION_TOTAL))
         then Inl ReputationAnchorViolation
         else Inr ())"

definition validate_consensus_commit :: "consensus_result \<Rightarrow> decisions_dbs \<Rightarrow> (error, unit) result" where
  "validate_consensus_commit r dbs =
     ensure (list_all (\<lambda>e. get_decision_state_history dbs (fst e) \<noteq> None) (cr_resolutions r))
       (InvalidDecisionId ''Pre-validation failed: no state history'')"

definition commit_consensus_result ::
    "consensus_result \<Rightarrow> vote_state \<Rightarrow> (error, consensus_undo_entry \<times> vote_state) result" where
  "commit_consensus_result r s =
     rbind (validate_consensus_commit r (vs_decisions s)) (\<lambda>_.
     let pre = get_all_reputations (vs_reputation s);
         post = compute_post_consensus_reputation pre (cr_updated_reputations r)
     in rbind (verify_reputation_conservation pre post) (\<lambda>_.
        let voting = fold put_decision_outcome (cr_outcomes r) (put_period_stats (cr_stats r) (vs_voting s))
        in rbind (try_fold (\<lambda>(d, v). transition_decision_to_resolved d (cr_height r) v)
                    (cr_resolutions r) (vs_decisions s)) (\<lambda>dbs.
           Inr (\<lparr> cu_period = cr_period r, cu_outcome_ids = map out_decision (cr_outcomes r),
                  cu_had_stats = (get_period_stats (cr_period r) (vs_voting s) \<noteq> None),
                  cu_resolved_ids = map fst (cr_resolutions r), cu_pre_reputation = pre \<rparr>,
                s \<lparr> vs_voting := voting,
                    vs_reputation := clear_and_restore (reanchor_to_initial_total post) (vs_reputation s),
                    vs_decisions := dbs \<rparr>))))"

definition calculate_and_store_consensus ::
    "consensus_oracle \<Rightarrow> nat \<Rightarrow> decision_id list \<Rightarrow> nat \<Rightarrow> nat \<Rightarrow> vote_state
       \<Rightarrow> (error, consensus_undo_entry option \<times> vote_state) result" where
  "calculate_and_store_consensus run_consensus period ds ts height s =
     rbind (compute_consensus run_consensus period ds ts height s) (\<lambda>result.
     case result of
       None \<Rightarrow> Inr (None, s)
     | Some r \<Rightarrow> rbind (commit_consensus_result r s) (\<lambda>(undo, s'). Inr (Some undo, s')))"

definition revert_consensus_entry :: "consensus_undo_entry \<Rightarrow> vote_state \<Rightarrow> vote_state" where
  "revert_consensus_entry u s =
     (let v1 = fold delete_decision_outcome (cu_outcome_ids u) (vs_voting s);
          v2 = (if cu_had_stats u then v1 else delete_period_stats (cu_period u) v1)
      in s \<lparr> vs_voting := v2, vs_reputation := clear_and_restore (cu_pre_reputation u) (vs_reputation s) \<rparr>)"

definition revert_consensus :: "consensus_undo_entry list \<Rightarrow> vote_state \<Rightarrow> vote_state" where
  "revert_consensus entries s = fold revert_consensus_entry (rev entries) s"

section \<open>The matrix implements a map\<close>

definition matrix_ok :: "vote_matrix \<Rightarrow> bool" where
  "matrix_ok m \<longleftrightarrow>
     (\<forall>a i. db_get (vm_voter_indices m) a = Some i \<longleftrightarrow> i < length (vm_voters m) \<and> vm_voters m ! i = a)
     \<and> (\<forall>d j. db_get (vm_decision_indices m) d = Some j \<longleftrightarrow> j < length (vm_decisions m) \<and> vm_decisions m ! j = d)
     \<and> length (vm_row_entries m) = length (vm_voters m) \<and> length (vm_col_entries m) = length (vm_decisions m)
     \<and> (\<forall>i j. db_get (vm_entries m) (i, j) \<noteq> None \<longrightarrow> i < length (vm_voters m) \<and> j < length (vm_decisions m))
     \<and> (\<forall>i < length (vm_voters m). \<forall>j. j \<in> set (oset_elems (vm_row_entries m ! i)) \<longleftrightarrow> db_get (vm_entries m) (i, j) \<noteq> None)
     \<and> (\<forall>j < length (vm_decisions m). \<forall>i. i \<in> set (oset_elems (vm_col_entries m ! j)) \<longleftrightarrow> db_get (vm_entries m) (i, j) \<noteq> None)"

lemma index_of_list_get:
  assumes "distinct xs"
  shows "db_get (index_of_list xs) x = Some i \<longleftrightarrow> i < length xs \<and> xs ! i = x"
proof -
  let ?es = "map (\<lambda>e. (snd e, fst e)) (enumerate 0 xs)"
  have dist: "distinct (map fst ?es)" using assms by (simp add: o_def)
  have "db_get (index_of_list xs) x = Some i \<longleftrightarrow> map_of ?es x = Some i"
    unfolding index_of_list_def db_get_put_all_distinct [OF dist] by (auto simp: map_add_Some_iff)
  also have "\<dots> \<longleftrightarrow> (x, i) \<in> set ?es" using dist by (rule map_of_eq_Some_iff)
  also have "\<dots> \<longleftrightarrow> (i, x) \<in> set (enumerate 0 xs)" by force
  finally show ?thesis by (simp add: in_set_enumerate_eq)
qed

lemma matrix_ok_new: "distinct vs \<Longrightarrow> distinct ds \<Longrightarrow> matrix_ok (vote_matrix_new vs ds)"
  by (simp add: matrix_ok_def vote_matrix_new_def index_of_list_get)

lemma matrix_ok_indices:
  assumes "matrix_ok m"
  shows "db_get (vm_voter_indices m) a = Some i \<longleftrightarrow> i < length (vm_voters m) \<and> vm_voters m ! i = a"
    and "db_get (vm_decision_indices m) d = Some j \<longleftrightarrow> j < length (vm_decisions m) \<and> vm_decisions m ! j = d"
    and "db_get (vm_voter_indices m) a = None \<longleftrightarrow> a \<notin> set (vm_voters m)"
    and "db_get (vm_decision_indices m) d = None \<longleftrightarrow> d \<notin> set (vm_decisions m)"
proof -
  show v: "db_get (vm_voter_indices m) a = Some i \<longleftrightarrow> i < length (vm_voters m) \<and> vm_voters m ! i = a" for i
    using assms unfolding matrix_ok_def by (elim conjE) (rule spec2)
  show d: "db_get (vm_decision_indices m) d = Some j \<longleftrightarrow> j < length (vm_decisions m) \<and> vm_decisions m ! j = d" for j
    using assms unfolding matrix_ok_def by (elim conjE) (rule spec2)
  show "db_get (vm_voter_indices m) a = None \<longleftrightarrow> a \<notin> set (vm_voters m)"
    using v unfolding in_set_conv_nth by (metis option.exhaust option.distinct(1))
  show "db_get (vm_decision_indices m) d = None \<longleftrightarrow> d \<notin> set (vm_decisions m)"
    using d unfolding in_set_conv_nth by (metis option.exhaust option.distinct(1))
qed

lemma matrix_ok_entries:
  assumes "matrix_ok m"
  shows "length (vm_row_entries m) = length (vm_voters m)" and "length (vm_col_entries m) = length (vm_decisions m)"
    and "db_get (vm_entries m) (i, j) \<noteq> None \<Longrightarrow> i < length (vm_voters m) \<and> j < length (vm_decisions m)"
    and "i < length (vm_voters m) \<Longrightarrow>
        j \<in> set (oset_elems (vm_row_entries m ! i)) \<longleftrightarrow> db_get (vm_entries m) (i, j) \<noteq> None"
    and "j < length (vm_decisions m) \<Longrightarrow>
        i \<in> set (oset_elems (vm_col_entries m ! j)) \<longleftrightarrow> db_get (vm_entries m) (i, j) \<noteq> None"
  using assms unfolding matrix_ok_def by (elim conjE; blast)+

lemma set_vote_cases:
  assumes "matrix_ok m"
  obtains (missing) e where "set_vote voter d v m = Inl e"
      and "voter \<notin> set (vm_voters m) \<or> d \<notin> set (vm_decisions m)"
  | (found) i j where "db_get (vm_voter_indices m) voter = Some i" and "db_get (vm_decision_indices m) d = Some j"
      and "i < length (vm_voters m)" and "j < length (vm_decisions m)"
      and "set_vote voter d v m = Inr (m \<lparr> vm_entries := db_put (vm_entries m) (i, j) v,
              vm_row_entries := (vm_row_entries m)[i := oset_insert j (vm_row_entries m ! i)],
              vm_col_entries := (vm_col_entries m)[j := oset_insert i (vm_col_entries m ! j)] \<rparr>)"
proof (cases "db_get (vm_voter_indices m) voter")
  case None
  then have "voter \<notin> set (vm_voters m)" using matrix_ok_indices(3) [OF assms] by blast
  then show thesis using None by (intro missing) (auto simp: set_vote_def)
next
  case (Some i)
  show thesis
  proof (cases "db_get (vm_decision_indices m) d")
    case None
    then have "d \<notin> set (vm_decisions m)" using matrix_ok_indices(4) [OF assms] by blast
    then show thesis using Some None by (intro missing) (auto simp: set_vote_def)
  next
    case j: (Some j)
    have "i < length (vm_voters m)" "j < length (vm_decisions m)"
      using Some j matrix_ok_indices(1,2) [OF assms] by blast+
    then show thesis using Some j by (intro found) (auto simp: set_vote_def)
  qed
qed

lemma set_vote_keeps_ok:
  assumes "matrix_ok m" and "set_vote voter d v m = Inr m'"
  shows "matrix_ok m'"
    and "matrix_get_vote a e m' = (if a = voter \<and> e = d then Some v else matrix_get_vote a e m)"
proof -
  obtain i j where i: "db_get (vm_voter_indices m) voter = Some i" and j: "db_get (vm_decision_indices m) d = Some j"
    and bound: "i < length (vm_voters m)" "j < length (vm_decisions m)"
    and m': "m' = m \<lparr> vm_entries := db_put (vm_entries m) (i, j) v,
              vm_row_entries := (vm_row_entries m)[i := oset_insert j (vm_row_entries m ! i)],
              vm_col_entries := (vm_col_entries m)[j := oset_insert i (vm_col_entries m ! j)] \<rparr>"
    by (rule set_vote_cases [OF assms(1), of voter d v]) (use assms(2) in auto)
  note len = matrix_ok_entries(1,2) [OF assms(1)] and range = matrix_ok_entries(3) [OF assms(1)]
    and rows = matrix_ok_entries(4) [OF assms(1)] and cols = matrix_ok_entries(5) [OF assms(1)]
    and vi = matrix_ok_indices(1) [OF assms(1)] and di = matrix_ok_indices(2) [OF assms(1)]
  have "i' < length (vm_voters m) \<Longrightarrow> j' \<in> set (oset_elems (vm_row_entries m' ! i')) \<longleftrightarrow> db_get (vm_entries m') (i', j') \<noteq> None" for i' j'
    using rows [of i' j'] bound len by (auto simp: m' nth_list_update)
  moreover have "j' < length (vm_decisions m) \<Longrightarrow> i' \<in> set (oset_elems (vm_col_entries m' ! j')) \<longleftrightarrow> db_get (vm_entries m') (i', j') \<noteq> None" for i' j'
    using cols [of j' i'] bound len by (auto simp: m' nth_list_update)
  moreover have "db_get (vm_entries m') (i', j') \<noteq> None \<Longrightarrow> i' < length (vm_voters m) \<and> j' < length (vm_decisions m)" for i' j'
    using range [of i' j'] bound by (auto simp: m' split: if_splits)
  ultimately show "matrix_ok m'" using len vi di unfolding matrix_ok_def by (simp add: m')
  have "(i', j') = (i, j) \<longleftrightarrow> a = voter \<and> e = d"
    if "db_get (vm_voter_indices m) a = Some i'" "db_get (vm_decision_indices m) e = Some j'" for i' j'
    using that i j vi [of a i'] vi [of voter i] di [of e j'] di [of d j] by (metis option.inject prod.inject)
  then show "matrix_get_vote a e m' = (if a = voter \<and> e = d then Some v else matrix_get_vote a e m)"
    using i j by (cases "db_get (vm_voter_indices m) a"; cases "db_get (vm_decision_indices m) e")
      (auto simp: matrix_get_vote_def m')
qed

lemma collected_get:
  assumes "distinct xs" and "\<And>x. x \<in> set js \<Longrightarrow> f x \<noteq> None \<Longrightarrow> x < length xs"
    and "\<And>x. f x \<noteq> None \<Longrightarrow> x \<in> set js" and "distinct js"
  shows "db_get (db_put_all (List.map_filter (\<lambda>j. map_option (\<lambda>v. (xs ! j, v)) (f j)) js) db_empty) k = Some v
    \<longleftrightarrow> (\<exists>j < length xs. xs ! j = k \<and> f j = Some v)"
proof -
  let ?es = "List.map_filter (\<lambda>j. map_option (\<lambda>v. (xs ! j, v)) (f j)) js"
  have dist: "distinct (map fst ?es)"
    using assms(2,4)
  proof (induction js)
    case (Cons j js)
    let ?rest = "List.map_filter (\<lambda>j. map_option (\<lambda>v. (xs ! j, v)) (f j)) js"
    have new: "xs ! j \<notin> fst ` set ?rest" if "f j \<noteq> None"
    proof
      assume "xs ! j \<in> fst ` set ?rest"
      then obtain x w where x: "x \<in> set js" "f x = Some w" "xs ! j = xs ! x"
        by (auto simp: set_map_filter_eq)
      then have "x < length xs" "j < length xs" "x \<noteq> j" using Cons.prems that by auto
      then show False using assms(1) x(3) by (simp add: nth_eq_iff_index_eq)
    qed
    have "distinct (map fst ?rest)" using Cons by simp
    with new show ?case by (cases "f j") (simp_all add: List.map_filter_simps)
  qed (simp add: List.map_filter_simps)
  have "db_get (db_put_all ?es db_empty) k = Some v \<longleftrightarrow> (k, v) \<in> set ?es"
    unfolding db_get_put_all_distinct [OF dist] using map_of_eq_Some_iff [OF dist] by (auto simp: map_add_Some_iff)
  also have "\<dots> \<longleftrightarrow> (\<exists>j < length xs. xs ! j = k \<and> f j = Some v)"
  proof
    assume "(k, v) \<in> set ?es"
    then obtain j where "j \<in> set js" "f j = Some v" "xs ! j = k" by (auto simp: set_map_filter_eq)
    then show "\<exists>j < length xs. xs ! j = k \<and> f j = Some v" using assms(2) by blast
  next
    assume "\<exists>j < length xs. xs ! j = k \<and> f j = Some v"
    then obtain j where "f j = Some v" "xs ! j = k" by blast
    moreover from this have "j \<in> set js" using assms(3) by blast
    ultimately show "(k, v) \<in> set ?es" by (auto simp: set_map_filter_eq)
  qed
  finally show ?thesis .
qed

lemma matrix_lists_distinct:
  assumes "matrix_ok m"
  shows "distinct (vm_voters m)" and "distinct (vm_decisions m)"
proof -
  show "distinct (vm_voters m)"
    unfolding distinct_conv_nth using matrix_ok_indices(1) [OF assms] by (metis option.inject)
  show "distinct (vm_decisions m)"
    unfolding distinct_conv_nth using matrix_ok_indices(2) [OF assms] by (metis option.inject)
qed

lemma matrix_get_vote_iff:
  assumes "matrix_ok m"
  shows "matrix_get_vote a d m = Some v \<longleftrightarrow>
    (\<exists>i < length (vm_voters m). \<exists>j < length (vm_decisions m).
       vm_voters m ! i = a \<and> vm_decisions m ! j = d \<and> db_get (vm_entries m) (i, j) = Some v)"
  unfolding matrix_get_vote_def bind_eq_Some_conv matrix_ok_indices(1,2) [OF assms] by blast

lemma get_voter_votes_get:
  assumes "matrix_ok m"
  shows "db_get (get_voter_votes a m) d = matrix_get_vote a d m"
proof (cases "db_get (vm_voter_indices m) a")
  case None
  then show ?thesis by (simp add: get_voter_votes_def matrix_get_vote_def)
next
  case (Some i)
  then have i: "i < length (vm_voters m)" using matrix_ok_indices(1) [OF assms] by blast
  have "db_get (get_voter_votes a m) d = Some v \<longleftrightarrow> matrix_get_vote a d m = Some v" for v
  proof -
    have "db_get (get_voter_votes a m) d = Some v
        \<longleftrightarrow> (\<exists>j < length (vm_decisions m). vm_decisions m ! j = d \<and> db_get (vm_entries m) (i, j) = Some v)"
      unfolding get_voter_votes_def using Some
      by (simp only: option.case)
        (rule collected_get; use matrix_lists_distinct [OF assms] matrix_ok_entries(3,4) [OF assms] i in simp)
    also have "\<dots> \<longleftrightarrow> matrix_get_vote a d m = Some v"
      unfolding matrix_get_vote_def using Some matrix_ok_indices(2) [OF assms]
      by (auto simp: bind_eq_Some_conv)
    finally show ?thesis .
  qed
  then show ?thesis by (metis option.exhaust)
qed

lemma get_decision_votes_get:
  assumes "matrix_ok m"
  shows "db_get (get_decision_votes d m) a = matrix_get_vote a d m"
proof (cases "db_get (vm_decision_indices m) d")
  case None
  then show ?thesis by (cases "db_get (vm_voter_indices m) a") (simp_all add: get_decision_votes_def matrix_get_vote_def)
next
  case (Some j)
  then have j: "j < length (vm_decisions m)" using matrix_ok_indices(2) [OF assms] by blast
  have "db_get (get_decision_votes d m) a = Some v \<longleftrightarrow> matrix_get_vote a d m = Some v" for v
  proof -
    have "db_get (get_decision_votes d m) a = Some v
        \<longleftrightarrow> (\<exists>i < length (vm_voters m). vm_voters m ! i = a \<and> db_get (vm_entries m) (i, j) = Some v)"
      unfolding get_decision_votes_def using Some
      by (simp only: option.case)
        (rule collected_get; use matrix_lists_distinct [OF assms] matrix_ok_entries(3,5) [OF assms] j in simp)
    also have "\<dots> \<longleftrightarrow> matrix_get_vote a d m = Some v"
      unfolding matrix_get_vote_def using Some matrix_ok_indices(1) [OF assms]
      by (auto simp: bind_eq_Some_conv)
    finally show ?thesis .
  qed
  then show ?thesis by (metis option.exhaust)
qed

lemma set_vote_frame:
  assumes "set_vote voter d v m = Inr m'"
  shows "vm_voters m' = vm_voters m" and "vm_decisions m' = vm_decisions m"
  using assms by (auto simp: set_vote_def split: option.splits)

lemma set_vote_result:
  assumes "matrix_ok m"
  shows "(\<exists>m'. set_vote voter d v m = Inr m') \<longleftrightarrow> voter \<in> set (vm_voters m) \<and> d \<in> set (vm_decisions m)"
  using matrix_ok_indices(3) [OF assms, of voter] matrix_ok_indices(4) [OF assms, of d]
  by (auto simp: set_vote_def split: option.splits)

text \<open>The votes of a list of calls of \<open>set_vote\<close>, as a map in which the last call for a pair wins.\<close>

definition vote_map :: "(address \<times> decision_id \<times> f64) list \<Rightarrow> address \<times> decision_id \<Rightarrow> f64 option" where
  "vote_map calls = map_of (rev (map (\<lambda>(a, d, v). ((a, d), v)) calls))"

lemma vote_map_simps:
  "vote_map [] k = None"
  "vote_map (calls @ [(a, d, v)]) k = (if k = (a, d) then Some v else vote_map calls k)"
  by (simp_all add: vote_map_def)

lemma set_votes_refine:
  assumes "matrix_ok m" and "\<And>a d. matrix_get_vote a d m = None"
  shows "case try_fold (\<lambda>(a, d, v). set_vote a d v) calls m of
      Inl _ \<Rightarrow> \<exists>(a, d, v) \<in> set calls. a \<notin> set (vm_voters m) \<or> d \<notin> set (vm_decisions m)
    | Inr m' \<Rightarrow> matrix_ok m' \<and> vm_voters m' = vm_voters m \<and> vm_decisions m' = vm_decisions m
        \<and> (\<forall>(a, d, v) \<in> set calls. a \<in> set (vm_voters m) \<and> d \<in> set (vm_decisions m))
        \<and> (\<forall>a d. matrix_get_vote a d m' = vote_map calls (a, d))"
proof (induction calls rule: rev_induct)
  case Nil
  then show ?case using assms by (simp add: vote_map_simps)
next
  case (snoc call calls)
  obtain a d v where call: "call = (a, d, v)" by (cases call)
  show ?case
  proof (cases "try_fold (\<lambda>(a, d, v). set_vote a d v) calls m")
    case (Inl e)
    then show ?thesis using snoc by (auto simp: try_fold_append)
  next
    case (Inr m')
    then have ok: "matrix_ok m'" and frame: "vm_voters m' = vm_voters m" "vm_decisions m' = vm_decisions m"
      and members: "\<forall>(a, d, v) \<in> set calls. a \<in> set (vm_voters m) \<and> d \<in> set (vm_decisions m)"
      and votes: "\<And>a d. matrix_get_vote a d m' = vote_map calls (a, d)" using snoc by auto
    show ?thesis
    proof (cases "set_vote a d v m'")
      case (Inl e)
      then have "a \<notin> set (vm_voters m) \<or> d \<notin> set (vm_decisions m)"
        using set_vote_result [OF ok, of a d v] frame by auto
      then show ?thesis using Inr Inl by (simp add: try_fold_append call)
    next
      case m'': (Inr m'')
      then have "a \<in> set (vm_voters m) \<and> d \<in> set (vm_decisions m)"
        using set_vote_result [OF ok, of a d v] frame by auto
      then show ?thesis
        using Inr m'' members votes frame set_vote_keeps_ok [OF ok m''] set_vote_frame [OF m'']
        by (simp add: try_fold_append call vote_map_simps)
    qed
  qed
qed

lemma matrix_get_vote_new: "matrix_get_vote a d (vote_matrix_new vs ds) = None"
  by (simp add: matrix_get_vote_def vote_matrix_new_def split: option.split Option.bind_split)

text \<open>
  C21. The sparse vote matrix implements a map from voter and decision to the last vote set: on a fresh
  matrix a sequence of \<open>set_vote\<close> calls fails exactly when one of them names an unknown voter or decision,
  and otherwise \<open>get_vote\<close>, the row view \<open>get_voter_votes\<close> and the column view \<open>get_decision_votes\<close>, which
  the code keeps in separate index sets, all give that map.\<close>

theorem vote_matrix_refines_map:
  assumes "distinct vs" and "distinct ds"
  shows "case try_fold (\<lambda>(a, d, v). set_vote a d v) calls (vote_matrix_new vs ds) of
      Inl _ \<Rightarrow> \<exists>(a, d, v) \<in> set calls. a \<notin> set vs \<or> d \<notin> set ds
    | Inr m \<Rightarrow> (\<forall>(a, d, v) \<in> set calls. a \<in> set vs \<and> d \<in> set ds)
        \<and> (\<forall>a d. matrix_get_vote a d m = vote_map calls (a, d)
             \<and> db_get (get_voter_votes a m) d = vote_map calls (a, d)
             \<and> db_get (get_decision_votes d m) a = vote_map calls (a, d))"
proof -
  have "vm_voters (vote_matrix_new vs ds) = vs" "vm_decisions (vote_matrix_new vs ds) = ds"
    by (simp_all add: vote_matrix_new_def)
  with set_votes_refine [OF matrix_ok_new [OF assms] matrix_get_vote_new, of calls] show ?thesis
    by (auto simp: get_voter_votes_get get_decision_votes_get split: sum.split)
qed

theorem vote_matrix_refines_map_witness:
  "distinct [7, 8 :: address] \<and> distinct [example_id]
   \<and> (case try_fold (\<lambda>(a, d, v). set_vote a d v) [(7, example_id, F_Num 1), (8, example_id, F_Num 1), (7, example_id, F_Zero False)]
          (vote_matrix_new [7, 8] [example_id]) of
        Inl _ \<Rightarrow> False
      | Inr m \<Rightarrow> matrix_get_vote 7 example_id m = Some (F_Zero False)
          \<and> db_get (get_decision_votes example_id m) 8 = Some (F_Num 1))"
proof -
  let ?calls = "[(7, example_id, F_Num 1), (8, example_id, F_Num 1), (7, example_id, F_Zero False)]
    :: (address \<times> decision_id \<times> f64) list"
  have "distinct [7, 8 :: address]" "distinct [example_id]" by simp_all
  from vote_matrix_refines_map [OF this, of ?calls] show ?thesis
    by (cases "try_fold (\<lambda>(a, d, v). set_vote a d v) ?calls (vote_matrix_new [7, 8] [example_id])")
      (auto simp: vote_map_def simp del: try_fold.simps)
qed

section \<open>A voter without reputation blocks the consensus\<close>

lemma get_all_reputations_get:
  "db_get (get_all_reputations rep) a =
     (case db_get rep a of Some r \<Rightarrow> (if f_lt (F_Zero False) r then Some r else None) | None \<Rightarrow> None)"
proof -
  let ?es = "filter (\<lambda>e. f_lt (F_Zero False) (snd e)) (db_entries rep)"
  have dist: "distinct (map fst ?es)" using distinct_entries by (rule distinct_map_filter)
  have "db_get (get_all_reputations rep) a = map_of ?es a"
    unfolding get_all_reputations_def db_get_put_all_distinct [OF dist] by (cases "map_of ?es a") (simp_all add: map_add_def)
  moreover have "map_of ?es a = Some r \<longleftrightarrow> db_get rep a = Some r \<and> f_lt (F_Zero False) r" for r
    unfolding map_of_eq_Some_iff [OF dist] db_get_iff_entries by simp
  ultimately have iff: "db_get (get_all_reputations rep) a = Some r \<longleftrightarrow> db_get rep a = Some r \<and> f_lt (F_Zero False) r" for r
    by (simp only:)
  show ?thesis
  proof (cases "db_get (get_all_reputations rep) a")
    case None
    then show ?thesis using iff by (cases "db_get rep a") auto
  next
    case (Some r)
    then show ?thesis using iff [of r] by simp
  qed
qed

lemma fill_matrix_unknown_voter:
  assumes "matrix_ok m" and "(key, entry) \<in> set (db_entries all_votes)"
    and "to_float_opt (entry_value entry) = Some v" and "fst (snd key) \<notin> set (vm_voters m)"
  shows "fill_matrix all_votes m = Inl (InvalidTransaction ''Failed to set vote in matrix'')"
proof -
  let ?step = "\<lambda>(key, entry) m.
       case to_float_opt (entry_value entry) of
         None \<Rightarrow> Inr m
       | Some v \<Rightarrow> map_err (\<lambda>_. InvalidTransaction ''Failed to set vote in matrix'')
           (set_vote (fst (snd key)) (snd (snd key)) v m)"
  have "try_fold ?step es m' = Inl (InvalidTransaction ''Failed to set vote in matrix'')"
    if "matrix_ok m'" "vm_voters m' = vm_voters m" "(key, entry) \<in> set es" for es m'
    using that
  proof (induction es arbitrary: m')
    case (Cons e es)
    show ?case
    proof (cases "e = (key, entry)")
      case True
      have "\<nexists>m''. set_vote (fst (snd key)) (snd (snd key)) v m' = Inr m''"
        using set_vote_result [OF Cons.prems(1)] Cons.prems(2) assms(4) by simp
      then show ?thesis
        using True assms(3) by (cases "set_vote (fst (snd key)) (snd (snd key)) v m'") auto
    next
      case False
      obtain k x where e: "e = (k, x)" by (cases e)
      show ?thesis
      proof (cases "?step e m'")
        case (Inl err)
        then have "err = InvalidTransaction ''Failed to set vote in matrix''"
          by (cases "to_float_opt (entry_value x)"; cases "set_vote (fst (snd k)) (snd (snd k)) (the (to_float_opt (entry_value x))) m'")
            (auto simp: e)
        then show ?thesis using Inl by simp
      next
        case (Inr m'')
        have "matrix_ok m'' \<and> vm_voters m'' = vm_voters m'"
        proof (cases "to_float_opt (entry_value x)")
          case None
          then show ?thesis using Inr Cons.prems(1) by (simp add: e)
        next
          case (Some w)
          then have "set_vote (fst (snd k)) (snd (snd k)) w m' = Inr m''"
            using Inr by (cases "set_vote (fst (snd k)) (snd (snd k)) w m'") (auto simp: e)
          then show ?thesis using set_vote_keeps_ok(1) [OF Cons.prems(1)] set_vote_frame(1) by blast
        qed
        then have "try_fold ?step es m'' = Inl (InvalidTransaction ''Failed to set vote in matrix'')"
          using Cons.IH [of m''] Cons.prems False by simp
        then show ?thesis using Inr by simp
      qed
    qed
  qed simp
  then show ?thesis unfolding fill_matrix_def using assms(1,2) by blast
qed

lemma positive_not_le: "f_lt (F_Zero False) x \<Longrightarrow> \<not> f_le x (F_Zero False)"
  by (cases x) (auto simp: f_le_def)

text \<open>
  C23. A voter whose stored vote is not an abstention and who holds no reputation any more when the period
  is resolved stops the chain: the matrix has rows for the holders of reputation only, so setting the vote
  fails and the consensus of the period is an error, whatever the oracle is. The period has no outcomes
  yet, the reputations of the others have a positive sum, the decisions to resolve are distinct, and
  every vote is stored under the voting period of its decision. A stored abstention is skipped and does not block.\<close>

theorem consensus_blocked_by_departed_voter:
  assumes "votes_keyed (vs_voting s)" and "get_vote period voter d (vs_voting s) = Some entry"
    and "\<not> is_abstain (entry_value entry)" and "db_get (vs_reputation s) voter = None"
    and "db_entries (get_consensus_outcomes_for_period period (vs_voting s)) = []"
    and "f_lt (F_Zero False) (f_sum (map snd (db_entries (get_all_reputations (vs_reputation s)))))"
    and "distinct ds"
  shows "calculate_and_store_consensus run_consensus period ds ts height s =
    Inl (InvalidTransaction ''Failed to set vote in matrix'')"
proof -
  let ?votes = "get_votes_for_period period (vs_voting s)" and ?reps = "get_all_reputations (vs_reputation s)"
  have "db_get ?votes (period, voter, d) = Some entry"
    using period_votes_get [OF assms(1)] assms(2) by (simp add: get_vote_def)
  then have vote: "((period, voter, d), entry) \<in> set (db_entries ?votes)" by (simp add: db_get_iff_entries)
  have "db_get ?reps voter = None" using assms(4) by (simp add: get_all_reputations_get)
  then have voter: "voter \<notin> set (db_keys ?reps)" by (simp add: set_db_keys domIff)
  obtain v where v: "to_float_opt (entry_value entry) = Some v"
    using assms(3) by (cases "entry_value entry") auto
  have "matrix_ok (vote_matrix_new (db_keys ?reps) (sort ds))"
    using assms(7) by (intro matrix_ok_new) (simp_all add: distinct_db_keys)
  then have "fill_matrix ?votes (vote_matrix_new (db_keys ?reps) (sort ds)) =
      Inl (InvalidTransaction ''Failed to set vote in matrix'')"
    using vote v by (rule fill_matrix_unknown_voter) (use voter in \<open>simp add: vote_matrix_new_def\<close>)
  moreover have "db_entries ?votes \<noteq> []" using vote by auto
  moreover have "db_entries ?reps \<noteq> []" using assms(6) by (auto simp: f_sum_def)
  ultimately show ?thesis
    using assms(5) positive_not_le [OF assms(6)]
    by (simp add: calculate_and_store_consensus_def compute_consensus_def Let_def)
qed

lemma round_mag_small: "round_mag False 1 = F_Num 1" "round_mag False (10 ^ 10) = F_Num (10 ^ 10)"
  using small_double [of 1] small_double [of "10 ^ 10"] by (simp_all add: f_of_nat_def)

lemma round_one: "round_reputation (F_Num 1) = F_Num 1"
proof -
  have "\<lfloor>10 ^ 10 + 1 / 2 :: rat\<rfloor> = 10 ^ 10" by (simp add: floor_eq_iff)
  then show ?thesis using round_mag_small
    by (simp add: round_reputation_def round_to_precision_def REPUTATION_PRECISION_DECIMALS_def
        f_of_nat_def f_mul_def f_div_def)
qed

theorem consensus_blocked_by_departed_voter_witness:
  "\<exists>v s. apply_vote_tx (\<lambda>_. 9) 3 example_vote_state example_vote_tx [] = Inr [v]
     \<and> validate_reputation_transfer (actor_tx 7 (TransferReputation 7 8 (F_Num 1))) (store_votes [v] example_vote_state) = Inr ()
     \<and> apply_transfer_reputation (actor_tx 7 (TransferReputation 7 8 (F_Num 1))) 4 (store_votes [v] example_vote_state) = Inr s
     \<and> (\<forall>run_consensus. calculate_and_store_consensus run_consensus 2 [example_id] 50 6 s =
          Inl (InvalidTransaction ''Failed to set vote in matrix''))"
proof -
  let ?tx = "actor_tx 7 (TransferReputation 7 8 (F_Num 1))"
  obtain v where v: "apply_vote_tx (\<lambda>_. 9) 3 example_vote_state example_vote_tx [] = Inr [v]"
    "vote_key_of v = (2, 7, example_id)" "\<not> is_abstain (vote_value_of v)"
    by (simp add: apply_vote_tx_def apply_submit_vote_def submit_vote_def example_vote_tx_data open_decision_entry
      decision_from_bytes_ok vote_of_def vote_key_of_def example_voting_period convert_vote_value_with_decision_def
      example_decision_def is_categorical_def flip: example_id_def)
  let ?s = "store_votes [v] example_vote_state"
  have reps: "vs_reputation ?s = db_put db_empty 7 (F_Num 1)" by (simp add: store_votes_def)
  have arith: "f_sub (F_Num 1) (F_Num 1) = F_Zero False" "f_add (F_Zero False) (F_Num 1) = F_Num 1"
    using round_mag_small by (simp_all add: f_sub_def)
  have valid: "validate_reputation_transfer ?tx ?s = Inr ()"
    by (simp add: validate_reputation_transfer_def transfer_reputation_def actor_tx_def reps get_reputation_def
        f_le_def round_one)
  obtain s where s: "apply_transfer_reputation ?tx 4 ?s = Inr s" "vs_voting s = vs_voting ?s"
      "vs_reputation s = db_put db_empty 8 (F_Num 1)"
    by (simp add: apply_transfer_reputation_def transfer_reputation_def actor_tx_def get_reputation_def reps
        set_reputation_def arith round_mag_small f_le_def Let_def kv.delete_put_fresh)
  have "votes_keyed (vs_voting example_vote_state)" by (simp add: votes_keyed_def)
  then have "votes_keyed (vs_voting s)" unfolding s(2)
    using v(2) by (intro votes_keyed_store) (auto simp: vote_key_of_def example_voting_period)
  moreover obtain e where "get_vote 2 7 example_id (vs_voting s) = Some e" "\<not> is_abstain (entry_value e)"
    using v(2,3) by (simp add: s(2) store_votes_def put_vote_def get_vote_def)
  moreover have "db_get (vs_reputation s) 7 = None" by (simp add: s(3))
  moreover have "db_entries (get_consensus_outcomes_for_period 2 (vs_voting s)) = []"
    by (simp add: s(2) store_votes_def put_vote_def get_consensus_outcomes_for_period_def voting_dbs_new_def)
  moreover have "f_lt (F_Zero False) (f_sum (map snd (db_entries (get_all_reputations (vs_reputation s)))))"
    by (simp add: s(3) get_all_reputations_def f_sum_def round_mag_small)
  ultimately have "calculate_and_store_consensus run_consensus 2 [example_id] 50 6 s =
          Inl (InvalidTransaction ''Failed to set vote in matrix'')" for run_consensus
    by (rule consensus_blocked_by_departed_voter) simp
  then show ?thesis using v(1) valid s(1) by blast
qed

section \<open>Reverting a consensus\<close>

text \<open>\<open>connect_prevalidated\<close> resolves the closed periods in ascending order and collects the undo entries.\<close>

definition resolve_period ::
    "consensus_oracle \<Rightarrow> nat \<Rightarrow> nat \<Rightarrow> nat \<times> decision_id list \<Rightarrow> consensus_undo_entry list \<times> vote_state
       \<Rightarrow> (error, consensus_undo_entry list \<times> vote_state) result" where
  "resolve_period run_consensus ts height p acc =
     rbind (calculate_and_store_consensus run_consensus (fst p) (snd p) ts height (snd acc)) (\<lambda>(undo, s').
     Inr (fst acc @ (case undo of Some u \<Rightarrow> [u] | None \<Rightarrow> []), s'))"

definition resolve_periods ::
    "consensus_oracle \<Rightarrow> nat \<Rightarrow> nat \<Rightarrow> (nat \<times> decision_id list) list \<Rightarrow> vote_state
       \<Rightarrow> (error, consensus_undo_entry list \<times> vote_state) result" where
  "resolve_periods run_consensus ts height periods s =
     try_fold (resolve_period run_consensus ts height) periods ([], s)"

definition reps_positive :: "vote_state \<Rightarrow> bool" where
  "reps_positive s \<longleftrightarrow> (\<forall>a r. db_get (vs_reputation s) a = Some r \<longrightarrow> f_lt (F_Zero False) r)"

definition outcomes_keyed :: "vote_state \<Rightarrow> bool" where
  "outcomes_keyed s \<longleftrightarrow>
     (\<forall>d oc. db_get (decision_outcomes (vs_voting s)) d = Some oc \<longrightarrow> out_period oc = voting_period d)"

text \<open>The oracle decides on the columns of its matrix only.\<close>

definition oracle_local :: "consensus_oracle \<Rightarrow> bool" where
  "oracle_local run_consensus \<longleftrightarrow>
     (\<forall>m w sc cat mc. run_consensus m w sc cat = Inr mc \<longrightarrow> set (db_keys (mc_outcomes mc)) \<subseteq> set (vm_decisions m))"

lemma get_all_reputations_positive: "reps_positive s \<Longrightarrow> get_all_reputations (vs_reputation s) = vs_reputation s"
  by (rule db_ext) (auto simp: reps_positive_def get_all_reputations_get split: option.splits)

lemma clear_and_restore_eq: "clear_and_restore snapshot rep = get_all_reputations snapshot"
  by (simp add: clear_and_restore_def get_all_reputations_def)

lemma put_outcomes_eq:
  "fold put_decision_outcome ocs v =
     v \<lparr> decision_outcomes := db_put_all (map (\<lambda>oc. (out_decision oc, oc)) ocs) (decision_outcomes v) \<rparr>"
  by (induction ocs arbitrary: v) (simp_all add: put_decision_outcome_def)

lemma delete_outcomes_eq:
  "fold delete_decision_outcome ds v = v \<lparr> decision_outcomes := db_delete_all ds (decision_outcomes v) \<rparr>"
  by (induction ds arbitrary: v) (simp_all add: delete_decision_outcome_def)

lemma commit_revert:
  assumes "commit_consensus_result r s = Inr (u, s')" and "reps_positive s"
    and "get_period_stats (cr_period r) (vs_voting s) = None" and "ps_period (cr_stats r) = cr_period r"
    and "\<forall>oc \<in> set (cr_outcomes r). db_get (decision_outcomes (vs_voting s)) (out_decision oc) = None"
  shows "revert_consensus_entry u s' = s \<lparr> vs_decisions := vs_decisions s' \<rparr>" and "reps_positive s'"
    and "decision_outcomes (vs_voting s') = decision_outcomes (fold put_decision_outcome (cr_outcomes r) (vs_voting s))"
    and "period_stats_db (vs_voting s') = db_put (period_stats_db (vs_voting s)) (cr_period r) (cr_stats r)"
proof -
  let ?v = "vs_voting s" and ?ids = "map out_decision (cr_outcomes r)"
  from assms(1) obtain dbs post where u: "u = \<lparr> cu_period = cr_period r, cu_outcome_ids = ?ids, cu_had_stats = False,
        cu_resolved_ids = map fst (cr_resolutions r), cu_pre_reputation = get_all_reputations (vs_reputation s) \<rparr>"
    and s': "s' = s \<lparr> vs_voting := fold put_decision_outcome (cr_outcomes r) (put_period_stats (cr_stats r) ?v),
        vs_reputation := clear_and_restore post (vs_reputation s), vs_decisions := dbs \<rparr>"
    using assms(3) by (auto simp: commit_consensus_result_def Let_def)
  have outcomes: "db_delete_all ?ids (db_put_all (map (\<lambda>oc. (out_decision oc, oc)) (cr_outcomes r)) (decision_outcomes ?v))
      = decision_outcomes ?v"
  proof (rule db_ext)
    fix d show "db_get (db_delete_all ?ids (db_put_all (map (\<lambda>oc. (out_decision oc, oc)) (cr_outcomes r)) (decision_outcomes ?v))) d
        = db_get (decision_outcomes ?v) d"
      using assms(5) by (auto simp: db_get_delete_all db_get_put_all map_add_def map_of_eq_None_iff dest!: map_of_SomeD
          split: option.split)
  qed
  have stats: "db_delete (db_put (period_stats_db ?v) (cr_period r) (cr_stats r)) (cr_period r) = period_stats_db ?v"
    using assms(3) by (intro kv.delete_put_fresh) (simp add: get_period_stats_def)
  have rep: "clear_and_restore (get_all_reputations (vs_reputation s)) x = vs_reputation s" for x
    using get_all_reputations_positive [OF assms(2)] by (simp add: clear_and_restore_eq)
  show "revert_consensus_entry u s' = s \<lparr> vs_decisions := vs_decisions s' \<rparr>"
    unfolding u s' revert_consensus_entry_def
    by (simp add: rep put_outcomes_eq delete_outcomes_eq put_period_stats_def delete_period_stats_def outcomes stats assms(4))
  show "reps_positive s'"
    by (auto simp: s' reps_positive_def clear_and_restore_eq get_all_reputations_get split: option.splits if_splits)
  show "decision_outcomes (vs_voting s') = decision_outcomes (fold put_decision_outcome (cr_outcomes r) ?v)"
    and "period_stats_db (vs_voting s') = db_put (period_stats_db ?v) (cr_period r) (cr_stats r)"
    by (simp_all add: s' put_outcomes_eq put_period_stats_def assms(4))
qed

lemma outcome_fields [simp]:
  "out_decision (default_outcome period d) = d" "out_period (default_outcome period d) = period"
  "out_decision (svd_outcome mc period n w d v) = d" "out_period (svd_outcome mc period n w d v) = period"
  by (simp_all add: default_outcome_def svd_outcome_def decision_outcome_new_def)

lemma fill_matrix_decisions:
  assumes "fill_matrix all_votes m = Inr m'"
  shows "vm_decisions m' = vm_decisions m"
  using assms unfolding fill_matrix_def
proof (rule try_fold_invariant [where P = "\<lambda>x. vm_decisions x = vm_decisions m"])
  fix e x x' assume "(case e of (key, entry) \<Rightarrow> \<lambda>m.
       case to_float_opt (entry_value entry) of
         None \<Rightarrow> Inr m
       | Some v \<Rightarrow> map_err (\<lambda>_. InvalidTransaction ''Failed to set vote in matrix'')
           (set_vote (fst (snd key)) (snd (snd key)) v m)) x = Inr x'" and "vm_decisions x = vm_decisions m"
  then show "vm_decisions x' = vm_decisions m"
    using set_vote_frame(2) by (auto split: prod.splits option.splits)
qed simp

lemma compute_consensus_result:
  assumes "compute_consensus run_consensus period ds ts height s = Inr (Some r)"
    and "oracle_local run_consensus" and "get_period_stats period (vs_voting s) = None"
  shows "cr_period r = period" and "ps_period (cr_stats r) = period"
    and "oc \<in> set (cr_outcomes r) \<Longrightarrow> out_decision oc \<in> set ds \<and> out_period oc = period"
    and "db_entries (get_consensus_outcomes_for_period period (vs_voting s)) = []"
proof -
  let ?votes = "get_votes_for_period period (vs_voting s)" and ?reps = "get_all_reputations (vs_reputation s)"
  consider "r = no_vote_consensus period ds ts height"
    | mc w where "r = vote_consensus mc period ds ?votes ?reps w s ts height" "set (db_keys (mc_outcomes mc)) \<subseteq> set ds"
  proof (cases "db_entries ?votes = []")
    case True
    then show thesis using assms(1) that(1) by (auto simp: compute_consensus_def Let_def split: if_splits)
  next
    case False
    then obtain m mc where m: "fill_matrix ?votes (vote_matrix_new (db_keys ?reps) (sort ds)) = Inr m"
      and mc: "run_consensus m (weight_vector_from_reputation_map ?reps) (scaled_decisions s (sort ds))
          (categorical_decisions s (sort ds)) = Inr mc"
      and r: "r = vote_consensus mc period ds ?votes ?reps (f_sum (map snd (db_entries ?reps))) s ts height"
      using assms(1) by (auto simp: compute_consensus_def Let_def split: if_splits)
    have "vm_decisions m = sort ds" using fill_matrix_decisions [OF m] by (simp add: vote_matrix_new_def)
    then have "set (db_keys (mc_outcomes mc)) \<subseteq> set ds"
      using assms(2) mc unfolding oracle_local_def by fastforce
    with r show thesis by (rule that(2))
  qed
  then show "cr_period r = period" and "ps_period (cr_stats r) = period"
    and "oc \<in> set (cr_outcomes r) \<Longrightarrow> out_decision oc \<in> set ds \<and> out_period oc = period"
    using assms(3)
    by (cases; auto simp: no_vote_consensus_def vote_consensus_def period_stats_new_def unwrap_or_def Let_def db_keys_def)+
  show "db_entries (get_consensus_outcomes_for_period period (vs_voting s)) = []"
    using assms(1) by (auto simp: compute_consensus_def split: if_splits)
qed

lemma no_outcomes_of_period:
  assumes "outcomes_keyed s" and "db_entries (get_consensus_outcomes_for_period period (vs_voting s)) = []"
    and "voting_period d = period"
  shows "db_get (decision_outcomes (vs_voting s)) d = None"
proof (rule ccontr)
  assume "db_get (decision_outcomes (vs_voting s)) d \<noteq> None"
  then obtain oc where oc: "db_get (decision_outcomes (vs_voting s)) d = Some oc" by blast
  let ?P = "\<lambda>e. period_index (fst e) = saturating_sub period 1 \<and> out_period (snd e) = period"
  let ?es = "map (\<lambda>e. (fst e, out_value (snd e))) (filter ?P (db_entries (decision_outcomes (vs_voting s))))"
  have "out_period oc = period" using assms(1,3) oc unfolding outcomes_keyed_def by blast
  moreover have "period_index d = saturating_sub period 1"
    using assms(3) period_index_less [of d] by (simp add: voting_period_def saturating_sub_def)
  ultimately have "(d, out_value oc) \<in> set ?es" using oc by (force simp: db_get_iff_entries)
  then have "map_of (rev ?es) d \<noteq> None" unfolding map_of_eq_None_iff by force
  then have "db_get (get_consensus_outcomes_for_period period (vs_voting s)) d \<noteq> None"
    by (auto simp: get_consensus_outcomes_for_period_def Let_def db_get_put_all map_add_def split: option.split)
  then show False using assms(2) by (auto simp: db_get_iff_entries)
qed

definition consensus_ready :: "(nat \<times> decision_id list) list \<Rightarrow> vote_state \<Rightarrow> bool" where
  "consensus_ready periods s \<longleftrightarrow> reps_positive s \<and> outcomes_keyed s \<and> distinct (map fst periods)
     \<and> (\<forall>(period, ds) \<in> set periods. get_period_stats period (vs_voting s) = None
          \<and> (\<forall>d \<in> set ds. voting_period d = period))"

lemma resolve_period_revert:
  assumes "consensus_ready ((period, ds) # periods) s" and "oracle_local run_consensus"
    and "calculate_and_store_consensus run_consensus period ds ts height s = Inr (undo, s')"
  shows "consensus_ready periods s'"
    and "revert_consensus (case undo of Some u \<Rightarrow> [u] | None \<Rightarrow> []) (s' \<lparr> vs_decisions := x \<rparr>) = s \<lparr> vs_decisions := x \<rparr>"
proof -
  have ready: "reps_positive s" "outcomes_keyed s" "get_period_stats period (vs_voting s) = None"
      "\<forall>d \<in> set ds. voting_period d = period"
    using assms(1) by (auto simp: consensus_ready_def)
  have "consensus_ready periods s'
    \<and> revert_consensus (case undo of Some u \<Rightarrow> [u] | None \<Rightarrow> []) (s' \<lparr> vs_decisions := x \<rparr>) = s \<lparr> vs_decisions := x \<rparr>"
  proof (cases undo)
    case None
    then have "s' = s" using assms(3) by (auto simp: calculate_and_store_consensus_def split: option.splits prod.splits)
    then show ?thesis using None assms(1) by (simp add: consensus_ready_def revert_consensus_def)
  next
    case (Some u)
    then obtain r where r: "compute_consensus run_consensus period ds ts height s = Inr (Some r)"
        and commit: "commit_consensus_result r s = Inr (u, s')"
      using assms(3) by (auto simp: calculate_and_store_consensus_def split: option.splits prod.splits)
    note res = compute_consensus_result [OF r assms(2) ready(3)]
    have fresh: "\<forall>oc \<in> set (cr_outcomes r). db_get (decision_outcomes (vs_voting s)) (out_decision oc) = None"
      using no_outcomes_of_period [OF ready(2) res(4)] res(3) ready(4) by blast
    note undone = commit_revert [OF commit ready(1) _ _ fresh, unfolded res(1,2), OF ready(3) refl]
    have "outcomes_keyed s'"
      unfolding outcomes_keyed_def
    proof (intro allI impI)
      fix d oc assume "db_get (decision_outcomes (vs_voting s')) d = Some oc"
      then have "(oc \<in> set (cr_outcomes r) \<and> out_decision oc = d) \<or> db_get (decision_outcomes (vs_voting s)) d = Some oc"
        unfolding undone(3) by (auto simp: put_outcomes_eq db_get_put_all map_add_Some_iff dest!: map_of_SomeD)
      then show "out_period oc = voting_period d"
        using res(3) [of oc] ready(2,4) unfolding outcomes_keyed_def by auto
    qed
    moreover have "\<forall>(p, ds) \<in> set periods. get_period_stats p (vs_voting s') = None"
    proof clarify
      fix p ds' assume p: "(p, ds') \<in> set periods"
      then have "p \<noteq> period" using assms(1) unfolding consensus_ready_def by force
      moreover have "get_period_stats p (vs_voting s) = None" using p assms(1) unfolding consensus_ready_def by auto
      ultimately show "get_period_stats p (vs_voting s') = None" by (simp add: get_period_stats_def undone(4))
    qed
    ultimately have "consensus_ready periods s'"
      using assms(1) undone(2) unfolding consensus_ready_def by fastforce
    moreover have "revert_consensus_entry u (s' \<lparr> vs_decisions := x \<rparr>) = (revert_consensus_entry u s') \<lparr> vs_decisions := x \<rparr>"
      by (simp add: revert_consensus_entry_def Let_def)
    ultimately show ?thesis using Some undone(1) by (simp add: revert_consensus_def)
  qed
  then show "consensus_ready periods s'"
    and "revert_consensus (case undo of Some u \<Rightarrow> [u] | None \<Rightarrow> []) (s' \<lparr> vs_decisions := x \<rparr>) = s \<lparr> vs_decisions := x \<rparr>"
    by blast+
qed

lemma resolve_periods_revert:
  assumes "try_fold (resolve_period run_consensus ts height) periods (us, s) = Inr (us', s')"
    and "consensus_ready periods s" and "oracle_local run_consensus"
  shows "\<exists>new. us' = us @ new \<and> revert_consensus new (s' \<lparr> vs_decisions := x \<rparr>) = s \<lparr> vs_decisions := x \<rparr>"
  using assms
proof (induction periods arbitrary: us s)
  case Nil
  then show ?case by (simp add: revert_consensus_def)
next
  case (Cons p periods)
  obtain period ds where p: "p = (period, ds)" by (cases p)
  obtain undo s1 where step: "calculate_and_store_consensus run_consensus period ds ts height s = Inr (undo, s1)"
    and rest: "try_fold (resolve_period run_consensus ts height) periods
      (us @ (case undo of Some u \<Rightarrow> [u] | None \<Rightarrow> []), s1) = Inr (us', s')"
    using Cons.prems(1) unfolding try_fold.simps
    by (cases "calculate_and_store_consensus run_consensus period ds ts height s")
      (auto simp: resolve_period_def [of _ _ _ "(period, ds)"] p)
  let ?u = "case undo of Some u \<Rightarrow> [u] | None \<Rightarrow> []"
  note undone = resolve_period_revert [OF Cons.prems(2) [unfolded p] Cons.prems(3) step]
  obtain new where new: "us' = (us @ ?u) @ new" "revert_consensus new (s' \<lparr> vs_decisions := x \<rparr>) = s1 \<lparr> vs_decisions := x \<rparr>"
    using Cons.IH [OF rest undone(1) Cons.prems(3)] by blast
  have "revert_consensus (?u @ new) (s' \<lparr> vs_decisions := x \<rparr>) = s \<lparr> vs_decisions := x \<rparr>"
    using new(2) undone(2) [of x] by (simp add: revert_consensus_def)
  then show ?case using new(1) by (intro exI [of _ "?u @ new"]) simp
qed

text \<open>
  C16. Resolving the closed periods of a block and reverting the collected undo entries gives back the
  votes, the outcomes, the period statistics and every reputation, whatever the oracle decided; what is
  left changed are the decision histories, which \<open>disconnect_tip\<close> rolls back on its own. The oracle may
  decide on the decisions of its matrix only, the stored reputations are positive, the outcomes are keyed
  by the period of their decision and the periods have no statistics yet.\<close>

theorem consensus_roundtrip:
  assumes "resolve_periods run_consensus ts height periods s = Inr (entries, s')"
    and "consensus_ready periods s" and "oracle_local run_consensus"
  shows "revert_consensus entries s' = s \<lparr> vs_decisions := vs_decisions s' \<rparr>"
  using resolve_periods_revert [OF assms(1) [unfolded resolve_periods_def] assms(2,3), of "vs_decisions s'"] by auto

definition unanimous_oracle :: consensus_oracle where
  "unanimous_oracle m w sc cat = Inr \<lparr> mc_outcomes = db_put_all (map (\<lambda>d. (d, Some (F_Num 1))) (vm_decisions m)) db_empty,
     mc_first_loading = [], mc_certainty = F_Num 1, mc_updated_reputations = w, mc_categorical_winners = db_empty \<rparr>"

lemma unanimous_oracle_local: "oracle_local unanimous_oracle"
  by (auto simp: oracle_local_def unanimous_oracle_def set_db_keys db_get_put_all map_add_Some_iff dest!: map_of_SomeD)

definition voted_state :: vote_state where
  "voted_state = store_votes [vote_of example_vote_state 3 9 7 example_id (F_Num 1) 5] example_vote_state"

lemma voted_state_simps:
  "vs_reputation voted_state = db_put db_empty 7 (F_Num 1)" "vs_decisions voted_state = open_decisions"
  "decision_outcomes (vs_voting voted_state) = db_empty" "period_stats_db (vs_voting voted_state) = db_empty"
  "votes (vs_voting voted_state) = db_put db_empty (2, 7, example_id)
     \<lparr> entry_value = BinaryVote True, entry_timestamp = 5, entry_height = 3 \<rparr>"
  by (simp_all add: voted_state_def store_votes_def put_vote_def voting_dbs_new_def vote_key_of_def vote_of_def
      example_voting_period open_decision_entry convert_vote_value_with_decision_def example_decision_def is_categorical_def)

lemma voted_state_ready: "consensus_ready [(2, [example_id])] voted_state"
  by (simp add: consensus_ready_def reps_positive_def outcomes_keyed_def voted_state_simps get_period_stats_def
      example_voting_period)

lemma voted_state_votes: "get_votes_for_period 2 (vs_voting voted_state) = votes (vs_voting voted_state)"
  by (simp add: get_votes_for_period_def votes_listed_def voted_state_simps)

lemma voted_state_reputations: "get_all_reputations (vs_reputation voted_state) = db_put db_empty 7 (F_Num 1)"
  by (simp add: get_all_reputations_def voted_state_simps)

lemma voted_state_fills:
  "\<exists>m. fill_matrix (votes (vs_voting voted_state)) (vote_matrix_new [7] [example_id]) = Inr m \<and> vm_decisions m = [example_id]"
  by (simp add: fill_matrix_def voted_state_simps set_vote_def vote_matrix_new_def index_of_list_def)

lemma round_mag_not_negative: "0 \<le> a \<Longrightarrow> \<not> f_lt (round_mag False a) (F_Zero False)"
  using round_val_nonneg [of a] by (simp add: round_mag_eq)

lemma conserved_unit: "verify_reputation_conservation (db_put db_empty 7 (F_Num 1)) (db_put db_empty 7 (F_Num 1)) = Inr ()"
  by (simp add: verify_reputation_conservation_def Let_def f_sum_def round_mag_small f_sub_def
      INITIAL_REPUTATION_TOTAL_def CONSENSUS_CONSERVATION_EPSILON_def REPUTATION_ANCHOR_EPSILON_def
      f_abs_def round_mag_not_negative)

lemma voted_state_resolves:
  "\<exists>u s'. calculate_and_store_consensus unanimous_oracle 2 [example_id] 50 6 voted_state = Inr (Some u, s')"
proof -
  obtain m where m: "fill_matrix (votes (vs_voting voted_state)) (vote_matrix_new [7] [example_id]) = Inr m"
    "vm_decisions m = [example_id]" using voted_state_fills by blast
  have w: "weight_vector_from_reputation_map (db_put db_empty 7 (F_Num 1)) = db_put db_empty 7 (F_Num 1)"
    by (simp add: weight_vector_from_reputation_map_def f_clamp_unit_def)
  obtain r where r: "compute_consensus unanimous_oracle 2 [example_id] 50 6 voted_state = Inr (Some r)"
      "cr_resolutions r = [(example_id, F_Num 1)]" "cr_updated_reputations r = db_put db_empty 7 (F_Num 1)" "cr_height r = 6"
    using m(1) unfolding compute_consensus_def voted_state_votes voted_state_reputations
    by (simp add: m(2) w Let_def voted_state_simps get_consensus_outcomes_for_period_def f_sum_def round_mag_small
        f_le_def unanimous_oracle_def vote_consensus_def db_keys_def)
  have post: "compute_post_consensus_reputation (db_put db_empty 7 (F_Num 1)) (db_put db_empty 7 (F_Num 1))
      = db_put db_empty 7 (F_Num 1)"
    by (simp add: compute_post_consensus_reputation_def kv.put_put)
  have "\<exists>dbs. transition_decision_to_resolved example_id 6 (F_Num 1) open_decisions = Inr dbs"
    using round_val_nonneg [of 1]
    by (simp add: transition_decision_to_resolved_def get_decision_state_history_def open_decisions_def
        transition_to_resolved_def current_state_def f_lit_def round_mag_eq)
  moreover have "validate_consensus_commit r open_decisions = Inr ()"
    by (simp add: validate_consensus_commit_def r(2) get_decision_state_history_def open_decisions_def)
  ultimately have "\<exists>u s'. commit_consensus_result r voted_state = Inr (u, s')"
    unfolding commit_consensus_result_def voted_state_reputations r(3) post voted_state_simps(2) r(2,4)
    by (auto simp: conserved_unit post Let_def)
  then show ?thesis using r(1) by (auto simp: calculate_and_store_consensus_def)
qed

theorem consensus_roundtrip_witness:
  "consensus_ready [(2, [example_id])] voted_state \<and> oracle_local unanimous_oracle
   \<and> (\<exists>entries s'. resolve_periods unanimous_oracle 50 6 [(2, [example_id])] voted_state = Inr (entries, s')
        \<and> entries \<noteq> [] \<and> revert_consensus entries s' = voted_state \<lparr> vs_decisions := vs_decisions s' \<rparr>)"
proof -
  obtain u s' where "calculate_and_store_consensus unanimous_oracle 2 [example_id] 50 6 voted_state = Inr (Some u, s')"
    using voted_state_resolves by blast
  then have res: "resolve_periods unanimous_oracle 50 6 [(2, [example_id])] voted_state = Inr ([u], s')"
    by (simp add: resolve_periods_def resolve_period_def)
  from consensus_roundtrip [OF this voted_state_ready unanimous_oracle_local] res show ?thesis
    using voted_state_ready unanimous_oracle_local by blast
qed

end
