(* ===== verification/MarketTypes.thy ===== *)
theory MarketTypes
  imports DecisionTypes Allocation
begin

text \<open>
  Markets: the outcome space and the storage fee (\<open>lib/math/markets.rs\<close>), states, dimensions and share
  accounts (\<open>lib/state/markets/types.rs\<close>) and the market itself (\<open>lib/state/markets/market.rs\<close>).

  Parameters of the definitions are \<open>hex_decode\<close> for the \<open>const-hex\<close> crate, \<open>market_id_of\<close> for the hash of
  the market's content and \<open>array_sum\<close> for the sum of an \<open>ndarray\<close> array, whose order of additions the
  crate chooses. Characters are code points below 256.
\<close>

section \<open>Outcome space\<close>

definition BASE_MARKET_STORAGE_COST_SATS :: nat where "BASE_MARKET_STORAGE_COST_SATS = 1000"
definition L2_STORAGE_RATE_SATS_PER_BYTE :: nat where "L2_STORAGE_RATE_SATS_PER_BYTE = 1"
definition MAX_OUTCOMES :: nat where "MAX_OUTCOMES = 256"
definition MIN_OUTCOMES :: nat where "MIN_OUTCOMES = 2"

definition extend_combos :: "nat list list \<Rightarrow> nat \<Rightarrow> nat list list" where
  "extend_combos combos n = concat (map (\<lambda>combo. map (\<lambda>v. combo @ [v]) [0..<n]) combos)"

definition cartesian_product :: "nat list \<Rightarrow> nat list list" where
  "cartesian_product dims = foldl extend_combos [[]] dims"

definition outcome_space_size :: "nat list \<Rightarrow> nat option" where
  "outcome_space_size dims = foldl (\<lambda>acc n. Option.bind acc (\<lambda>a. checked_mul 64 a n)) (Some 1) dims"

definition market_storage_fee :: "nat \<Rightarrow> nat" where
  "market_storage_fee outcomes =
     wrapping_add 64 BASE_MARKET_STORAGE_COST_SATS
       (wrapping_mul 64 (wrapping_mul 64 outcomes outcomes) L2_STORAGE_RATE_SATS_PER_BYTE)"

section \<open>States and dimensions\<close>

datatype market_state = MarketTrading | MarketCancelled | MarketInvalid | MarketSettled

fun market_state_key :: "market_state \<Rightarrow> nat" where
  "market_state_key MarketTrading = 0"
| "market_state_key MarketCancelled = 1"
| "market_state_key MarketInvalid = 2"
| "market_state_key MarketSettled = 3"

lemma market_state_key_inj: "market_state_key x = market_state_key y \<Longrightarrow> x = y"
  by (cases x; cases y) simp_all

instantiation market_state :: linorder
begin

definition less_eq_market_state :: "market_state \<Rightarrow> market_state \<Rightarrow> bool" where
  "less_eq_market_state x y = (market_state_key x \<le> market_state_key y)"

definition less_market_state :: "market_state \<Rightarrow> market_state \<Rightarrow> bool" where
  "less_market_state x y = (market_state_key x < market_state_key y)"

instance
  by standard (auto simp: less_eq_market_state_def less_market_state_def intro: market_state_key_inj)

end

datatype market_error =
    InvalidDimensions
  | TooManyStates nat
  | InvalidOutcomeIndex nat
  | InvalidStateTransition market_state market_state
  | MarketNotFound market_id
  | DecisionNotFound decision_id
  | DecisionValidationFailed decision_id
  | InvalidOutcomeCombination
  | DuplicateDecision decision_id
  | MarketDatabaseError string

fun market_can_transition_to :: "market_state \<Rightarrow> market_state \<Rightarrow> bool" where
  "market_can_transition_to MarketTrading _ = True"
| "market_can_transition_to MarketCancelled new = (new = MarketCancelled)"
| "market_can_transition_to MarketInvalid new = (new = MarketInvalid \<or> new = MarketSettled)"
| "market_can_transition_to MarketSettled new = (new = MarketSettled)"

definition allows_trading :: "market_state \<Rightarrow> bool" where
  "allows_trading s = (s = MarketTrading)"

datatype dimension_spec = Single decision_id | Categorical decision_id

fun spec_decision :: "dimension_spec \<Rightarrow> decision_id" where
  "spec_decision (Single d) = d"
| "spec_decision (Categorical d) = d"

text \<open>\<open>char::is_whitespace\<close> and \<open>str::trim\<close>.\<close>

definition is_whitespace :: "char \<Rightarrow> bool" where
  "is_whitespace c = (of_char c \<in> {9, 10, 11, 12, 13, 32, 133, 160 :: nat})"

definition trim :: "string \<Rightarrow> string" where
  "trim s = rev (dropWhile is_whitespace (rev (dropWhile is_whitespace s)))"

fun parse_single_decision ::
    "(string \<Rightarrow> 8 word list option) \<Rightarrow> string \<Rightarrow> (market_error, decision_id) result" where
  "parse_single_decision hex_decode s =
     (case hex_decode s of
        Some [a, b, c] \<Rightarrow> map_err (\<lambda>_. InvalidDimensions) (from_bytes a b c)
      | _ \<Rightarrow> Inl InvalidDimensions)"

text \<open>The text up to the bracket that closes the group, and what follows it.\<close>

fun take_group :: "nat \<Rightarrow> string \<Rightarrow> (string \<times> string) option" where
  "take_group depth [] = None"
| "take_group depth (c # cs) =
     (if c = CHR '']'' \<and> depth = 1 then Some ([], cs)
      else map_option (\<lambda>(grp, rest). (c # grp, rest))
        (take_group (if c = CHR ''['' then depth + 1 else if c = CHR '']'' then depth - 1 else depth) cs))"

lemma take_group_shorter: "take_group depth cs = Some (grp, rest) \<Longrightarrow> length rest < length cs"
  by (induction depth cs arbitrary: grp rule: take_group.induct) (fastforce split: if_splits)+

lemma dropWhile_Cons_length: "dropWhile P xs = y # ys \<Longrightarrow> length ys < length xs"
  by (metis Suc_le_lessD length_Cons length_dropWhile_le)

function parse_loop ::
    "(string \<Rightarrow> 8 word list option) \<Rightarrow> string \<Rightarrow> (market_error, dimension_spec list) result" where
  "parse_loop hex_decode inp =
     (case dropWhile (\<lambda>c. is_whitespace c \<or> c = CHR '','') inp of
        [] \<Rightarrow> Inr []
      | c # cs \<Rightarrow>
          if c = CHR ''['' then
            (case take_group 1 cs of
               None \<Rightarrow> Inl InvalidDimensions
             | Some (grp, rest) \<Rightarrow>
                 rbind (parse_single_decision hex_decode (trim grp)) (\<lambda>d.
                 rbind (parse_loop hex_decode rest) (\<lambda>specs. Inr (Categorical d # specs))))
          else
            rbind (parse_single_decision hex_decode
                     (trim (takeWhile (\<lambda>c. c \<noteq> CHR '','' \<and> c \<noteq> CHR ''['') (c # cs)))) (\<lambda>d.
            rbind (parse_loop hex_decode (dropWhile (\<lambda>c. c \<noteq> CHR '','' \<and> c \<noteq> CHR ''['') (c # cs))) (\<lambda>specs.
            Inr (Single d # specs))))"
  by pat_completeness auto

termination
proof (relation "measure (\<lambda>(_, inp). length inp)", goal_cases)
  case (2 h inp c cs x grp rest d)
  then show ?case using take_group_shorter [of 1 cs grp rest] dropWhile_Cons_length [of _ inp c cs] by force
next
  case (3 h inp c cs d)
  then have "c \<noteq> CHR '',''" using hd_dropWhile [of "\<lambda>c. is_whitespace c \<or> c = CHR '',''" inp] by auto
  then have "length (dropWhile (\<lambda>c. c \<noteq> CHR '','' \<and> c \<noteq> CHR ''['') (c # cs)) \<le> length cs"
    using 3 by (simp add: length_dropWhile_le)
  then show ?case using dropWhile_Cons_length [of _ inp c cs] 3 by force
qed simp

declare parse_loop.simps [simp del]

definition parse_dimensions ::
    "(string \<Rightarrow> 8 word list option) \<Rightarrow> string \<Rightarrow> (market_error, dimension_spec list) result" where
  "parse_dimensions hex_decode inp =
     (let t = trim inp
      in if t = [] \<or> hd t \<noteq> CHR ''['' \<or> last t \<noteq> CHR '']'' then Inl InvalidDimensions
         else parse_loop hex_decode (butlast (tl t)))"

section \<open>Share accounts\<close>

record share_account =
  positions :: "(market_id \<times> nat, int) db"
  sa_last_updated :: nat

definition share_account_new :: share_account where
  "share_account_new = \<lparr> positions = db_empty, sa_last_updated = 0 \<rparr>"

definition get_position :: "share_account \<Rightarrow> market_id \<Rightarrow> nat \<Rightarrow> int" where
  "get_position acc m i = unwrap_or 0 (db_get (positions acc) (m, i))"

definition add_shares :: "market_id \<Rightarrow> nat \<Rightarrow> int \<Rightarrow> nat \<Rightarrow> share_account \<Rightarrow> share_account" where
  "add_shares m i n height acc =
     acc \<lparr> positions := db_put (positions acc) (m, i) (wrap_i64 (unwrap_or 0 (db_get (positions acc) (m, i)) + n)),
           sa_last_updated := height \<rparr>"

definition remove_shares ::
    "market_id \<Rightarrow> nat \<Rightarrow> int \<Rightarrow> nat \<Rightarrow> share_account \<Rightarrow> (market_error, share_account) result" where
  "remove_shares m i n height acc =
     (let current = unwrap_or 0 (db_get (positions acc) (m, i))
      in if current < n then Inl InvalidOutcomeCombination
         else
           (let new_amount = wrap_i64 (current - n)
            in Inr (acc \<lparr> positions := (if 0 < new_amount then db_put (positions acc) (m, i) new_amount
                                          else db_delete (positions acc) (m, i)),
                          sa_last_updated := height \<rparr>)))"

section \<open>The market\<close>

record market =
  mk_id :: market_id
  mk_title :: string
  mk_description :: string
  mk_tags :: "string list"
  mk_creator_address :: address
  mk_dimension_specs :: "dimension_spec list"
  mk_decision_ids :: "decision_id list"
  mk_state_combos :: "nat list list"
  mk_created_at_height :: nat
  mk_expires_at_height :: "nat option"
  mk_tau_from_now :: nat
  mk_storage_fee_sats :: nat
  mk_market_state :: market_state
  mk_trading_fee :: f64
  mk_liquidity_base_sats :: nat
  mk_shares :: "int list"
  mk_final_prices :: "f64 list"
  mk_version :: nat
  mk_last_updated_height :: nat
  mk_total_volume_sats :: nat
  mk_outcome_volumes_sats :: "nat list"
  mk_tx_pow :: "nat \<times> nat \<times> nat"

fun add_decision :: "decision_id \<Rightarrow> decision_id list \<Rightarrow> (market_error, decision_id list) result" where
  "add_decision d seen = (if d \<in> set seen then Inl (DuplicateDecision d) else Inr (d # seen))"

fun dimension_range ::
    "(decision_id, decision) db \<Rightarrow> dimension_spec \<Rightarrow> (market_error, nat \<times> nat) result" where
  "dimension_range decisions (Single d) =
     rbind (ok_or (db_get decisions d) (DecisionNotFound d)) (\<lambda>_. Inr (3, 2))"
| "dimension_range decisions (Categorical d) =
     rbind (ok_or (db_get decisions d) (DecisionNotFound d)) (\<lambda>dec.
     rbind (ok_or (option_count dec) InvalidDimensions) (\<lambda>n.
     if n < 2 then Inl InvalidDimensions else Inr (n, n)))"

definition push_range ::
    "(decision_id, decision) db \<Rightarrow> dimension_spec \<Rightarrow> (nat \<times> nat) list \<Rightarrow> (market_error, (nat \<times> nat) list) result" where
  "push_range decisions spec ranges =
     rbind (dimension_range decisions spec) (\<lambda>r. Inr (ranges @ [r]))"

definition generate_state_combos ::
    "dimension_spec list \<Rightarrow> (decision_id, decision) db \<Rightarrow> (market_error, nat list list) result" where
  "generate_state_combos specs decisions =
     (if specs = [] then Inl InvalidDimensions
      else
        rbind (try_fold (\<lambda>spec. add_decision (spec_decision spec)) specs []) (\<lambda>_.
        rbind (try_fold (push_range decisions) specs []) (\<lambda>ranges.
        rbind (ok_or (outcome_space_size (map snd ranges)) (TooManyStates (2 ^ 64 - 1))) (\<lambda>tradeable.
        if MAX_OUTCOMES < tradeable then Inl (TooManyStates tradeable)
        else Inr (cartesian_product (map fst ranges))))))"

fun state_tradeable :: "nat \<times> dimension_spec \<Rightarrow> bool" where
  "state_tradeable (state, Single _) = (state < 2)"
| "state_tradeable (state, Categorical _) = True"

definition get_valid_state_combos :: "market \<Rightarrow> (nat \<times> nat list) list" where
  "get_valid_state_combos m =
     filter (\<lambda>(_, combo). list_all state_tradeable (zip combo (mk_dimension_specs m)))
       (enumerate 0 (mk_state_combos m))"

definition get_outcome_count :: "market \<Rightarrow> nat" where
  "get_outcome_count m = length (get_valid_state_combos m)"

definition calculate_max_tau :: "decision_id list \<Rightarrow> (decision_id, decision) db \<Rightarrow> nat" where
  "calculate_max_tau ids decisions =
     (case List.map_filter (\<lambda>d. map_option (\<lambda>_. 5) (db_get decisions d)) ids of
        [] \<Rightarrow> 5 | t # ts \<Rightarrow> Max (set (t # ts)))"

definition market_new ::
    "(string \<Rightarrow> string \<Rightarrow> address \<Rightarrow> dimension_spec list \<Rightarrow> market_id) \<Rightarrow> string \<Rightarrow> string \<Rightarrow> string list \<Rightarrow> address
       \<Rightarrow> dimension_spec list \<Rightarrow> decision_id list \<Rightarrow> nat list list \<Rightarrow> f64 \<Rightarrow> nat \<Rightarrow> nat option
       \<Rightarrow> (decision_id, decision) db \<Rightarrow> nat \<times> nat \<times> nat \<Rightarrow> (market_error, market) result" where
  "market_new market_id_of title descr tgs creator specs ids combos fee created expires decisions pow =
     (if ids = [] \<or> combos = [] then Inl InvalidDimensions
      else
        (let m = \<lparr> mk_id = 0, mk_title = title, mk_description = descr, mk_tags = tgs, mk_creator_address = creator,
                   mk_dimension_specs = specs, mk_decision_ids = ids, mk_state_combos = combos,
                   mk_created_at_height = created, mk_expires_at_height = expires,
                   mk_tau_from_now = calculate_max_tau ids decisions, mk_storage_fee_sats = 0,
                   mk_market_state = MarketTrading, mk_trading_fee = fee, mk_liquidity_base_sats = 0,
                   mk_shares = [], mk_final_prices = [], mk_version = 0, mk_last_updated_height = created,
                   mk_total_volume_sats = 0, mk_outcome_volumes_sats = [], mk_tx_pow = pow \<rparr>;
             n = length (get_valid_state_combos m)
         in Inr (m \<lparr> mk_shares := replicate n 0, mk_final_prices := replicate n (F_Zero False),
                     mk_outcome_volumes_sats := replicate n 0, mk_storage_fee_sats := market_storage_fee n,
                     mk_id := market_id_of title descr creator specs \<rparr>)))"

record market_builder =
  mb_title :: string
  mb_description :: string
  mb_tags :: "string list"
  mb_creator_address :: address
  mb_dimension_specs :: "dimension_spec list option"
  mb_trading_fee :: f64
  mb_tx_pow :: "nat \<times> nat \<times> nat"

definition market_builder_build ::
    "(string \<Rightarrow> string \<Rightarrow> address \<Rightarrow> dimension_spec list \<Rightarrow> market_id) \<Rightarrow> market_builder \<Rightarrow> nat \<Rightarrow> nat option
       \<Rightarrow> (decision_id, decision) db \<Rightarrow> (market_error, market) result" where
  "market_builder_build market_id_of b created expires decisions =
     rbind (ok_or (mb_dimension_specs b) InvalidDimensions) (\<lambda>specs.
     rbind (generate_state_combos specs decisions) (\<lambda>combos.
     market_new market_id_of (mb_title b) (mb_description b) (mb_tags b) (mb_creator_address b) specs
       (map spec_decision specs) combos (mb_trading_fee b) created expires decisions (mb_tx_pow b)))"

section \<open>Updates\<close>

definition update_state ::
    "nat \<Rightarrow> market_state option \<Rightarrow> int list option \<Rightarrow> f64 list option \<Rightarrow> market \<Rightarrow> (market_error, market) result" where
  "update_state height new_state new_shares new_prices m =
     rbind (case new_state of
              None \<Rightarrow> Inr m
            | Some st \<Rightarrow>
                if \<not> market_can_transition_to (mk_market_state m) st
                then Inl (InvalidStateTransition (mk_market_state m) st)
                else Inr (m \<lparr> mk_market_state := st \<rparr>)) (\<lambda>m1.
     rbind (case new_shares of
              None \<Rightarrow> Inr m1
            | Some ns \<Rightarrow>
                if length ns \<noteq> length (mk_shares m1) then Inl InvalidDimensions
                else Inr (m1 \<lparr> mk_shares := ns \<rparr>)) (\<lambda>m2.
     let m3 = (case new_prices of None \<Rightarrow> m2 | Some ps \<Rightarrow> m2 \<lparr> mk_final_prices := ps \<rparr>)
     in Inr (m3 \<lparr> mk_version := wrapping_add 64 (mk_version m3) 1, mk_last_updated_height := height \<rparr>)))"

definition update_shares :: "int list \<Rightarrow> nat \<Rightarrow> market \<Rightarrow> (market_error, market) result" where
  "update_shares ns height m = update_state height None (Some ns) None m"

definition update_trading_volume :: "nat \<Rightarrow> nat \<Rightarrow> market \<Rightarrow> (market_error, market) result" where
  "update_trading_volume i cost m =
     (if length (mk_outcome_volumes_sats m) \<le> i then Inl (InvalidOutcomeIndex i)
      else Inr (m \<lparr> mk_outcome_volumes_sats :=
                      (mk_outcome_volumes_sats m)[i := saturating_add 64 (mk_outcome_volumes_sats m ! i) cost],
                    mk_total_volume_sats := saturating_add 64 (mk_total_volume_sats m) cost \<rparr>))"

definition revert_trading_volume :: "nat \<Rightarrow> nat \<Rightarrow> market \<Rightarrow> (market_error, market) result" where
  "revert_trading_volume i cost m =
     (if length (mk_outcome_volumes_sats m) \<le> i then Inl (InvalidOutcomeIndex i)
      else Inr (m \<lparr> mk_outcome_volumes_sats :=
                      (mk_outcome_volumes_sats m)[i := saturating_sub (mk_outcome_volumes_sats m ! i) cost],
                    mk_total_volume_sats := saturating_sub (mk_total_volume_sats m) cost \<rparr>))"

definition market_cancel :: "nat \<Rightarrow> market \<Rightarrow> (market_error, market) result" where
  "market_cancel height m = update_state height (Some MarketCancelled) None None m"

definition market_invalidate :: "nat \<Rightarrow> market \<Rightarrow> (market_error, market) result" where
  "market_invalidate height m = update_state height (Some MarketInvalid) None None m"

definition tradeable_index_for_positions :: "nat list \<Rightarrow> market \<Rightarrow> (market_error, nat) result" where
  "tradeable_index_for_positions pos m =
     (if length pos \<noteq> length (mk_decision_ids m) then Inl InvalidDimensions
      else (let combos = get_valid_state_combos m
            in ok_or (find (\<lambda>i. snd (combos ! i) = pos) [0..<length combos]) InvalidOutcomeCombination))"

section \<open>Final prices\<close>

definition scalar_axis :: "bool \<Rightarrow> f64 \<Rightarrow> f64 list" where
  "scalar_axis scaled v =
     (if scaled then [f_sub (F_Num 1) v, v]
      else if f_lt (f_lit (7 / 10)) v then [F_Zero False, F_Num 1]
      else if f_lt v (f_lit (3 / 10)) then [F_Num 1, F_Zero False]
      else [F_Num (1 / 2), F_Num (1 / 2)])"

definition real_winner :: "nat \<Rightarrow> f64 \<Rightarrow> nat option" where
  "real_winner n v =
     (if f_eq v (F_Num (1 / 2)) \<or> \<not> f_is_finite v then None
      else
        (let rounded = f_round v
         in if f_lt F_EPSILON (f_abs (f_sub v rounded)) then None
            else
              (let idx = f_to_i64 rounded
               in if 0 \<le> idx \<and> nat idx < n then Some (nat idx) else None)))"

definition category_axis :: "nat \<Rightarrow> f64 option \<Rightarrow> f64 list" where
  "category_axis n v =
     (case Option.bind v (real_winner n) of
        Some winner \<Rightarrow> map (\<lambda>k. if k = winner then F_Num 1 else F_Zero False) [0..<n]
      | None \<Rightarrow> replicate n (f_div (F_Num 1) (f_of_nat n)))"

fun axis_of :: "(decision_id, f64) db \<Rightarrow> (decision_id, decision) db \<Rightarrow> dimension_spec \<Rightarrow> f64 list" where
  "axis_of outcomes decisions (Single d) =
     scalar_axis (case db_get decisions d of Some dec \<Rightarrow> is_scaled dec | None \<Rightarrow> False)
       (unwrap_or (F_Num (1 / 2)) (db_get outcomes d))"
| "axis_of outcomes decisions (Categorical d) =
     category_axis (unwrap_or 2 (Option.bind (db_get decisions d) option_count)) (db_get outcomes d)"

definition joint_price :: "f64 list list \<Rightarrow> nat list \<Rightarrow> f64" where
  "joint_price axes combo =
     foldl (\<lambda>p (k, state). if k < length axes \<and> state < length (axes ! k) then f_mul p (axes ! k ! state) else p)
       (F_Num 1) (enumerate 0 combo)"

definition calculate_final_prices ::
    "(f64 list \<Rightarrow> f64) \<Rightarrow> (decision_id, f64) db \<Rightarrow> (decision_id, decision) db \<Rightarrow> market \<Rightarrow> f64 list" where
  "calculate_final_prices array_sum outcomes decisions m =
     (let axes = map (axis_of outcomes decisions) (mk_dimension_specs m);
          prices = map (\<lambda>(_, combo). joint_price axes combo) (get_valid_state_combos m);
          s = array_sum prices
      in if f_lt (F_Zero False) s then map (\<lambda>p. f_div p s) prices else prices)"

section \<open>The outcome space\<close>

lemma cartesian_product_snoc: "cartesian_product (ns @ [n]) = extend_combos (cartesian_product ns) n"
  by (simp add: cartesian_product_def)

lemma cartesian_product_Nil [simp]: "cartesian_product [] = [[]]"
  by (simp add: cartesian_product_def)

lemma set_cartesian_product: "c \<in> set (cartesian_product ns) \<longleftrightarrow> list_all2 (<) c ns"
proof (induction ns arbitrary: c rule: rev_induct)
  case (snoc n ns)
  show ?case
  proof
    assume "c \<in> set (cartesian_product (ns @ [n]))"
    then show "list_all2 (<) c (ns @ [n])"
      using snoc by (auto simp: cartesian_product_snoc extend_combos_def intro: list_all2_appendI)
  next
    assume "list_all2 (<) c (ns @ [n])"
    then obtain c' v where "c = c' @ [v]" "list_all2 (<) c' ns" "v < n"
      by (auto simp: list_all2_append2 list_all2_Cons2)
    then show "c \<in> set (cartesian_product (ns @ [n]))"
      using snoc by (force simp: cartesian_product_snoc extend_combos_def)
  qed
qed simp

lemma distinct_cartesian_product: "distinct (cartesian_product ns)"
proof (induction ns rule: rev_induct)
  case (snoc n ns)
  show ?case
  proof (cases "n = 0")
    case True
    then show ?thesis by (simp add: cartesian_product_snoc extend_combos_def map_replicate_const concat_replicate_trivial)
  next
    case False
    have "distinct (concat (map (\<lambda>combo. map (\<lambda>v. combo @ [v]) [0..<n]) cs))" if "distinct cs" for cs :: "nat list list"
      using that by (induction cs) (auto simp: distinct_map inj_on_def)
    then show ?thesis using snoc by (simp add: cartesian_product_snoc extend_combos_def)
  qed
qed simp

lemma length_cartesian_product: "length (cartesian_product ns) = prod_list ns"
proof (induction ns rule: rev_induct)
  case (snoc n ns)
  have "length (extend_combos cs n) = length cs * n" for cs
    by (induction cs) (simp_all add: extend_combos_def)
  then show ?case using snoc by (simp add: cartesian_product_snoc)
qed simp

lemma filter_cartesian_product:
  "list_all2 (\<le>) ts ns \<Longrightarrow> filter (\<lambda>c. list_all2 (<) c ts) (cartesian_product ns) = cartesian_product ts"
proof (induction ns arbitrary: ts rule: rev_induct)
  case Nil
  then show ?case by (simp add: cartesian_product_def)
next
  case (snoc n ns)
  obtain ts' t where t: "ts = ts' @ [t]" "list_all2 (\<le>) ts' ns" "t \<le> n"
    using snoc.prems by (auto simp: list_all2_append2 list_all2_Cons2)
  have len: "length c = length ns" if "c \<in> set (cartesian_product ns)" for c
    using that by (simp add: set_cartesian_product list_all2_lengthD)
  have lts: "length ts' = length ns" using t(2) by (rule list_all2_lengthD)
  have upt: "filter (\<lambda>v. v < t) [0..<n] = [0..<t]"
    using t(3) by (induction n) (auto simp: le_Suc_eq filter_id_conv)
  have ext: "filter (\<lambda>c. list_all2 (<) c ts) (extend_combos cs n) = extend_combos (filter (\<lambda>c. list_all2 (<) c ts') cs) t"
    if "set cs \<subseteq> set (cartesian_product ns)" for cs
    using that
  proof (induction cs)
    case (Cons c cs)
    have "list_all2 (<) (c @ [v]) ts \<longleftrightarrow> list_all2 (<) c ts' \<and> v < t" for v
      using len [of c] Cons.prems lts by (simp add: t(1) list_all2_append)
    then have "filter (\<lambda>c. list_all2 (<) c ts) (map (\<lambda>v. c @ [v]) [0..<n]) =
        (if list_all2 (<) c ts' then map (\<lambda>v. c @ [v]) [0..<t] else [])"
      by (simp add: filter_map o_def flip: upt)
    then show ?case using Cons by (simp add: extend_combos_def)
  qed (simp add: extend_combos_def)
  show ?case using ext [of "cartesian_product ns"] snoc.IH [OF t(2)] t(1) by (simp add: cartesian_product_snoc)
qed

lemma outcome_space_size_Some: "outcome_space_size ns = Some n \<Longrightarrow> n = prod_list ns"
  by (induction ns arbitrary: n rule: rev_induct)
    (auto simp: outcome_space_size_def bind_eq_Some_conv)

text \<open>The number of tradeable states of a dimension.\<close>

fun tradeable_range :: "(decision_id, decision) db \<Rightarrow> dimension_spec \<Rightarrow> nat" where
  "tradeable_range decisions (Single d) = 2"
| "tradeable_range decisions (Categorical d) = unwrap_or 0 (Option.bind (db_get decisions d) option_count)"

lemma dimension_range_ok:
  assumes "dimension_range decisions spec = Inr r"
  shows "snd r = tradeable_range decisions spec" and "2 \<le> snd r" and "snd r \<le> fst r"
    and "c < fst r \<Longrightarrow> state_tradeable (c, spec) \<longleftrightarrow> c < snd r"
  using assms by (cases spec; auto split: if_splits)+

lemma push_ranges:
  assumes "try_fold (push_range decisions) specs acc = Inr ranges"
  shows "\<exists>rs. ranges = acc @ rs \<and> list_all2 (\<lambda>spec r. dimension_range decisions spec = Inr r) specs rs"
  using assms
proof (induction specs arbitrary: acc)
  case (Cons spec specs)
  then obtain r where r: "dimension_range decisions spec = Inr r"
    and rest: "try_fold (push_range decisions) specs (acc @ [r]) = Inr ranges"
    by (auto simp: push_range_def [of _ spec])
  obtain rs where "ranges = (acc @ [r]) @ rs" "list_all2 (\<lambda>spec r. dimension_range decisions spec = Inr r) specs rs"
    using Cons.IH [OF rest] by blast
  then show ?case using r by (intro exI [of _ "r # rs"]) simp
qed simp

lemma map_snd_filter_enumerate: "map snd (filter (\<lambda>(_, x). P x) (enumerate k xs)) = filter P xs"
  by (induction xs arbitrary: k) auto

lemma ranges_tradeable:
  assumes "list_all2 (\<lambda>spec r. dimension_range decisions spec = Inr r) specs rs"
  shows "map snd rs = map (tradeable_range decisions) specs" and "list_all2 (\<le>) (map snd rs) (map fst rs)"
    and "list_all2 (<) c (map fst rs) \<Longrightarrow> list_all state_tradeable (zip c specs) \<longleftrightarrow> list_all2 (<) c (map snd rs)"
proof -
  show "map snd rs = map (tradeable_range decisions) specs" "list_all2 (\<le>) (map snd rs) (map fst rs)"
    using assms by (induction rule: list_all2_induct) (use dimension_range_ok(1,3) in force)+
  show "list_all2 (<) c (map fst rs) \<Longrightarrow> list_all state_tradeable (zip c specs) \<longleftrightarrow> list_all2 (<) c (map snd rs)"
    using assms
  proof (induction arbitrary: c rule: list_all2_induct)
    case (Cons spec specs r rs)
    then obtain x c' where c: "c = x # c'" "x < fst r" "list_all2 (<) c' (map fst rs)"
      by (auto simp: list_all2_Cons2)
    then show ?case using Cons.IH [OF c(3)] dimension_range_ok(4) [OF Cons.hyps(1) c(2)] by simp
  qed simp
qed

lemma generate_state_combos_ok:
  assumes "generate_state_combos specs decisions = Inr combos"
  shows "filter (\<lambda>c. list_all state_tradeable (zip c specs)) combos = cartesian_product (map (tradeable_range decisions) specs)"
    and "prod_list (map (tradeable_range decisions) specs) \<le> MAX_OUTCOMES" and "specs \<noteq> []"
    and "\<forall>n \<in> set (map (tradeable_range decisions) specs). 2 \<le> n"
proof -
  let ?ts = "map (tradeable_range decisions) specs"
  obtain rs size where rs: "list_all2 (\<lambda>spec r. dimension_range decisions spec = Inr r) specs rs"
    and size: "outcome_space_size (map snd rs) = Some size" "size \<le> MAX_OUTCOMES"
    and combos: "combos = cartesian_product (map fst rs)" and ne: "specs \<noteq> []"
    using assms push_ranges [of decisions specs "[]"]
    by (auto simp: generate_state_combos_def split: if_splits)
  note tr = ranges_tradeable [OF rs]
  have "filter (\<lambda>c. list_all state_tradeable (zip c specs)) combos = filter (\<lambda>c. list_all2 (<) c ?ts) combos"
    using tr(3) by (intro filter_cong) (simp_all add: combos set_cartesian_product tr(1))
  then show "filter (\<lambda>c. list_all state_tradeable (zip c specs)) combos = cartesian_product ?ts"
    using filter_cartesian_product [OF tr(2)] by (simp add: combos tr(1))
  show "prod_list ?ts \<le> MAX_OUTCOMES" using outcome_space_size_Some [OF size(1)] size(2) by (simp add: tr(1))
  show "specs \<noteq> []" by (rule ne)
  show "\<forall>n \<in> set ?ts. 2 \<le> n"
    unfolding tr(1) [symmetric] using rs
    by (induction rule: list_all2_induct) (use dimension_range_ok(2) in force)+
qed

lemma market_new_fields:
  assumes "market_new market_id_of title descr tgs creator specs ids combos fee created expires decisions pow = Inr m"
  shows "mk_dimension_specs m = specs" and "mk_decision_ids m = ids" and "mk_state_combos m = combos"
    and "length (mk_shares m) = length (get_valid_state_combos m)"
    and "length (mk_final_prices m) = length (get_valid_state_combos m)"
    and "length (mk_outcome_volumes_sats m) = length (get_valid_state_combos m)"
    and "mk_storage_fee_sats m = market_storage_fee (length (get_valid_state_combos m))"
    and "mk_market_state m = MarketTrading" and "mk_shares m = replicate (length (get_valid_state_combos m)) 0"
  using assms by (auto simp: market_new_def get_valid_state_combos_def Let_def split: if_splits)

lemma build_fields:
  assumes "market_builder_build market_id_of b created expires decisions = Inr m"
  defines "ts \<equiv> map (tradeable_range decisions) (mk_dimension_specs m)"
  shows "map snd (get_valid_state_combos m) = cartesian_product ts"
    and "prod_list ts \<le> MAX_OUTCOMES" and "length (mk_decision_ids m) = length ts"
    and "length (mk_shares m) = length (get_valid_state_combos m)"
    and "length (mk_final_prices m) = length (get_valid_state_combos m)"
    and "length (mk_outcome_volumes_sats m) = length (get_valid_state_combos m)"
    and "mk_dimension_specs m \<noteq> []" and "\<forall>n \<in> set ts. 2 \<le> n"
    and "mk_storage_fee_sats m = market_storage_fee (length (get_valid_state_combos m))"
proof -
  obtain specs combos where combos: "generate_state_combos specs decisions = Inr combos"
    and new: "market_new market_id_of (mb_title b) (mb_description b) (mb_tags b) (mb_creator_address b)
      specs (map spec_decision specs) combos (mb_trading_fee b) created expires decisions (mb_tx_pow b) = Inr m"
    using assms(1) by (auto simp: market_builder_build_def)
  note ok = generate_state_combos_ok [OF combos] and f = market_new_fields [OF new]
  show valid: "map snd (get_valid_state_combos m) = cartesian_product ts"
    unfolding get_valid_state_combos_def map_snd_filter_enumerate f(1,3) ts_def by (rule ok(1))
  show "prod_list ts \<le> MAX_OUTCOMES" "mk_dimension_specs m \<noteq> []" "\<forall>n \<in> set ts. 2 \<le> n"
    unfolding ts_def f(1) by (rule ok(2-4))+
  show "length (mk_decision_ids m) = length ts" by (simp add: f(1,2) ts_def)
  show "length (mk_shares m) = length (get_valid_state_combos m)"
    "length (mk_final_prices m) = length (get_valid_state_combos m)"
    "length (mk_outcome_volumes_sats m) = length (get_valid_state_combos m)"
    "mk_storage_fee_sats m = market_storage_fee (length (get_valid_state_combos m))"
    by (rule f(4-7))+
qed

text \<open>
  C18. A built market trades exactly the combinations of states in which no dimension abstains: the
  combinations kept from the full product, with three states for a yes-no or scaled dimension, are the
  product of the tradeable states in the same order, there are at most 256 and at least two of them,
  shares, prices and volumes have one entry each, and the storage fee is 1000 plus their square.
\<close>

theorem market_outcome_space:
  assumes "market_builder_build market_id_of b created expires decisions = Inr m"
  shows "let n = prod_list (map (tradeable_range decisions) (mk_dimension_specs m))
    in map snd (get_valid_state_combos m) = cartesian_product (map (tradeable_range decisions) (mk_dimension_specs m))
       \<and> get_outcome_count m = n \<and> 2 \<le> n \<and> n \<le> 256 \<and> length (mk_shares m) = n \<and> length (mk_final_prices m) = n
       \<and> length (mk_outcome_volumes_sats m) = n \<and> mk_storage_fee_sats m = 1000 + n * n"
proof -
  let ?ts = "map (tradeable_range decisions) (mk_dimension_specs m)"
  note f = build_fields [OF assms]
  have count: "length (get_valid_state_combos m) = prod_list ?ts"
    using f(1) length_cartesian_product by (metis length_map)
  have le: "prod_list ?ts \<le> 256" using f(2) by (simp add: MAX_OUTCOMES_def)
  have "prod_list ?ts * prod_list ?ts \<le> 256 * 256" using le by (intro mult_le_mono)
  then have fee: "market_storage_fee (prod_list ?ts) = 1000 + prod_list ?ts * prod_list ?ts"
    by (simp add: market_storage_fee_def BASE_MARKET_STORAGE_COST_SATS_def L2_STORAGE_RATE_SATS_PER_BYTE_def
        wrapping_add_def wrapping_mul_def)
  have "2 \<le> prod_list ns" if "ns \<noteq> []" "\<forall>n \<in> set ns. 2 \<le> n" for ns :: "nat list"
    using that
  proof (induction ns)
    case (Cons n ns)
    then have "1 \<le> prod_list ns" by (cases "ns = []") auto
    then have "2 * 1 \<le> n * prod_list ns" using Cons.prems(2) by (intro mult_le_mono) auto
    then show ?case by simp
  qed simp
  then have "2 \<le> prod_list ?ts" using f(7,8) by auto
  then show ?thesis using f(1,4-6,9) count le fee by (simp add: Let_def get_outcome_count_def)
qed

lemma find_index_distinct:
  "distinct (map f xs) \<Longrightarrow> i < length xs \<Longrightarrow> find (\<lambda>j. f (xs ! j) = f (xs ! i)) [0..<length xs] = Some i"
  unfolding find_Some_iff by (auto simp: distinct_conv_nth)

text \<open>
  Positions and outcome indices of a built market translate back and forth: the positions of outcome
  \<open>i\<close> have index \<open>i\<close>, every vector of tradeable positions has an index, and every other vector of the right
  length is rejected.
\<close>

theorem tradeable_index_roundtrip:
  assumes "market_builder_build market_id_of b created expires decisions = Inr m"
  shows "(\<forall>i < get_outcome_count m. tradeable_index_for_positions (snd (get_valid_state_combos m ! i)) m = Inr i)
    \<and> (\<forall>pos. length pos = length (mk_dimension_specs m) \<longrightarrow>
         (if list_all2 (<) pos (map (tradeable_range decisions) (mk_dimension_specs m))
          then \<exists>i < get_outcome_count m. tradeable_index_for_positions pos m = Inr i \<and> snd (get_valid_state_combos m ! i) = pos
          else tradeable_index_for_positions pos m = Inl InvalidOutcomeCombination))"
proof -
  let ?ts = "map (tradeable_range decisions) (mk_dimension_specs m)" and ?vs = "get_valid_state_combos m"
  note f = build_fields [OF assms]
  have dist: "distinct (map snd ?vs)" using f(1) distinct_cartesian_product by metis
  have mem: "pos \<in> snd ` set ?vs \<longleftrightarrow> list_all2 (<) pos ?ts" for pos
    using f(1) set_cartesian_product by (metis list.set_map)
  have index: "tradeable_index_for_positions (snd (?vs ! i)) m = Inr i" if "i < length ?vs" for i
  proof -
    have "list_all2 (<) (snd (?vs ! i)) ?ts" using that mem [of "snd (?vs ! i)"] by force
    then have "length (snd (?vs ! i)) = length (mk_decision_ids m)" using f(3) by (simp add: list_all2_lengthD)
    then show ?thesis using find_index_distinct [OF dist that] by (simp add: tradeable_index_for_positions_def Let_def)
  qed
  have "if list_all2 (<) pos ?ts
      then \<exists>i < length ?vs. tradeable_index_for_positions pos m = Inr i \<and> snd (?vs ! i) = pos
      else tradeable_index_for_positions pos m = Inl InvalidOutcomeCombination"
    if len: "length pos = length (mk_dimension_specs m)" for pos
  proof (cases "list_all2 (<) pos ?ts")
    case True
    then obtain i where i: "i < length ?vs" "snd (?vs ! i) = pos"
      using mem [of pos] by (metis imageE in_set_conv_nth)
    then show ?thesis using True index [OF i(1)] by auto
  next
    case False
    then have "\<forall>i < length ?vs. snd (?vs ! i) \<noteq> pos" using mem [of pos] by force
    then have "find (\<lambda>i. snd (?vs ! i) = pos) [0..<length ?vs] = None" by (simp add: find_None_iff)
    then show ?thesis using False len f(3) by (simp add: tradeable_index_for_positions_def Let_def)
  qed
  with index show ?thesis unfolding get_outcome_count_def by blast
qed

section \<open>A market with two dimensions\<close>

definition rain_decision :: decision where
  "rain_decision = Decision 1 Binary ''Rain'' ''Will it rain?'' None None []"

definition cup_decision :: decision where
  "cup_decision = Decision 2 (Category [''A'', ''B'', ''C'']) ''Cup'' ''Who wins the cup?'' None None []"

definition example_market_decisions :: "(decision_id, decision) db" where
  "example_market_decisions = db_put (db_put db_empty (DecisionId 0x81 0 0) rain_decision) (DecisionId 0x81 0 1) cup_decision"

definition example_builder :: market_builder where
  "example_builder = \<lparr> mb_title = ''Rain and cup'', mb_description = [], mb_tags = [], mb_creator_address = 5,
     mb_dimension_specs = Some [Single (DecisionId 0x81 0 0), Categorical (DecisionId 0x81 0 1)],
     mb_trading_fee = F_Zero False, mb_tx_pow = (0, 0, 0) \<rparr>"

lemma example_market_built:
  "\<exists>m. market_builder_build (\<lambda>_ _ _ _. 9) example_builder 10 None example_market_decisions = Inr m
     \<and> mk_dimension_specs m = [Single (DecisionId 0x81 0 0), Categorical (DecisionId 0x81 0 1)]"
proof -
  have "cartesian_product [3, Suc (Suc (Suc 0))] \<noteq> []"
    using length_cartesian_product [of "[3, Suc (Suc (Suc 0))]"] by auto
  then show ?thesis
    by (simp add: market_builder_build_def example_builder_def generate_state_combos_def push_range_def
        example_market_decisions_def cup_decision_def option_count_def outcome_space_size_def checked_mul_def
        MAX_OUTCOMES_def market_new_def Let_def)
qed

lemma example_ranges:
  "map (tradeable_range example_market_decisions) [Single (DecisionId 0x81 0 0), Categorical (DecisionId 0x81 0 1)] = [2, 3]"
  by (simp add: example_market_decisions_def cup_decision_def option_count_def)

theorem market_outcome_space_witness:
  "\<exists>m. market_builder_build (\<lambda>_ _ _ _. 9) example_builder 10 None example_market_decisions = Inr m
     \<and> get_outcome_count m = 6 \<and> mk_storage_fee_sats m = 1036"
proof -
  obtain m where m: "market_builder_build (\<lambda>_ _ _ _. 9) example_builder 10 None example_market_decisions = Inr m"
    "mk_dimension_specs m = [Single (DecisionId 0x81 0 0), Categorical (DecisionId 0x81 0 1)]"
    using example_market_built by blast
  from market_outcome_space [OF m(1)] show ?thesis
    unfolding m(2) example_ranges using m(1) by (intro exI [of _ m]) (simp add: Let_def)
qed

theorem tradeable_index_roundtrip_witness:
  "\<exists>m. market_builder_build (\<lambda>_ _ _ _. 9) example_builder 10 None example_market_decisions = Inr m
     \<and> (\<exists>i < get_outcome_count m. tradeable_index_for_positions [1, 2] m = Inr i)
     \<and> tradeable_index_for_positions [2, 0] m = Inl InvalidOutcomeCombination"
proof -
  obtain m where m: "market_builder_build (\<lambda>_ _ _ _. 9) example_builder 10 None example_market_decisions = Inr m"
    "mk_dimension_specs m = [Single (DecisionId 0x81 0 0), Categorical (DecisionId 0x81 0 1)]"
    using example_market_built by blast
  from tradeable_index_roundtrip [OF m(1)]
  have "\<forall>pos. length pos = 2 \<longrightarrow> (if list_all2 (<) pos [2, 3]
      then \<exists>i < get_outcome_count m. tradeable_index_for_positions pos m = Inr i \<and> snd (get_valid_state_combos m ! i) = pos
      else tradeable_index_for_positions pos m = Inl InvalidOutcomeCombination)"
    unfolding m(2) example_ranges by simp
  from this [rule_format, of "[1, 2]"] this [rule_format, of "[2, 0]"] show ?thesis using m(1) by auto
qed

section \<open>Parsing dimensions\<close>

text \<open>The text of a dimension list, as the documentation of the market commands writes it.\<close>

fun print_spec :: "dimension_spec \<Rightarrow> string" where
  "print_spec (Single (DecisionId a b c)) = lower_hex [a, b, c]"
| "print_spec (Categorical (DecisionId a b c)) = ''['' @ lower_hex [a, b, c] @ '']''"

definition print_dimensions :: "dimension_spec list \<Rightarrow> string" where
  "print_dimensions specs =
     ''['' @ (case specs of [] \<Rightarrow> [] | s # ss \<Rightarrow> print_spec s @ concat (map (\<lambda>s. '','' @ print_spec s) ss)) @ '']''"

definition plain_text :: "string \<Rightarrow> bool" where
  "plain_text s \<longleftrightarrow> (\<forall>c \<in> set s. \<not> is_whitespace c \<and> c \<notin> {CHR '','', CHR ''['', CHR '']''})"

lemma hex_digit_plain: "n < 16 \<Longrightarrow> \<not> is_whitespace (hex_digit n) \<and> hex_digit n \<notin> {CHR '','', CHR ''['', CHR '']''}"
  unfolding hex_digit_def is_whitespace_def
  by (cases "n < 10") (auto simp: char_of_eq_iff take_bit_eq_mod)

lemma plain_lower_hex: "plain_text (lower_hex bs)"
proof -
  have "unat b div 16 < 16" "unat b mod 16 < 16" for b :: "8 word" using unsigned_less [of b, where 'a = nat] by auto
  then show ?thesis unfolding plain_text_def lower_hex_def using hex_digit_plain by auto
qed

lemma lower_hex_Cons: "lower_hex (b # bs) \<noteq> []"
  by (simp add: lower_hex_def)

lemma trim_plain: "plain_text s \<Longrightarrow> trim s = s"
proof -
  assume "plain_text s"
  then have "dropWhile is_whitespace s = s" "dropWhile is_whitespace (rev s) = rev s"
    using hd_in_set [of s] hd_in_set [of "rev s"] by (auto simp: plain_text_def dropWhile_eq_self_iff)
  then show ?thesis by (simp add: trim_def)
qed

lemma take_group_plain: "plain_text s \<Longrightarrow> take_group 1 (s @ CHR '']'' # rest) = Some (s, rest)"
  by (induction s) (auto simp: plain_text_def)

lemma parse_single_ok:
  "hex_decode (lower_hex [a, b, c]) = Some [a, b, c] \<Longrightarrow>
   parse_single_decision hex_decode (trim (lower_hex [a, b, c])) = Inr (DecisionId a b c)"
  by (simp add: trim_plain plain_lower_hex from_bytes_ok)

lemma parse_loop_comma: "parse_loop hex_decode (CHR '','' # cs) = parse_loop hex_decode cs"
  by (subst (1 2) parse_loop.simps) simp

lemma parse_loop_spec:
  assumes "\<And>bs. hex_decode (lower_hex bs) = Some bs" and "rest = [] \<or> hd rest = CHR '',''"
  shows "parse_loop hex_decode (print_spec s @ rest) = rbind (parse_loop hex_decode rest) (\<lambda>specs. Inr (s # specs))"
proof -
  obtain a b c where "s = Single (DecisionId a b c) \<or> s = Categorical (DecisionId a b c)"
    by (metis decision_id.exhaust dimension_spec.exhaust)
  moreover have single: "parse_single_decision hex_decode (trim (lower_hex [a, b, c])) = Inr (DecisionId a b c)"
    by (rule parse_single_ok) (rule assms(1))
  ultimately show ?thesis
  proof (elim disjE)
    assume s: "s = Categorical (DecisionId a b c)"
    have "take_group 1 (lower_hex [a, b, c] @ CHR '']'' # rest) = Some (lower_hex [a, b, c], rest)"
      by (rule take_group_plain [OF plain_lower_hex])
    then show ?thesis using single unfolding s
      by (subst parse_loop.simps) (simp add: is_whitespace_def del: parse_single_decision.simps)
  next
    assume s: "s = Single (DecisionId a b c)"
    let ?h = "lower_hex [a, b, c]" and ?P = "\<lambda>c. c \<noteq> CHR '','' \<and> c \<noteq> CHR ''[''"
    have plain: "\<forall>x \<in> set ?h. \<not> is_whitespace x \<and> x \<notin> {CHR '','', CHR ''['', CHR '']''}"
      using plain_lower_hex unfolding plain_text_def .
    obtain x xs where x: "?h = x # xs" using lower_hex_Cons by (cases ?h) auto
    have "takeWhile ?P rest = []" "dropWhile ?P rest = rest" using assms(2) by (cases rest; auto)+
    then have "takeWhile ?P (?h @ rest) = ?h" "dropWhile ?P (?h @ rest) = rest"
      using plain by (auto simp: takeWhile_append dropWhile_append)
    then show ?thesis using single plain x unfolding s
      by (subst parse_loop.simps) (simp del: parse_single_decision.simps)
  qed
qed

lemma parse_loop_specs:
  assumes "\<And>bs. hex_decode (lower_hex bs) = Some bs"
  shows "parse_loop hex_decode (concat (map (\<lambda>s. '','' @ print_spec s) specs)) = Inr specs"
proof (induction specs)
  case Nil
  show ?case by (subst parse_loop.simps) simp
next
  case (Cons s specs)
  let ?rest = "concat (map (\<lambda>s. '','' @ print_spec s) specs)"
  have "?rest = [] \<or> hd ?rest = CHR '',''" by (cases specs) auto
  from parse_loop_spec [OF assms this] Cons show ?case by (simp add: parse_loop_comma)
qed

text \<open>
  C20. Parsing inverts printing: every list of dimensions, written as comma-separated hexadecimal decision
  identifiers with the categorical ones in brackets, is read back as it was, provided the decoder of the
  hexadecimal crate decodes what its encoder writes. The parser itself ends on every text.
\<close>

theorem parse_dimensions_roundtrip:
  assumes "\<And>bs. hex_decode (lower_hex bs) = Some bs"
  shows "parse_dimensions hex_decode (print_dimensions specs) = Inr specs"
proof -
  let ?body = "case specs of [] \<Rightarrow> [] | s # ss \<Rightarrow> print_spec s @ concat (map (\<lambda>s. '','' @ print_spec s) ss)"
  have "parse_loop hex_decode ?body = Inr specs"
  proof (cases specs)
    case (Cons s ss)
    have "concat (map (\<lambda>s. '','' @ print_spec s) ss) = [] \<or> hd (concat (map (\<lambda>s. '','' @ print_spec s) ss)) = CHR '',''"
      by (cases ss) auto
    from parse_loop_spec [OF assms this] show ?thesis using parse_loop_specs [OF assms, of ss] by (simp add: Cons)
  next
    case Nil
    then show ?thesis using parse_loop_specs [OF assms, of "[]"] by simp
  qed
  moreover have "trim (print_dimensions specs) = print_dimensions specs"
    by (simp add: trim_def print_dimensions_def is_whitespace_def)
  ultimately show ?thesis by (simp add: parse_dimensions_def print_dimensions_def)
qed

fun decode_pairs :: "string \<Rightarrow> 8 word list option" where
  "decode_pairs [] = Some []"
| "decode_pairs [c] = None"
| "decode_pairs (c # d # rest) =
     Option.bind (u8_from_str_radix16 c d) (\<lambda>b. map_option ((#) b) (decode_pairs rest))"

lemma decode_pairs_lower_hex: "decode_pairs (lower_hex bs) = Some bs"
  by (induction bs) (simp_all add: lower_hex_def u8_from_lower_hex)

theorem parse_dimensions_roundtrip_witness:
  "parse_dimensions decode_pairs ''[810000,[810001]]'' =
     Inr [Single (DecisionId 0x81 0 0), Categorical (DecisionId 0x81 0 1)]"
proof -
  have "print_dimensions [Single (DecisionId 0x81 0 0), Categorical (DecisionId 0x81 0 1)] = ''[810000,[810001]]''"
    by (simp add: print_dimensions_def lower_hex_def hex_digit_def) code_simp
  then show ?thesis
    using parse_dimensions_roundtrip [OF decode_pairs_lower_hex,
      of "[Single (DecisionId 0x81 0 0), Categorical (DecisionId 0x81 0 1)]"] by simp
qed

section \<open>Final prices are probabilities\<close>

definition probability :: "f64 \<Rightarrow> bool" where
  "probability x \<longleftrightarrow> nonneg_double x \<and> f_val x \<le> 1"

lemma probability_consts: "probability (F_Zero s)" "probability (F_Num 1)" "probability (F_Num (1 / 2))"
proof -
  show "probability (F_Zero s)" "probability (F_Num 1)" using one_double by (simp_all add: probability_def)
  have "round_mag False (1 / 2) = F_Num (1 / 2)"
  proof -
    have "round_val (of_int 1 * pow2 (- 1)) = of_int 1 * pow2 (- 1)" by (rule round_val_exact) simp_all
    then have "round_val (1 / 2) = 1 / 2" by (simp add: pow2_def)
    then show ?thesis by (simp add: round_mag_eq)
  qed
  then show "probability (F_Num (1 / 2))" by (simp add: probability_def nonneg_double_def is_double_def)
qed

lemma probability_mul: "probability x \<Longrightarrow> probability y \<Longrightarrow> probability (f_mul x y)"
  using f_mul_fraction [of x y] by (auto simp: probability_def)

lemma probability_complement:
  assumes "probability v" shows "probability (f_sub (F_Num 1) v)"
proof -
  have v: "f_is_finite v" "0 \<le> f_val v" "f_val v \<le> 1" using assms by (auto simp: probability_def nonneg_double_def)
  let ?q = "1 - f_val v"
  have "f_sub (F_Num 1) v = (if ?q = 0 then F_Zero False else round_mag (False \<and> ?q = 0) ?q)"
    using v by (cases v) (auto simp: f_sub_def Let_def)
  then show ?thesis
    using round_mag_below [OF _ _ one_double, of ?q False] v by (auto simp: probability_def)
qed

lemma f_of_nat_double: "0 < n \<Longrightarrow> n < 2 ^ 53 \<Longrightarrow> nonneg_double (f_of_nat n) \<and> f_val (f_of_nat n) = of_nat n"
  using f_of_nat_exact [of n] by simp

lemma probability_axis:
  assumes "\<And>v d. db_get outcomes d = Some v \<Longrightarrow> probability v \<or> \<not> (\<exists>dec. db_get decisions d = Some dec \<and> is_scaled dec)"
    and "tradeable_range decisions spec < 2 ^ 53" and "p \<in> set (axis_of outcomes decisions spec)"
  shows "probability p"
proof (cases spec)
  case (Single d)
  have "probability (unwrap_or (F_Num (1 / 2)) (db_get outcomes d)) \<or> \<not> (\<exists>dec. db_get decisions d = Some dec \<and> is_scaled dec)"
    using assms(1) [of d] probability_consts by (cases "db_get outcomes d") auto
  then show ?thesis
    using assms(3) probability_consts probability_complement
    by (auto simp: Single scalar_axis_def split: option.splits if_splits)
next
  case (Categorical d)
  let ?n = "unwrap_or 2 (Option.bind (db_get decisions d) option_count)"
  have "probability (f_div (F_Num 1) (f_of_nat ?n))" if "0 < ?n"
  proof -
    have "?n < 2 ^ 53"
      using assms(2) by (cases "Option.bind (db_get decisions d) option_count") (simp_all add: Categorical)
    then show ?thesis
      using f_div_at_most_one [OF one_double, of "f_of_nat ?n"] f_of_nat_double [OF that] that
      by (auto simp: probability_def)
  qed
  then show ?thesis
    using assms(3) probability_consts by (auto simp: Categorical category_axis_def split: option.splits if_splits)
qed

lemma probability_joint:
  assumes "\<forall>axis \<in> set axes. \<forall>p \<in> set axis. probability p"
  shows "probability (joint_price axes combo)"
proof -
  have entry: "k < length axes \<Longrightarrow> st < length (axes ! k) \<Longrightarrow> probability (axes ! k ! st)" for k st
    using assms by (meson nth_mem)
  have "probability (foldl (\<lambda>p (k, state). if k < length axes \<and> state < length (axes ! k)
      then f_mul p (axes ! k ! state) else p) q es)" if "probability q" for q es
    using that by (induction es arbitrary: q) (simp_all add: split_def probability_mul entry)
  then show ?thesis unfolding joint_price_def using probability_consts(2) by blast
qed

lemma f_sum_probabilities:
  assumes "\<forall>p \<in> set ps. probability p" and "length ps < 2 ^ 52"
  shows "nonneg_double (f_sum ps) \<and> (\<forall>p \<in> set ps. f_val p \<le> f_val (f_sum ps))"
proof -
  have step: "nonneg_double (f_add acc p) \<and> f_val (f_add acc p) \<le> of_nat (n + 1)"
    if "nonneg_double acc" "f_val acc \<le> of_nat n" "probability p" "n + 1 < 2 ^ 53" for acc p n
  proof -
    let ?q = "f_val acc + f_val p"
    have fin: "f_is_finite acc" "f_is_finite p" "0 \<le> f_val acc" "0 \<le> f_val p" "f_val p \<le> 1"
      using that by (auto simp: probability_def nonneg_double_def)
    have "f_add acc p = (if ?q = 0 then F_Zero (f_neg acc \<and> f_neg p) else round_mag (False \<and> ?q = 0) ?q)"
      using fin by (cases acc; cases p) (simp_all add: Let_def)
    moreover have "?q \<le> f_val (f_of_nat (n + 1))" using f_of_nat_double [of "n + 1"] that(2,4) fin(5) by simp
    ultimately show ?thesis
      using round_mag_below [of ?q "f_of_nat (n + 1)" False] f_of_nat_double [of "n + 1"] that(4) fin
      by (auto simp del: of_nat_Suc of_nat_add)
  qed
  have "f_is_finite (foldl f_add acc ps)"
    if "nonneg_double acc" "f_val acc \<le> of_nat n" "n + length ps < 2 ^ 53" "\<forall>p \<in> set ps. probability p" for acc n ps
    using that
  proof (induction ps arbitrary: acc n)
    case (Cons p ps)
    have "nonneg_double (f_add acc p) \<and> f_val (f_add acc p) \<le> of_nat (n + 1)"
      using Cons.prems by (intro step) auto
    then show ?case using Cons.IH [of "f_add acc p" "n + 1"] Cons.prems by simp
  qed (simp add: nonneg_double_def)
  from this [of "F_Zero True" 0 ps] have "f_is_finite (f_sum ps)" using assms by (simp add: f_sum_def)
  then show ?thesis
    using f_sum_bounds [of ps "F_Zero True"] assms(1) by (auto simp: f_sum_def probability_def)
qed

lemma prod_list_member_le: "x \<in> set ns \<Longrightarrow> \<forall>n \<in> set ns. 2 \<le> n \<Longrightarrow> x \<le> prod_list ns" for ns :: "nat list"
proof (induction ns)
  case (Cons n ns)
  have pos: "1 \<le> prod_list ns" using Cons.prems(2) by (induction ns) (auto simp: Suc_le_eq)
  show ?case
  proof (cases "x = n")
    case True
    then show ?thesis using mult_le_mono [OF le_refl pos, of n] by simp
  next
    case False
    then have "x \<le> prod_list ns" using Cons by simp
    also have "\<dots> \<le> n * prod_list ns" using Cons.prems(2) by (simp add: mult_le_mono1 [of 1 n, simplified])
    finally show ?thesis by simp
  qed
qed simp

text \<open>
  C19. The final prices of a built market are probabilities: each is a double between zero and one. Assumed
  are that the outcomes of its scaled decisions lie between zero and one and that the sum of the array
  library, on the joint prices of at most 256 outcomes, is a double that no summand exceeds.
\<close>

theorem final_prices_are_probabilities:
  assumes "market_builder_build market_id_of b created expires decisions = Inr m"
    and "\<And>ps. length ps \<le> 256 \<Longrightarrow> \<forall>p \<in> set ps. probability p \<Longrightarrow>
      nonneg_double (array_sum ps) \<and> (\<forall>p \<in> set ps. f_val p \<le> f_val (array_sum ps))"
    and "\<And>d v dec. db_get outcomes d = Some v \<Longrightarrow> db_get decisions d = Some dec \<Longrightarrow> is_scaled dec \<Longrightarrow> probability v"
  shows "\<forall>p \<in> set (calculate_final_prices array_sum outcomes decisions m). nonneg_double p \<and> f_val p \<le> 1"
proof -
  let ?axes = "map (axis_of outcomes decisions) (mk_dimension_specs m)"
  define ps where "ps = map (\<lambda>(_, combo). joint_price ?axes combo) (get_valid_state_combos m)"
  note f = build_fields [OF assms(1)]
  have small: "tradeable_range decisions spec < 2 ^ 53" if "spec \<in> set (mk_dimension_specs m)" for spec
  proof -
    have "tradeable_range decisions spec \<le> prod_list (map (tradeable_range decisions) (mk_dimension_specs m))"
      using that f(8) by (intro prod_list_member_le) auto
    also have "\<dots> \<le> 256" using f(2) by (simp add: MAX_OUTCOMES_def)
    finally show ?thesis by simp
  qed
  have "probability p" if "spec \<in> set (mk_dimension_specs m)" "p \<in> set (axis_of outcomes decisions spec)" for spec p
    by (rule probability_axis [OF _ small [OF that(1)] that(2)]) (use assms(3) in blast)
  then have "\<forall>axis \<in> set ?axes. \<forall>p \<in> set axis. probability p" by auto
  then have ps: "\<forall>p \<in> set ps. probability p" unfolding ps_def using probability_joint by fastforce
  have "length ps \<le> 256"
    unfolding ps_def using f(1,2) length_cartesian_product by (metis MAX_OUTCOMES_def length_map)
  note sum = assms(2) [OF this ps]
  have "probability (f_div p (array_sum ps))" if "p \<in> set ps" "f_lt (F_Zero False) (array_sum ps)" for p
  proof -
    have "0 < f_val (array_sum ps)"
      using that(2) sum by (cases "array_sum ps") (auto simp: nonneg_double_def)
    moreover have "nonneg_double p" "f_val p \<le> f_val (array_sum ps)" "nonneg_double (array_sum ps)"
      using sum ps that(1) unfolding probability_def by blast+
    ultimately show ?thesis using f_div_at_most_one [of p "array_sum ps"] unfolding probability_def by blast
  qed
  moreover have "calculate_final_prices array_sum outcomes decisions m =
      (if f_lt (F_Zero False) (array_sum ps) then map (\<lambda>p. f_div p (array_sum ps)) ps else ps)"
    unfolding calculate_final_prices_def Let_def ps_def ..
  ultimately have "\<forall>p \<in> set (calculate_final_prices array_sum outcomes decisions m). probability p"
    using ps by (simp split: if_splits)
  then show ?thesis by (simp add: probability_def)
qed

theorem final_prices_are_probabilities_witness:
  "\<exists>m. market_builder_build (\<lambda>_ _ _ _. 9) example_builder 10 None example_market_decisions = Inr m
     \<and> (\<forall>p \<in> set (calculate_final_prices f_sum (db_put db_empty (DecisionId 0x81 0 0) (F_Num 1)) example_market_decisions m).
          nonneg_double p \<and> f_val p \<le> 1)"
proof -
  obtain m where m: "market_builder_build (\<lambda>_ _ _ _. 9) example_builder 10 None example_market_decisions = Inr m"
    using example_market_built by blast
  have "\<forall>p \<in> set (calculate_final_prices f_sum (db_put db_empty (DecisionId 0x81 0 0) (F_Num 1)) example_market_decisions m).
      nonneg_double p \<and> f_val p \<le> 1"
    using m
  proof (rule final_prices_are_probabilities)
    fix ps :: "f64 list" assume "length ps \<le> 256" "\<forall>p \<in> set ps. probability p"
    then show "nonneg_double (f_sum ps) \<and> (\<forall>p \<in> set ps. f_val p \<le> f_val (f_sum ps))"
      by (intro f_sum_probabilities) simp_all
  next
    fix d v dec assume "db_get (db_put db_empty (DecisionId 0x81 0 0) (F_Num 1)) d = Some v"
    then show "probability v" using probability_consts(2) by (simp split: if_splits)
  qed
  with m show ?thesis by blast
qed

end
