(* ===== verification/MarketDb.thy ===== *)
theory MarketDb
  imports MarketTypes
begin

text \<open>
  The market database (\<open>lib/state/markets/database.rs\<close>): the table of markets with its indexes by state,
  expiry and decision, the share accounts, the pointers to the treasury and fee outputs and the shares
  of unconfirmed trades. Sets that the code iterates in hash order are iterated in key order; the
  result of those loops does not depend on it. The index invariant says that every index lists exactly
  the stored markets under each of their keys.
\<close>

record markets_dbs =
  md_markets :: "(market_id, market) db"
  state_index :: "(market_state, market_id list) db"
  expiry_index :: "(nat, market_id list) db"
  decision_index :: "(decision_id, market_id list) db"
  share_accounts :: "(address, share_account) db"
  market_funds_utxos :: "(market_id \<times> bool, outpoint) db"
  mempool_shares :: "(market_id, int list) db"

definition markets_dbs_new :: markets_dbs where
  "markets_dbs_new = \<lparr> md_markets = db_empty, state_index = db_empty, expiry_index = db_empty,
     decision_index = db_empty, share_accounts = db_empty, market_funds_utxos = db_empty,
     mempool_shares = db_empty \<rparr>"

section \<open>Indexes\<close>

definition index_remove :: "'k::linorder \<Rightarrow> market_id \<Rightarrow> ('k, market_id list) db \<Rightarrow> ('k, market_id list) db" where
  "index_remove k mid idx =
     (let ids = filter (\<lambda>i. i \<noteq> mid) (unwrap_or [] (db_get idx k))
      in if ids = [] then db_delete idx k else db_put idx k ids)"

definition index_insert :: "'k::linorder \<Rightarrow> market_id \<Rightarrow> ('k, market_id list) db \<Rightarrow> ('k, market_id list) db" where
  "index_insert k mid idx =
     (let ids = unwrap_or [] (db_get idx k)
      in if mid \<in> set ids then idx else db_put idx k (ids @ [mid]))"

definition index_move ::
    "market_id \<Rightarrow> 'k::linorder option \<Rightarrow> 'k option \<Rightarrow> ('k, market_id list) db \<Rightarrow> ('k, market_id list) db" where
  "index_move mid old_key new_key idx =
     (let idx1 = (case old_key of None \<Rightarrow> idx | Some k \<Rightarrow> index_remove k mid idx)
      in case new_key of None \<Rightarrow> idx1 | Some k \<Rightarrow> index_insert k mid idx1)"

definition update_state_index :: "market_id \<Rightarrow> market_state option \<Rightarrow> market_state option \<Rightarrow> markets_dbs \<Rightarrow> markets_dbs" where
  "update_state_index mid old_state new_state dbs = dbs \<lparr> state_index := index_move mid old_state new_state (state_index dbs) \<rparr>"

definition update_expiry_index :: "market_id \<Rightarrow> nat option \<Rightarrow> nat option \<Rightarrow> markets_dbs \<Rightarrow> markets_dbs" where
  "update_expiry_index mid old_expiry new_expiry dbs =
     dbs \<lparr> expiry_index := index_move mid old_expiry new_expiry (expiry_index dbs) \<rparr>"

definition update_decision_index :: "market_id \<Rightarrow> bool \<Rightarrow> decision_id \<Rightarrow> markets_dbs \<Rightarrow> markets_dbs" where
  "update_decision_index mid add d dbs =
     dbs \<lparr> decision_index := (if add then index_insert d mid (decision_index dbs)
                              else index_remove d mid (decision_index dbs)) \<rparr>"

section \<open>Markets\<close>

definition add_market :: "market \<Rightarrow> markets_dbs \<Rightarrow> markets_dbs" where
  "add_market m dbs =
     (let d1 = dbs \<lparr> md_markets := db_put (md_markets dbs) (mk_id m) m \<rparr>;
          d2 = update_state_index (mk_id m) None (Some (mk_market_state m)) d1;
          d3 = (case mk_expires_at_height m of
                  None \<Rightarrow> d2 | Some h \<Rightarrow> update_expiry_index (mk_id m) None (Some h) d2)
      in fold (update_decision_index (mk_id m) True) (mk_decision_ids m) d3)"

definition get_market :: "market_id \<Rightarrow> markets_dbs \<Rightarrow> market option" where
  "get_market mid dbs = db_get (md_markets dbs) mid"

definition delete_market :: "market_id \<Rightarrow> markets_dbs \<Rightarrow> bool \<times> markets_dbs" where
  "delete_market mid dbs =
     (case db_get (md_markets dbs) mid of
        None \<Rightarrow> (False, dbs)
      | Some m \<Rightarrow>
          (let d1 = update_state_index mid (Some (mk_market_state m)) None dbs;
               d2 = (case mk_expires_at_height m of
                       None \<Rightarrow> d1 | Some h \<Rightarrow> update_expiry_index mid (Some h) None d1);
               d3 = fold (update_decision_index mid False) (mk_decision_ids m) d2
           in (True, d3 \<lparr> market_funds_utxos := db_delete (db_delete (market_funds_utxos d3) (mid, False)) (mid, True),
                          md_markets := db_delete (md_markets d3) mid \<rparr>)))"

definition get_all_markets :: "markets_dbs \<Rightarrow> market list" where
  "get_all_markets dbs = map snd (db_entries (md_markets dbs))"

fun collect_batch ::
    "market_id list \<Rightarrow> nat \<Rightarrow> (market_id \<times> market) list \<Rightarrow> nat \<Rightarrow> (market_id, market) db \<Rightarrow> (market_id, market) db" where
  "collect_batch wanted limit [] found acc = acc"
| "collect_batch wanted limit ((mid, m) # rest) found acc =
     (if mid \<in> set wanted
      then (if limit \<le> found + 1 then db_put acc mid m
            else collect_batch wanted limit rest (found + 1) (db_put acc mid m))
      else collect_batch wanted limit rest found acc)"

definition get_markets_batch :: "market_id list \<Rightarrow> markets_dbs \<Rightarrow> (market_id, market) db" where
  "get_markets_batch mids dbs =
     (if mids = [] then db_empty
      else if length mids < 3
      then db_put_all (List.map_filter (\<lambda>mid. map_option (Pair mid) (get_market mid dbs)) mids) db_empty
      else collect_batch mids (length mids) (db_entries (md_markets dbs)) 0 db_empty)"

definition get_markets_by_state :: "market_state \<Rightarrow> markets_dbs \<Rightarrow> market list" where
  "get_markets_by_state st dbs =
     List.map_filter (\<lambda>mid. get_market mid dbs) (unwrap_or [] (db_get (state_index dbs) st))"

definition validate_market_state_transition :: "market_state \<Rightarrow> market_state \<Rightarrow> (error, unit) result" where
  "validate_market_state_transition from_state to_state =
     ensure (market_can_transition_to from_state to_state) (InvalidTransaction ''Invalid market state transition'')"

definition write_market_and_indexes :: "market \<Rightarrow> market option \<Rightarrow> markets_dbs \<Rightarrow> markets_dbs" where
  "write_market_and_indexes m old_market dbs =
     (let d1 = dbs \<lparr> md_markets := db_put (md_markets dbs) (mk_id m) m \<rparr>
      in case old_market of
           None \<Rightarrow> d1
         | Some old \<Rightarrow>
             (let d2 = (if mk_market_state old \<noteq> mk_market_state m
                        then update_state_index (mk_id m) (Some (mk_market_state old)) (Some (mk_market_state m)) d1
                        else d1);
                  d3 = (if mk_expires_at_height old \<noteq> mk_expires_at_height m
                        then update_expiry_index (mk_id m) (mk_expires_at_height old) (mk_expires_at_height m) d2
                        else d2);
                  gone = oset_elems (oset_of_list (filter (\<lambda>d. d \<notin> set (mk_decision_ids m)) (mk_decision_ids old)));
                  fresh = oset_elems (oset_of_list (filter (\<lambda>d. d \<notin> set (mk_decision_ids old)) (mk_decision_ids m)))
              in fold (update_decision_index (mk_id m) True) fresh
                   (fold (update_decision_index (mk_id m) False) gone d3)))"

definition update_market :: "market \<Rightarrow> markets_dbs \<Rightarrow> (error, markets_dbs) result" where
  "update_market m dbs =
     (let old_market = get_market (mk_id m) dbs
      in rbind (case old_market of
                  None \<Rightarrow> Inr ()
                | Some old \<Rightarrow> validate_market_state_transition (mk_market_state old) (mk_market_state m)) (\<lambda>_.
         Inr (write_market_and_indexes m old_market dbs)))"

definition restore_market :: "market \<Rightarrow> markets_dbs \<Rightarrow> markets_dbs" where
  "restore_market m dbs = write_market_and_indexes m (get_market (mk_id m) dbs) dbs"

definition db_cancel_market :: "market_id \<Rightarrow> markets_dbs \<Rightarrow> (market_error, markets_dbs) result" where
  "db_cancel_market mid dbs =
     rbind (ok_or (get_market mid dbs) (MarketNotFound mid)) (\<lambda>m.
     rbind (market_cancel 0 m) (\<lambda>m'.
     map_err (\<lambda>_. MarketDatabaseError []) (update_market m' dbs)))"

definition db_invalidate_market :: "market_id \<Rightarrow> markets_dbs \<Rightarrow> (market_error, markets_dbs) result" where
  "db_invalidate_market mid dbs =
     rbind (ok_or (get_market mid dbs) (MarketNotFound mid)) (\<lambda>m.
     rbind (market_invalidate 0 m) (\<lambda>m'.
     map_err (\<lambda>_. MarketDatabaseError []) (update_market m' dbs)))"

section \<open>Unconfirmed shares, share accounts and funds\<close>

definition get_mempool_shares :: "market_id \<Rightarrow> markets_dbs \<Rightarrow> int list option" where
  "get_mempool_shares mid dbs = db_get (mempool_shares dbs) mid"

definition put_mempool_shares :: "market_id \<Rightarrow> int list \<Rightarrow> markets_dbs \<Rightarrow> markets_dbs" where
  "put_mempool_shares mid shares dbs = dbs \<lparr> mempool_shares := db_put (mempool_shares dbs) mid shares \<rparr>"

definition clear_mempool_shares :: "market_id \<Rightarrow> markets_dbs \<Rightarrow> markets_dbs" where
  "clear_mempool_shares mid dbs = dbs \<lparr> mempool_shares := db_delete (mempool_shares dbs) mid \<rparr>"

definition add_shares_to_account :: "address \<Rightarrow> market_id \<Rightarrow> nat \<Rightarrow> int \<Rightarrow> nat \<Rightarrow> markets_dbs \<Rightarrow> markets_dbs" where
  "add_shares_to_account a mid i n height dbs =
     dbs \<lparr> share_accounts := db_put (share_accounts dbs) a
              (add_shares mid i n height (unwrap_or share_account_new (db_get (share_accounts dbs) a))) \<rparr>"

definition remove_shares_from_account ::
    "address \<Rightarrow> market_id \<Rightarrow> nat \<Rightarrow> int \<Rightarrow> nat \<Rightarrow> markets_dbs \<Rightarrow> (error, markets_dbs) result" where
  "remove_shares_from_account a mid i n height dbs =
     rbind (ok_or (db_get (share_accounts dbs) a) (InvalidTransaction ''No share account found for address'')) (\<lambda>acc.
     rbind (map_err (\<lambda>_. InvalidTransaction ''Insufficient shares for sell transaction'')
              (remove_shares mid i n height acc)) (\<lambda>acc'.
     Inr (dbs \<lparr> share_accounts := (if db_entries (positions acc') = [] then db_delete (share_accounts dbs) a
                                   else db_put (share_accounts dbs) a acc') \<rparr>)))"

definition get_user_share_account :: "address \<Rightarrow> markets_dbs \<Rightarrow> share_account option" where
  "get_user_share_account a dbs = db_get (share_accounts dbs) a"

definition account_positions :: "share_account \<Rightarrow> (market_id \<times> nat \<times> int) list" where
  "account_positions acc = map (\<lambda>((mid, i), n). (mid, i, n)) (db_entries (positions acc))"

definition get_all_share_accounts :: "markets_dbs \<Rightarrow> (address \<times> (market_id \<times> nat \<times> int) list) list" where
  "get_all_share_accounts dbs =
     filter (\<lambda>e. snd e \<noteq> []) (map (\<lambda>(a, acc). (a, account_positions acc)) (db_entries (share_accounts dbs)))"

definition get_user_share_positions :: "address \<Rightarrow> markets_dbs \<Rightarrow> (market_id \<times> nat \<times> int) list" where
  "get_user_share_positions a dbs =
     (case get_user_share_account a dbs of Some acc \<Rightarrow> account_positions acc | None \<Rightarrow> [])"

definition market_positions :: "market_id \<Rightarrow> share_account \<Rightarrow> (nat \<times> int) list" where
  "market_positions mid acc =
     map (\<lambda>((_, i), n). (i, n)) (filter (\<lambda>((m, _), _). m = mid) (db_entries (positions acc)))"

definition get_market_user_positions :: "address \<Rightarrow> market_id \<Rightarrow> markets_dbs \<Rightarrow> (nat \<times> int) list" where
  "get_market_user_positions a mid dbs =
     (case get_user_share_account a dbs of Some acc \<Rightarrow> market_positions mid acc | None \<Rightarrow> [])"

definition get_wallet_positions_for_market_outcome ::
    "address list \<Rightarrow> market_id \<Rightarrow> nat \<Rightarrow> markets_dbs \<Rightarrow> (address, int) db" where
  "get_wallet_positions_for_market_outcome as mid i dbs =
     db_put_all (List.map_filter (\<lambda>a.
       Option.bind (get_user_share_account a dbs) (\<lambda>acc.
       Option.bind (db_get (positions acc) (mid, i)) (\<lambda>n.
       if 0 < n then Some (a, n) else None))) as) db_empty"

definition add_position :: "market_id \<Rightarrow> (market_id \<times> nat) \<times> int \<Rightarrow> int list \<Rightarrow> int list" where
  "add_position mid p totals =
     (if fst (fst p) = mid \<and> snd (fst p) < length totals
      then totals[snd (fst p) := wrap_i64 (totals ! snd (fst p) + snd p)] else totals)"

definition account_totals :: "market_id \<Rightarrow> nat \<Rightarrow> markets_dbs \<Rightarrow> int list" where
  "account_totals mid n dbs =
     fold (\<lambda>(_, acc). fold (add_position mid) (db_entries (positions acc)))
       (db_entries (share_accounts dbs)) (replicate n 0)"

definition verify_share_invariant :: "market_id \<Rightarrow> markets_dbs \<Rightarrow> (error, unit) result" where
  "verify_share_invariant mid dbs =
     rbind (ok_or (get_market mid dbs) (InvalidTransaction ''Market not found for invariant check'')) (\<lambda>m.
     ensure (mk_shares m = account_totals mid (length (mk_shares m)) dbs)
       (InvalidTransaction ''Share invariant violation''))"

definition get_shareholders_for_market :: "market_id \<Rightarrow> markets_dbs \<Rightarrow> (address \<times> (nat \<times> int) list) list" where
  "get_shareholders_for_market mid dbs =
     filter (\<lambda>e. snd e \<noteq> []) (map (\<lambda>(a, acc). (a, market_positions mid acc)) (db_entries (share_accounts dbs)))"

definition get_market_funds_utxo :: "market_id \<Rightarrow> bool \<Rightarrow> markets_dbs \<Rightarrow> outpoint option" where
  "get_market_funds_utxo mid is_fee dbs = db_get (market_funds_utxos dbs) (mid, is_fee)"

definition set_market_funds_utxo :: "market_id \<Rightarrow> bool \<Rightarrow> outpoint \<Rightarrow> markets_dbs \<Rightarrow> markets_dbs" where
  "set_market_funds_utxo mid is_fee op dbs =
     dbs \<lparr> market_funds_utxos := db_put (market_funds_utxos dbs) (mid, is_fee) op \<rparr>"

definition clear_market_funds_utxo :: "market_id \<Rightarrow> bool \<Rightarrow> markets_dbs \<Rightarrow> markets_dbs" where
  "clear_market_funds_utxo mid is_fee dbs =
     dbs \<lparr> market_funds_utxos := db_delete (market_funds_utxos dbs) (mid, is_fee) \<rparr>"

section \<open>The index invariant\<close>

text \<open>An index lists exactly the markets that have a key, without repetition and without empty rows.\<close>

definition index_lists :: "('k::linorder, market_id list) db \<Rightarrow> 'k \<Rightarrow> market_id set" where
  "index_lists idx k = set (unwrap_or [] (db_get idx k))"

definition rows_ok :: "('k::linorder, market_id list) db \<Rightarrow> bool" where
  "rows_ok idx \<longleftrightarrow> (\<forall>k ids. db_get idx k = Some ids \<longrightarrow> ids \<noteq> [] \<and> distinct ids)"

definition index_exact ::
    "('k::linorder, market_id list) db \<Rightarrow> (market \<Rightarrow> 'k set) \<Rightarrow> (market_id, market) db \<Rightarrow> bool" where
  "index_exact idx keys_of ms \<longleftrightarrow> rows_ok idx
     \<and> (\<forall>k mid. mid \<in> index_lists idx k \<longleftrightarrow> (\<exists>m. db_get ms mid = Some m \<and> k \<in> keys_of m))"

abbreviation state_keys :: "market \<Rightarrow> market_state set" where "state_keys m \<equiv> {mk_market_state m}"
abbreviation expiry_keys :: "market \<Rightarrow> nat set" where "expiry_keys m \<equiv> set_option (mk_expires_at_height m)"
abbreviation decision_keys :: "market \<Rightarrow> decision_id set" where "decision_keys m \<equiv> set (mk_decision_ids m)"

definition markets_ok :: "markets_dbs \<Rightarrow> bool" where
  "markets_ok dbs \<longleftrightarrow> (\<forall>mid m. db_get (md_markets dbs) mid = Some m \<longrightarrow> mk_id m = mid)
     \<and> index_exact (state_index dbs) state_keys (md_markets dbs)
     \<and> index_exact (expiry_index dbs) expiry_keys (md_markets dbs)
     \<and> index_exact (decision_index dbs) decision_keys (md_markets dbs)"

lemma index_insert_lists:
  "index_lists (index_insert k mid idx) k' = (if k' = k then insert mid (index_lists idx k) else index_lists idx k')"
  by (auto simp: index_lists_def index_insert_def Let_def)

lemma index_remove_lists:
  "index_lists (index_remove k mid idx) k' = (if k' = k then index_lists idx k - {mid} else index_lists idx k')"
  by (auto simp: index_lists_def index_remove_def Let_def filter_empty_conv)

lemma rows_ok_insert: "rows_ok idx \<Longrightarrow> rows_ok (index_insert k mid idx)"
  by (cases "db_get idx k") (auto simp: rows_ok_def index_insert_def Let_def split: if_splits)

lemma rows_ok_remove: "rows_ok idx \<Longrightarrow> rows_ok (index_remove k mid idx)"
  by (cases "db_get idx k") (auto simp: rows_ok_def index_remove_def Let_def split: if_splits)

lemma index_move_lists:
  "index_lists (index_move mid old_key new_key idx) k =
     (if new_key = Some k then insert mid (index_lists idx k)
      else if old_key = Some k then index_lists idx k - {mid} else index_lists idx k)"
  by (auto simp: index_move_def Let_def index_insert_lists index_remove_lists split: option.splits if_splits)

lemma rows_ok_move: "rows_ok idx \<Longrightarrow> rows_ok (index_move mid old_key new_key idx)"
  by (auto simp: index_move_def Let_def rows_ok_insert rows_ok_remove split: option.splits)

lemma fold_insert_lists:
  "index_lists (fold (\<lambda>k. index_insert k mid) ks idx) k =
     (if k \<in> set ks then insert mid (index_lists idx k) else index_lists idx k)"
  by (induction ks arbitrary: idx) (auto simp: index_insert_lists)

lemma fold_remove_lists:
  "index_lists (fold (\<lambda>k. index_remove k mid) ks idx) k =
     (if k \<in> set ks then index_lists idx k - {mid} else index_lists idx k)"
  by (induction ks arbitrary: idx) (auto simp: index_remove_lists)

lemma rows_ok_folds:
  "rows_ok idx \<Longrightarrow> rows_ok (fold (\<lambda>k. index_insert k mid) ks idx)"
  "rows_ok idx \<Longrightarrow> rows_ok (fold (\<lambda>k. index_remove k mid) ks idx)"
  by (induction ks arbitrary: idx) (simp_all add: rows_ok_insert rows_ok_remove)

lemma fold_decision_index:
  "fold (update_decision_index mid True) ds dbs =
     dbs \<lparr> decision_index := fold (\<lambda>k. index_insert k mid) ds (decision_index dbs) \<rparr>"
  "fold (update_decision_index mid False) ds dbs =
     dbs \<lparr> decision_index := fold (\<lambda>k. index_remove k mid) ds (decision_index dbs) \<rparr>"
  by (induction ds arbitrary: dbs) (simp_all add: update_decision_index_def)

text \<open>One lemma for every change of one market: the rows of its keys change, and the others stay.\<close>

lemma index_exact_change:
  assumes "index_exact idx keys_of ms" and "rows_ok idx'"
    and "\<And>k. index_lists idx' k = (if k \<in> new_keys then insert mid (index_lists idx k) else index_lists idx k - {mid})"
    and "\<And>i. i \<noteq> mid \<Longrightarrow> db_get ms' i = db_get ms i"
    and "new_keys = (case db_get ms' mid of None \<Rightarrow> {} | Some m \<Rightarrow> keys_of m)"
  shows "index_exact idx' keys_of ms'"
  unfolding index_exact_def
proof (intro conjI allI assms(2))
  fix k i show "i \<in> index_lists idx' k \<longleftrightarrow> (\<exists>m. db_get ms' i = Some m \<and> k \<in> keys_of m)"
  proof (cases "i = mid")
    case True
    then show ?thesis unfolding assms(3) assms(5) by (auto split: option.splits)
  next
    case False
    then have "i \<in> index_lists idx' k \<longleftrightarrow> i \<in> index_lists idx k" unfolding assms(3) by simp
    then show ?thesis using assms(1) assms(4) [OF False] unfolding index_exact_def by simp
  qed
qed

lemma index_exact_only_key: "index_exact idx keys_of ms \<Longrightarrow> db_get ms mid = Some m \<Longrightarrow> k \<notin> keys_of m \<Longrightarrow> mid \<notin> index_lists idx k"
  unfolding index_exact_def by force

lemma index_exact_absent: "index_exact idx keys_of ms \<Longrightarrow> db_get ms mid = None \<Longrightarrow> mid \<notin> index_lists idx k"
  unfolding index_exact_def by force

lemma index_exact_rows: "index_exact idx keys_of ms \<Longrightarrow> rows_ok idx"
  unfolding index_exact_def by blast

lemma markets_okD:
  assumes "markets_ok dbs"
  shows "db_get (md_markets dbs) mid = Some m \<Longrightarrow> mk_id m = mid"
    and "index_exact (state_index dbs) state_keys (md_markets dbs)"
    and "index_exact (expiry_index dbs) expiry_keys (md_markets dbs)"
    and "index_exact (decision_index dbs) decision_keys (md_markets dbs)"
  using assms unfolding markets_ok_def by blast+

lemma add_market_fields:
  "md_markets (add_market m dbs) = db_put (md_markets dbs) (mk_id m) m"
  "state_index (add_market m dbs) = index_move (mk_id m) None (Some (mk_market_state m)) (state_index dbs)"
  "expiry_index (add_market m dbs) = index_move (mk_id m) None (mk_expires_at_height m) (expiry_index dbs)"
  "decision_index (add_market m dbs) = fold (\<lambda>k. index_insert k (mk_id m)) (mk_decision_ids m) (decision_index dbs)"
  by (auto simp: add_market_def Let_def fold_decision_index update_state_index_def update_expiry_index_def
      index_move_def split: option.split)

lemma add_market_ok:
  assumes "markets_ok dbs" and "get_market (mk_id m) dbs = None"
  shows "markets_ok (add_market m dbs)"
proof -
  have none: "db_get (md_markets dbs) (mk_id m) = None" using assms(2) by (simp add: get_market_def)
  note ok = markets_okD [OF assms(1)]
  note absent = index_exact_absent [OF ok(2) none] index_exact_absent [OF ok(3) none] index_exact_absent [OF ok(4) none]
  have "index_exact (state_index (add_market m dbs)) state_keys (md_markets (add_market m dbs))"
    by (rule index_exact_change [OF ok(2), where mid = "mk_id m" and new_keys = "state_keys m"])
      (use absent(1) in \<open>auto simp: add_market_fields index_move_lists rows_ok_move index_exact_rows [OF ok(2)]\<close>)
  moreover have "index_exact (expiry_index (add_market m dbs)) expiry_keys (md_markets (add_market m dbs))"
    by (rule index_exact_change [OF ok(3), where mid = "mk_id m" and new_keys = "expiry_keys m"])
      (use absent(2) in \<open>auto simp: add_market_fields index_move_lists rows_ok_move index_exact_rows [OF ok(3)]\<close>)
  moreover have "index_exact (decision_index (add_market m dbs)) decision_keys (md_markets (add_market m dbs))"
    by (rule index_exact_change [OF ok(4), where mid = "mk_id m" and new_keys = "decision_keys m"])
      (use absent(3) in \<open>auto simp: add_market_fields fold_insert_lists rows_ok_folds index_exact_rows [OF ok(4)]\<close>)
  moreover have "\<forall>mid m'. db_get (md_markets (add_market m dbs)) mid = Some m' \<longrightarrow> mk_id m' = mid"
    using ok(1) by (auto simp: add_market_fields)
  ultimately show ?thesis unfolding markets_ok_def by blast
qed

lemma delete_market_fields:
  assumes "db_get (md_markets dbs) mid = Some m"
  defines "dbs' \<equiv> snd (delete_market mid dbs)"
  shows "md_markets dbs' = db_delete (md_markets dbs) mid"
    and "state_index dbs' = index_move mid (Some (mk_market_state m)) None (state_index dbs)"
    and "expiry_index dbs' = index_move mid (mk_expires_at_height m) None (expiry_index dbs)"
    and "decision_index dbs' = fold (\<lambda>k. index_remove k mid) (mk_decision_ids m) (decision_index dbs)"
    and "fst (delete_market mid dbs)"
  using assms(1) unfolding dbs'_def
  by (auto simp: delete_market_def Let_def fold_decision_index update_state_index_def update_expiry_index_def
      index_move_def split: option.split)

lemma delete_market_ok:
  assumes "markets_ok dbs"
  shows "markets_ok (snd (delete_market mid dbs))"
proof (cases "db_get (md_markets dbs) mid")
  case None
  then show ?thesis using assms by (simp add: delete_market_def)
next
  case (Some m)
  let ?dbs' = "snd (delete_market mid dbs)"
  note ok = markets_okD [OF assms] and f = delete_market_fields [OF Some]
  have "index_exact (state_index ?dbs') state_keys (md_markets ?dbs')"
    by (rule index_exact_change [OF ok(2), where mid = mid and new_keys = "{}"])
      (use index_exact_only_key [OF ok(2) Some] in
        \<open>auto simp: f index_move_lists rows_ok_move index_exact_rows [OF ok(2)]\<close>)
  moreover have "index_exact (expiry_index ?dbs') expiry_keys (md_markets ?dbs')"
    by (rule index_exact_change [OF ok(3), where mid = mid and new_keys = "{}"])
      (use index_exact_only_key [OF ok(3) Some] in
        \<open>auto simp: f index_move_lists rows_ok_move index_exact_rows [OF ok(3)]\<close>)
  moreover have "index_exact (decision_index ?dbs') decision_keys (md_markets ?dbs')"
    by (rule index_exact_change [OF ok(4), where mid = mid and new_keys = "{}"])
      (use index_exact_only_key [OF ok(4) Some] in
        \<open>auto simp: f fold_remove_lists rows_ok_folds index_exact_rows [OF ok(4)]\<close>)
  moreover have "\<forall>i m'. db_get (md_markets ?dbs') i = Some m' \<longrightarrow> mk_id m' = i"
    using ok(1) by (auto simp: f)
  ultimately show ?thesis unfolding markets_ok_def by blast
qed

lemma write_market_fields:
  defines "dbs' m old dbs \<equiv> write_market_and_indexes m (Some old) dbs"
  shows "md_markets (dbs' m old dbs) = db_put (md_markets dbs) (mk_id m) m"
    and "state_index (dbs' m old dbs) = (if mk_market_state old \<noteq> mk_market_state m
      then index_move (mk_id m) (Some (mk_market_state old)) (Some (mk_market_state m)) (state_index dbs) else state_index dbs)"
    and "expiry_index (dbs' m old dbs) = (if mk_expires_at_height old \<noteq> mk_expires_at_height m
      then index_move (mk_id m) (mk_expires_at_height old) (mk_expires_at_height m) (expiry_index dbs) else expiry_index dbs)"
    and "decision_index (dbs' m old dbs) =
      fold (\<lambda>k. index_insert k (mk_id m)) (oset_elems (oset_of_list (filter (\<lambda>d. d \<notin> set (mk_decision_ids old)) (mk_decision_ids m))))
        (fold (\<lambda>k. index_remove k (mk_id m)) (oset_elems (oset_of_list (filter (\<lambda>d. d \<notin> set (mk_decision_ids m)) (mk_decision_ids old))))
          (decision_index dbs))"
    and "share_accounts (dbs' m old dbs) = share_accounts dbs" and "market_funds_utxos (dbs' m old dbs) = market_funds_utxos dbs"
    and "mempool_shares (dbs' m old dbs) = mempool_shares dbs"
  unfolding dbs'_def
  by (simp_all add: write_market_and_indexes_def Let_def fold_decision_index update_state_index_def update_expiry_index_def)

lemma write_market_ok:
  assumes "markets_ok dbs" and "get_market (mk_id m) dbs = Some old"
  shows "markets_ok (write_market_and_indexes m (Some old) dbs)"
proof -
  let ?dbs' = "write_market_and_indexes m (Some old) dbs"
  have old: "db_get (md_markets dbs) (mk_id m) = Some old" using assms(2) by (simp add: get_market_def)
  note ok = markets_okD [OF assms(1)]
  have member: "mk_id m \<in> index_lists (state_index dbs) (mk_market_state old)"
    "\<And>h. mk_expires_at_height old = Some h \<Longrightarrow> mk_id m \<in> index_lists (expiry_index dbs) h"
    "\<And>d. d \<in> set (mk_decision_ids old) \<Longrightarrow> mk_id m \<in> index_lists (decision_index dbs) d"
    using ok(2-4) old unfolding index_exact_def by auto
  have "index_exact (state_index ?dbs') state_keys (md_markets ?dbs')"
    by (rule index_exact_change [OF ok(2), where mid = "mk_id m" and new_keys = "state_keys m"])
      (use index_exact_only_key [OF ok(2) old] member(1) in
        \<open>auto simp: write_market_fields index_move_lists rows_ok_move index_exact_rows [OF ok(2)] split: if_splits\<close>)
  moreover have "index_exact (expiry_index ?dbs') expiry_keys (md_markets ?dbs')"
    by (rule index_exact_change [OF ok(3), where mid = "mk_id m" and new_keys = "expiry_keys m"])
      (use index_exact_only_key [OF ok(3) old] member(2) in
        \<open>auto simp: write_market_fields index_move_lists rows_ok_move index_exact_rows [OF ok(3)] split: if_splits\<close>)
  moreover have "index_exact (decision_index ?dbs') decision_keys (md_markets ?dbs')"
    by (rule index_exact_change [OF ok(4), where mid = "mk_id m" and new_keys = "decision_keys m"])
      (use index_exact_only_key [OF ok(4) old] member(3) in
        \<open>auto simp: write_market_fields fold_insert_lists fold_remove_lists rows_ok_folds index_exact_rows [OF ok(4)]
          split: if_splits\<close>)
  moreover have "\<forall>i m'. db_get (md_markets ?dbs') i = Some m' \<longrightarrow> mk_id m' = i"
    using ok(1) by (auto simp: write_market_fields)
  ultimately show ?thesis unfolding markets_ok_def by blast
qed

section \<open>Every reachable database has exact indexes\<close>

inductive markets_reachable :: "markets_dbs \<Rightarrow> bool" where
  start: "markets_reachable markets_dbs_new"
| add: "markets_reachable dbs \<Longrightarrow> get_market (mk_id m) dbs = None \<Longrightarrow> markets_reachable (add_market m dbs)"
| delete: "markets_reachable dbs \<Longrightarrow> markets_reachable (snd (delete_market mid dbs))"
| update: "markets_reachable dbs \<Longrightarrow> get_market (mk_id m) dbs \<noteq> None \<Longrightarrow> update_market m dbs = Inr dbs' \<Longrightarrow> markets_reachable dbs'"
| restore: "markets_reachable dbs \<Longrightarrow> get_market (mk_id m) dbs \<noteq> None \<Longrightarrow> markets_reachable (restore_market m dbs)"
| cancel: "markets_reachable dbs \<Longrightarrow> db_cancel_market mid dbs = Inr dbs' \<Longrightarrow> markets_reachable dbs'"
| invalidate: "markets_reachable dbs \<Longrightarrow> db_invalidate_market mid dbs = Inr dbs' \<Longrightarrow> markets_reachable dbs'"
| buy: "markets_reachable dbs \<Longrightarrow> markets_reachable (add_shares_to_account a mid i n height dbs)"
| sell: "markets_reachable dbs \<Longrightarrow> remove_shares_from_account a mid i n height dbs = Inr dbs' \<Longrightarrow> markets_reachable dbs'"
| funds: "markets_reachable dbs \<Longrightarrow> markets_reachable (set_market_funds_utxo mid is_fee op dbs)"
| unfund: "markets_reachable dbs \<Longrightarrow> markets_reachable (clear_market_funds_utxo mid is_fee dbs)"
| pool: "markets_reachable dbs \<Longrightarrow> markets_reachable (put_mempool_shares mid shares dbs)"
| unpool: "markets_reachable dbs \<Longrightarrow> markets_reachable (clear_mempool_shares mid dbs)"

lemma markets_ok_frame:
  "markets_ok (dbs \<lparr> share_accounts := x \<rparr>) = markets_ok dbs"
  "markets_ok (dbs \<lparr> market_funds_utxos := y \<rparr>) = markets_ok dbs"
  "markets_ok (dbs \<lparr> mempool_shares := z \<rparr>) = markets_ok dbs"
  by (simp_all add: markets_ok_def)

lemma update_market_ok:
  assumes "markets_ok dbs" and "get_market (mk_id m) dbs \<noteq> None" and "update_market m dbs = Inr dbs'"
  shows "markets_ok dbs'"
  using assms write_market_ok [OF assms(1)] by (auto simp: update_market_def Let_def)

lemma update_state_id: "update_state height st ns ps m = Inr m' \<Longrightarrow> mk_id m' = mk_id m"
  by (auto simp: update_state_def Let_def split: option.splits if_splits)

lemma market_closed_ok:
  assumes "markets_ok dbs" and "get_market mid dbs = Some m" and "update_state height st ns ps m = Inr m'"
    and "update_market m' dbs = Inr dbs'"
  shows "markets_ok dbs'"
proof -
  have "mk_id m' = mid"
    using update_state_id [OF assms(3)] markets_okD(1) [OF assms(1)] assms(2) by (simp add: get_market_def)
  then show ?thesis using update_market_ok [OF assms(1) _ assms(4)] assms(2) by simp
qed

lemma index_exact_empty: "index_exact db_empty keys_of db_empty"
  by (simp add: index_exact_def rows_ok_def index_lists_def)

lemma markets_ok_new: "markets_ok markets_dbs_new"
  by (simp add: markets_ok_def markets_dbs_new_def index_exact_empty)

lemma markets_reachable_ok: "markets_reachable dbs \<Longrightarrow> markets_ok dbs"
proof (induction rule: markets_reachable.induct)
  case (restore dbs m)
  then show ?case using write_market_ok by (auto simp: restore_market_def)
next
  case (cancel dbs mid dbs')
  then show ?case using market_closed_ok by (auto simp: db_cancel_market_def market_cancel_def)
next
  case (invalidate dbs mid dbs')
  then show ?case using market_closed_ok by (auto simp: db_invalidate_market_def market_invalidate_def)
next
  case (sell dbs a mid i n height dbs')
  then show ?case by (auto simp: remove_shares_from_account_def markets_ok_frame)
qed (auto simp: add_market_ok delete_market_ok markets_ok_frame add_shares_to_account_def set_market_funds_utxo_def
    clear_market_funds_utxo_def put_mempool_shares_def clear_mempool_shares_def markets_ok_new intro: update_market_ok)

lemma set_map_filter: "set (List.map_filter f xs) = {y. \<exists>x \<in> set xs. f x = Some y}"
  by (auto simp: List.map_filter_def image_iff) force

lemma markets_by_state_found:
  assumes "markets_ok dbs"
  shows "set (get_markets_by_state st dbs) = {m. get_market (mk_id m) dbs = Some m \<and> mk_market_state m = st}"
    and "distinct (map mk_id (get_markets_by_state st dbs))"
proof -
  note ok = markets_okD [OF assms]
  let ?ids = "unwrap_or [] (db_get (state_index dbs) st)"
  have ids: "i \<in> set ?ids \<longleftrightarrow> (\<exists>m. get_market i dbs = Some m \<and> mk_market_state m = st)" for i
    using ok(2) unfolding index_exact_def index_lists_def get_market_def by auto
  have ids_distinct: "distinct ?ids" using ok(2) unfolding index_exact_def rows_ok_def by (cases "db_get (state_index dbs) st") auto
  have dist: "distinct (map mk_id (List.map_filter (\<lambda>i. get_market i dbs) xs))" if "distinct xs" for xs
    using that
  proof (induction xs)
    case (Cons i xs)
    have "mk_id m \<notin> mk_id ` set (List.map_filter (\<lambda>i. get_market i dbs) xs)" if "get_market i dbs = Some m" for m
    proof
      assume "mk_id m \<in> mk_id ` set (List.map_filter (\<lambda>i. get_market i dbs) xs)"
      then obtain x m' where "x \<in> set xs" "get_market x dbs = Some m'" "mk_id m = mk_id m'"
        unfolding set_map_filter by blast
      then show False using ok(1) [of i m] ok(1) [of x m'] that Cons.prems by (simp add: get_market_def)
    qed
    then show ?case using Cons by (cases "get_market i dbs") (simp_all add: List.map_filter_simps)
  qed (simp add: List.map_filter_simps)
  show "set (get_markets_by_state st dbs) = {m. get_market (mk_id m) dbs = Some m \<and> mk_market_state m = st}"
  proof (rule set_eqI)
    fix m
    have "m \<in> set (get_markets_by_state st dbs) \<longleftrightarrow> (\<exists>i \<in> set ?ids. get_market i dbs = Some m)"
      by (simp add: get_markets_by_state_def set_map_filter)
    also have "\<dots> \<longleftrightarrow> get_market (mk_id m) dbs = Some m \<and> mk_market_state m = st"
      using ids ok(1) [of _ m] unfolding get_market_def by (metis option.inject)
    finally show "m \<in> set (get_markets_by_state st dbs) \<longleftrightarrow> m \<in> {m. get_market (mk_id m) dbs = Some m \<and> mk_market_state m = st}"
      by simp
  qed
  show "distinct (map mk_id (get_markets_by_state st dbs))" unfolding get_markets_by_state_def by (rule dist [OF ids_distinct])
qed

text \<open>
  C17. The indexes never go stale: in every database that creations, deletions, updates, restorations,
  cancellations, trades and changes of the funds can reach, the markets found by a state are exactly the
  stored markets in that state, each of them once, and the rows of the expiry and decision indexes list
  exactly the markets with that expiry and that decision.
\<close>

theorem market_indexes_exact:
  assumes "markets_reachable dbs"
  shows "set (get_markets_by_state st dbs) = {m. get_market (mk_id m) dbs = Some m \<and> mk_market_state m = st}
    \<and> distinct (map mk_id (get_markets_by_state st dbs))
    \<and> (mid \<in> index_lists (expiry_index dbs) h \<longleftrightarrow> (\<exists>m. get_market mid dbs = Some m \<and> mk_expires_at_height m = Some h))
    \<and> (mid \<in> index_lists (decision_index dbs) d \<longleftrightarrow> (\<exists>m. get_market mid dbs = Some m \<and> d \<in> set (mk_decision_ids m)))"
proof -
  have good: "markets_ok dbs" by (rule markets_reachable_ok [OF assms])
  from markets_by_state_found [OF good, of st] show ?thesis
    using markets_okD(3,4) [OF good] unfolding index_exact_def get_market_def by auto
qed

lemma collect_batch_get:
  assumes "distinct (map fst es)" and "found = card (set (db_keys acc))" and "set (db_keys acc) \<subseteq> set wanted"
    and "\<forall>k \<in> set (db_keys acc). k \<notin> fst ` set es" and "length wanted \<le> limit"
  shows "db_get (collect_batch wanted limit es found acc) k =
    (if k \<in> set wanted \<and> k \<in> fst ` set es then map_of es k else db_get acc k)"
  using assms
proof (induction es arbitrary: found acc)
  case (Cons e es)
  obtain mid m where e: "e = (mid, m)" by (cases e)
  have new: "mid \<notin> fst ` set es" "mid \<notin> set (db_keys acc)" using Cons.prems(1,4) by (auto simp: e)
  let ?acc = "db_put acc mid m"
  have keys: "set (db_keys ?acc) = insert mid (set (db_keys acc))" by (auto simp: set_db_keys)
  show ?case
  proof (cases "mid \<in> set wanted")
    case False
    then show ?thesis using Cons.IH [of found acc] Cons.prems new by (auto simp: e)
  next
    case True
    have card: "card (set (db_keys ?acc)) = found + 1" using new(2) Cons.prems(2) by (simp add: keys)
    show ?thesis
    proof (cases "limit \<le> found + 1")
      case True
      have sub: "set (db_keys ?acc) \<subseteq> set wanted" using Cons.prems(3) \<open>mid \<in> set wanted\<close> by (simp add: keys)
      have "card (set wanted) \<le> card (set (db_keys ?acc))"
        using card_length [of wanted] card True Cons.prems(5) by linarith
      then have all: "set (db_keys ?acc) = set wanted" using sub by (metis List.finite_set card_seteq)
      have "k \<notin> fst ` set es" if "k \<in> set wanted" for k
      proof -
        have "k = mid \<or> k \<in> set (db_keys acc)" using that all unfolding keys by blast
        then show ?thesis using Cons.prems(4) new(1) by (auto simp: e simp del: set_db_keys)
      qed
      then show ?thesis using True \<open>mid \<in> set wanted\<close> by (auto simp: e)
    next
      case False
      then show ?thesis
        using Cons.IH [of "found + 1" ?acc] Cons.prems new \<open>mid \<in> set wanted\<close> card
        by (auto simp: e keys map_of_eq_None_iff)
    qed
  qed
qed (simp add: image_iff)

text \<open>
  The batch lookup of markets, which for three identifiers or more scans the table once and stops as
  soon as it has found as many markets as were asked for, gives the same map as a lookup of every
  identifier.
\<close>

theorem markets_batch_equals_lookups:
  "db_get (get_markets_batch mids dbs) mid = (if mid \<in> set mids then get_market mid dbs else None)"
proof -
  let ?es = "List.map_filter (\<lambda>mid. map_option (Pair mid) (get_market mid dbs)) mids"
  have pairs: "(k, m) \<in> set ?es \<longleftrightarrow> k \<in> set mids \<and> get_market k dbs = Some m" for k m
    by (auto simp: set_map_filter)
  have small: "map_of (rev ?es) mid = (if mid \<in> set mids then get_market mid dbs else None)"
  proof (cases "map_of (rev ?es) mid")
    case None
    then have "\<forall>m. (mid, m) \<notin> set ?es" unfolding map_of_eq_None_iff by force
    then show ?thesis using None pairs by (cases "get_market mid dbs") auto
  next
    case (Some m)
    then show ?thesis using pairs [of mid m] by (auto dest: map_of_SomeD)
  qed
  have "db_get (collect_batch mids (length mids) (db_entries (md_markets dbs)) 0 db_empty) mid =
      (if mid \<in> set mids then get_market mid dbs else None)"
    using collect_batch_get [OF distinct_entries [of "md_markets dbs"], of 0 db_empty mids "length mids" mid]
    by (auto simp: map_of_db_entries get_market_def db_keys_def image_iff) (metis db_get_iff_entries fst_conv option.exhaust)
  then show ?thesis by (simp add: get_markets_batch_def db_get_put_all map_add_def small split: option.split)
qed

theorem market_indexes_exact_witness:
  "\<exists>m. market_builder_build (\<lambda>_ _ _ _. 9) example_builder 10 None example_market_decisions = Inr m
     \<and> markets_reachable (add_market m markets_dbs_new)
     \<and> set (get_markets_by_state MarketTrading (add_market m markets_dbs_new)) = {m}"
proof -
  obtain m where m: "market_builder_build (\<lambda>_ _ _ _. 9) example_builder 10 None example_market_decisions = Inr m"
    using example_market_built by blast
  have trading: "mk_market_state m = MarketTrading"
    using m by (auto simp: market_builder_build_def dest!: market_new_fields(8))
  have reach: "markets_reachable (add_market m markets_dbs_new)"
    by (rule markets_reachable.add [OF markets_reachable.start]) (simp add: get_market_def markets_dbs_new_def)
  have "{m'. get_market (mk_id m') (add_market m markets_dbs_new) = Some m' \<and> mk_market_state m' = MarketTrading} = {m}"
    using trading by (auto simp: get_market_def add_market_fields markets_dbs_new_def split: if_splits)
  then show ?thesis
    using market_indexes_exact [OF reach, of MarketTrading 0 0 "DecisionId 0 0 0"] m reach by (intro exI [of _ m]) auto
qed

end
