(* ===== verification/Settlement.thy ===== *)
theory Settlement
  imports Consensus MarketDb Utxo
begin

text \<open>
  Settlement of resolved markets: correct voters and the distribution of the fees
  (\<open>lib/state/markets/payouts.rs\<close>), the redemption of shares, the automatic payouts and their reversal
  (\<open>lib/state/markets/database.rs\<close>) and \<open>revert_settlement\<close> of \<open>lib/state/block.rs\<close>.

  The identifier of a payout output is a hash of the market, the address, the height and a sequence
  number: the parameter \<open>payout_hash\<close>. \<open>array_sum\<close> is the sum of the array library, as in \<open>MarketTypes\<close>.
  Where the code sorts by fractions that may not be comparable, which leaves the order open, the model
  reads a value that is not a number as zero.
\<close>

record settle_state = utxo_state +
  ss_votes :: vote_state
  ss_markets :: markets_dbs

section \<open>Fee distribution\<close>

datatype fee_role = CorrectVoter | DecisionAuthor | MarketAuthor

record fee_payout =
  fp_address :: address
  fp_amount :: nat
  fp_role :: fee_role

definition f_005 :: f64 where "f_005 = f_lit (5 / 100)"

fun is_vote_correct :: "vote_value \<Rightarrow> f64 \<Rightarrow> decision \<Rightarrow> bool" where
  "is_vote_correct AbstainVote consensus dec = False"
| "is_vote_correct (BinaryVote b) consensus dec = f_eq (if b then F_Num 1 else F_Zero False) consensus"
| "is_vote_correct (ScalarVote v) consensus dec =
     (if is_scaled dec then f_le (round_to_precision (f_abs (f_sub v consensus)) 6) f_005 else f_eq v consensus)"
| "is_vote_correct (CategoricalVote idx) consensus dec =
     (f_eq (f_of_nat idx) consensus \<or> f_eq consensus (F_Num (1 / 2)) \<and> inconclusive_index dec = Some idx)"

definition correct_voters_of ::
    "vote_state \<Rightarrow> (decision_id, f64) db \<Rightarrow> (decision_id, decision) db \<Rightarrow> decision_id \<Rightarrow> (address \<times> f64) list" where
  "correct_voters_of s outcomes decisions d =
     (case (db_get outcomes d, db_get decisions d) of
        (Some consensus, Some dec) \<Rightarrow>
          sort_key fst (List.map_filter (\<lambda>((_, voter, vd), entry).
            if vd = d \<and> is_vote_correct (entry_value entry) consensus dec
               \<and> f_lt (F_Zero False) (get_reputation voter (vs_reputation s))
            then Some (voter, get_reputation voter (vs_reputation s)) else None)
            (db_entries (get_votes_for_period (voting_period d) (vs_voting s))))
      | _ \<Rightarrow> [])"

definition find_correct_voters ::
    "vote_state \<Rightarrow> decision_id list \<Rightarrow> (decision_id, f64) db \<Rightarrow> (decision_id, decision) db
       \<Rightarrow> (decision_id, (address \<times> f64) list) db" where
  "find_correct_voters s ds outcomes decisions =
     db_put_all (map (\<lambda>d. (d, correct_voters_of s outcomes decisions d)) ds) db_empty"

definition allocate ::
    "string \<Rightarrow> ('k \<times> f64) list \<Rightarrow> nat \<Rightarrow> (error, ('k \<times> nat) list) result" where
  "allocate reason weights pool =
     rbind (map_err (\<lambda>_. InvalidTransaction reason) (allocate_proportionally_u64 weights pool)) (\<lambda>r.
     Inr (allocations r))"

definition pool_of :: "string \<Rightarrow> (string \<times> nat) list \<Rightarrow> nat" where
  "pool_of key split = unwrap_or 0 (map_of (rev split) key)"

definition pay_voters ::
    "(decision_id, (address \<times> f64) list) db \<Rightarrow> decision_id \<times> nat \<Rightarrow> nat \<times> fee_payout list
       \<Rightarrow> (error, nat \<times> fee_payout list) result" where
  "pay_voters correct p acc =
     (let voters = unwrap_or [] (db_get correct (fst p))
      in if voters = [] then Inr (wrapping_add 64 (fst acc) (snd p), snd acc)
         else
           rbind (allocate ''Voter payout allocation failed'' voters (snd p)) (\<lambda>shares.
           Inr (fst acc, snd acc @ map (\<lambda>(a, n). \<lparr> fp_address = a, fp_amount = n, fp_role = CorrectVoter \<rparr>) shares)))"

definition unique_authors :: "market \<Rightarrow> (decision_id, decision) db \<Rightarrow> address list" where
  "unique_authors m decisions =
     oset_elems (oset_of_list (List.map_filter (\<lambda>d. map_option market_maker_pubkey_hash (db_get decisions d))
       (mk_decision_ids m)))"

fun role_order :: "fee_role \<Rightarrow> nat" where
  "role_order CorrectVoter = 0"
| "role_order DecisionAuthor = 1"
| "role_order MarketAuthor = 2"

definition calculate_fee_distribution ::
    "vote_state \<Rightarrow> market \<Rightarrow> nat \<Rightarrow> (decision_id, f64) db \<Rightarrow> (decision_id, decision) db
       \<Rightarrow> (error, fee_payout list) result" where
  "calculate_fee_distribution s m fee_sats outcomes decisions =
     (if fee_sats = 0 then Inr []
      else
        rbind (allocate ''Fee pool split failed''
                 [(''voter'', F_Num 2), (''decision_author'', F_Num 1), (''market_author'', F_Num 1)] fee_sats) (\<lambda>split.
        let voter_pool = pool_of ''voter'' split;
            decision_author_pool = pool_of ''decision_author'' split;
            market_author_pool = pool_of ''market_author'' split;
            correct = find_correct_voters s (mk_decision_ids m) outcomes decisions
        in
        rbind (if 0 < voter_pool
               then rbind (allocate ''Voter decision pool split failed''
                             (map (\<lambda>d. (d, F_Num 1)) (mk_decision_ids m)) voter_pool) (\<lambda>pools.
                    try_fold (pay_voters correct) pools (market_author_pool, []))
               else Inr (market_author_pool, [])) (\<lambda>(author_pool, payouts).
        rbind (if 0 < decision_author_pool
               then rbind (allocate ''Decision author allocation failed''
                             (map (\<lambda>a. (a, F_Num 1)) (unique_authors m decisions)) decision_author_pool) (\<lambda>shares.
                    Inr (payouts @ map (\<lambda>(a, n). \<lparr> fp_address = a, fp_amount = n, fp_role = DecisionAuthor \<rparr>) shares))
               else Inr payouts) (\<lambda>payouts.
        let payouts = payouts @ (if 0 < author_pool
              then [\<lparr> fp_address = mk_creator_address m, fp_amount = author_pool, fp_role = MarketAuthor \<rparr>] else [])
        in Inr (sort_key (\<lambda>p. (role_order (fp_role p), fp_address p)) payouts)))))"

section \<open>Share payouts\<close>

record share_payout =
  sp_market :: market_id
  sp_address :: address
  sp_outcome :: nat
  sp_shares :: int
  sp_final_price :: f64
  sp_payout_sats :: nat

record payout_summary =
  pay_market :: market_id
  pay_treasury :: nat
  pay_fees :: nat
  pay_shareholders :: nat
  pay_payouts :: "share_payout list"
  pay_fee_payouts :: "fee_payout list"
  pay_refund :: "(address \<times> nat) option"
  pay_height :: nat

definition redeemed_value :: "int \<Rightarrow> f64 \<Rightarrow> f64" where
  "redeemed_value shares price = f_mul (f_of_int shares) price"

definition share_payout_of ::
    "market \<Rightarrow> address \<Rightarrow> nat \<times> int \<Rightarrow> (error, share_payout) result" where
  "share_payout_of m a p =
     (if fst p < length (mk_final_prices m)
      then (let price = mk_final_prices m ! fst p
            in Inr \<lparr> sp_market = mk_id m, sp_address = a, sp_outcome = fst p, sp_shares = snd p, sp_final_price = price,
                     sp_payout_sats = f_to_u64 (f_max (f_round (redeemed_value (snd p) price)) (F_Zero False)) \<rparr>)
      else Inl (Panic ''index out of bounds''))"

definition nonneg_value :: "share_payout \<Rightarrow> f64" where
  "nonneg_value p = f_max (redeemed_value (sp_shares p) (sp_final_price p)) (F_Zero False)"

definition payout_fraction :: "share_payout \<Rightarrow> f64" where
  "payout_fraction p = f_sub (nonneg_value p) (f_floor (nonneg_value p))"

definition payout_floor :: "share_payout \<Rightarrow> nat" where
  "payout_floor p = f_to_u64 (f_floor (nonneg_value p))"

definition reclaim_one :: "nat \<Rightarrow> share_payout list \<times> nat \<Rightarrow> share_payout list \<times> nat" where
  "reclaim_one i acc =
     (case acc of (ps, excess) \<Rightarrow>
        if excess = 0 then acc
        else if payout_floor (ps ! i) < sp_payout_sats (ps ! i)
        then (ps[i := (ps ! i) \<lparr> sp_payout_sats := sp_payout_sats (ps ! i) - 1 \<rparr>], excess - 1)
        else acc)"

definition reclaim_order :: "share_payout list \<Rightarrow> nat list" where
  "reclaim_order ps = sort_key (\<lambda>i. - f_val (payout_fraction (ps ! i))) [0..<length ps]"

definition reclaim_payout_roundups :: "share_payout list \<Rightarrow> nat \<Rightarrow> share_payout list" where
  "reclaim_payout_roundups ps excess = fst (fold reclaim_one (reclaim_order ps) (ps, excess))"

definition total_redeemed :: "share_payout list \<Rightarrow> nat" where
  "total_redeemed ps = wrapping_sum (map sp_payout_sats ps)"

definition get_market_funds_sats :: "market_id \<Rightarrow> bool \<Rightarrow> 'a settle_state_scheme \<Rightarrow> (error, nat) result" where
  "get_market_funds_sats mid is_fee s =
     (case get_market_funds_utxo mid is_fee (ss_markets s) of
        None \<Rightarrow> Inr 0
      | Some op \<Rightarrow> rbind (ok_or (db_get (utxos s) op) (NoUtxo op)) (\<lambda>out. Inr (filled_output_value out)))"

fun redeem_positions :: "market \<Rightarrow> (address \<times> nat \<times> int) list \<Rightarrow> (error, share_payout list) result" where
  "redeem_positions m [] = Inr []"
| "redeem_positions m ((a, p) # rest) =
     rbind (share_payout_of m a p) (\<lambda>x. rbind (redeem_positions m rest) (\<lambda>xs. Inr (x # xs)))"

definition market_holdings :: "market_id \<Rightarrow> markets_dbs \<Rightarrow> (address \<times> nat \<times> int) list" where
  "market_holdings mid dbs =
     concat (map (\<lambda>(a, ps). map (Pair a) ps) (get_shareholders_for_market mid dbs))"

definition calculate_share_payouts ::
    "market \<Rightarrow> nat \<Rightarrow> (decision_id, f64) db \<Rightarrow> (decision_id, decision) db \<Rightarrow> 'a settle_state_scheme
       \<Rightarrow> (error, payout_summary) result" where
  "calculate_share_payouts m height outcomes decisions s =
     rbind (get_market_funds_sats (mk_id m) False s) (\<lambda>treasury_sats.
     rbind (redeem_positions m (market_holdings (mk_id m) (ss_markets s))) (\<lambda>payouts0.
     let total0 = total_redeemed payouts0;
         payouts = (if treasury_sats < total0 then reclaim_payout_roundups payouts0 (total0 - treasury_sats) else payouts0);
         redeemed = (if treasury_sats < total0 then total_redeemed payouts else total0)
     in
     rbind (ok_or (checked_sub treasury_sats redeemed)
              (InvalidTransaction ''Market payout obligation exceeds treasury'')) (\<lambda>refund.
     rbind (get_market_funds_sats (mk_id m) True s) (\<lambda>fee_sats.
     rbind (calculate_fee_distribution (ss_votes s) m fee_sats outcomes decisions) (\<lambda>fee_payouts.
     Inr \<lparr> pay_market = mk_id m, pay_treasury = redeemed, pay_fees = wrapping_sum (map fp_amount fee_payouts),
           pay_shareholders = as_u 32 (length (filter (\<lambda>p. 0 < sp_payout_sats p) payouts)),
           pay_payouts = payouts, pay_fee_payouts = fee_payouts,
           pay_refund = (if 0 < refund then Some (mk_creator_address m, refund) else None),
           pay_height = height \<rparr>)))))"

section \<open>The fees are distributed completely\<close>

lemma allocate_one_keys:
  "allocate_one pool w p s = Inr s' \<Longrightarrow>
     map fst (al_shares s') = map fst (al_shares s) \<or> map fst (al_shares s') = map fst (al_shares s) @ [fst p]"
  by (auto simp: allocate_one_def Let_def split: if_splits)

lemma allocate_loop_keys:
  assumes "try_fold (allocate_one pool w) ps s = Inr s'" and "distinct (map fst (al_shares s) @ map fst ps)"
  shows "distinct (map fst (al_shares s'))"
  using assms
proof (induction ps arbitrary: s)
  case (Cons p ps)
  then obtain s1 where s1: "allocate_one pool w p s = Inr s1" "try_fold (allocate_one pool w) ps s1 = Inr s'" by auto
  have "distinct (map fst (al_shares s1) @ map fst ps)"
    using allocate_one_keys [OF s1(1)]
  proof
    assume keys: "map fst (al_shares s1) = map fst (al_shares s)"
    show ?thesis unfolding keys using Cons.prems(2) by simp
  next
    assume keys: "map fst (al_shares s1) = map fst (al_shares s) @ [fst p]"
    show ?thesis unfolding keys using Cons.prems(2) by simp
  qed
  with Cons.IH [OF s1(2)] show ?case by blast
qed simp

lemma map_fst_update: "i < length xs \<Longrightarrow> map fst (xs[i := (fst (xs ! i), y)]) = map fst xs"
  by (metis fst_conv list_update_id map_update nth_map)

lemma take_excess_keys: "take_excess xs n = (ys, r) \<Longrightarrow> map fst ys = map fst xs"
  by (induction xs n arbitrary: ys rule: take_excess.induct) (auto simp: Let_def split: prod.splits if_splits)

lemma add_remainder_keys:
  assumes "add_remainder pool s = Inr r" and "distinct (map fst (al_shares s))"
  shows "distinct (map fst (allocations r))"
proof (cases "al_shares s = []")
  case True
  then show ?thesis using assms(1) by (auto simp: add_remainder_def Let_def split: option.splits)
next
  case False
  then obtain i where i: "max_index (map snd (al_shares s)) = Some i" "i < length (al_shares s)"
    using max_index_Some [of "map snd (al_shares s)"] by auto
  then have "allocations r = (al_shares s)[i := (fst (al_shares s ! i),
      wrapping_add 64 (snd (al_shares s ! i)) (pool - al_total s))]"
    using assms(1) by (auto simp: add_remainder_def Let_def)
  then show ?thesis using assms(2) map_fst_update [OF i(2)] by metis
qed

lemma distinct_sort_key: "distinct (map f xs) \<Longrightarrow> distinct (map f (sort_key g xs))"
proof -
  assume "distinct (map f xs)"
  moreover have "mset (map f (sort_key g xs)) = mset (map f xs)" by simp
  ultimately show ?thesis by (metis mset_eq_imp_distinct_iff)
qed

lemma remove_excess_keys:
  assumes "remove_excess pool s = Inr r" and "distinct (map fst (al_shares s))"
  shows "distinct (map fst (allocations r))"
proof -
  let ?xs = "sort_key snd (al_shares s)"
  obtain ys n where ys: "take_excess ?xs (al_total s - pool) = (ys, n)" by (cases "take_excess ?xs (al_total s - pool)")
  then have "allocations r = ys" using assms(1) by (auto simp: remove_excess_def split: if_splits)
  moreover have "map fst ys = map fst ?xs" by (rule take_excess_keys [OF ys])
  ultimately show ?thesis using distinct_sort_key [OF assms(2)] by metis
qed

lemma allocate_distinct:
  assumes "allocate_proportionally_u64 ps pool = Inr r" and "distinct (map fst ps)"
  shows "distinct (map fst (allocations r))"
proof -
  let ?loop = "try_fold (allocate_one pool (f_sum (map snd ps))) ps \<lparr> al_shares = [], al_total = 0, al_fallback = None \<rparr>"
  have "distinct (map fst (al_shares s))" if "?loop = Inr s" for s
    using allocate_loop_keys [OF that] assms(2) by simp
  then show ?thesis
    using assms(1) add_remainder_keys remove_excess_keys
    by (auto simp: allocate_proportionally_u64_def Let_def split: if_splits)
qed

text \<open>A weight that the allocation accepts: a double between the machine epsilon and one.\<close>

definition heavy_weight :: "f64 \<Rightarrow> bool" where
  "heavy_weight w \<longleftrightarrow> probability w \<and> \<not> f_lt w F_EPSILON"

lemma heavy_one: "heavy_weight (F_Num 1)"
  using probability_consts(2) by (simp add: heavy_weight_def F_EPSILON_def)

lemma heavy_keysI: "p \<in> set ps \<Longrightarrow> \<not> f_lt (snd p) F_EPSILON \<Longrightarrow> fst p \<in> heavy_keys ps"
  by (auto simp: heavy_keys_def)

lemma allocate_total:
  assumes "\<forall>p \<in> set ps. heavy_weight (snd p)" and "ps \<noteq> []" and "pool < 2 ^ 53" and "length ps * pool < 2 ^ 64"
    and "length ps < 2 ^ 52"
  shows "\<exists>shares. allocate reason ps pool = Inr shares \<and> sum_list (map snd shares) = pool"
proof (cases "pool = 0")
  case True
  then show ?thesis by (simp add: allocate_def allocate_proportionally_u64_def)
next
  case False
  have probs: "\<forall>p \<in> set (map snd ps). probability p" using assms(1) by (auto simp: heavy_weight_def)
  have "f_is_finite (f_sum (map snd ps))"
    using f_sum_probabilities [OF probs] assms(5) by (simp add: nonneg_double_def)
  moreover have "\<forall>p \<in> set ps. nonneg_double (snd p)" using probs by (auto simp: probability_def)
  moreover have "fst (hd ps) \<in> heavy_keys ps"
    using assms(1,2) by (intro heavy_keysI) (auto simp: heavy_weight_def)
  ultimately obtain r where "allocate_proportionally_u64 ps pool = Inr r" "sum_list (map snd (allocations r)) = pool"
    using allocate_ok [of ps pool] False assms(3,4) by (metis empty_iff gr0I)
  then show ?thesis by (simp add: allocate_def)
qed

lemma sum_shares: "sum_list (map fp_amount (map (\<lambda>(a, n). \<lparr> fp_address = a, fp_amount = n, fp_role = r \<rparr>) shares))
    = sum_list (map snd shares)"
  by (simp add: o_def split_def)

lemma pay_voters_total:
  assumes "\<forall>d vs. db_get correct d = Some vs \<longrightarrow> length vs \<le> n \<and> (\<forall>v \<in> set vs. heavy_weight (snd v))"
    and "fst acc + sum_list (map fp_amount (snd acc)) + sum_list (map snd pools) \<le> fee" and "fee < 2 ^ 53"
    and "n * fee < 2 ^ 64" and "n < 2 ^ 52"
  shows "\<exists>acc'. try_fold (pay_voters correct) pools acc = Inr acc'
    \<and> fst acc' + sum_list (map fp_amount (snd acc')) = fst acc + sum_list (map fp_amount (snd acc)) + sum_list (map snd pools)"
  using assms(2)
proof (induction pools arbitrary: acc)
  case (Cons p pools)
  let ?vs = "unwrap_or [] (db_get correct (fst p))"
  have bound: "snd p \<le> fee" "fst acc + snd p < 2 ^ 64" using Cons.prems assms(3) by auto
  obtain acc1 where acc1: "pay_voters correct p acc = Inr acc1"
    "fst acc1 + sum_list (map fp_amount (snd acc1)) = fst acc + sum_list (map fp_amount (snd acc)) + snd p"
  proof (cases "?vs = []")
    case True
    then show thesis
      using bound(2) by (intro that [of "(fst acc + snd p, snd acc)"]) (simp_all add: pay_voters_def)
  next
    case False
    then obtain vs where vs: "db_get correct (fst p) = Some vs" "?vs = vs" by (cases "db_get correct (fst p)") auto
    then have heavy: "length vs \<le> n" "\<forall>v \<in> set vs. heavy_weight (snd v)" using assms(1) by blast+
    have "length vs * snd p \<le> n * fee" using heavy(1) bound(1) by (rule mult_le_mono)
    then obtain shares where shares: "allocate ''Voter payout allocation failed'' vs (snd p) = Inr shares"
      "sum_list (map snd shares) = snd p"
      using allocate_total [OF heavy(2), of "snd p" "''Voter payout allocation failed''"] False vs(2) bound(1) assms(3-5) heavy(1)
      by auto
    let ?new = "map (\<lambda>(a, n). \<lparr> fp_address = a, fp_amount = n, fp_role = CorrectVoter \<rparr>) shares"
    have "pay_voters correct p acc = Inr (fst acc, snd acc @ ?new)"
      using shares(1) False vs(2) by (simp add: pay_voters_def)
    then show thesis using shares(2) sum_shares [of CorrectVoter shares]
      by (intro that [of "(fst acc, snd acc @ ?new)"]) simp_all
  qed
  then have "\<exists>acc'. try_fold (pay_voters correct) pools acc1 = Inr acc' \<and> fst acc' + sum_list (map fp_amount (snd acc'))
      = fst acc1 + sum_list (map fp_amount (snd acc1)) + sum_list (map snd pools)"
    using Cons.IH [of acc1] Cons.prems by simp
  then show ?case using acc1 by auto
qed simp

lemma sum_fp_sort: "sum_list (map fp_amount (sort_key f ps)) = sum_list (map fp_amount ps)"
  by (metis mset_map mset_sort sum_mset_sum_list)

lemma fee_split:
  assumes "0 < fee" and "fee < 2 ^ 53"
  obtains split where "allocate ''Fee pool split failed''
      [(''voter'', F_Num 2), (''decision_author'', F_Num 1), (''market_author'', F_Num 1)] fee = Inr split"
    and "pool_of ''voter'' split + pool_of ''decision_author'' split + pool_of ''market_author'' split = fee"
proof -
  let ?ws = "[(''voter'', F_Num 2), (''decision_author'', F_Num 1), (''market_author'', F_Num 1)]"
  have two: "nonneg_double (F_Num 2)"
    using f_of_nat_exact [of 2] small_double [of 2] by simp
  have one: "f_add (F_Zero True) (F_Num 2) = F_Num 2"
    using small_double [of 2] by (simp add: f_of_nat_def Let_def)
  have "f_sum (map snd ?ws) = F_Num 4"
    using one f_add_small [of 2 1] f_add_small [of 3 1] by (simp add: f_sum_def)
  then have finite: "f_is_finite (f_sum (map snd ?ws))" by simp
  have weights: "\<forall>p \<in> set ?ws. nonneg_double (snd p)" using two one_double by simp
  have "fst (''voter'', F_Num 2) \<in> heavy_keys ?ws" by (rule heavy_keysI) (simp_all add: F_EPSILON_def)
  then have heavy: "heavy_keys ?ws \<noteq> {}" by blast
  have room: "length ?ws * fee < 2 ^ 64" using assms(2) by simp
  obtain r where r: "allocate_proportionally_u64 ?ws fee = Inr r" "total_allocated r = fee"
    "sum_list (map snd (allocations r)) = fee" "fst ` set (allocations r) \<subseteq> heavy_keys ?ws"
    by (rule allocate_ok [OF weights finite heavy assms room])
  have "heavy_keys ?ws \<subseteq> {''voter'', ''decision_author'', ''market_author''}" by (auto simp: heavy_keys_def)
  then have keys: "fst ` set (allocations r) \<subseteq> {''voter'', ''decision_author'', ''market_author''}" using r(4) by blast
  have dist: "distinct (map fst (allocations r))" by (rule allocate_distinct [OF r(1)]) simp
  have pool: "pool_of k al = sum_list (map snd (filter (\<lambda>p. fst p = k) al))" if "distinct (map fst al)" for k al
  proof -
    have none: "k \<notin> fst ` set xs \<Longrightarrow> filter (\<lambda>p. fst p = k) xs = []" for xs :: "(string \<times> nat) list"
      by (auto simp: filter_empty_conv)
    show ?thesis unfolding pool_of_def map_of_rev_distinct [OF that] using that
    proof (induction al)
      case (Cons p al)
      then show ?case using none [of al] by (cases "fst p = k") auto
    qed simp
  qed
  have "sum_list (map snd (filter (\<lambda>p. fst p = ''voter'') al)) + sum_list (map snd (filter (\<lambda>p. fst p = ''decision_author'') al))
      + sum_list (map snd (filter (\<lambda>p. fst p = ''market_author'') al)) = sum_list (map snd al)"
    if "fst ` set al \<subseteq> {''voter'', ''decision_author'', ''market_author''}" for al :: "(string \<times> nat) list"
    using that by (induction al) auto
  from this [OF keys] show thesis
    using r(1,3) pool [OF dist] by (intro that [of "allocations r"]) (simp_all add: allocate_def)
qed

definition reps_heavy :: "vote_state \<Rightarrow> bool" where
  "reps_heavy s \<longleftrightarrow> (\<forall>a r. db_get (vs_reputation s) a = Some r \<longrightarrow> heavy_weight r)"

lemma length_map_filter: "length (List.map_filter f xs) \<le> length xs"
  by (induction xs) (simp_all add: List.map_filter_simps split: option.split)

lemma correct_voters_heavy:
  assumes "reps_heavy s"
    and "db_get (find_correct_voters s ds outcomes decisions) d = Some vs"
  shows "length vs \<le> length (db_entries (get_votes_for_period (voting_period d) (vs_voting s)))
    \<and> (\<forall>v \<in> set vs. heavy_weight (snd v))"
proof -
  have "vs = correct_voters_of s outcomes decisions d"
    using assms(2) by (auto simp: find_correct_voters_def db_get_put_all dest!: map_of_SomeD)
  moreover have "heavy_weight (get_reputation a (vs_reputation s))"
    if "f_lt (F_Zero False) (get_reputation a (vs_reputation s))" for a
    using assms(1) that by (cases "db_get (vs_reputation s) a") (auto simp: reps_heavy_def get_reputation_def)
  ultimately show ?thesis
    using length_map_filter
    by (auto simp: correct_voters_of_def set_map_filter split: option.splits if_splits)
qed

lemma unique_authors_nonempty: "d \<in> set (mk_decision_ids m) \<Longrightarrow> db_get decisions d = Some dec \<Longrightarrow> unique_authors m decisions \<noteq> []"
proof -
  assume "d \<in> set (mk_decision_ids m)" "db_get decisions d = Some dec"
  then have "market_maker_pubkey_hash dec \<in> set (unique_authors m decisions)"
    by (auto simp: unique_authors_def set_map_filter)
  then show ?thesis by auto
qed

lemma length_unique_authors: "length (unique_authors m decisions) \<le> length (mk_decision_ids m)"
proof -
  let ?as = "List.map_filter (\<lambda>d. map_option market_maker_pubkey_hash (db_get decisions d)) (mk_decision_ids m)"
  have "distinct (unique_authors m decisions)" unfolding unique_authors_def oset_elems_def by (rule distinct_db_keys)
  then have "length (unique_authors m decisions) = card (set ?as)"
    by (simp add: unique_authors_def flip: distinct_card)
  also have "\<dots> \<le> length (mk_decision_ids m)" using card_length [of ?as] length_map_filter le_trans by blast
  finally show ?thesis .
qed

lemma room_for:
  assumes "n * fee < 2 ^ 64" and "fee < 2 ^ 53" and "k \<le> n" and "x \<le> fee"
  shows "k * x < (2 ^ 64 :: nat)" and "x < (2 ^ 53 :: nat)"
  using mult_le_mono [OF assms(3,4)] assms(1,2,4) by linarith+

lemma voters_paid:
  assumes "reps_heavy s" and "mk_decision_ids m \<noteq> []"
    and "\<forall>p. length (db_entries (get_votes_for_period p (vs_voting s))) \<le> n"
    and "length (mk_decision_ids m) \<le> n" and "n < 2 ^ 52" and "fee < 2 ^ 53" and "n * fee < 2 ^ 64" and "author + v \<le> fee"
    and correct: "correct = find_correct_voters s (mk_decision_ids m) outcomes decisions"
  shows "\<exists>pool ps. (if 0 < v
      then rbind (allocate reason (map (\<lambda>d. (d, F_Num 1)) (mk_decision_ids m)) v) (\<lambda>pools.
           try_fold (pay_voters correct) pools (author, []))
      else Inr (author, [])) = Inr (pool, ps) \<and> pool + sum_list (map fp_amount ps) = author + v"
proof (cases "0 < v")
  case True
  let ?ws = "map (\<lambda>d. (d, F_Num 1)) (mk_decision_ids m)"
  obtain shares where shares: "allocate reason ?ws v = Inr shares" "sum_list (map snd shares) = v"
    using allocate_total [of ?ws v reason] heavy_one assms(2,4,5) room_for [OF assms(7,6,4), of v] assms(8) by auto
  have heavy: "\<forall>d vs. db_get correct d = Some vs \<longrightarrow> length vs \<le> n \<and> (\<forall>v \<in> set vs. heavy_weight (snd v))"
    unfolding correct using correct_voters_heavy [OF assms(1)] assms(3) le_trans by blast
  have bound: "fst (author, [] :: fee_payout list) + sum_list (map fp_amount (snd (author, [] :: fee_payout list)))
      + sum_list (map snd shares) \<le> fee" using shares(2) assms(8) by simp
  from pay_voters_total [OF heavy bound assms(6,7,5)] show ?thesis using True shares by auto
qed simp

lemma authors_paid:
  assumes "d \<in> set (mk_decision_ids m)" and "db_get decisions d = Some dec"
    and "length (mk_decision_ids m) \<le> n" and "n < 2 ^ 52" and "fee < 2 ^ 53" and "n * fee < 2 ^ 64" and "a \<le> fee"
  shows "\<exists>ps'. (if 0 < a
      then rbind (allocate reason (map (\<lambda>a. (a, F_Num 1)) (unique_authors m decisions)) a) (\<lambda>shares.
           Inr (ps @ map (\<lambda>(a, n). \<lparr> fp_address = a, fp_amount = n, fp_role = DecisionAuthor \<rparr>) shares))
      else Inr ps) = Inr ps' \<and> sum_list (map fp_amount ps') = sum_list (map fp_amount ps) + a"
proof (cases "0 < a")
  case True
  let ?ws = "map (\<lambda>a. (a, F_Num 1)) (unique_authors m decisions)"
  have few: "length (unique_authors m decisions) \<le> n" using length_unique_authors assms(3) le_trans by blast
  obtain shares where shares: "allocate reason ?ws a = Inr shares" "sum_list (map snd shares) = a"
    using allocate_total [of ?ws a reason] heavy_one unique_authors_nonempty [OF assms(1,2)] few assms(4)
      room_for [OF assms(6,5) few assms(7)] by auto
  then show ?thesis using True sum_shares [of DecisionAuthor shares] by simp
qed simp

text \<open>
  C15. The trading fees of a settled market are paid out to the last satoshi, and the distribution never
  fails: when every stored reputation is a double between the machine epsilon and one, one of the market's
  decisions is known, and fees, votes and decisions are small enough that no product of a pool with
  a number of participants overflows, the payments to correct voters, decision authors and the
  market's author add up to the fees.
\<close>

theorem fees_fully_distributed:
  assumes "reps_heavy s" and "d \<in> set (mk_decision_ids m)" and "db_get decisions d = Some dec"
    and "\<forall>p. length (db_entries (get_votes_for_period p (vs_voting s))) \<le> n"
    and "length (mk_decision_ids m) \<le> n" and "n < 2 ^ 52" and "fee < 2 ^ 53" and "n * fee < 2 ^ 64"
  shows "\<exists>ps. calculate_fee_distribution s m fee outcomes decisions = Inr ps \<and> sum_list (map fp_amount ps) = fee"
proof (cases "fee = 0")
  case True
  then show ?thesis by (simp add: calculate_fee_distribution_def)
next
  case False
  obtain split where split: "allocate ''Fee pool split failed''
      [(''voter'', F_Num 2), (''decision_author'', F_Num 1), (''market_author'', F_Num 1)] fee = Inr split"
    and pools: "pool_of ''voter'' split + pool_of ''decision_author'' split + pool_of ''market_author'' split = fee"
    using fee_split [of fee] False assms(7) by auto
  let ?v = "pool_of ''voter'' split" and ?d = "pool_of ''decision_author'' split" and ?m = "pool_of ''market_author'' split"
  have "mk_decision_ids m \<noteq> []" using assms(2) by auto
  moreover have le: "?m + ?v \<le> fee" "?d \<le> fee" using pools by auto
  ultimately obtain pool ps where step1: "(if 0 < ?v
      then rbind (allocate ''Voter decision pool split failed'' (map (\<lambda>d. (d, F_Num 1)) (mk_decision_ids m)) ?v) (\<lambda>pools.
           try_fold (pay_voters (find_correct_voters s (mk_decision_ids m) outcomes decisions)) pools (?m, []))
      else Inr (?m, [])) = Inr (pool, ps)" and sum1: "pool + sum_list (map fp_amount ps) = ?m + ?v"
    using voters_paid [OF assms(1) _ assms(4-8)] by metis
  obtain ps' where step2: "(if 0 < ?d
      then rbind (allocate ''Decision author allocation failed'' (map (\<lambda>a. (a, F_Num 1)) (unique_authors m decisions)) ?d) (\<lambda>shares.
           Inr (ps @ map (\<lambda>(a, n). \<lparr> fp_address = a, fp_amount = n, fp_role = DecisionAuthor \<rparr>) shares))
      else Inr ps) = Inr ps'" and sum2: "sum_list (map fp_amount ps') = sum_list (map fp_amount ps) + ?d"
    using authors_paid [OF assms(2,3,5-8) le(2)] by metis
  let ?last = "if 0 < pool then [\<lparr> fp_address = mk_creator_address m, fp_amount = pool, fp_role = MarketAuthor \<rparr>] else []"
  have "calculate_fee_distribution s m fee outcomes decisions =
      Inr (sort_key (\<lambda>p. (role_order (fp_role p), fp_address p)) (ps' @ ?last))"
    using False unfolding calculate_fee_distribution_def Let_def split rbind.simps step1 prod.case step2 by simp
  moreover have "sum_list (map fp_amount (ps' @ ?last)) = fee" using sum1 sum2 pools by simp
  ultimately show ?thesis using sum_fp_sort [of _ "ps' @ ?last"] by (intro exI conjI) auto
qed

section \<open>The treasury is distributed completely\<close>

lemma f_to_u64_int: "0 \<le> k \<Longrightarrow> f_to_u64 (if k = 0 then F_Zero s else F_Num (of_int k)) = min (nat k) (2 ^ 64 - 1)"
  by (auto simp: f_to_u64_def)

lemma redeemed_sats_bounds:
  assumes "share_payout_of m a p = Inr r"
  shows "payout_floor r \<le> sp_payout_sats r \<and> sp_payout_sats r \<le> payout_floor r + 1"
proof -
  have "f_to_u64 (f_floor (f_max v (F_Zero False))) \<le> f_to_u64 (f_max (f_round v) (F_Zero False))
      \<and> f_to_u64 (f_max (f_round v) (F_Zero False)) \<le> f_to_u64 (f_floor (f_max v (F_Zero False))) + 1" for v
  proof (cases v)
    case (F_Num q)
    consider "q < 0" | "q = 0" | "0 < q" by linarith
    then show ?thesis
    proof cases
      case 3
      let ?f = "\<lfloor>q\<rfloor>" and ?r = "\<lfloor>q + 1 / 2\<rfloor>"
      have le: "?f \<le> ?r" "?r \<le> ?f + 1" "0 \<le> ?f" using 3 by (simp_all add: floor_mono) linarith
      have "nat ?f \<le> nat ?r" "nat ?r \<le> nat ?f + 1" using le by linarith+
      then have bounds: "min (nat ?f) c \<le> min (nat ?r) c" "min (nat ?r) c \<le> min (nat ?f) c + 1" for c by linarith+
      have vals: "f_max v (F_Zero False) = F_Num q" "f_max (f_round v) (F_Zero False) = f_round v"
        using F_Num 3 by (auto simp: f_max_def Let_def)
      have rnd: "f_to_u64 (f_round v) = min (nat ?r) (2 ^ 64 - 1)"
        using F_Num 3 f_to_u64_int [of ?r False] by (auto simp: Let_def split: if_splits)
      have flr: "f_to_u64 (f_floor (F_Num q)) = min (nat ?f) (2 ^ 64 - 1)"
        using 3 f_to_u64_int [of ?f False] by simp
      show ?thesis unfolding vals rnd flr using bounds by blast
    qed (use F_Num in \<open>auto simp: f_max_def f_to_u64_def Let_def\<close>)
  qed (auto simp: f_max_def f_to_u64_def)
  then show ?thesis using assms
    by (auto simp: share_payout_of_def Let_def payout_floor_def nonneg_value_def split: if_splits)
qed

lemma payout_floor_sats [simp]: "payout_floor (p \<lparr> sp_payout_sats := n \<rparr>) = payout_floor p"
  by (simp add: payout_floor_def nonneg_value_def)

definition sats_sum :: "share_payout list \<Rightarrow> nat" where
  "sats_sum ps = sum_list (map sp_payout_sats ps)"

lemma sats_sum_update:
  assumes "i < length ps" and "Suc n = sp_payout_sats (ps ! i)"
  shows "Suc (sats_sum (ps[i := (ps ! i) \<lparr> sp_payout_sats := n \<rparr>])) = sats_sum ps"
proof -
  have "ps = take i ps @ ps ! i # drop (Suc i) ps" using id_take_nth_drop [OF assms(1)] .
  then have "sats_sum ps = sats_sum (take i ps) + sp_payout_sats (ps ! i) + sats_sum (drop (Suc i) ps)"
    unfolding sats_sum_def by (metis (no_types, lifting) add.assoc map_append list.map(2) sum_list.Cons sum_list.append)
  then show ?thesis using assms by (simp add: sats_sum_def upd_conv_take_nth_drop)
qed

text \<open>What a pass over the positions leaves: nothing else changes, no payout falls below its floor, the
  total falls by what was reclaimed, and if some excess is left every visited payout is at its floor.\<close>

definition reclaimed :: "share_payout list \<Rightarrow> share_payout list \<Rightarrow> bool" where
  "reclaimed ps ps' \<longleftrightarrow> length ps' = length ps
     \<and> (\<forall>i < length ps. \<exists>n. ps' ! i = (ps ! i) \<lparr> sp_payout_sats := n \<rparr> \<and> n \<le> sp_payout_sats (ps ! i)
          \<and> (payout_floor (ps ! i) \<le> sp_payout_sats (ps ! i) \<longrightarrow> payout_floor (ps ! i) \<le> n))"

lemma reclaimed_refl: "reclaimed ps ps"
  unfolding reclaimed_def
proof (intro conjI allI impI)
  fix i show "\<exists>n. ps ! i = (ps ! i) \<lparr> sp_payout_sats := n \<rparr> \<and> n \<le> sp_payout_sats (ps ! i)
      \<and> (payout_floor (ps ! i) \<le> sp_payout_sats (ps ! i) \<longrightarrow> payout_floor (ps ! i) \<le> n)"
    by (rule exI [of _ "sp_payout_sats (ps ! i)"]) simp
qed simp

lemma reclaimed_trans:
  assumes "reclaimed ps ps1" and "reclaimed ps1 ps2" shows "reclaimed ps ps2"
  unfolding reclaimed_def
proof (intro conjI allI impI)
  show "length ps2 = length ps" using assms by (simp add: reclaimed_def)
  fix i assume i: "i < length ps"
  then obtain n where n: "ps1 ! i = (ps ! i) \<lparr> sp_payout_sats := n \<rparr>" "n \<le> sp_payout_sats (ps ! i)"
    "payout_floor (ps ! i) \<le> sp_payout_sats (ps ! i) \<longrightarrow> payout_floor (ps ! i) \<le> n" using assms(1) unfolding reclaimed_def by blast
  obtain k where k: "ps2 ! i = (ps1 ! i) \<lparr> sp_payout_sats := k \<rparr>" "k \<le> sp_payout_sats (ps1 ! i)"
    "payout_floor (ps1 ! i) \<le> sp_payout_sats (ps1 ! i) \<longrightarrow> payout_floor (ps1 ! i) \<le> k"
    using assms i unfolding reclaimed_def by metis
  then show "\<exists>n. ps2 ! i = (ps ! i) \<lparr> sp_payout_sats := n \<rparr> \<and> n \<le> sp_payout_sats (ps ! i)
      \<and> (payout_floor (ps ! i) \<le> sp_payout_sats (ps ! i) \<longrightarrow> payout_floor (ps ! i) \<le> n)"
    using n by (intro exI [of _ k]) simp
qed

lemma reclaim_one_step:
  assumes "reclaim_one i (ps, e) = (ps1, e1)" and "i < length ps"
    and "sp_payout_sats (ps ! i) \<le> payout_floor (ps ! i) + 1"
  shows "reclaimed ps ps1" and "sats_sum ps1 + e = sats_sum ps + e1"
    and "0 < e1 \<Longrightarrow> sp_payout_sats (ps1 ! i) \<le> payout_floor (ps ! i)"
proof -
  let ?p = "ps ! i" and ?ps = "ps[i := (ps ! i) \<lparr> sp_payout_sats := sp_payout_sats (ps ! i) - 1 \<rparr>]"
  have all: "reclaimed ps ps1 \<and> sats_sum ps1 + e = sats_sum ps + e1
      \<and> (0 < e1 \<longrightarrow> sp_payout_sats (ps1 ! i) \<le> payout_floor ?p)"
  proof (cases "0 < e \<and> payout_floor ?p < sp_payout_sats ?p")
    case True
    then have eq: "ps1 = ?ps" "e1 = e - 1" using assms(1) by (auto simp: reclaim_one_def)
    have "reclaimed ps ?ps"
      unfolding reclaimed_def
    proof (intro conjI allI impI)
      fix j assume "j < length ps"
      then show "\<exists>n. ?ps ! j = (ps ! j) \<lparr> sp_payout_sats := n \<rparr> \<and> n \<le> sp_payout_sats (ps ! j)
          \<and> (payout_floor (ps ! j) \<le> sp_payout_sats (ps ! j) \<longrightarrow> payout_floor (ps ! j) \<le> n)"
        using True by (cases "j = i") (auto intro: exI [of _ "sp_payout_sats (ps ! j)"])
    qed simp
    then show ?thesis using True sats_sum_update [OF assms(2), of "sp_payout_sats ?p - 1"] assms(2,3) 
      by (simp add: eq) linarith
  next
    case False
    then have "ps1 = ps" "e1 = e" using assms(1) by (auto simp: reclaim_one_def split: if_splits)
    then show ?thesis using False by (auto simp: reclaimed_refl)
  qed
  then show "reclaimed ps ps1" "sats_sum ps1 + e = sats_sum ps + e1"
    "0 < e1 \<Longrightarrow> sp_payout_sats (ps1 ! i) \<le> payout_floor (ps ! i)" by auto
qed

lemma fold_reclaim_le: "snd (fold reclaim_one is acc) \<le> snd acc"
proof (induction "is" arbitrary: acc)
  case (Cons i "is")
  have "snd (reclaim_one i acc) \<le> snd acc" by (auto simp: reclaim_one_def split: prod.splits)
  then show ?case using Cons [of "reclaim_one i acc"] by simp
qed simp

lemma reclaimed_nth:
  "reclaimed ps ps' \<Longrightarrow> i < length ps \<Longrightarrow>
     payout_floor (ps' ! i) = payout_floor (ps ! i) \<and> sp_payout_sats (ps' ! i) \<le> sp_payout_sats (ps ! i)"
  unfolding reclaimed_def by force

lemma reclaim_fold:
  assumes "fold reclaim_one is (ps, e) = (ps', e')" and "\<forall>i \<in> set is. i < length ps"
    and "\<forall>i \<in> set is. sp_payout_sats (ps ! i) \<le> payout_floor (ps ! i) + 1"
  shows "reclaimed ps ps' \<and> sats_sum ps' + e = sats_sum ps + e'
    \<and> (0 < e' \<longrightarrow> (\<forall>i \<in> set is. sp_payout_sats (ps' ! i) \<le> payout_floor (ps ! i)))"
  using assms
proof (induction "is" arbitrary: ps e)
  case (Cons i "is")
  obtain ps1 e1 where one: "reclaim_one i (ps, e) = (ps1, e1)" by (cases "reclaim_one i (ps, e)")
  have i: "i < length ps" "sp_payout_sats (ps ! i) \<le> payout_floor (ps ! i) + 1" using Cons.prems by auto
  note step = reclaim_one_step [OF one i]
  have len: "length ps1 = length ps" using step(1) by (simp add: reclaimed_def)
  have rest: "fold reclaim_one is (ps1, e1) = (ps', e')" using Cons.prems(1) one by simp
  have "\<forall>j \<in> set is. sp_payout_sats (ps1 ! j) \<le> payout_floor (ps1 ! j) + 1"
    using Cons.prems(2,3) reclaimed_nth [OF step(1)] by (metis le_trans list.set_intros(2))
  then have ih: "reclaimed ps1 ps' \<and> sats_sum ps' + e1 = sats_sum ps1 + e'
      \<and> (0 < e' \<longrightarrow> (\<forall>j \<in> set is. sp_payout_sats (ps' ! j) \<le> payout_floor (ps1 ! j)))"
    using Cons.IH [OF rest] Cons.prems(2) len by simp
  have less: "e' \<le> e1"
    using fold_reclaim_le [of "is" "(ps1, e1)"] rest by simp
  have "sp_payout_sats (ps' ! i) \<le> payout_floor (ps ! i)" if "0 < e'"
  proof -
    have "sp_payout_sats (ps1 ! i) \<le> payout_floor (ps ! i)" using step(3) less that by simp
    moreover have "sp_payout_sats (ps' ! i) \<le> sp_payout_sats (ps1 ! i)"
      using reclaimed_nth [of ps1 ps' i] ih i(1) len by simp
    ultimately show ?thesis by simp
  qed
  moreover have "sp_payout_sats (ps' ! j) \<le> payout_floor (ps ! j)" if "0 < e'" "j \<in> set is" for j
    using ih that reclaimed_nth [OF step(1), of j] Cons.prems(2) by auto
  ultimately show ?case using ih step(2) reclaimed_trans [OF step(1)] by auto
qed (simp add: reclaimed_refl)

lemma redeem_positions_ok:
  "redeem_positions m hs = Inr ps \<Longrightarrow>
     map (\<lambda>p. (sp_address p, sp_outcome p, sp_shares p)) ps = hs
     \<and> (\<forall>p \<in> set ps. payout_floor p \<le> sp_payout_sats p \<and> sp_payout_sats p \<le> payout_floor p + 1 \<and> sp_market p = mk_id m)"
proof (induction m hs arbitrary: ps rule: redeem_positions.induct)
  case (2 m a p rest)
  then obtain x xs where x: "share_payout_of m a p = Inr x" and xs: "redeem_positions m rest = Inr xs" "ps = x # xs" by auto
  have "(sp_address x, sp_outcome x, sp_shares x) = (a, p)" "sp_market x = mk_id m"
    using x by (auto simp: share_payout_of_def Let_def split: if_splits)
  then show ?case using 2 redeemed_sats_bounds [OF x] x xs by auto
qed simp

text \<open>The price of a payout is the final price of its outcome.\<close>

definition priced_by :: "market \<Rightarrow> share_payout \<Rightarrow> bool" where
  "priced_by m p \<longleftrightarrow> sp_outcome p < length (mk_final_prices m) \<and> sp_final_price p = mk_final_prices m ! sp_outcome p"

lemma redeem_positions_priced: "redeem_positions m hs = Inr ps \<Longrightarrow> \<forall>p \<in> set ps. priced_by m p"
proof (induction m hs arbitrary: ps rule: redeem_positions.induct)
  case (2 m a p rest)
  then obtain x xs where x: "share_payout_of m a p = Inr x" and xs: "redeem_positions m rest = Inr xs" "ps = x # xs" by auto
  have "priced_by m x" using x by (auto simp: share_payout_of_def priced_by_def Let_def split: if_splits)
  then show ?case using 2 x xs by auto
qed simp

lemma redeem_positions_total:
  "\<forall>h \<in> set hs. fst (snd h) < length (mk_final_prices m) \<Longrightarrow> \<exists>ps. redeem_positions m hs = Inr ps"
  by (induction m hs rule: redeem_positions.induct) (auto simp: share_payout_of_def Let_def)

lemma reclaim_reaches:
  assumes "\<forall>p \<in> set ps. payout_floor p \<le> sp_payout_sats p \<and> sp_payout_sats p \<le> payout_floor p + 1"
    and "sum_list (map payout_floor ps) \<le> treasury" and "treasury < sats_sum ps"
  shows "reclaimed ps (reclaim_payout_roundups ps (sats_sum ps - treasury))"
    and "sats_sum (reclaim_payout_roundups ps (sats_sum ps - treasury)) = treasury"
proof -
  obtain ps' e' where fold: "fold reclaim_one (reclaim_order ps) (ps, sats_sum ps - treasury) = (ps', e')"
    by (cases "fold reclaim_one (reclaim_order ps) (ps, sats_sum ps - treasury)")
  have order: "set (reclaim_order ps) = {..<length ps}" by (simp add: reclaim_order_def atLeast0LessThan)
  have post: "reclaimed ps ps'" "sats_sum ps' + (sats_sum ps - treasury) = sats_sum ps + e'"
    "0 < e' \<Longrightarrow> \<forall>i < length ps. sp_payout_sats (ps' ! i) \<le> payout_floor (ps ! i)"
    using reclaim_fold [OF fold] assms(1) by (auto simp: order)
  have "e' = 0"
  proof (rule ccontr)
    assume "e' \<noteq> 0"
    then have "\<forall>i < length ps. sp_payout_sats (ps' ! i) \<le> payout_floor (ps ! i)" using post(3) by simp
    moreover have "length ps' = length ps" using post(1) by (simp add: reclaimed_def)
    ultimately have "sats_sum ps' \<le> sum_list (map payout_floor ps)"
      unfolding sats_sum_def by (auto simp: sum_list_sum_nth intro!: sum_mono)
    then show False using post(2) assms(2,3) \<open>e' \<noteq> 0\<close> by linarith
  qed
  then show "reclaimed ps (reclaim_payout_roundups ps (sats_sum ps - treasury))"
    "sats_sum (reclaim_payout_roundups ps (sats_sum ps - treasury)) = treasury"
    using post(1,2) assms(3) fold by (auto simp: reclaim_payout_roundups_def)
qed

lemma reclaimed_list:
  assumes "reclaimed ps ps'"
  shows "map (\<lambda>p. (sp_market p, sp_address p, sp_outcome p, sp_shares p)) ps' = map (\<lambda>p. (sp_market p, sp_address p, sp_outcome p, sp_shares p)) ps"
    and "(\<forall>p \<in> set ps. payout_floor p \<le> sp_payout_sats p \<and> sp_payout_sats p \<le> payout_floor p + 1) \<Longrightarrow>
      (\<forall>p \<in> set ps'. payout_floor p \<le> sp_payout_sats p \<and> sp_payout_sats p \<le> payout_floor p + 1)"
proof -
  have len: "length ps' = length ps" using assms by (simp add: reclaimed_def)
  show "map (\<lambda>p. (sp_market p, sp_address p, sp_outcome p, sp_shares p)) ps' = map (\<lambda>p. (sp_market p, sp_address p, sp_outcome p, sp_shares p)) ps"
  proof (rule nth_equalityI)
    fix i assume "i < length (map (\<lambda>p. (sp_market p, sp_address p, sp_outcome p, sp_shares p)) ps')"
    then show "map (\<lambda>p. (sp_market p, sp_address p, sp_outcome p, sp_shares p)) ps' ! i
        = map (\<lambda>p. (sp_market p, sp_address p, sp_outcome p, sp_shares p)) ps ! i"
      using assms len unfolding reclaimed_def by force
  qed (simp add: len)
  assume all: "\<forall>p \<in> set ps. payout_floor p \<le> sp_payout_sats p \<and> sp_payout_sats p \<le> payout_floor p + 1"
  show "\<forall>p \<in> set ps'. payout_floor p \<le> sp_payout_sats p \<and> sp_payout_sats p \<le> payout_floor p + 1"
  proof
    fix p assume "p \<in> set ps'"
    then obtain i where i: "i < length ps" "p = ps' ! i" using len by (metis in_set_conv_nth)
    obtain n where n: "ps' ! i = (ps ! i) \<lparr> sp_payout_sats := n \<rparr>" "n \<le> sp_payout_sats (ps ! i)"
      "payout_floor (ps ! i) \<le> sp_payout_sats (ps ! i) \<longrightarrow> payout_floor (ps ! i) \<le> n"
      using assms i(1) unfolding reclaimed_def by blast
    have "payout_floor (ps ! i) \<le> sp_payout_sats (ps ! i) \<and> sp_payout_sats (ps ! i) \<le> payout_floor (ps ! i) + 1"
      using all i(1) by simp
    then show "payout_floor p \<le> sp_payout_sats p \<and> sp_payout_sats p \<le> payout_floor p + 1"
      using n unfolding i(2) by auto
  qed
qed

lemma reclaimed_priced:
  assumes "reclaimed ps ps'" and "\<forall>p \<in> set ps. priced_by m p"
  shows "\<forall>p \<in> set ps'. priced_by m p"
proof
  fix p assume "p \<in> set ps'"
  then obtain i where i: "i < length ps" "p = ps' ! i" using assms(1) by (metis in_set_conv_nth reclaimed_def)
  then obtain n where "p = (ps ! i) \<lparr> sp_payout_sats := n \<rparr>" using assms(1) unfolding reclaimed_def by blast
  then show "priced_by m p" using assms(2) i(1) by (simp add: priced_by_def)
qed

lemma total_redeemed_exact: "sats_sum ps < 2 ^ 64 \<Longrightarrow> total_redeemed ps = sats_sum ps"
  using foldl_wrapping_add_exact [of 0 "map sp_payout_sats ps"] by (simp add: total_redeemed_def wrapping_sum_def sats_sum_def)

text \<open>
  C14. The treasury of a resolved market is paid out to the last satoshi: when every holding has a final price,
  the treasury covers what the shares are worth rounded down, the rounded sum fits 64 bits and the fees can
  be distributed, the settlement succeeds and pays every holding, in the order of the accounts, its shares
  times the final price of its outcome, rounded up or down. It takes roundings back only if the rounded sum
  exceeds the treasury, and refunds exactly what is left to the author of the market.
\<close>

theorem treasury_fully_distributed:
  assumes "get_market_funds_sats (mk_id m) False s = Inr treasury" and "get_market_funds_sats (mk_id m) True s = Inr fee"
    and "calculate_fee_distribution (ss_votes s) m fee outcomes decisions = Inr fps"
    and "redeem_positions m (market_holdings (mk_id m) (ss_markets s)) = Inr ps"
    and "sum_list (map payout_floor ps) \<le> treasury" and "sats_sum ps < 2 ^ 64"
  shows "\<exists>r. calculate_share_payouts m height outcomes decisions s = Inr r
    \<and> sats_sum (pay_payouts r) \<le> treasury
    \<and> pay_refund r = (if sats_sum (pay_payouts r) < treasury then Some (mk_creator_address m, treasury - sats_sum (pay_payouts r)) else None)
    \<and> map (\<lambda>p. (sp_address p, sp_outcome p, sp_shares p)) (pay_payouts r) = market_holdings (mk_id m) (ss_markets s)
    \<and> (\<forall>p \<in> set (pay_payouts r). sp_outcome p < length (mk_final_prices m) \<and> sp_final_price p = mk_final_prices m ! sp_outcome p)
    \<and> (\<forall>p \<in> set (pay_payouts r). payout_floor p \<le> sp_payout_sats p \<and> sp_payout_sats p \<le> payout_floor p + 1)
    \<and> (sats_sum ps \<le> treasury \<longrightarrow> pay_payouts r = ps) \<and> pay_fee_payouts r = fps"
proof -
  note ps = redeem_positions_ok [OF assms(4)]
  have bounds: "\<forall>p \<in> set ps. payout_floor p \<le> sp_payout_sats p \<and> sp_payout_sats p \<le> payout_floor p + 1" using ps by blast
  have total0: "total_redeemed ps = sats_sum ps" by (rule total_redeemed_exact [OF assms(6)])
  have priced: "\<forall>p \<in> set ps. priced_by m p" by (rule redeem_positions_priced [OF assms(4)])
  show ?thesis
  proof (cases "treasury < sats_sum ps")
    case False
    then show ?thesis using assms(1-4) ps total0 priced by (simp add: calculate_share_payouts_def checked_sub_def Let_def priced_by_def)
  next
    case True
    let ?ps = "reclaim_payout_roundups ps (sats_sum ps - treasury)"
    note reach = reclaim_reaches [OF bounds assms(5) True]
    have total1: "total_redeemed ?ps = treasury" using total_redeemed_exact [of ?ps] reach(2) assms(6) True by simp
    have "map (\<lambda>p. snd (sp_market p, sp_address p, sp_outcome p, sp_shares p)) ?ps
        = map (\<lambda>p. snd (sp_market p, sp_address p, sp_outcome p, sp_shares p)) ps"
      using arg_cong [where f = "map snd", OF reclaimed_list(1) [OF reach(1)]] by (simp only: map_map o_def)
    then have "map (\<lambda>p. (sp_address p, sp_outcome p, sp_shares p)) ?ps = market_holdings (mk_id m) (ss_markets s)"
      using ps by (simp add: comp_def)
    then show ?thesis
      using assms(1-4) total0 total1 True reach(2) reclaimed_list(2) [OF reach(1) bounds] reclaimed_priced [OF reach(1) priced]
      by (simp add: calculate_share_payouts_def checked_sub_def Let_def priced_by_def)
  qed
qed

section \<open>Examples\<close>

definition toss_market :: market where
  "toss_market = \<lparr> mk_id = 9, mk_title = ''Toss'', mk_description = [], mk_tags = [], mk_creator_address = 5,
     mk_dimension_specs = [Single example_id], mk_decision_ids = [example_id], mk_state_combos = [[0], [1], [2]],
     mk_created_at_height = 1, mk_expires_at_height = None, mk_tau_from_now = 0, mk_storage_fee_sats = 0,
     mk_market_state = MarketTrading, mk_trading_fee = F_Zero False, mk_liquidity_base_sats = 0, mk_shares = [3, 0],
     mk_final_prices = [F_Zero False, F_Zero False], mk_version = 0, mk_last_updated_height = 1,
     mk_total_volume_sats = 0, mk_outcome_volumes_sats = [0, 0], mk_tx_pow = (0, 0, 0) \<rparr>"

definition toss_resolved :: market where
  "toss_resolved = toss_market \<lparr> mk_final_prices := [F_Num (1 / 2), F_Num (1 / 2)] \<rparr>"

definition toss_funds :: filled_output where
  "toss_funds = \<lparr> fo_address = 1, fo_content = FilledMarketFunds 9 1 False, fo_memo = [] \<rparr>"

definition toss_state :: settle_state where
  "toss_state = \<lparr> utxos = db_put db_empty (MarketFundsPoint 9 0 False) toss_funds,
     utxos_by_address = db_put db_empty (1, MarketFundsPoint 9 0 False) (), stxos = db_empty,
     ss_votes = voted_state,
     ss_markets = markets_dbs_new \<lparr>
       md_markets := db_put db_empty 9 toss_market, state_index := db_put db_empty MarketTrading [9],
       decision_index := db_put db_empty example_id [9],
       share_accounts := db_put db_empty 7 \<lparr> positions = db_put db_empty (9, 0) 3, sa_last_updated = 2 \<rparr>,
       market_funds_utxos := db_put db_empty (9, False) (MarketFundsPoint 9 0 False) \<rparr> \<rparr>"

lemma toss_holdings: "market_holdings 9 (ss_markets toss_state) = [(7, 0, 3)]"
  by (simp add: market_holdings_def get_shareholders_for_market_def toss_state_def market_positions_def)

lemma toss_value: "redeemed_value 3 (F_Num (1 / 2)) = F_Num (3 / 2)"
  by code_simp

lemma toss_redeemed:
  "redeem_positions toss_resolved [(7, 0, 3)] = Inr [\<lparr> sp_market = 9, sp_address = 7, sp_outcome = 0, sp_shares = 3,
     sp_final_price = F_Num (1 / 2), sp_payout_sats = 2 \<rparr>]"
  by (simp add: share_payout_of_def toss_resolved_def toss_market_def toss_value) (simp add: f_to_u64_def f_max_def)

theorem treasury_fully_distributed_witness:
  "\<exists>r. calculate_share_payouts toss_resolved 6 db_empty db_empty toss_state = Inr r
     \<and> map (\<lambda>p. (sp_address p, sp_outcome p, sp_shares p)) (pay_payouts r) = [(7, 0, 3)]
     \<and> pay_refund r = (if sats_sum (pay_payouts r) < 1 then Some (5, 1 - sats_sum (pay_payouts r)) else None)"
proof -
  let ?p = "\<lparr> sp_market = 9, sp_address = 7, sp_outcome = 0, sp_shares = 3, sp_final_price = F_Num (1 / 2), sp_payout_sats = 2 \<rparr>"
  have mid: "mk_id toss_resolved = 9" by (simp add: toss_resolved_def toss_market_def)
  have funds: "get_market_funds_sats (mk_id toss_resolved) False toss_state = Inr 1"
    "get_market_funds_sats (mk_id toss_resolved) True toss_state = Inr 0"
    by (simp_all add: mid get_market_funds_sats_def get_market_funds_utxo_def toss_state_def markets_dbs_new_def toss_funds_def
        filled_output_value_def)
  have redeemed: "redeem_positions toss_resolved (market_holdings (mk_id toss_resolved) (ss_markets toss_state)) = Inr [?p]"
    unfolding mid toss_holdings by (rule toss_redeemed)
  have floor: "payout_floor ?p = 1"
  proof -
    have "\<lfloor>3 / 2 :: rat\<rfloor> = 1" by linarith
    then show ?thesis by (simp add: payout_floor_def nonneg_value_def toss_value) (simp add: f_to_u64_def f_max_def)
  qed
  have "calculate_fee_distribution (ss_votes toss_state) toss_resolved 0 db_empty db_empty = Inr []"
    by (simp add: calculate_fee_distribution_def)
  moreover have "mk_creator_address toss_resolved = 5" by (simp add: toss_resolved_def toss_market_def)
  moreover have "market_holdings (mk_id toss_resolved) (ss_markets toss_state) = [(7, 0, 3)]" unfolding mid by (rule toss_holdings)
  ultimately show ?thesis using treasury_fully_distributed [OF funds _ redeemed, of db_empty db_empty "[]" 6] by (auto simp: floor sats_sum_def)
qed

theorem fees_fully_distributed_witness:
  "\<exists>ps. calculate_fee_distribution voted_state toss_market 8 (db_put db_empty example_id (F_Num 1))
     (db_put db_empty example_id example_decision) = Inr ps \<and> sum_list (map fp_amount ps) = 8"
proof (rule fees_fully_distributed)
  show "reps_heavy voted_state"
    using heavy_one by (auto simp: reps_heavy_def voted_state_simps split: if_splits)
  show "example_id \<in> set (mk_decision_ids toss_market)" by (simp add: toss_market_def)
  show "db_get (db_put db_empty example_id example_decision) example_id = Some example_decision" by simp
  show "\<forall>p. length (db_entries (get_votes_for_period p (vs_voting voted_state))) \<le> 1"
    by (auto simp: get_votes_for_period_def votes_listed_def voted_state_simps)
qed (simp_all add: toss_market_def)

end
