(* ===== verification/Payouts.thy ===== *)
theory Payouts
  imports Settlement
begin

text \<open>
  The automatic payouts of a settled market and their reversal (\<open>apply_automatic_share_payouts\<close>,
  \<open>revert_automatic_share_payouts\<close> and \<open>transition_and_payout_resolved_markets\<close> of
  \<open>lib/state/markets/database.rs\<close>, \<open>revert_settlement\<close> of \<open>lib/state/block.rs\<close>).
  The parameter \<open>payout_hash\<close> is the blake3 hash of the market, the address, the height and the
  sequence number of a payout.
\<close>

type_synonym payout_hasher = "market_id \<Rightarrow> address \<Rightarrow> nat \<Rightarrow> nat \<Rightarrow> hash"

section \<open>Applying and reverting payouts\<close>

definition generate_share_payout_outpoint :: "payout_hasher \<Rightarrow> market_id \<Rightarrow> address \<Rightarrow> nat \<Rightarrow> nat \<Rightarrow> outpoint" where
  "generate_share_payout_outpoint payout_hash mid a height sequence = Payout (payout_hash mid a height sequence) sequence"

definition bitcoin_output :: "address \<Rightarrow> nat \<Rightarrow> filled_output" where
  "bitcoin_output a n = \<lparr> fo_address = a, fo_content = FilledBitcoin n, fo_memo = [] \<rparr>"

definition apply_share_payout ::
    "payout_hasher \<Rightarrow> nat \<Rightarrow> nat \<times> share_payout \<Rightarrow> settle_state \<Rightarrow> (error, settle_state) result" where
  "apply_share_payout payout_hash height e s =
     (let p = snd e;
          s1 = (if 0 < sp_payout_sats p
                then insert_utxo (generate_share_payout_outpoint payout_hash (sp_market p) (sp_address p) height (as_u 32 (fst e)))
                       (bitcoin_output (sp_address p) (sp_payout_sats p)) s
                else s)
      in rbind (remove_shares_from_account (sp_address p) (sp_market p) (sp_outcome p) (sp_shares p) height (ss_markets s1)) (\<lambda>dbs.
         Inr (s1 \<lparr> ss_markets := dbs \<rparr>)))"

definition apply_fee_payout ::
    "payout_hasher \<Rightarrow> market_id \<Rightarrow> nat \<Rightarrow> nat \<times> fee_payout \<Rightarrow> settle_state \<Rightarrow> settle_state" where
  "apply_fee_payout payout_hash mid height e s =
     insert_utxo (generate_share_payout_outpoint payout_hash mid (fp_address (snd e)) height (as_u 32 (fst e)))
       (bitcoin_output (fp_address (snd e)) (fp_amount (snd e))) s"

definition consume_funds :: "market_id \<Rightarrow> bool \<Rightarrow> settle_state \<Rightarrow> settle_state" where
  "consume_funds mid is_fee s =
     (case get_market_funds_utxo mid is_fee (ss_markets s) of
        None \<Rightarrow> s
      | Some op \<Rightarrow> (fst (delete_utxo op s)) \<lparr> ss_markets := clear_market_funds_utxo mid is_fee (ss_markets s) \<rparr>)"

definition apply_automatic_share_payouts ::
    "payout_hasher \<Rightarrow> payout_summary \<Rightarrow> nat \<Rightarrow> settle_state \<Rightarrow> (error, settle_state) result" where
  "apply_automatic_share_payouts payout_hash r height s =
     rbind (try_fold (apply_share_payout payout_hash height) (enumerate 0 (pay_payouts r)) s) (\<lambda>s1.
     let s2 = fold (apply_fee_payout payout_hash (pay_market r) height)
                (enumerate (length (pay_payouts r)) (pay_fee_payouts r)) s1;
         sequence = as_u 32 (length (pay_payouts r) + length (pay_fee_payouts r));
         s3 = (case pay_refund r of
                 None \<Rightarrow> s2
               | Some (a, n) \<Rightarrow> insert_utxo (generate_share_payout_outpoint payout_hash (pay_market r) a height sequence)
                                 (bitcoin_output a n) s2)
     in Inr (consume_funds (pay_market r) True (consume_funds (pay_market r) False s3)))"

definition revert_share_payout :: "payout_hasher \<Rightarrow> nat \<Rightarrow> nat \<times> share_payout \<Rightarrow> settle_state \<Rightarrow> settle_state" where
  "revert_share_payout payout_hash height e s =
     (let p = snd e;
          s1 = (if 0 < sp_payout_sats p
                then fst (delete_utxo (generate_share_payout_outpoint payout_hash (sp_market p) (sp_address p) height (as_u 32 (fst e))) s)
                else s)
      in s1 \<lparr> ss_markets := add_shares_to_account (sp_address p) (sp_market p) (sp_outcome p) (sp_shares p) height (ss_markets s1) \<rparr>)"

definition revert_fee_payout ::
    "payout_hasher \<Rightarrow> market_id \<Rightarrow> nat \<Rightarrow> nat \<times> fee_payout \<Rightarrow> settle_state \<Rightarrow> settle_state" where
  "revert_fee_payout payout_hash mid height e s =
     fst (delete_utxo (generate_share_payout_outpoint payout_hash mid (fp_address (snd e)) height (as_u 32 (fst e))) s)"

definition revert_automatic_share_payouts ::
    "payout_hasher \<Rightarrow> payout_summary \<Rightarrow> nat \<Rightarrow> settle_state \<Rightarrow> settle_state" where
  "revert_automatic_share_payouts payout_hash r height s =
     (let s1 = fold (revert_share_payout payout_hash height) (enumerate 0 (pay_payouts r)) s;
          s2 = fold (revert_fee_payout payout_hash (pay_market r) height)
                 (enumerate (length (pay_payouts r)) (pay_fee_payouts r)) s1;
          sequence = as_u 32 (length (pay_payouts r) + length (pay_fee_payouts r))
      in case pay_refund r of
           None \<Rightarrow> s2
         | Some (a, n) \<Rightarrow> fst (delete_utxo (generate_share_payout_outpoint payout_hash (pay_market r) a height sequence) s2))"

section \<open>Settling and unsettling markets\<close>

record settlement_undo_entry =
  su_market :: market
  su_summary :: payout_summary
  su_treasury :: "(outpoint \<times> filled_output) option"
  su_fee :: "(outpoint \<times> filled_output) option"

fun gather_decisions ::
    "decisions_dbs \<Rightarrow> voting_dbs \<Rightarrow> decision_id list \<Rightarrow> (decision_id, f64) db \<times> (decision_id, decision) db
       \<Rightarrow> ((decision_id, f64) db \<times> (decision_id, decision) db) option" where
  "gather_decisions ddb vdb [] acc = Some acc"
| "gather_decisions ddb vdb (d # ds) acc =
     (if get_decision_current_state ddb d \<noteq> Resolved then None
      else gather_decisions ddb vdb ds
        (case get_consensus_outcome d vdb of Some v \<Rightarrow> db_put (fst acc) d v | None \<Rightarrow> fst acc,
         case Option.bind (get_decision_entry ddb d) entry_decision of
           Some dec \<Rightarrow> db_put (snd acc) d dec | None \<Rightarrow> snd acc))"

definition funds_utxo :: "market_id \<Rightarrow> bool \<Rightarrow> settle_state \<Rightarrow> (outpoint \<times> filled_output) option" where
  "funds_utxo mid is_fee s =
     Option.bind (get_market_funds_utxo mid is_fee (ss_markets s)) (\<lambda>op. map_option (Pair op) (db_get (utxos s) op))"

definition settle_market ::
    "(f64 list \<Rightarrow> f64) \<Rightarrow> payout_hasher \<Rightarrow> decisions_dbs \<Rightarrow> nat \<Rightarrow> market
       \<Rightarrow> settle_state \<times> settlement_undo_entry list \<Rightarrow> (error, settle_state \<times> settlement_undo_entry list) result" where
  "settle_market array_sum payout_hash ddb height m acc =
     (case acc of (s, undo) \<Rightarrow>
      if mk_decision_ids m = [] then Inr acc
      else case gather_decisions ddb (vs_voting (ss_votes s)) (mk_decision_ids m) (db_empty, db_empty) of
             None \<Rightarrow> Inr acc
           | Some (outcomes, decisions) \<Rightarrow>
               (let treasury = funds_utxo (mk_id m) False s;
                    fee = funds_utxo (mk_id m) True s;
                    prices = calculate_final_prices array_sum outcomes decisions m
                in
                rbind (map_err (\<lambda>_. DatabaseError ''Failed to set final prices'')
                         (update_state height None None (Some prices) m)) (\<lambda>m1.
                rbind (calculate_share_payouts m1 height outcomes decisions s) (\<lambda>r.
                rbind (apply_automatic_share_payouts payout_hash r height s) (\<lambda>s1.
                rbind (map_err (\<lambda>_. DatabaseError ''Failed to settle market'')
                         (update_state height (Some MarketSettled) None None m1)) (\<lambda>m2.
                rbind (update_market m2 (ss_markets s1)) (\<lambda>dbs.
                Inr (s1 \<lparr> ss_markets := dbs \<rparr>,
                     undo @ [\<lparr> su_market = m, su_summary = r, su_treasury = treasury, su_fee = fee \<rparr>])))))))
     )"

definition transition_and_payout_resolved_markets ::
    "(f64 list \<Rightarrow> f64) \<Rightarrow> payout_hasher \<Rightarrow> decisions_dbs \<Rightarrow> nat \<Rightarrow> settle_state
       \<Rightarrow> (error, settle_state \<times> settlement_undo_entry list) result" where
  "transition_and_payout_resolved_markets array_sum payout_hash ddb height s =
     try_fold (settle_market array_sum payout_hash ddb height) (get_markets_by_state MarketTrading (ss_markets s)) (s, [])"

definition restore_funds ::
    "market_id \<Rightarrow> bool \<Rightarrow> (outpoint \<times> filled_output) option \<Rightarrow> settle_state \<Rightarrow> settle_state" where
  "restore_funds mid is_fee funds s =
     (case funds of
        None \<Rightarrow> s
      | Some (op, out) \<Rightarrow>
          (insert_utxo op out s) \<lparr> ss_markets := set_market_funds_utxo mid is_fee op (ss_markets s) \<rparr>)"

definition unsettle_market :: "payout_hasher \<Rightarrow> nat \<Rightarrow> settlement_undo_entry \<Rightarrow> settle_state \<Rightarrow> settle_state" where
  "unsettle_market payout_hash height u s =
     (let s1 = revert_automatic_share_payouts payout_hash (su_summary u) height s;
          s2 = restore_funds (mk_id (su_market u)) False (su_treasury u) s1;
          s3 = restore_funds (mk_id (su_market u)) True (su_fee u) s2
      in s3 \<lparr> ss_markets := restore_market (su_market u) (ss_markets s3) \<rparr>)"

definition revert_settlement :: "payout_hasher \<Rightarrow> nat \<Rightarrow> settlement_undo_entry list \<Rightarrow> settle_state \<Rightarrow> settle_state" where
  "revert_settlement payout_hash height entries s = fold (unsettle_market payout_hash height) (rev entries) s"


section \<open>The outputs of a settlement\<close>

definition created_outputs :: "payout_hasher \<Rightarrow> nat \<Rightarrow> payout_summary \<Rightarrow> (outpoint \<times> filled_output) list" where
  "created_outputs payout_hash height r =
     map (\<lambda>(i, p). (generate_share_payout_outpoint payout_hash (sp_market p) (sp_address p) height (as_u 32 i),
                    bitcoin_output (sp_address p) (sp_payout_sats p)))
       (filter (\<lambda>e. 0 < sp_payout_sats (snd e)) (enumerate 0 (pay_payouts r)))
     @ map (\<lambda>(i, f). (generate_share_payout_outpoint payout_hash (pay_market r) (fp_address f) height (as_u 32 i),
                      bitcoin_output (fp_address f) (fp_amount f)))
         (enumerate (length (pay_payouts r)) (pay_fee_payouts r))
     @ (case pay_refund r of
          None \<Rightarrow> []
        | Some (a, n) \<Rightarrow> [(generate_share_payout_outpoint payout_hash (pay_market r) a height
                            (as_u 32 (length (pay_payouts r) + length (pay_fee_payouts r))), bitcoin_output a n)])"

definition insert_all :: "(outpoint \<times> filled_output) list \<Rightarrow> settle_state \<Rightarrow> settle_state" where
  "insert_all es s = fold (\<lambda>(op, out). insert_utxo op out) es s"

definition delete_all :: "(outpoint \<times> filled_output) list \<Rightarrow> settle_state \<Rightarrow> settle_state" where
  "delete_all es s = fold (\<lambda>(op, out) s. fst (delete_utxo op s)) es s"

definition redeem :: "nat \<Rightarrow> share_payout \<Rightarrow> markets_dbs \<Rightarrow> (error, markets_dbs) result" where
  "redeem height p dbs = remove_shares_from_account (sp_address p) (sp_market p) (sp_outcome p) (sp_shares p) height dbs"

definition unredeem :: "nat \<Rightarrow> share_payout \<Rightarrow> markets_dbs \<Rightarrow> markets_dbs" where
  "unredeem height p dbs = add_shares_to_account (sp_address p) (sp_market p) (sp_outcome p) (sp_shares p) height dbs"

lemma insert_utxo_markets [simp]:
  "ss_markets (insert_utxo op out s) = ss_markets s" "ss_votes (insert_utxo op out s) = ss_votes s"
  "insert_utxo op out (s \<lparr> ss_markets := d \<rparr>) = (insert_utxo op out s) \<lparr> ss_markets := d \<rparr>"
  by (simp_all add: insert_utxo_def)

lemma delete_utxo_markets [simp]:
  "ss_markets (fst (delete_utxo op s)) = ss_markets s" "ss_votes (fst (delete_utxo op s)) = ss_votes s"
  "fst (delete_utxo op (s \<lparr> ss_markets := d \<rparr>)) = (fst (delete_utxo op s)) \<lparr> ss_markets := d \<rparr>"
  by (cases "db_get (utxos s) op"; simp add: delete_utxo_def Let_def)+

lemma insert_all_markets [simp]:
  "ss_markets (insert_all es s) = ss_markets s" "ss_votes (insert_all es s) = ss_votes s" "stxos (insert_all es s) = stxos s"
  "insert_all es (s \<lparr> ss_markets := d \<rparr>) = (insert_all es s) \<lparr> ss_markets := d \<rparr>"
  unfolding insert_all_def by (induction es arbitrary: s) (auto split: prod.splits)

lemma delete_all_markets [simp]:
  "ss_markets (delete_all es s) = ss_markets s" "ss_votes (delete_all es s) = ss_votes s" "stxos (delete_all es s) = stxos s"
  "delete_all es (s \<lparr> ss_markets := d \<rparr>) = (delete_all es s) \<lparr> ss_markets := d \<rparr>"
  unfolding delete_all_def by (induction es arbitrary: s) (auto split: prod.splits)

lemma insert_all_simps [simp]:
  "insert_all [] s = s" "insert_all (e # es) s = insert_all es (insert_utxo (fst e) (snd e) s)"
  "insert_all (es @ fs) s = insert_all fs (insert_all es s)"
  by (simp_all add: insert_all_def split_def)

lemma delete_all_simps [simp]:
  "delete_all [] s = s" "delete_all (e # es) s = delete_all es (fst (delete_utxo (fst e) s))"
  "delete_all (es @ fs) s = delete_all fs (delete_all es s)"
  by (simp_all add: delete_all_def split_def)

lemma apply_share_payouts_eq:
  "try_fold (apply_share_payout payout_hash height) es s =
     rbind (try_fold (redeem height) (map snd es) (ss_markets s)) (\<lambda>dbs.
     Inr ((insert_all (map (\<lambda>(i, p). (generate_share_payout_outpoint payout_hash (sp_market p) (sp_address p) height (as_u 32 i),
         bitcoin_output (sp_address p) (sp_payout_sats p))) (filter (\<lambda>e. 0 < sp_payout_sats (snd e)) es)) s) \<lparr> ss_markets := dbs \<rparr>))"
proof (induction es arbitrary: s)
  case (Cons e es)
  obtain i p where e: "e = (i, p)" by (cases e)
  have step: "apply_share_payout payout_hash height (i, p) s = rbind (redeem height p (ss_markets s)) (\<lambda>dbs.
      Inr ((if 0 < sp_payout_sats p then insert_utxo
             (generate_share_payout_outpoint payout_hash (sp_market p) (sp_address p) height (as_u 32 i))
             (bitcoin_output (sp_address p) (sp_payout_sats p)) s else s) \<lparr> ss_markets := dbs \<rparr>))"
    by (simp add: apply_share_payout_def redeem_def Let_def)
  show ?case by (cases "redeem height p (ss_markets s)") (simp_all add: e step Cons)
qed simp

lemma revert_share_payouts_eq:
  "fold (revert_share_payout payout_hash height) es s =
     (delete_all (map (\<lambda>(i, p). (generate_share_payout_outpoint payout_hash (sp_market p) (sp_address p) height (as_u 32 i),
         bitcoin_output (sp_address p) (sp_payout_sats p))) (filter (\<lambda>e. 0 < sp_payout_sats (snd e)) es)) s)
       \<lparr> ss_markets := fold (unredeem height) (map snd es) (ss_markets s) \<rparr>"
proof (induction es arbitrary: s)
  case (Cons e es)
  have step: "revert_share_payout payout_hash height e s = (if 0 < sp_payout_sats (snd e) then fst (delete_utxo
      (generate_share_payout_outpoint payout_hash (sp_market (snd e)) (sp_address (snd e)) height (as_u 32 (fst e))) s)
      else s) \<lparr> ss_markets := unredeem height (snd e) (ss_markets s) \<rparr>"
    by (simp add: revert_share_payout_def unredeem_def Let_def)
  show ?case by (simp add: step Cons split_def)
qed simp

lemma fee_payouts_eq:
  "fold (apply_fee_payout payout_hash mid height) es s =
     insert_all (map (\<lambda>(i, f). (generate_share_payout_outpoint payout_hash mid (fp_address f) height (as_u 32 i),
       bitcoin_output (fp_address f) (fp_amount f))) es) s"
  "fold (revert_fee_payout payout_hash mid height) es s =
     delete_all (map (\<lambda>(i, f). (generate_share_payout_outpoint payout_hash mid (fp_address f) height (as_u 32 i),
       bitcoin_output (fp_address f) (fp_amount f))) es) s"
  by (induction es arbitrary: s) (simp_all add: apply_fee_payout_def revert_fee_payout_def split_def)

lemma apply_payouts_eq:
  "apply_automatic_share_payouts payout_hash r height s =
     rbind (try_fold (redeem height) (pay_payouts r) (ss_markets s)) (\<lambda>dbs.
     Inr (consume_funds (pay_market r) True (consume_funds (pay_market r) False
       ((insert_all (created_outputs payout_hash height r) s) \<lparr> ss_markets := dbs \<rparr>))))"
  by (cases "try_fold (redeem height) (pay_payouts r) (ss_markets s)")
    (auto simp: apply_automatic_share_payouts_def apply_share_payouts_eq fee_payouts_eq created_outputs_def Let_def
      split: option.split)

lemma revert_payouts_eq:
  "revert_automatic_share_payouts payout_hash r height s =
     (delete_all (created_outputs payout_hash height r) s)
       \<lparr> ss_markets := fold (unredeem height) (pay_payouts r) (ss_markets s) \<rparr>"
  by (auto simp: revert_automatic_share_payouts_def revert_share_payouts_eq fee_payouts_eq created_outputs_def Let_def
      split: option.split)

section \<open>The holdings that a settlement takes and gives back\<close>

definition holdings :: "markets_dbs \<Rightarrow> address \<Rightarrow> market_id \<times> nat \<Rightarrow> int option" where
  "holdings dbs a = (case db_get (share_accounts dbs) a of None \<Rightarrow> Map.empty | Some acc \<Rightarrow> db_get (positions acc))"

definition holdings_i64 :: "markets_dbs \<Rightarrow> bool" where
  "holdings_i64 dbs \<longleftrightarrow> (\<forall>a k n. holdings dbs a k = Some n \<longrightarrow> - (2 ^ 63) \<le> n \<and> n < 2 ^ 63)"

abbreviation payout_key :: "share_payout \<Rightarrow> address \<times> market_id \<times> nat" where
  "payout_key p \<equiv> (sp_address p, sp_market p, sp_outcome p)"

lemma wrap_i64_exact: "- (2 ^ 63) \<le> n \<Longrightarrow> n < 2 ^ 63 \<Longrightarrow> wrap_i64 n = n"
  unfolding wrap_i64_def by (subst mod_pos_pos_trivial) auto

lemma redeem_holdings:
  assumes "redeem height p dbs = Inr dbs'" and "holdings dbs (sp_address p) (sp_market p, sp_outcome p) = Some (sp_shares p)"
  shows "holdings dbs' = (\<lambda>a k. if (a, k) = payout_key p then None else holdings dbs a k)"
    and "\<exists>x. dbs' = dbs \<lparr> share_accounts := x \<rparr>"
proof -
  obtain acc where acc: "db_get (share_accounts dbs) (sp_address p) = Some acc"
    "db_get (positions acc) (sp_market p, sp_outcome p) = Some (sp_shares p)"
    using assms(2) by (auto simp: holdings_def split: option.splits)
  let ?pos = "db_delete (positions acc) (sp_market p, sp_outcome p)"
  have dbs': "dbs' = dbs \<lparr> share_accounts := if db_entries ?pos = [] then db_delete (share_accounts dbs) (sp_address p)
      else db_put (share_accounts dbs) (sp_address p) (acc \<lparr> positions := ?pos, sa_last_updated := height \<rparr>) \<rparr>"
    using assms(1) acc by (simp add: redeem_def remove_shares_from_account_def remove_shares_def wrap_i64_def Let_def del: db_entries_delete)
  have gone: "db_get ?pos k = None" if "db_entries ?pos = []" for k
    using that by (metis db_get_iff_entries list.set(1) empty_iff not_None_eq)
  show "holdings dbs' = (\<lambda>a k. if (a, k) = payout_key p then None else holdings dbs a k)"
  proof (intro ext)
    fix a k
    show "holdings dbs' a k = (if (a, k) = payout_key p then None else holdings dbs a k)"
    proof (cases "db_entries ?pos = []")
      case True
      have "k = (sp_market p, sp_outcome p) \<or> db_get (positions acc) k = None" using gone [OF True, of k] by (auto split: if_splits)
      then show ?thesis using True acc unfolding dbs' by (auto simp: holdings_def simp del: db_entries_delete)
    next
      case False
      then show ?thesis using acc unfolding dbs' by (auto simp: holdings_def simp del: db_entries_delete)
    qed
  qed
  show "\<exists>x. dbs' = dbs \<lparr> share_accounts := x \<rparr>" unfolding dbs' by blast
qed

lemma redeem_all_holdings:
  assumes "try_fold (redeem height) ps dbs = Inr dbs'" and "distinct (map payout_key ps)"
    and "\<forall>p \<in> set ps. holdings dbs (sp_address p) (sp_market p, sp_outcome p) = Some (sp_shares p)"
  shows "holdings dbs' = (\<lambda>a k. if (a, k) \<in> payout_key ` set ps then None else holdings dbs a k)
    \<and> (\<exists>x. dbs' = dbs \<lparr> share_accounts := x \<rparr>)"
  using assms
proof (induction ps arbitrary: dbs)
  case Nil
  then show ?case by (auto intro: exI [of _ "share_accounts dbs"])
next
  case (Cons p ps)
  obtain d where d: "redeem height p dbs = Inr d" "try_fold (redeem height) ps d = Inr dbs'" using Cons.prems(1) by auto
  have head: "holdings dbs (sp_address p) (sp_market p, sp_outcome p) = Some (sp_shares p)" using Cons.prems(3) by simp
  note step = redeem_holdings [OF d(1) head]
  have "\<forall>q \<in> set ps. holdings d (sp_address q) (sp_market q, sp_outcome q) = Some (sp_shares q)"
    using Cons.prems(2,3) unfolding step(1) by (auto simp: image_iff)
  with Cons.IH [OF d(2)] Cons.prems(2)
  have ih: "holdings dbs' = (\<lambda>a k. if (a, k) \<in> payout_key ` set ps then None else holdings d a k)"
    "\<exists>x. dbs' = d \<lparr> share_accounts := x \<rparr>" by auto
  show ?case using step(2) ih(2) unfolding ih(1) step(1) by (auto simp: fun_eq_iff)
qed

lemma unredeem_holdings:
  "holdings (unredeem height p dbs) = (\<lambda>a k. if (a, k) = payout_key p
     then Some (wrap_i64 (unwrap_or 0 (holdings dbs a k) + sp_shares p)) else holdings dbs a k)"
  "\<exists>x. unredeem height p dbs = dbs \<lparr> share_accounts := x \<rparr>"
  by (auto simp: unredeem_def add_shares_to_account_def add_shares_def holdings_def share_account_new_def fun_eq_iff
      split: option.split)

lemma unredeem_all_holdings:
  assumes "distinct (map payout_key ps)" and "\<forall>p \<in> set ps. holdings dbs (sp_address p) (sp_market p, sp_outcome p) = None"
    and "\<forall>p \<in> set ps. - (2 ^ 63) \<le> sp_shares p \<and> sp_shares p < 2 ^ 63"
  shows "holdings (fold (unredeem height) ps dbs) = (\<lambda>a k. case map_of (map (\<lambda>p. (payout_key p, sp_shares p)) ps) (a, k) of
      Some n \<Rightarrow> Some n | None \<Rightarrow> holdings dbs a k)
    \<and> (\<exists>x. fold (unredeem height) ps dbs = dbs \<lparr> share_accounts := x \<rparr>)"
  using assms
proof (induction ps arbitrary: dbs)
  case Nil
  then show ?case by (auto intro: exI [of _ "share_accounts dbs"])
next
  case (Cons p ps)
  let ?d = "unredeem height p dbs"
  have head: "holdings ?d = (\<lambda>a k. if (a, k) = payout_key p then Some (sp_shares p) else holdings dbs a k)"
    unfolding unredeem_holdings(1) using Cons.prems(2,3) by (auto simp: fun_eq_iff wrap_i64_exact)
  have "\<forall>q \<in> set ps. holdings ?d (sp_address q) (sp_market q, sp_outcome q) = None"
    unfolding head using Cons.prems(1,2) by (auto simp: image_iff)
  with Cons.IH [of ?d] Cons.prems
  have ih: "holdings (fold (unredeem height) ps ?d) = (\<lambda>a k. case map_of (map (\<lambda>p. (payout_key p, sp_shares p)) ps) (a, k) of
      Some n \<Rightarrow> Some n | None \<Rightarrow> holdings ?d a k)" "\<exists>x. fold (unredeem height) ps ?d = ?d \<lparr> share_accounts := x \<rparr>" by auto
  have "map_of (map (\<lambda>p. (payout_key p, sp_shares p)) ps) (payout_key p) = None"
    using Cons.prems(1) by (auto simp: map_of_eq_None_iff image_iff)
  then show ?case using ih(2) unredeem_holdings(2) [of height p dbs] unfolding fold_simps ih(1) head
    by (auto simp: fun_eq_iff split: option.split)
qed

lemma market_holdings_mem: "(a, i, n) \<in> set (market_holdings mid dbs) \<longleftrightarrow> holdings dbs a (mid, i) = Some n"
proof -
  have "(a, i, n) \<in> set (market_holdings mid dbs) \<longleftrightarrow>
      (\<exists>acc. db_get (share_accounts dbs) a = Some acc \<and> (i, n) \<in> set (market_positions mid acc))"
    by (force simp: market_holdings_def get_shareholders_for_market_def db_get_iff_entries)
  also have "(i, n) \<in> set (market_positions mid acc) \<longleftrightarrow> db_get (positions acc) (mid, i) = Some n" for acc
    by (force simp: market_positions_def db_get_iff_entries)
  then have "(\<exists>acc. db_get (share_accounts dbs) a = Some acc \<and> (i, n) \<in> set (market_positions mid acc))
      \<longleftrightarrow> holdings dbs a (mid, i) = Some n" by (simp add: holdings_def split: option.split)
  finally show ?thesis .
qed

lemma distinct_market_positions: "distinct (map fst (market_positions mid acc))"
proof -
  have "map fst (market_positions mid acc) = map snd (filter (\<lambda>k. fst k = mid) (map fst (db_entries (positions acc))))"
    by (simp add: market_positions_def filter_map o_def split_def)
  moreover have "inj_on snd {k. fst k = mid}" by (auto simp: inj_on_def)
  ultimately show ?thesis using distinct_entries [of "positions acc"]
    by (auto simp: distinct_map intro: inj_on_subset)
qed

lemma distinct_market_holdings: "distinct (map (\<lambda>(a, i, n). (a, i)) (market_holdings mid dbs))"
proof -
  have "distinct (map (\<lambda>(a, i, n). (a, i)) (concat (map (\<lambda>(a, ps). map (Pair a) ps)
      (filter (\<lambda>e. snd e \<noteq> []) (map (\<lambda>(a, acc). (a, market_positions mid acc)) es)))))" if "distinct (map fst es)" for es
    using that
  proof (induction es)
    case (Cons e es)
    obtain a acc where e: "e = (a, acc)" by (cases e)
    have "distinct (map (\<lambda>(a, i, n). (a, i)) (map (Pair a) (market_positions mid acc)))"
      using distinct_market_positions [of mid acc] by (auto simp: distinct_map inj_on_def split_def)
    moreover have "a \<notin> fst ` set es" using Cons.prems by (simp add: e)
    ultimately show ?case using Cons by (force simp: e split_def)
  qed simp
  from this [OF distinct_entries] show ?thesis by (simp add: market_holdings_def get_shareholders_for_market_def)
qed

lemma calculated_payouts:
  assumes "calculate_share_payouts m height outcomes decisions s = Inr r"
  shows "map (\<lambda>p. (sp_market p, sp_address p, sp_outcome p, sp_shares p)) (pay_payouts r)
      = map (Pair (mk_id m)) (market_holdings (mk_id m) (ss_markets s))"
    and "pay_market r = mk_id m"
    and "get_market_funds_utxo (mk_id m) is_fee (ss_markets s) = Some op \<Longrightarrow> db_get (utxos s) op \<noteq> None"
proof -
  obtain treasury fee fps ps where parts: "get_market_funds_sats (mk_id m) False s = Inr treasury"
    "redeem_positions m (market_holdings (mk_id m) (ss_markets s)) = Inr ps"
    "get_market_funds_sats (mk_id m) True s = Inr fee" and r: "pay_market r = mk_id m"
    "pay_payouts r = ps \<or> (\<exists>e. pay_payouts r = reclaim_payout_roundups ps e)"
    using assms by (fastforce simp: calculate_share_payouts_def Let_def split: if_splits)
  note ok = redeem_positions_ok [OF parts(2)]
  have "reclaimed ps (reclaim_payout_roundups ps e)" for e
    using reclaim_fold [of "reclaim_order ps" ps e] ok
    by (cases "fold reclaim_one (reclaim_order ps) (ps, e)") (simp add: reclaim_payout_roundups_def reclaim_order_def)
  then have "reclaimed ps (pay_payouts r)" using r(2) reclaimed_refl by auto
  from reclaimed_list(1) [OF this]
  have "map (\<lambda>p. (sp_market p, sp_address p, sp_outcome p, sp_shares p)) (pay_payouts r)
      = map (\<lambda>p. (sp_market p, sp_address p, sp_outcome p, sp_shares p)) ps" .
  also have "\<dots> = map (\<lambda>p. (mk_id m, sp_address p, sp_outcome p, sp_shares p)) ps" using ok by simp
  also have "\<dots> = map (Pair (mk_id m)) (map (\<lambda>p. (sp_address p, sp_outcome p, sp_shares p)) ps)" by simp
  also have "\<dots> = map (Pair (mk_id m)) (market_holdings (mk_id m) (ss_markets s))" using ok by (simp only:)
  finally show "map (\<lambda>p. (sp_market p, sp_address p, sp_outcome p, sp_shares p)) (pay_payouts r)
      = map (Pair (mk_id m)) (market_holdings (mk_id m) (ss_markets s))" .
  show "pay_market r = mk_id m" by (rule r(1))
  show "db_get (utxos s) op \<noteq> None" if "get_market_funds_utxo (mk_id m) is_fee (ss_markets s) = Some op"
    using parts(1,3) that by (cases is_fee) (auto simp: get_market_funds_sats_def)
qed

lemma payouts_redeem_holdings:
  assumes "map (\<lambda>p. (sp_market p, sp_address p, sp_outcome p, sp_shares p)) ps = map (Pair mid) (market_holdings mid dbs)"
  shows "distinct (map payout_key ps)" and "\<forall>p \<in> set ps. holdings dbs (sp_address p) (sp_market p, sp_outcome p) = Some (sp_shares p)"
    and "\<forall>p \<in> set ps. sp_market p = mid"
proof -
  have mem: "(sp_market p, sp_address p, sp_outcome p, sp_shares p) \<in> Pair mid ` set (market_holdings mid dbs)" if "p \<in> set ps" for p
    using arg_cong [OF assms, of set] that by auto
  have "sp_market p = mid \<and> holdings dbs (sp_address p) (sp_market p, sp_outcome p) = Some (sp_shares p)" if "p \<in> set ps" for p
    using mem [OF that] by (auto simp: market_holdings_mem)
  then show "\<forall>p \<in> set ps. holdings dbs (sp_address p) (sp_market p, sp_outcome p) = Some (sp_shares p)"
    and "\<forall>p \<in> set ps. sp_market p = mid" by blast+
  have "map (\<lambda>p. (sp_address p, sp_outcome p)) ps = map (\<lambda>(a, i, n). (a, i)) (market_holdings mid dbs)"
    using arg_cong [OF assms, of "map (\<lambda>(m, a, i, n). (a, i))"] by (simp add: o_def split_def)
  then have "distinct (map (\<lambda>p. (sp_address p, sp_outcome p)) ps)" using distinct_market_holdings [of mid dbs] by simp
  then show "distinct (map payout_key ps)" by (auto simp: distinct_map inj_on_def)
qed

section \<open>The outputs that a settlement creates and spends\<close>

lemma insert_all_utxos:
  assumes "index_ok s" and "distinct (map fst es)" and "\<forall>e \<in> set es. db_get (utxos s) (fst e) = None"
  shows "index_ok (insert_all es s) \<and> db_get (utxos (insert_all es s)) = db_get (utxos s) ++ map_of es"
  using assms
proof (induction es arbitrary: s)
  case (Cons e es)
  let ?s = "insert_utxo (fst e) (snd e) s"
  have "index_ok ?s" by (rule index_ok_insert [OF Cons.prems(1)]) (use Cons.prems(3) in simp)
  moreover have get: "db_get (utxos ?s) = (db_get (utxos s)) (fst e \<mapsto> snd e)" by (auto simp: insert_utxo_def fun_eq_iff)
  moreover have fresh: "fst e \<notin> fst ` set es" using Cons.prems(2) by simp
  moreover have "\<forall>x \<in> set es. db_get (utxos ?s) (fst x) = None"
    unfolding get using Cons.prems(3) fresh by (auto simp: image_iff)
  ultimately have ih: "index_ok (insert_all es ?s)" "db_get (utxos (insert_all es ?s)) = (db_get (utxos s)) (fst e \<mapsto> snd e) ++ map_of es"
    using Cons.IH [of ?s] Cons.prems(2) unfolding get by (simp_all only: distinct.simps list.map simp_thms)
  have none: "map_of es (fst e) = None" using fresh by (simp add: map_of_eq_None_iff)
  have "(db_get (utxos s)) (fst e \<mapsto> snd e) ++ map_of es = db_get (utxos s) ++ map_of (e # es)"
    using none by (cases e) (auto simp: fun_eq_iff map_add_def split: option.split)
  with ih show ?case by (simp only: insert_all_simps simp_thms)
qed simp

lemma delete_utxo_get: "db_get (utxos (fst (delete_utxo op s))) = (db_get (utxos s)) (op := None)"
  by (cases "db_get (utxos s) op") (auto simp: delete_utxo_absent delete_utxo_present fun_eq_iff)

lemma delete_all_utxos:
  "index_ok s \<Longrightarrow> index_ok (delete_all es s)
     \<and> db_get (utxos (delete_all es s)) = (\<lambda>op. if op \<in> fst ` set es then None else db_get (utxos s) op)"
proof (induction es arbitrary: s)
  case (Cons e es)
  then show ?case using index_ok_delete [OF Cons.prems, of "fst e"] by (auto simp: delete_utxo_get fun_eq_iff)
qed simp

lemma index_ok_markets [simp]: "index_ok (s \<lparr> ss_markets := d \<rparr>) = index_ok s" for s :: settle_state
  by (simp add: index_ok_def)

lemma consume_funds_effect:
  assumes "index_ok s"
  shows "index_ok (consume_funds mid is_fee s)"
    and "db_get (utxos (consume_funds mid is_fee s)) =
      (\<lambda>op. if get_market_funds_utxo mid is_fee (ss_markets s) = Some op then None else db_get (utxos s) op)"
    and "ss_markets (consume_funds mid is_fee s) = clear_market_funds_utxo mid is_fee (ss_markets s)"
    and "ss_votes (consume_funds mid is_fee s) = ss_votes s" and "stxos (consume_funds mid is_fee s) = stxos s"
proof -
  have none: "clear_market_funds_utxo mid is_fee (ss_markets s) = ss_markets s" if "get_market_funds_utxo mid is_fee (ss_markets s) = None"
    using that by (simp add: clear_market_funds_utxo_def get_market_funds_utxo_def kv.delete_absent)
  show "index_ok (consume_funds mid is_fee s)"
    using assms index_ok_delete by (auto simp: consume_funds_def split: option.split)
  show "db_get (utxos (consume_funds mid is_fee s)) =
      (\<lambda>op. if get_market_funds_utxo mid is_fee (ss_markets s) = Some op then None else db_get (utxos s) op)"
    by (auto simp: consume_funds_def delete_utxo_get fun_eq_iff split: option.split)
  show "ss_markets (consume_funds mid is_fee s) = clear_market_funds_utxo mid is_fee (ss_markets s)"
    using none by (auto simp: consume_funds_def split: option.split)
  show "ss_votes (consume_funds mid is_fee s) = ss_votes s" "stxos (consume_funds mid is_fee s) = stxos s"
    by (auto simp: consume_funds_def split: option.split)
qed

lemma restore_funds_effect:
  assumes "index_ok s" and "\<forall>op out out'. funds = Some (op, out) \<longrightarrow> db_get (utxos s) op = Some out' \<longrightarrow> out' = out"
  shows "index_ok (restore_funds mid is_fee funds s)"
    and "db_get (utxos (restore_funds mid is_fee funds s)) =
      (\<lambda>q. case funds of Some (op, out) \<Rightarrow> if q = op then Some out else db_get (utxos s) q | None \<Rightarrow> db_get (utxos s) q)"
    and "ss_markets (restore_funds mid is_fee funds s) =
      (case funds of Some (op, out) \<Rightarrow> set_market_funds_utxo mid is_fee op (ss_markets s) | None \<Rightarrow> ss_markets s)"
    and "ss_votes (restore_funds mid is_fee funds s) = ss_votes s" and "stxos (restore_funds mid is_fee funds s) = stxos s"
proof -
  show "index_ok (restore_funds mid is_fee funds s)"
    using assms index_ok_insert [OF assms(1)] by (auto simp: restore_funds_def split: option.split)
  show "db_get (utxos (restore_funds mid is_fee funds s)) =
      (\<lambda>q. case funds of Some (op, out) \<Rightarrow> if q = op then Some out else db_get (utxos s) q | None \<Rightarrow> db_get (utxos s) q)"
    by (auto simp: restore_funds_def insert_utxo_def fun_eq_iff split: option.split)
qed (auto simp: restore_funds_def split: option.split)

text \<open>Payout points differ by their sequence number.\<close>

lemma created_points:
  assumes "length (pay_payouts r) + length (pay_fee_payouts r) < 2 ^ 32" and "\<forall>p \<in> set (pay_payouts r). sp_market p = pay_market r"
  shows "distinct (map fst (created_outputs payout_hash height r))"
    and "\<forall>e \<in> set (created_outputs payout_hash height r). \<exists>a i. fst e = generate_share_payout_outpoint payout_hash (pay_market r) a height i"
proof -
  let ?n = "length (pay_payouts r)" and ?k = "length (pay_fee_payouts r)"
  let ?seq = "\<lambda>op. case op of Payout h v \<Rightarrow> v | _ \<Rightarrow> 0"
  have small: "as_u 32 i = i" if "i \<le> ?n + ?k" for i using assms(1) that by simp
  have idx: "fst e < n + length xs" "n \<le> fst e" if "e \<in> set (enumerate n xs)" for e n and xs :: "'b list"
    using that by (auto simp: in_set_enumerate_eq)
  let ?A = "filter (\<lambda>e. 0 < sp_payout_sats (snd e)) (enumerate 0 (pay_payouts r))"
    and ?B = "enumerate ?n (pay_fee_payouts r)"
  have "as_u 32 (fst e) = fst e" if "e \<in> set ?A" for e using idx(1) [of e 0 "pay_payouts r"] that small [of "fst e"] by simp
  then have A: "map (\<lambda>e. as_u 32 (fst e)) ?A = map fst ?A" by (intro map_cong refl) blast
  have "as_u 32 (fst e) = fst e" if "e \<in> set ?B" for e using idx(1) [of e ?n "pay_fee_payouts r"] that small [of "fst e"] by simp
  then have B: "map (\<lambda>e. as_u 32 (fst e)) ?B = map fst ?B" by (intro map_cong refl) blast
  have "map ?seq (map fst (created_outputs payout_hash height r)) =
      map (\<lambda>e. as_u 32 (fst e)) ?A @ map (\<lambda>e. as_u 32 (fst e)) ?B @ (case pay_refund r of None \<Rightarrow> [] | Some _ \<Rightarrow> [as_u 32 (?n + ?k)])"
    by (auto simp: created_outputs_def generate_share_payout_outpoint_def o_def split_def split: option.split)
  moreover have "distinct (map fst ?A @ map fst ?B @ (case pay_refund r of None \<Rightarrow> [] | Some _ \<Rightarrow> [as_u 32 (?n + ?k)]))"
  proof -
    have "distinct (map fst ?A)" by (rule distinct_map_filter) (simp add: distinct_enumerate)
    moreover have "distinct (map fst ?B)" by (simp add: distinct_enumerate)
    ultimately show ?thesis using idx [of _ 0 "pay_payouts r"] idx [of _ ?n "pay_fee_payouts r"] small [of "?n + ?k"]
      by (fastforce split: option.split)
  qed
  ultimately have "distinct (map ?seq (map fst (created_outputs payout_hash height r)))" unfolding A B by simp
  then show "distinct (map fst (created_outputs payout_hash height r))" unfolding distinct_map [of ?seq] by (rule conjunct1)
  show "\<forall>e \<in> set (created_outputs payout_hash height r). \<exists>a i. fst e = generate_share_payout_outpoint payout_hash (pay_market r) a height i"
    using assms(2) by (fastforce simp: created_outputs_def in_set_enumerate_eq split: option.splits)
qed

section \<open>Unsettling undoes settling\<close>

definition settle_inv :: "settle_state \<Rightarrow> bool" where
  "settle_inv s \<longleftrightarrow> index_ok s \<and> markets_ok (ss_markets s) \<and> holdings_i64 (ss_markets s)"

text \<open>Two states that agree on everything but the dates of the share accounts and the order within the rows of an index.\<close>

definition settle_alike :: "settle_state \<Rightarrow> settle_state \<Rightarrow> bool" where
  "settle_alike s t \<longleftrightarrow> utxos s = utxos t \<and> utxos_by_address s = utxos_by_address t \<and> stxos s = stxos t \<and> ss_votes s = ss_votes t
     \<and> md_markets (ss_markets s) = md_markets (ss_markets t)
     \<and> market_funds_utxos (ss_markets s) = market_funds_utxos (ss_markets t)
     \<and> mempool_shares (ss_markets s) = mempool_shares (ss_markets t)
     \<and> holdings (ss_markets s) = holdings (ss_markets t)"

lemma settle_market_cases:
  assumes "settle_market array_sum payout_hash ddb height m (s, undo) = Inr (s1, undo1)"
  obtains "s1 = s" "undo1 = undo"
  | m1 m2 outcomes decisions r dbs s' where "mk_id m1 = mk_id m" "mk_id m2 = mk_id m"
      "calculate_share_payouts m1 height outcomes decisions s = Inr r" "apply_automatic_share_payouts payout_hash r height s = Inr s'"
      "update_market m2 (ss_markets s') = Inr dbs" "s1 = s' \<lparr> ss_markets := dbs \<rparr>"
      "undo1 = undo @ [\<lparr> su_market = m, su_summary = r, su_treasury = funds_utxo (mk_id m) False s, su_fee = funds_utxo (mk_id m) True s \<rparr>]"
proof (cases "mk_decision_ids m = [] \<or>
    gather_decisions ddb (vs_voting (ss_votes s)) (mk_decision_ids m) (db_empty, db_empty) = None")
  case True
  then have "s1 = s \<and> undo1 = undo" using assms by (elim disjE) (simp_all add: settle_market_def split: if_splits)
  then show thesis using that(1) by simp
next
  case False
  then obtain o' d' where "gather_decisions ddb (vs_voting (ss_votes s)) (mk_decision_ids m) (db_empty, db_empty) = Some (o', d')"
    by auto
  with assms False obtain m1 r s' m2 dbs where
    m1: "update_state height None None (Some (calculate_final_prices array_sum o' d' m)) m = Inr m1"
    and r: "calculate_share_payouts m1 height o' d' s = Inr r" "apply_automatic_share_payouts payout_hash r height s = Inr s'"
    and m2: "update_state height (Some MarketSettled) None None m1 = Inr m2"
    and dbs: "update_market m2 (ss_markets s') = Inr dbs" "s1 = s' \<lparr> ss_markets := dbs \<rparr>"
      "undo1 = undo @ [\<lparr> su_market = m, su_summary = r, su_treasury = funds_utxo (mk_id m) False s, su_fee = funds_utxo (mk_id m) True s \<rparr>]"
    by (auto simp: settle_market_def Let_def)
  have "mk_id m1 = mk_id m" "mk_id m2 = mk_id m" using update_state_id [OF m1] update_state_id [OF m2] by auto
  then show thesis using that(2) r dbs by blast
qed

text \<open>What a settlement does to the tables.\<close>

lemma settled_effect:
  assumes "settle_inv s" and "get_market (mk_id m) (ss_markets s) = Some m" and "mk_id m1 = mk_id m" and "mk_id m2 = mk_id m"
    and "calculate_share_payouts m1 height outcomes decisions s = Inr r"
    and "apply_automatic_share_payouts payout_hash r height s = Inr s'" and "update_market m2 (ss_markets s') = Inr dbs"
    and "\<forall>a i. db_get (utxos s) (generate_share_payout_outpoint payout_hash (mk_id m) a height i) = None"
    and "length (pay_payouts r) + length (pay_fee_payouts r) < 2 ^ 32"
  defines "s1 \<equiv> s' \<lparr> ss_markets := dbs \<rparr>"
  shows "index_ok s1" and "markets_ok (ss_markets s1)"
    and "db_get (utxos s1) = (\<lambda>op. if \<exists>b. get_market_funds_utxo (mk_id m) b (ss_markets s) = Some op then None
        else (db_get (utxos s) ++ map_of (created_outputs payout_hash height r)) op)"
    and "md_markets (ss_markets s1) = db_put (md_markets (ss_markets s)) (mk_id m) m2"
    and "market_funds_utxos (ss_markets s1) = db_delete (db_delete (market_funds_utxos (ss_markets s)) (mk_id m, False)) (mk_id m, True)"
    and "mempool_shares (ss_markets s1) = mempool_shares (ss_markets s)"
    and "holdings (ss_markets s1) = (\<lambda>a k. if (a, k) \<in> payout_key ` set (pay_payouts r) then None else holdings (ss_markets s) a k)"
    and "stxos s1 = stxos s" and "ss_votes s1 = ss_votes s"
proof -
  note inv = assms(1) [unfolded settle_inv_def]
  note calc = calculated_payouts [OF assms(5), unfolded assms(3)]
  note pays = payouts_redeem_holdings [OF calc(1)]
  have same: "\<forall>p \<in> set (pay_payouts r). sp_market p = pay_market r" using pays(3) calc(2) by simp
  note points = created_points [OF assms(9) same, of payout_hash height]
  let ?L = "created_outputs payout_hash height r"
  obtain d where d: "try_fold (redeem height) (pay_payouts r) (ss_markets s) = Inr d"
    and s': "s' = consume_funds (mk_id m) True (consume_funds (mk_id m) False ((insert_all ?L s) \<lparr> ss_markets := d \<rparr>))"
    using assms(6) calc(2) by (auto simp: apply_payouts_eq)
  obtain x where x: "d = (ss_markets s) \<lparr> share_accounts := x \<rparr>"
    and hold: "holdings d = (\<lambda>a k. if (a, k) \<in> payout_key ` set (pay_payouts r) then None else holdings (ss_markets s) a k)"
    using redeem_all_holdings [OF d pays(1,2)] by blast
  have fresh: "\<forall>e \<in> set ?L. db_get (utxos s) (fst e) = None" using points(2) assms(8) calc(2) by fastforce
  have ins: "index_ok (insert_all ?L s)" "db_get (utxos (insert_all ?L s)) = db_get (utxos s) ++ map_of ?L"
    using insert_all_utxos [OF _ points(1) fresh] inv by auto
  let ?a = "(insert_all ?L s) \<lparr> ss_markets := d \<rparr>" let ?b = "consume_funds (mk_id m) False ?a"
  have a: "index_ok ?a" using ins(1) by simp
  note b = consume_funds_effect [OF a, of "mk_id m" False]
  note c = consume_funds_effect [OF b(1), of "mk_id m" True, folded s']
  have dbs': "ss_markets s' = (ss_markets s) \<lparr> share_accounts := x,
      market_funds_utxos := db_delete (db_delete (market_funds_utxos (ss_markets s)) (mk_id m, False)) (mk_id m, True) \<rparr>"
    unfolding c(3) b(3) by (simp add: clear_market_funds_utxo_def x)
  have old: "get_market (mk_id m2) (ss_markets s') = Some m" using assms(2,4) unfolding dbs' by (simp add: get_market_def)
  have dbs: "dbs = write_market_and_indexes m2 (Some m) (ss_markets s')"
    using assms(7) old by (auto simp: update_market_def Let_def)
  show "index_ok s1" using c(1) by (simp add: s1_def)
  have "markets_ok (ss_markets s')" unfolding dbs' using inv by (simp add: markets_ok_frame)
  then show "markets_ok (ss_markets s1)" using write_market_ok [OF _ old] by (simp add: s1_def dbs)
  have funds: "get_market_funds_utxo (mk_id m) False (ss_markets ?a) = get_market_funds_utxo (mk_id m) False (ss_markets s)"
    "get_market_funds_utxo (mk_id m) True (ss_markets ?b) = get_market_funds_utxo (mk_id m) True (ss_markets s)"
    unfolding b(3) by (simp_all add: x get_market_funds_utxo_def clear_market_funds_utxo_def)
  show "db_get (utxos s1) = (\<lambda>op. if \<exists>b. get_market_funds_utxo (mk_id m) b (ss_markets s) = Some op then None
      else (db_get (utxos s) ++ map_of ?L) op)"
    unfolding s1_def using c(2) unfolding b(2) funds by (auto simp: ins(2) fun_eq_iff ex_bool_eq)
  show "md_markets (ss_markets s1) = db_put (md_markets (ss_markets s)) (mk_id m) m2"
    "market_funds_utxos (ss_markets s1) = db_delete (db_delete (market_funds_utxos (ss_markets s)) (mk_id m, False)) (mk_id m, True)"
    "mempool_shares (ss_markets s1) = mempool_shares (ss_markets s)"
    by (simp_all add: s1_def dbs write_market_fields dbs' assms(4))
  have "share_accounts dbs = share_accounts d" by (simp add: dbs write_market_fields dbs' x)
  then have "holdings (ss_markets s1) = holdings d" by (simp add: s1_def holdings_def fun_eq_iff)
  then show "holdings (ss_markets s1) = (\<lambda>a k. if (a, k) \<in> payout_key ` set (pay_payouts r) then None else holdings (ss_markets s) a k)"
    unfolding hold .
  show "stxos s1 = stxos s" "ss_votes s1 = ss_votes s" using b(4,5) c(4,5) by (simp_all add: s1_def)
qed

lemma unredeem_frame: "\<exists>x. fold (unredeem height) ps dbs = dbs \<lparr> share_accounts := x \<rparr>"
proof (induction ps arbitrary: dbs)
  case (Cons p ps)
  obtain x where "unredeem height p dbs = dbs \<lparr> share_accounts := x \<rparr>" using unredeem_holdings(2) by blast
  then show ?case using Cons [of "unredeem height p dbs"] by auto
next
  case Nil
  show ?case by (rule exI [of _ "share_accounts dbs"]) simp
qed

lemma holdings_frame: "holdings (dbs \<lparr> share_accounts := x \<rparr>) = holdings dbs' \<Longrightarrow>
    share_accounts d = x \<Longrightarrow> holdings d = holdings dbs'"
  by (simp add: holdings_def fun_eq_iff)

lemma funds_utxo_eq:
  assumes "\<forall>op. get_market_funds_utxo mid b (ss_markets s) = Some op \<longrightarrow> db_get (utxos s) op \<noteq> None"
  shows "funds_utxo mid b s = (case get_market_funds_utxo mid b (ss_markets s) of
    None \<Rightarrow> None | Some op \<Rightarrow> Some (op, the (db_get (utxos s) op)))"
  using assms by (auto simp: funds_utxo_def split: option.split)

lemma refunded_markets:
  assumes "market_funds_utxos d = db_delete (db_delete f (mid, False)) (mid, True)"
  defines "x \<equiv> case db_get f (mid, False) of None \<Rightarrow> d | Some op \<Rightarrow> set_market_funds_utxo mid False op d"
  shows "(case db_get f (mid, True) of None \<Rightarrow> x | Some op \<Rightarrow> set_market_funds_utxo mid True op x) = d \<lparr> market_funds_utxos := f \<rparr>"
  (is "?y = _")
proof (rule markets_dbs.equality)
  have "market_funds_utxos ?y = f"
    by (rule db_ext) (auto simp: x_def set_market_funds_utxo_def assms(1) split: option.split)
  then show "market_funds_utxos ?y = market_funds_utxos (d \<lparr> market_funds_utxos := f \<rparr>)" by simp
qed (auto simp: x_def set_market_funds_utxo_def split: option.split)

lemma returned_holdings:
  assumes "distinct (map payout_key ps)" and "\<forall>p \<in> set ps. holdings ds (sp_address p) (sp_market p, sp_outcome p) = Some (sp_shares p)"
    and "holdings_i64 ds" and "holdings dt = (\<lambda>a k. if (a, k) \<in> payout_key ` set ps then None else holdings ds a k)"
  shows "holdings (fold (unredeem height) ps dt) = holdings ds"
proof (intro ext)
  fix a k
  let ?es = "map (\<lambda>p. (payout_key p, sp_shares p)) ps"
  have pre: "\<forall>p \<in> set ps. holdings dt (sp_address p) (sp_market p, sp_outcome p) = None" unfolding assms(4) by simp
  have i64: "\<forall>p \<in> set ps. - (2 ^ 63) \<le> sp_shares p \<and> sp_shares p < 2 ^ 63"
    using assms(2,3) unfolding holdings_i64_def by blast
  have "holdings (fold (unredeem height) ps dt) a k = (case map_of ?es (a, k) of Some n \<Rightarrow> Some n | None \<Rightarrow> holdings dt a k)"
    using unredeem_all_holdings [OF assms(1) pre i64, of height] by simp
  also have "\<dots> = holdings ds a k"
  proof (cases "map_of ?es (a, k)")
    case None
    then have "(a, k) \<notin> payout_key ` set ps" by (force simp: map_of_eq_None_iff)
    then show ?thesis using None assms(4) by simp
  next
    case (Some n)
    from map_of_SomeD [OF this] obtain p where "p \<in> set ps" "payout_key p = (a, k)" "sp_shares p = n" by auto
    then show ?thesis using Some assms(2) by auto
  qed
  finally show "holdings (fold (unredeem height) ps dt) a k = holdings ds a k" .
qed

text \<open>The funds come back: from a state without them, both restorations give the old outputs and pointers.\<close>

lemma restored_funds:
  assumes "index_ok u" and "\<forall>b op. get_market_funds_utxo mid b (ss_markets s) = Some op \<longrightarrow> db_get (utxos s) op \<noteq> None"
    and "db_get (utxos u) = (\<lambda>op. if \<exists>b. get_market_funds_utxo mid b (ss_markets s) = Some op then None else db_get (utxos s) op)"
    and "market_funds_utxos (ss_markets u) = db_delete (db_delete (market_funds_utxos (ss_markets s)) (mid, False)) (mid, True)"
  defines "v \<equiv> restore_funds mid True (funds_utxo mid True s) (restore_funds mid False (funds_utxo mid False s) u)"
  shows "index_ok v" and "utxos v = utxos s" and "ss_markets v = (ss_markets u) \<lparr> market_funds_utxos := market_funds_utxos (ss_markets s) \<rparr>"
    and "stxos v = stxos u" and "ss_votes v = ss_votes u"
proof -
  define get where "get b = get_market_funds_utxo mid b (ss_markets s)" for b
  have funds: "funds_utxo mid b s = (case get b of None \<Rightarrow> None | Some op \<Rightarrow> Some (op, the (db_get (utxos s) op)))" for b
    using funds_utxo_eq [of mid b s] assms(2) by (simp add: get_def)
  note base = assms(3) [folded get_def]
  have "\<forall>op out out'. funds_utxo mid False s = Some (op, out) \<longrightarrow> db_get (utxos u) op = Some out' \<longrightarrow> out' = out"
    unfolding base funds by (auto split: option.splits if_splits)
  note b = restore_funds_effect [OF assms(1) this, of mid False]
  let ?b = "restore_funds mid False (funds_utxo mid False s) u"
  have "\<forall>op out out'. funds_utxo mid True s = Some (op, out) \<longrightarrow> db_get (utxos ?b) op = Some out' \<longrightarrow> out' = out"
    unfolding b(2) unfolding base unfolding funds by (auto split: option.splits if_splits)
  note c = restore_funds_effect [OF b(1) this, of mid True, folded v_def]
  show "index_ok v" by (rule c(1))
  show "utxos v = utxos s"
  proof (rule db_ext)
    fix op
    show "db_get (utxos v) op = db_get (utxos s) op"
      using assms(2) [folded get_def] unfolding c(2) unfolding b(2) unfolding base unfolding funds
      by (cases "get False"; cases "get True") (auto simp: ex_bool_eq)
  qed
  show "ss_markets v = (ss_markets u) \<lparr> market_funds_utxos := market_funds_utxos (ss_markets s) \<rparr>"
    using refunded_markets [OF assms(4)] unfolding c(3) unfolding b(3) unfolding funds
    by (cases "get False"; cases "get True") (auto simp: get_def get_market_funds_utxo_def)
  show "stxos v = stxos u" "ss_votes v = ss_votes u" using b(4,5) c(4,5) by simp_all
qed

lemma unsettle_undoes_settle:
  assumes "settle_inv s" and "get_market (mk_id m) (ss_markets s) = Some m" and "mk_id m1 = mk_id m" and "mk_id m2 = mk_id m"
    and "calculate_share_payouts m1 height outcomes decisions s = Inr r"
    and "apply_automatic_share_payouts payout_hash r height s = Inr s'" and "update_market m2 (ss_markets s') = Inr dbs"
    and "\<forall>a i. db_get (utxos s) (generate_share_payout_outpoint payout_hash (mk_id m) a height i) = None"
    and "length (pay_payouts r) + length (pay_fee_payouts r) < 2 ^ 32"
    and "settle_alike (s' \<lparr> ss_markets := dbs \<rparr>) t" and "markets_ok (ss_markets t)"
  defines "t' \<equiv> unsettle_market payout_hash height
      \<lparr> su_market = m, su_summary = r, su_treasury = funds_utxo (mk_id m) False s, su_fee = funds_utxo (mk_id m) True s \<rparr> t"
  shows "settle_alike s t' \<and> markets_ok (ss_markets t')"
proof -
  let ?L = "created_outputs payout_hash height r" and ?mid = "mk_id m"
  note inv = assms(1) [unfolded settle_inv_def] and eff = settled_effect [OF assms(1-9)]
    and alike = assms(10) [unfolded settle_alike_def] and calc = calculated_payouts [OF assms(5), unfolded assms(3)]
  note pays = payouts_redeem_holdings [OF calc(1)]
  have points: "\<forall>e \<in> set ?L. db_get (utxos s) (fst e) = None"
    using created_points(2) [OF assms(9), of payout_hash height] pays(3) calc(2) assms(8) by fastforce
  have t: "index_ok t" using eff(1) alike index_ok_cong by blast
  let ?r = "revert_automatic_share_payouts payout_hash r height t"
  let ?d = "fold (unredeem height) (pay_payouts r) (ss_markets t)"
  have r_eq: "?r = (delete_all ?L t) \<lparr> ss_markets := ?d \<rparr>" by (rule revert_payouts_eq)
  obtain x where x: "?d = (ss_markets t) \<lparr> share_accounts := x \<rparr>" using unredeem_frame by blast
  have r_ok: "index_ok ?r" and r_get: "db_get (utxos ?r) = (\<lambda>op. if op \<in> fst ` set ?L then None else db_get (utxos t) op)"
    using delete_all_utxos [OF t, of ?L] by (auto simp: r_eq)
  have base: "db_get (utxos ?r) = (\<lambda>op. if \<exists>b. get_market_funds_utxo ?mid b (ss_markets s) = Some op then None else db_get (utxos s) op)"
  proof (rule ext)
    fix op
    have "map_of ?L op = None" if "op \<notin> fst ` set ?L" using that by (simp add: map_of_eq_None_iff)
    moreover have "db_get (utxos s) op = None" if "op \<in> fst ` set ?L" using that points by auto
    moreover have "db_get (utxos t) = (\<lambda>op. if \<exists>b. get_market_funds_utxo ?mid b (ss_markets s) = Some op then None
        else (db_get (utxos s) ++ map_of ?L) op)" using eff(3) alike by simp
    ultimately show "db_get (utxos ?r) op = (if \<exists>b. get_market_funds_utxo ?mid b (ss_markets s) = Some op then None
        else db_get (utxos s) op)" unfolding r_get by (auto simp: map_add_def)
  qed
  have r_funds: "market_funds_utxos (ss_markets ?r) = db_delete (db_delete (market_funds_utxos (ss_markets s)) (?mid, False)) (?mid, True)"
    using eff(5) alike by (simp add: r_eq x)
  let ?c = "restore_funds ?mid True (funds_utxo ?mid True s) (restore_funds ?mid False (funds_utxo ?mid False s) ?r)"
  have "\<forall>b op. get_market_funds_utxo ?mid b (ss_markets s) = Some op \<longrightarrow> db_get (utxos s) op \<noteq> None" using calc(3) by blast
  note c = restored_funds [OF r_ok this base r_funds]
  have sm: "ss_markets ?c = ?d \<lparr> market_funds_utxos := market_funds_utxos (ss_markets s) \<rparr>" using c(3) by (simp add: r_eq)
  have t': "t' = ?c \<lparr> ss_markets := restore_market m (ss_markets ?c) \<rparr>" by (simp add: t'_def unsettle_market_def Let_def)
  have "holdings (ss_markets t) = (\<lambda>a k. if (a, k) \<in> payout_key ` set (pay_payouts r) then None else holdings (ss_markets s) a k)"
    using eff(7) alike by simp
  then have hold: "holdings ?d = holdings (ss_markets s)" using returned_holdings [OF pays(1,2)] inv by blast
  have md: "md_markets (ss_markets t) = db_put (md_markets (ss_markets s)) (mk_id m) m2" using eff(4) alike by simp
  then have old: "get_market (mk_id m) (ss_markets ?c) = Some m2" by (simp add: sm x get_market_def)
  have new: "ss_markets t' = write_market_and_indexes m (Some m2) (ss_markets ?c)" using old by (simp add: t' restore_market_def)
  have "md_markets (ss_markets t') = md_markets (ss_markets s)"
    using md assms(2) by (simp add: new write_market_fields sm x get_market_def kv.put_put kv.put_same)
  moreover have "market_funds_utxos (ss_markets t') = market_funds_utxos (ss_markets s)"
    "mempool_shares (ss_markets t') = mempool_shares (ss_markets s)"
    using eff(6) alike by (simp_all add: new write_market_fields sm x)
  moreover have "holdings (ss_markets t') = holdings (ss_markets s)"
    using hold by (simp add: new write_market_fields sm holdings_def fun_eq_iff)
  moreover have "stxos t' = stxos s" "ss_votes t' = ss_votes s" using c(4,5) eff(8,9) alike by (simp_all add: t' r_eq)
  moreover have "utxos t' = utxos s" "index_ok t'" using c(1,2) by (simp_all add: t')
  ultimately have "settle_alike s t'" using index_determined [of t' s] inv unfolding settle_alike_def by simp
  moreover have "markets_ok (ss_markets ?c)" using assms(11) by (simp add: sm x markets_ok_frame)
  then have "markets_ok (ss_markets t')" unfolding new by (rule write_market_ok [OF _ old])
  ultimately show ?thesis ..
qed

section \<open>All markets of a block\<close>

definition settle_ready :: "payout_hasher \<Rightarrow> nat \<Rightarrow> market list \<Rightarrow> settle_state \<Rightarrow> bool" where
  "settle_ready payout_hash height ms s \<longleftrightarrow> settle_inv s \<and> distinct (map mk_id ms)
     \<and> (\<forall>m \<in> set ms. get_market (mk_id m) (ss_markets s) = Some m
          \<and> (\<forall>a i. db_get (utxos s) (generate_share_payout_outpoint payout_hash (mk_id m) a height i) = None))"

definition hash_separates :: "payout_hasher \<Rightarrow> bool" where
  "hash_separates payout_hash \<longleftrightarrow>
     (\<forall>m m' a a' height i. payout_hash m a height i = payout_hash m' a' height i \<longrightarrow> m = m')"

definition undo_fits :: "settlement_undo_entry \<Rightarrow> bool" where
  "undo_fits u \<longleftrightarrow> length (pay_payouts (su_summary u)) + length (pay_fee_payouts (su_summary u)) < 2 ^ 32"

lemma settle_extends:
  "settle_market array_sum payout_hash ddb height m acc = Inr acc' \<Longrightarrow> \<exists>new. snd acc' = snd acc @ new"
  by (cases acc; cases acc') (auto elim!: settle_market_cases)

lemma settle_loop_extends:
  "try_fold (settle_market array_sum payout_hash ddb height) ms acc = Inr acc' \<Longrightarrow> \<exists>new. snd acc' = snd acc @ new"
proof (induction ms arbitrary: acc)
  case (Cons m ms)
  then obtain acc1 where "settle_market array_sum payout_hash ddb height m acc = Inr acc1"
    "try_fold (settle_market array_sum payout_hash ddb height) ms acc1 = Inr acc'" by auto
  with settle_extends [OF this(1)] Cons.IH [OF this(2)] show ?case by auto
qed simp

lemma settle_ready_step:
  assumes "settle_ready payout_hash height (m # ms) s" and "hash_separates payout_hash"
    and "settle_market array_sum payout_hash ddb height m (s, undo) = Inr (s1, undo @ new)" and "\<forall>u \<in> set new. undo_fits u"
  shows "settle_ready payout_hash height ms s1"
    and "settle_alike s1 t \<Longrightarrow> markets_ok (ss_markets t) \<Longrightarrow> settle_alike s (fold (unsettle_market payout_hash height) (rev new) t)
      \<and> markets_ok (ss_markets (fold (unsettle_market payout_hash height) (rev new) t))"
proof -
  have inv: "settle_inv s" and mkt: "get_market (mk_id m) (ss_markets s) = Some m"
    and fresh: "\<forall>a i. db_get (utxos s) (generate_share_payout_outpoint payout_hash (mk_id m) a height i) = None"
    using assms(1) by (auto simp: settle_ready_def)
  have "settle_ready payout_hash height ms s1 \<and> (settle_alike s1 t \<longrightarrow> markets_ok (ss_markets t) \<longrightarrow>
      settle_alike s (fold (unsettle_market payout_hash height) (rev new) t)
      \<and> markets_ok (ss_markets (fold (unsettle_market payout_hash height) (rev new) t)))"
    using assms(3)
  proof (cases rule: settle_market_cases)
    case 1
    then show ?thesis using assms(1) by (auto simp: settle_ready_def)
  next
    case (2 m1 m2 outcomes decisions r dbs s')
    have small: "length (pay_payouts r) + length (pay_fee_payouts r) < 2 ^ 32" using assms(4) 2(7) by (simp add: undo_fits_def)
    note eff = settled_effect [OF inv mkt 2(1-5) fresh small, folded 2(6)]
    have inv1: "settle_inv s1"
      using eff(1,2) inv unfolding settle_inv_def holdings_i64_def eff(7) by auto
    have calc: "pay_market r = mk_id m" "\<forall>p \<in> set (pay_payouts r). sp_market p = pay_market r"
      using calculated_payouts [OF 2(3)] payouts_redeem_holdings(3) [OF calculated_payouts(1) [OF 2(3)]] 2(1) by auto
    have other: "get_market (mk_id m') (ss_markets s1) = Some m'
        \<and> db_get (utxos s1) (generate_share_payout_outpoint payout_hash (mk_id m') a height i) = None" if "m' \<in> set ms" for m' a i
    proof -
      have "mk_id m \<notin> mk_id ` set ms" using assms(1) unfolding settle_ready_def by simp
      then have ne: "mk_id m' \<noteq> mk_id m" using that by (metis imageI)
      have old: "get_market (mk_id m') (ss_markets s) = Some m'"
        "db_get (utxos s) (generate_share_payout_outpoint payout_hash (mk_id m') a height i) = None"
        using assms(1) that unfolding settle_ready_def by (meson list.set_intros(2))+
      have "generate_share_payout_outpoint payout_hash (mk_id m') a height i \<notin> fst ` set (created_outputs payout_hash height r)"
      proof
        assume "generate_share_payout_outpoint payout_hash (mk_id m') a height i \<in> fst ` set (created_outputs payout_hash height r)"
        then obtain a' i' where "generate_share_payout_outpoint payout_hash (mk_id m') a height i
            = generate_share_payout_outpoint payout_hash (mk_id m) a' height i'"
          using created_points(2) [OF small calc(2), of payout_hash height] calc(1) by (metis (no_types) imageE)
        then have "payout_hash (mk_id m') a height i = payout_hash (mk_id m) a' height i"
          by (auto simp: generate_share_payout_outpoint_def)
        then show False using assms(2) ne unfolding hash_separates_def by blast
      qed
      then have "map_of (created_outputs payout_hash height r) (generate_share_payout_outpoint payout_hash (mk_id m') a height i) = None"
        by (simp add: map_of_eq_None_iff)
      moreover have "get_market (mk_id m') (ss_markets s1) = Some m'" using old(1) ne by (simp add: get_market_def eff(4))
      ultimately show ?thesis using old(2) by (simp add: eff(3) map_add_def)
    qed
    have "settle_ready payout_hash height ms s1" using inv1 other assms(1) by (simp add: settle_ready_def)
    moreover have "new = [\<lparr> su_market = m, su_summary = r, su_treasury = funds_utxo (mk_id m) False s, su_fee = funds_utxo (mk_id m) True s \<rparr>]"
      using 2(7) by simp
    ultimately show ?thesis
      using unsettle_undoes_settle [OF inv mkt 2(1-5) fresh small, folded 2(6), of t] by simp
  qed
  then show "settle_ready payout_hash height ms s1"
    and "settle_alike s1 t \<Longrightarrow> markets_ok (ss_markets t) \<Longrightarrow> settle_alike s (fold (unsettle_market payout_hash height) (rev new) t)
      \<and> markets_ok (ss_markets (fold (unsettle_market payout_hash height) (rev new) t))" by blast+
qed

lemma settle_loop_undone:
  assumes "try_fold (settle_market array_sum payout_hash ddb height) ms (s, undo) = Inr (s', undo @ new)"
    and "settle_ready payout_hash height ms s" and "hash_separates payout_hash" and "\<forall>u \<in> set new. undo_fits u"
    and "settle_alike s' t" and "markets_ok (ss_markets t)"
  shows "settle_alike s (fold (unsettle_market payout_hash height) (rev new) t)
    \<and> markets_ok (ss_markets (fold (unsettle_market payout_hash height) (rev new) t))"
  using assms(1,2,4)
proof (induction ms arbitrary: s undo new)
  case Nil
  then show ?case using assms(5,6) by simp
next
  case (Cons m ms)
  then obtain s1 undo1 where one: "settle_market array_sum payout_hash ddb height m (s, undo) = Inr (s1, undo1)"
    and rest: "try_fold (settle_market array_sum payout_hash ddb height) ms (s1, undo1) = Inr (s', undo @ new)" by auto
  obtain a where a: "undo1 = undo @ a" using settle_extends [OF one] by auto
  obtain b where b: "undo @ new = undo1 @ b" using settle_loop_extends [OF rest] by auto
  have new: "new = a @ b" using a b by simp
  have fits: "\<forall>u \<in> set a. undo_fits u" "\<forall>u \<in> set b. undo_fits u" using Cons.prems(3) by (auto simp: new)
  note step = settle_ready_step [OF Cons.prems(2) assms(3) one [unfolded a] fits(1)]
  have "settle_alike s1 (fold (unsettle_market payout_hash height) (rev b) t)
      \<and> markets_ok (ss_markets (fold (unsettle_market payout_hash height) (rev b) t))"
    using Cons.IH [of s1 undo1 b] rest step(1) fits(2) unfolding b by blast
  then show ?case using step(2) by (simp add: new)
qed

lemma settle_loop_inv:
  assumes "try_fold (settle_market array_sum payout_hash ddb height) ms (s, undo) = Inr (s', undo @ new)"
    and "settle_ready payout_hash height ms s" and "hash_separates payout_hash" and "\<forall>u \<in> set new. undo_fits u"
  shows "settle_inv s'"
  using assms(1,2,4)
proof (induction ms arbitrary: s undo new)
  case Nil
  then show ?case by (simp add: settle_ready_def)
next
  case (Cons m ms)
  then obtain s1 undo1 where one: "settle_market array_sum payout_hash ddb height m (s, undo) = Inr (s1, undo1)"
    and rest: "try_fold (settle_market array_sum payout_hash ddb height) ms (s1, undo1) = Inr (s', undo @ new)" by auto
  obtain a where a: "undo1 = undo @ a" using settle_extends [OF one] by auto
  obtain b where b: "undo @ new = undo1 @ b" using settle_loop_extends [OF rest] by auto
  have fits: "\<forall>u \<in> set a. undo_fits u" "\<forall>u \<in> set b. undo_fits u" using Cons.prems(3) a b by auto
  show ?case
    using Cons.IH [of s1 undo1 b] rest settle_ready_step(1) [OF Cons.prems(2) assms(3) one [unfolded a] fits(1)] fits(2)
    unfolding b by blast
qed

text \<open>
  C13. Disconnecting a block takes its settlements back: after all resolved markets of a block have been settled,
  reverting the recorded entries restores the unspent and spent outputs with their address index, the
  stored markets, their funds, every share position and the votes; the indexes of the markets are exact
  again. It needs that the hash of the payout points separates markets and that the points are unused.
\<close>

theorem settlement_roundtrip:
  assumes "settle_inv s" and "hash_separates payout_hash"
    and "\<forall>m a i. db_get (utxos s) (generate_share_payout_outpoint payout_hash m a height i) = None"
    and "transition_and_payout_resolved_markets array_sum payout_hash ddb height s = Inr (s', undo)"
    and "\<forall>u \<in> set undo. undo_fits u"
  shows "settle_alike s (revert_settlement payout_hash height undo s')
    \<and> markets_ok (ss_markets (revert_settlement payout_hash height undo s'))"
proof -
  let ?ms = "get_markets_by_state MarketTrading (ss_markets s)"
  have ok: "markets_ok (ss_markets s)" using assms(1) by (simp add: settle_inv_def)
  have ready: "settle_ready payout_hash height ?ms s"
    using assms(1,3) markets_by_state_found [OF ok, of MarketTrading] by (auto simp: settle_ready_def)
  have refl: "settle_alike s' s'" by (simp add: settle_alike_def)
  have "settle_inv s'"
    using settle_loop_inv [of array_sum payout_hash ddb height ?ms s "[]" s' undo] assms ready
    by (simp add: transition_and_payout_resolved_markets_def)
  then have "markets_ok (ss_markets s')" by (simp add: settle_inv_def)
  then show ?thesis
    using settle_loop_undone [of array_sum payout_hash ddb height ?ms s "[]" s' undo s'] assms ready refl
    by (simp add: transition_and_payout_resolved_markets_def revert_settlement_def)
qed

section \<open>An example\<close>

definition resolved_decisions :: decisions_dbs where
  "resolved_decisions = open_decisions \<lparr> decision_state_histories := db_put db_empty example_id
     \<lparr> state_history = [(Claimed, 1, None), (Voting, 2, None), (Resolved, 5, None)] \<rparr> \<rparr>"

definition example_payout_hash :: payout_hasher where
  "example_payout_hash mid a height i = word_of_nat (unat mid)"

lemma example_hash_separates: "hash_separates example_payout_hash"
proof -
  have "m = m'" if "(word_of_nat (unat m) :: hash) = word_of_nat (unat m')" for m m' :: market_id
  proof -
    have "unat x mod 2 ^ 256 = unat x" for x :: market_id 
    proof -
      have "unat x < 2 ^ LENGTH(48)" by (rule unsigned_less)
      then show ?thesis by simp
    qed
    then have "unat m = unat m'"
      using arg_cong [where f = unat, OF that] unfolding unat_of_nat by simp
    then show ?thesis unfolding word_unat_eq_iff .
  qed
  then show ?thesis by (auto simp: hash_separates_def example_payout_hash_def)
qed

lemma toss_axis: "scalar_axis False (F_Num (1 / 2)) = [F_Num (1 / 2), F_Num (1 / 2)]"
  by code_simp

lemma toss_joint: "f_mul (F_Num 1) (F_Num (1 / 2)) = F_Num (1 / 2)"
  by code_simp

lemma toss_sum: "f_sum [F_Num (1 / 2), F_Num (1 / 2)] = F_Num 1"
  by code_simp

lemma toss_quotient: "f_div (F_Num (1 / 2)) (F_Num 1) = F_Num (1 / 2)"
  by code_simp

lemma toss_prices:
  "calculate_final_prices f_sum db_empty (db_put db_empty example_id example_decision) toss_market = [F_Num (1 / 2), F_Num (1 / 2)]"
  by (simp add: calculate_final_prices_def toss_market_def toss_axis toss_joint toss_sum toss_quotient joint_price_def get_valid_state_combos_def Let_def
      example_decision_def is_scaled_def)

lemma toss_gathered:
  "gather_decisions resolved_decisions (vs_voting voted_state) [example_id] (db_empty, db_empty) =
     Some (db_empty, db_put db_empty example_id example_decision)"
proof -
  have "get_decision_entry resolved_decisions example_id = Some (DecisionEntry example_id (Some example_decision) 9)"
    using open_decision_entry by (simp add: get_decision_entry_def resolved_decisions_def)
  then show ?thesis
    by (simp add: get_decision_current_state_def get_decision_state_history_def resolved_decisions_def current_state_def
        get_consensus_outcome_def voted_state_simps)
qed

lemma toss_floor: "payout_floor \<lparr> sp_market = 9, sp_address = 7, sp_outcome = 0, sp_shares = 3, sp_final_price = F_Num (1 / 2), sp_payout_sats = n \<rparr> = 1"
proof -
  have "\<lfloor>3 / 2 :: rat\<rfloor> = 1" by linarith
  then show ?thesis by (simp add: payout_floor_def nonneg_value_def toss_value) (simp add: f_to_u64_def f_max_def)
qed

lemma toss_calculated:
  assumes "mk_final_prices m = [F_Num (1 / 2), F_Num (1 / 2)]" and "mk_id m = 9"
  shows "\<exists>r. calculate_share_payouts m 6 outcomes decisions toss_state = Inr r \<and> pay_fee_payouts r = [] \<and> pay_market r = 9
    \<and> pay_payouts r = [\<lparr> sp_market = 9, sp_address = 7, sp_outcome = 0, sp_shares = 3, sp_final_price = F_Num (1 / 2), sp_payout_sats = 1 \<rparr>]"
proof -
  have funds: "get_market_funds_sats 9 False toss_state = Inr 1" "get_market_funds_sats 9 True toss_state = Inr 0"
    by (simp_all add: get_market_funds_sats_def get_market_funds_utxo_def toss_state_def markets_dbs_new_def toss_funds_def
        filled_output_value_def)
  have redeemed: "redeem_positions m [(7, 0, 3)] = Inr [\<lparr> sp_market = 9, sp_address = 7, sp_outcome = 0, sp_shares = 3,
      sp_final_price = F_Num (1 / 2), sp_payout_sats = 2 \<rparr>]"
    using assms by (simp add: share_payout_of_def toss_value) (simp add: f_to_u64_def f_max_def)
  have "calculate_fee_distribution (ss_votes toss_state) m 0 outcomes decisions = Inr []"
    by (simp add: calculate_fee_distribution_def)
  then show ?thesis
    using funds redeemed
    by (simp add: calculate_share_payouts_def assms toss_holdings total_redeemed_def wrapping_sum_def reclaim_payout_roundups_def
        reclaim_order_def reclaim_one_def toss_floor checked_sub_def Let_def)
qed

lemma toss_settles:
  "\<exists>s' undo. transition_and_payout_resolved_markets f_sum example_payout_hash resolved_decisions 6 toss_state = Inr (s', undo)
     \<and> (\<forall>u \<in> set undo. undo_fits u) \<and> undo \<noteq> []"
proof -
  have ms: "get_markets_by_state MarketTrading (ss_markets toss_state) = [toss_market]"
    by (simp add: get_markets_by_state_def toss_state_def get_market_def List.map_filter_simps)
  have ids: "mk_decision_ids toss_market = [example_id]" "mk_id toss_market = 9" by (simp_all add: toss_market_def)
  have votes: "ss_votes toss_state = voted_state" by (simp add: toss_state_def)
  let ?decs = "db_put db_empty example_id example_decision"
  obtain m1 where m1: "update_state 6 None None (Some [F_Num (1 / 2), F_Num (1 / 2)]) toss_market = Inr m1"
    "mk_final_prices m1 = [F_Num (1 / 2), F_Num (1 / 2)]" "mk_id m1 = 9" "mk_market_state m1 = MarketTrading"
    by (simp add: update_state_def Let_def toss_market_def)
  obtain r where r: "calculate_share_payouts m1 6 db_empty ?decs toss_state = Inr r" "pay_fee_payouts r = []" "pay_market r = 9"
    "pay_payouts r = [\<lparr> sp_market = 9, sp_address = 7, sp_outcome = 0, sp_shares = 3, sp_final_price = F_Num (1 / 2), sp_payout_sats = 1 \<rparr>]"
    using toss_calculated [OF m1(2,3)] by blast
  have "\<exists>d. try_fold (redeem 6) (pay_payouts r) (ss_markets toss_state) = Inr d \<and> md_markets d = md_markets (ss_markets toss_state)"
    by (simp add: r(4) redeem_def remove_shares_from_account_def remove_shares_def toss_state_def Let_def wrap_i64_def)
  then obtain s' where s': "apply_automatic_share_payouts example_payout_hash r 6 toss_state = Inr s'"
      "md_markets (ss_markets s') = md_markets (ss_markets toss_state)"
    by (auto simp: apply_payouts_eq consume_funds_def clear_market_funds_utxo_def split: option.split)
  obtain m2 where m2: "update_state 6 (Some MarketSettled) None None m1 = Inr m2" "mk_id m2 = 9" "mk_market_state m2 = MarketSettled"
    using m1(3,4) by (simp add: update_state_def Let_def)
  have "\<exists>d. update_market m2 (ss_markets s') = Inr d"
    using s'(2) m2(2,3) by (simp add: update_market_def validate_market_state_transition_def get_market_def toss_state_def toss_market_def Let_def)
  then show ?thesis
    unfolding transition_and_payout_resolved_markets_def ms
    using toss_gathered toss_prices m1(1) r s'(1) m2(1)
    by (auto simp: settle_market_def ids votes Let_def undo_fits_def simp del: gather_decisions.simps)
qed

theorem settlement_roundtrip_witness:
  "\<exists>s' undo. transition_and_payout_resolved_markets f_sum example_payout_hash resolved_decisions 6 toss_state = Inr (s', undo)
     \<and> undo \<noteq> [] \<and> settle_alike toss_state (revert_settlement example_payout_hash 6 undo s')"
proof -
  obtain s' undo where run: "transition_and_payout_resolved_markets f_sum example_payout_hash resolved_decisions 6 toss_state = Inr (s', undo)"
    and fits: "\<forall>u \<in> set undo. undo_fits u" "undo \<noteq> []" using toss_settles by blast
  have inv: "settle_inv toss_state"
    by (auto simp: settle_inv_def index_ok_def markets_ok_def holdings_i64_def holdings_def toss_state_def toss_funds_def markets_dbs_new_def
        index_exact_def rows_ok_def index_lists_def toss_market_def split: if_splits option.splits)
  have fresh: "\<forall>m a i. db_get (utxos toss_state) (generate_share_payout_outpoint example_payout_hash m a 6 i) = None"
    by (simp add: toss_state_def generate_share_payout_outpoint_def)
  from settlement_roundtrip [OF inv example_hash_separates fresh run fits(1)] run fits(2) show ?thesis by blast
qed
end
