(* ===== verification/Consolidation.thy ===== *)
theory Consolidation imports Payouts begin

text \<open>
  The consolidation of the funds of traded markets at the end of a block
  (\<open>consolidate_market_utxos\<close> of \<open>lib/state/block.rs\<close>) and its reversal (\<open>revert_consolidation\<close>).

  The record \<open>trade_env\<close> holds the blake3 hashes of the code: the points of sell payouts, of the change of
  buys and of unused sell inputs, and the addresses of treasury and fees; and the orders in which hash
  sets of markets, of accounts and of outcomes are iterated, of which only \<open>iterates_once\<close> is assumed.
\<close>

record trade_env =
  te_sell_payout :: "market_id \<Rightarrow> address \<Rightarrow> txid \<Rightarrow> hash"
  te_buy_change :: "market_id \<Rightarrow> address \<Rightarrow> txid \<Rightarrow> hash"
  te_sell_input_change :: "address \<Rightarrow> txid \<Rightarrow> hash"
  te_treasury_address :: "market_id \<Rightarrow> address"
  te_fee_address :: "market_id \<Rightarrow> address"
  te_hash_set :: "market_id list \<Rightarrow> market_id list"
  te_hash_accounts :: "(address \<times> market_id) list \<Rightarrow> (address \<times> market_id) list"
  te_hash_outcomes :: "nat list \<Rightarrow> nat list"

record pending_sell_payout =
  ps_market :: market_id
  ps_seller :: address
  ps_payout_sats :: nat
  ps_fee_sats :: nat
  ps_outcome :: nat
  ps_txid :: txid

record pending_buy_settlement =
  pb_market :: market_id
  pb_trader :: address
  pb_input_value_sats :: nat
  pb_lmsr_cost_sats :: nat
  pb_market_fee_sats :: nat
  pb_txid :: txid
  pb_is_amplify :: bool

record consolidation_undo_entry =
  cu_market :: market_id
  cu_old_treasury_utxos :: "(outpoint \<times> filled_output) list"
  cu_old_fee_utxos :: "(outpoint \<times> filled_output) list"
  cu_old_treasury_pointer :: "outpoint option"
  cu_old_fee_pointer :: "outpoint option"
  cu_new_treasury_utxo :: "outpoint option"
  cu_new_fee_utxo :: "outpoint option"
  cu_sell_payout_utxos :: "outpoint list"
  cu_buy_change_utxos :: "outpoint list"

section \<open>Consolidation\<close>

definition generate_sell_payout_outpoint :: "trade_env \<Rightarrow> market_id \<Rightarrow> address \<Rightarrow> txid \<Rightarrow> outpoint" where
  "generate_sell_payout_outpoint env mid a txid = Payout (te_sell_payout env mid a txid) 0"

definition generate_buy_change_outpoint :: "trade_env \<Rightarrow> market_id \<Rightarrow> address \<Rightarrow> txid \<Rightarrow> outpoint" where
  "generate_buy_change_outpoint env mid a txid = Payout (te_buy_change env mid a txid) 0"

definition generate_sell_input_change_outpoint :: "trade_env \<Rightarrow> address \<Rightarrow> txid \<Rightarrow> outpoint" where
  "generate_sell_input_change_outpoint env a txid = Payout (te_sell_input_change env a txid) 0"

definition old_funds :: "market_id \<Rightarrow> bool \<Rightarrow> settle_state \<Rightarrow> (outpoint \<times> filled_output) list" where
  "old_funds mid is_fee s = (case funds_utxo mid is_fee s of None \<Rightarrow> [] | Some e \<Rightarrow> [e])"

definition market_funds_output :: "trade_env \<Rightarrow> market_id \<Rightarrow> bool \<Rightarrow> nat \<Rightarrow> filled_output" where
  "market_funds_output env mid is_fee amount =
     \<lparr> fo_address = (if is_fee then te_fee_address env mid else te_treasury_address env mid),
       fo_content = FilledMarketFunds mid amount is_fee, fo_memo = [] \<rparr>"

definition take_funds :: "market_id \<Rightarrow> bool \<Rightarrow> (outpoint \<times> filled_output) list \<Rightarrow> settle_state \<Rightarrow> settle_state" where
  "take_funds mid is_fee olds s =
     (fold (\<lambda>e s. fst (delete_utxo (fst e) s)) olds s) \<lparr> ss_markets := clear_market_funds_utxo mid is_fee (ss_markets s) \<rparr>"

definition put_funds :: "trade_env \<Rightarrow> nat \<Rightarrow> market_id \<Rightarrow> bool \<Rightarrow> nat \<Rightarrow> settle_state \<Rightarrow> settle_state" where
  "put_funds env height mid is_fee amount s =
     (insert_utxo (MarketFundsPoint mid height is_fee) (market_funds_output env mid is_fee amount) s)
       \<lparr> ss_markets := set_market_funds_utxo mid is_fee (MarketFundsPoint mid height is_fee) (ss_markets s) \<rparr>"

definition sell_point :: "trade_env \<Rightarrow> pending_sell_payout \<Rightarrow> outpoint" where
  "sell_point env p = generate_sell_payout_outpoint env (ps_market p) (ps_seller p) (ps_txid p)"

definition pay_seller :: "trade_env \<Rightarrow> pending_sell_payout \<Rightarrow> settle_state \<Rightarrow> settle_state" where
  "pay_seller env p s = insert_utxo (sell_point env p) (bitcoin_output (ps_seller p) (ps_payout_sats p)) s"

definition change_point :: "trade_env \<Rightarrow> pending_buy_settlement \<Rightarrow> outpoint" where
  "change_point env b = generate_buy_change_outpoint env (pb_market b) (pb_trader b) (pb_txid b)"

definition buy_change :: "pending_buy_settlement \<Rightarrow> nat option" where
  "buy_change b = Option.bind (checked_sub (pb_input_value_sats b) TRADE_MINER_FEE_SATS) (\<lambda>v.
     Option.bind (checked_sub v (pb_lmsr_cost_sats b)) (\<lambda>v. checked_sub v (pb_market_fee_sats b)))"

definition settle_buy ::
    "trade_env \<Rightarrow> pending_buy_settlement \<Rightarrow> settle_state \<times> outpoint list \<Rightarrow> (error, settle_state \<times> outpoint list) result" where
  "settle_buy env b acc =
     rbind (ok_or (buy_change b) (InvalidTransaction ''Buy change underflow'')) (\<lambda>change.
     Inr (if 0 < change
          then (insert_utxo (change_point env b) (bitcoin_output (pb_trader b) change) (fst acc), snd acc @ [change_point env b])
          else acc))"

definition settle_treasury ::
    "trade_env \<Rightarrow> nat \<Rightarrow> market_id \<Rightarrow> (outpoint \<times> filled_output) list \<Rightarrow> nat \<Rightarrow> nat \<Rightarrow> nat \<Rightarrow> pending_sell_payout list
       \<Rightarrow> pending_buy_settlement list \<Rightarrow> settle_state \<Rightarrow> (error, outpoint list \<times> settle_state \<times> outpoint option \<times> outpoint list) result" where
  "settle_treasury env height mid olds treasury_total payouts fees sells buys s =
     rbind (try_fold (settle_buy env) buys (fold (pay_seller env) sells (take_funds mid False olds s), [])) (\<lambda>(s1, changes).
     rbind (ok_or (Option.bind (checked_sub treasury_total payouts) (\<lambda>v. checked_sub v fees))
              (InvalidTransaction ''Treasury remainder underflow'')) (\<lambda>remaining.
     Inr (map (sell_point env) sells,
          if 0 < remaining then (put_funds env height mid False remaining s1, Some (MarketFundsPoint mid height False), changes)
          else (s1, None, changes))))"

definition consolidate_market ::
    "trade_env \<Rightarrow> nat \<Rightarrow> pending_sell_payout list \<Rightarrow> pending_buy_settlement list \<Rightarrow> market_id
       \<Rightarrow> settle_state \<times> consolidation_undo_entry list \<Rightarrow> (error, settle_state \<times> consolidation_undo_entry list) result" where
  "consolidate_market env height pending_sells pending_buys mid acc =
     (let s = fst acc;
          old_t = old_funds mid False s;
          old_f = old_funds mid True s;
          buys = filter (\<lambda>b. pb_market b = mid) pending_buys;
          sells = filter (\<lambda>p. ps_market p = mid) pending_sells;
          treasury_total = wrapping_sum (map (\<lambda>e. filled_output_value (snd e)) old_t @ map pb_lmsr_cost_sats buys);
          payouts = wrapping_sum (map ps_payout_sats sells);
          fees = wrapping_sum (map ps_fee_sats sells);
          fee_total = wrapping_add 64 (wrapping_sum (map (\<lambda>e. filled_output_value (snd e)) old_f @ map pb_market_fee_sats buys)) fees
      in
      if treasury_total < wrapping_add 64 payouts fees then Inl (InvalidTransaction ''Treasury underflow'')
      else
        rbind (if (old_t \<noteq> [] \<or> sells \<noteq> [] \<or> buys \<noteq> []) \<and> (0 < treasury_total \<or> sells \<noteq> [])
               then settle_treasury env height mid old_t treasury_total payouts fees sells buys s
               else Inr ([], s, None, [])) (\<lambda>(sell_points, s1, new_t, changes).
        let fee_work = (old_f \<noteq> [] \<or> 0 < fees \<or> buys \<noteq> []) \<and> 0 < fee_total;
            s2 = (if fee_work then put_funds env height mid True fee_total (take_funds mid True old_f s1) else s1)
        in Inr (s2, snd acc @ [\<lparr> cu_market = mid, cu_old_treasury_utxos = old_t, cu_old_fee_utxos = old_f,
             cu_old_treasury_pointer = get_market_funds_utxo mid False (ss_markets s),
             cu_old_fee_pointer = get_market_funds_utxo mid True (ss_markets s),
             cu_new_treasury_utxo = new_t, cu_new_fee_utxo = (if fee_work then Some (MarketFundsPoint mid height True) else None),
             cu_sell_payout_utxos = sell_points, cu_buy_change_utxos = changes \<rparr>])))"

definition input_changes :: "trade_env \<Rightarrow> (address \<times> nat \<times> txid) list \<Rightarrow> (outpoint \<times> filled_output) list" where
  "input_changes env cs = map (\<lambda>(a, n, txid). (generate_sell_input_change_outpoint env a txid, bitcoin_output a n))
     (filter (\<lambda>(a, n, txid). 0 < n) cs)"

definition traded_markets :: "trade_env \<Rightarrow> pending_sell_payout list \<Rightarrow> pending_buy_settlement list \<Rightarrow> market_id list" where
  "traded_markets env sells buys = te_hash_set env (map ps_market sells @ map pb_market buys)"

definition consolidate_market_utxos ::
    "trade_env \<Rightarrow> nat \<Rightarrow> pending_sell_payout list \<Rightarrow> pending_buy_settlement list \<Rightarrow> (address \<times> nat \<times> txid) list \<Rightarrow> settle_state
       \<Rightarrow> (error, settle_state \<times> (consolidation_undo_entry list \<times> outpoint list) option) result" where
  "consolidate_market_utxos env height sells buys cs s =
     (if traded_markets env sells buys = [] \<and> cs = [] then Inr (s, None)
      else
        rbind (try_fold (consolidate_market env height sells buys) (traded_markets env sells buys) (s, [])) (\<lambda>(s1, entries).
        Inr (insert_all (input_changes env cs) s1, Some (entries, map fst (input_changes env cs)))))"

section \<open>Reversal\<close>

definition revert_delete_utxo :: "outpoint \<Rightarrow> settle_state \<Rightarrow> settle_state" where
  "revert_delete_utxo op s = fst (delete_utxo op s)"

definition restore_pointer :: "market_id \<Rightarrow> bool \<Rightarrow> outpoint option \<Rightarrow> settle_state \<Rightarrow> settle_state" where
  "restore_pointer mid is_fee p s =
     s \<lparr> ss_markets := (case p of Some op \<Rightarrow> set_market_funds_utxo mid is_fee op (ss_markets s)
                               | None \<Rightarrow> clear_market_funds_utxo mid is_fee (ss_markets s)) \<rparr>"

definition unconsolidate_market :: "consolidation_undo_entry \<Rightarrow> settle_state \<Rightarrow> settle_state" where
  "unconsolidate_market u s =
     (let s1 = fold revert_delete_utxo
                 (case cu_new_treasury_utxo u of Some op \<Rightarrow> [op] | None \<Rightarrow> []) s;
          s2 = fold revert_delete_utxo (case cu_new_fee_utxo u of Some op \<Rightarrow> [op] | None \<Rightarrow> []) s1;
          s3 = fold revert_delete_utxo (cu_buy_change_utxos u) (fold revert_delete_utxo (cu_sell_payout_utxos u) s2);
          s4 = insert_all (cu_old_fee_utxos u) (insert_all (cu_old_treasury_utxos u) s3)
      in restore_pointer (cu_market u) True (cu_old_fee_pointer u)
           (restore_pointer (cu_market u) False (cu_old_treasury_pointer u) s4))"

definition revert_consolidation :: "consolidation_undo_entry list \<times> outpoint list \<Rightarrow> settle_state \<Rightarrow> settle_state" where
  "revert_consolidation undo s = fold revert_delete_utxo (snd undo) (fold unconsolidate_market (rev (fst undo)) s)"

section \<open>Changes of the outputs\<close>

text \<open>
  \<open>changed X N K d s t\<close>: from \<open>s\<close> to \<open>t\<close> outputs are created at most at \<open>N\<close> and removed at most at \<open>X\<close> or \<open>N\<close>, only
  the fund pointers at \<open>K\<close> may differ, the address index stays exact, and the value of all unspent
  outputs changes by \<open>d\<close>.
\<close>

definition utxo_value :: "settle_state \<Rightarrow> nat" where
  "utxo_value s = db_sum filled_output_value (utxos s)"

definition changed :: "outpoint set \<Rightarrow> outpoint set \<Rightarrow> (market_id \<times> bool) set \<Rightarrow> int \<Rightarrow> settle_state \<Rightarrow> settle_state \<Rightarrow> bool" where
  "changed X N K d s t \<longleftrightarrow> (index_ok s \<longrightarrow> index_ok t)
     \<and> (\<forall>q. q \<notin> N \<longrightarrow> db_get (utxos t) q = db_get (utxos s) q \<or> q \<in> X \<and> db_get (utxos t) q = None)
     \<and> stxos t = stxos s \<and> ss_votes t = ss_votes s
     \<and> (\<exists>f. ss_markets t = (ss_markets s) \<lparr> market_funds_utxos := f \<rparr>
          \<and> (\<forall>k. k \<notin> K \<longrightarrow> db_get f k = db_get (market_funds_utxos (ss_markets s)) k))
     \<and> int (utxo_value t) = int (utxo_value s) + d"

lemma changed_refl: "changed {} {} {} 0 s s"
  unfolding changed_def by (auto intro!: exI [of _ "market_funds_utxos (ss_markets s)"])

lemma changed_trans:
  assumes "changed X N K d s t" and "changed Y M L e t u"
  shows "changed (X \<union> Y) (N \<union> M) (K \<union> L) (d + e) s u"
proof -
  obtain f g where f: "ss_markets t = (ss_markets s) \<lparr> market_funds_utxos := f \<rparr>"
      "\<forall>k. k \<notin> K \<longrightarrow> db_get f k = db_get (market_funds_utxos (ss_markets s)) k"
    and g: "ss_markets u = (ss_markets t) \<lparr> market_funds_utxos := g \<rparr>"
      "\<forall>k. k \<notin> L \<longrightarrow> db_get g k = db_get (market_funds_utxos (ss_markets t)) k"
    using assms unfolding changed_def by blast
  then have "ss_markets u = (ss_markets s) \<lparr> market_funds_utxos := g \<rparr>"
    "\<forall>k. k \<notin> K \<union> L \<longrightarrow> db_get g k = db_get (market_funds_utxos (ss_markets s)) k" by auto
  moreover have "db_get (utxos u) q = db_get (utxos s) q \<or> q \<in> X \<union> Y \<and> db_get (utxos u) q = None" if "q \<notin> N \<union> M" for q
  proof -
    have "db_get (utxos t) q = db_get (utxos s) q \<or> q \<in> X \<and> db_get (utxos t) q = None"
      "db_get (utxos u) q = db_get (utxos t) q \<or> q \<in> Y \<and> db_get (utxos u) q = None"
      using assms that unfolding changed_def by blast+
    then show ?thesis by auto
  qed
  ultimately show ?thesis using assms unfolding changed_def [of "X \<union> Y"] unfolding changed_def by auto
qed

lemma changed_mono: "changed X N K d s t \<Longrightarrow> X \<subseteq> Y \<Longrightarrow> N \<subseteq> M \<Longrightarrow> K \<subseteq> L \<Longrightarrow> d = e \<Longrightarrow> changed Y M L e s t"
  unfolding changed_def by blast

lemma db_sum_delete: "db_get d k = Some v \<Longrightarrow> db_sum f (db_delete d k) + f v = db_sum f d"
  using db_sum_put_fresh [of "db_delete d k" k f v] by (simp add: kv.put_delete_present)

lemma changed_insert:
  assumes "db_get (utxos s) op = None"
  shows "changed {} {op} {} (int (filled_output_value out)) s (insert_utxo op out s)"
  using assms index_ok_insert [of s op out] db_sum_put_fresh [OF assms, of filled_output_value out]
  unfolding changed_def utxo_value_def
  by (auto simp: insert_utxo_def intro!: exI [of _ "market_funds_utxos (ss_markets s)"])

lemma changed_delete:
  assumes "db_get (utxos s) op = Some out"
  shows "changed {op} {} {} (- int (filled_output_value out)) s (fst (delete_utxo op s))"
  using index_ok_delete [of s op] db_sum_delete [OF assms, of filled_output_value]
  unfolding changed_def utxo_value_def
  by (auto simp: delete_utxo_present [OF assms] intro!: exI [of _ "market_funds_utxos (ss_markets s)"])

lemma changed_pointer:
  "changed {} {} {(mid, b)} 0 s (s \<lparr> ss_markets := set_market_funds_utxo mid b op (ss_markets s) \<rparr>)"
  "changed {} {} {(mid, b)} 0 s (s \<lparr> ss_markets := clear_market_funds_utxo mid b (ss_markets s) \<rparr>)"
  unfolding changed_def utxo_value_def
  by (auto simp: set_market_funds_utxo_def clear_market_funds_utxo_def index_ok_def)

definition entries_value :: "(outpoint \<times> filled_output) list \<Rightarrow> nat" where
  "entries_value es = sum_list (map (\<lambda>e. filled_output_value (snd e)) es)"

lemma old_funds_cases:
  obtains "old_funds mid b s = []" | op out where "old_funds mid b s = [(op, out)]" "db_get (utxos s) op = Some out"
    "get_market_funds_utxo mid b (ss_markets s) = Some op"
  by (cases "funds_utxo mid b s") (auto simp: old_funds_def funds_utxo_def bind_eq_Some_conv)

lemma changed_take:
  assumes "olds = [] \<or> (\<exists>op out. olds = [(op, out)] \<and> db_get (utxos s) op = Some out)"
  shows "changed (fst ` set olds) {} {(mid, b)} (- int (entries_value olds)) s (take_funds mid b olds s)"
proof -
  have "changed (fst ` set olds) {} {} (- int (entries_value olds)) s (fold (\<lambda>e s. fst (delete_utxo (fst e) s)) olds s)"
    using assms changed_delete changed_refl by (auto simp: entries_value_def)
  from changed_trans [OF this changed_pointer(2) [of mid b]] show ?thesis
    using assms by (auto simp: take_funds_def)
qed

lemma changed_put:
  assumes "db_get (utxos s) (MarketFundsPoint mid height b) = None"
  shows "changed {} {MarketFundsPoint mid height b} {(mid, b)} (int n) s (put_funds env height mid b n s)"
proof -
  have "filled_output_value (market_funds_output env mid b n) = n"
    by (simp add: market_funds_output_def filled_output_value_def)
  then show ?thesis
    using changed_trans [OF changed_insert [OF assms, of "market_funds_output env mid b n"] changed_pointer(1) [of mid b]]
    by (simp add: put_funds_def)
qed

lemma bitcoin_output_value [simp]: "filled_output_value (bitcoin_output a n) = n"
  by (simp add: bitcoin_output_def filled_output_value_def)

definition absent :: "outpoint set \<Rightarrow> settle_state \<Rightarrow> bool" where
  "absent Q s \<longleftrightarrow> (\<forall>q \<in> Q. db_get (utxos s) q = None)"

lemma absent_changed: "changed X N K d s t \<Longrightarrow> absent Q s \<Longrightarrow> Q \<inter> N = {} \<Longrightarrow> absent Q t"
  unfolding changed_def absent_def by (metis IntI empty_iff)

lemma absent_take: "absent Q s \<Longrightarrow> absent Q (take_funds mid b olds s)"
proof -
  have "absent Q s \<Longrightarrow> absent Q (fold (\<lambda>e s. fst (delete_utxo (fst e) s)) olds s)" for s
    by (induction olds arbitrary: s) (auto simp: absent_def delete_utxo_get)
  then show "absent Q s \<Longrightarrow> absent Q (take_funds mid b olds s)" by (simp add: take_funds_def absent_def)
qed

lemma changed_insert_all:
  assumes "distinct (map fst es)" and "absent (fst ` set es) s"
  shows "changed {} (fst ` set es) {} (int (entries_value es)) s (insert_all es s)"
  using assms
proof (induction es arbitrary: s)
  case (Cons e es)
  have one: "changed {} {fst e} {} (int (filled_output_value (snd e))) s (insert_utxo (fst e) (snd e) s)"
    by (rule changed_insert) (use Cons.prems(2) in \<open>simp add: absent_def\<close>)
  have "absent (fst ` set es) (insert_utxo (fst e) (snd e) s)"
    using absent_changed [OF one, of "fst ` set es"] Cons.prems by (auto simp: absent_def)
  from changed_trans [OF one Cons.IH [OF _ this]] Cons.prems(1) show ?case by (simp add: entries_value_def)
qed (simp add: changed_refl entries_value_def)

definition sell_outputs :: "trade_env \<Rightarrow> pending_sell_payout list \<Rightarrow> (outpoint \<times> filled_output) list" where
  "sell_outputs env sells = map (\<lambda>p. (sell_point env p, bitcoin_output (ps_seller p) (ps_payout_sats p))) sells"

definition change_outputs :: "trade_env \<Rightarrow> pending_buy_settlement list \<Rightarrow> (outpoint \<times> filled_output) list" where
  "change_outputs env buys = map (\<lambda>b. (change_point env b, bitcoin_output (pb_trader b) (unwrap_or 0 (buy_change b))))
     (filter (\<lambda>b. 0 < unwrap_or 0 (buy_change b)) buys)"

lemma pay_sellers_eq: "fold (pay_seller env) sells s = insert_all (sell_outputs env sells) s"
  by (induction sells arbitrary: s) (simp_all add: pay_seller_def sell_outputs_def)

lemma buy_change_value:
  "buy_change b = Some n \<Longrightarrow> n + TRADE_MINER_FEE_SATS + pb_lmsr_cost_sats b + pb_market_fee_sats b = pb_input_value_sats b"
  by (auto simp: buy_change_def bind_eq_Some_conv)

lemma settle_buys_ok:
  assumes "try_fold (settle_buy env) buys acc = Inr acc'"
  shows "acc' = (insert_all (change_outputs env buys) (fst acc), snd acc @ map fst (change_outputs env buys))
    \<and> (\<Sum>b \<leftarrow> buys. pb_input_value_sats b) = entries_value (change_outputs env buys)
        + (\<Sum>b \<leftarrow> buys. pb_lmsr_cost_sats b + pb_market_fee_sats b + TRADE_MINER_FEE_SATS)"
  using assms
proof (induction buys arbitrary: acc)
  case (Cons b buys)
  then obtain n where n: "buy_change b = Some n" by (auto simp: settle_buy_def)
  obtain s cs where acc: "acc = (s, cs)" by (cases acc)
  let ?acc = "if 0 < n then (insert_utxo (change_point env b) (bitcoin_output (pb_trader b) n) s, cs @ [change_point env b]) else (s, cs)"
  have "settle_buy env b acc = Inr ?acc" by (simp add: settle_buy_def acc n)
  then have "try_fold (settle_buy env) buys ?acc = Inr acc'" using Cons.prems by simp
  from Cons.IH [OF this] show ?case
    using buy_change_value [OF n] n by (auto simp: acc change_outputs_def entries_value_def)
qed (simp add: change_outputs_def entries_value_def)

lemma sell_outputs_facts [simp]:
  "map fst (sell_outputs env sells) = map (sell_point env) sells" "entries_value (sell_outputs env sells) = sum_list (map ps_payout_sats sells)"
  by (simp_all add: sell_outputs_def entries_value_def o_def)

lemma change_outputs_points: "map fst (change_outputs env buys) = map (change_point env) (filter (\<lambda>b. 0 < unwrap_or 0 (buy_change b)) buys)"
  by (simp add: change_outputs_def o_def)

text \<open>What may be created for a market: the points are distinct and unused.\<close>

definition market_points :: "trade_env \<Rightarrow> pending_sell_payout list \<Rightarrow> pending_buy_settlement list \<Rightarrow> outpoint list" where
  "market_points env sells buys = map (sell_point env) sells @ map (change_point env) buys"

lemma points_payouts: "q \<in> set (market_points env sells buys) \<Longrightarrow> \<exists>h. q = Payout h 0"
  by (auto simp: market_points_def sell_point_def change_point_def generate_sell_payout_outpoint_def generate_buy_change_outpoint_def)

lemma settle_treasury_effect:
  assumes "settle_treasury env height mid olds treasury_total payouts fees sells buys s = Inr (sell_points, s', new_t, changes)"
    and "olds = [] \<or> (\<exists>op out. olds = [(op, out)] \<and> db_get (utxos s) op = Some out)"
    and "distinct (market_points env sells buys)"
    and "absent (insert (MarketFundsPoint mid height False) (set (market_points env sells buys))) s"
  shows "\<exists>n. sell_points = map (sell_point env) sells \<and> changes = map fst (change_outputs env buys)
    \<and> set_option new_t \<subseteq> {MarketFundsPoint mid height False} \<and> payouts + fees + n = treasury_total
    \<and> changed (fst ` set olds) (set sell_points \<union> set changes \<union> set_option new_t) {(mid, False)}
        (int n + int (sum_list (map ps_payout_sats sells)) + int (entries_value (change_outputs env buys)) - int (entries_value olds)) s s'
    \<and> (\<Sum>b \<leftarrow> buys. pb_input_value_sats b) = entries_value (change_outputs env buys)
        + (\<Sum>b \<leftarrow> buys. pb_lmsr_cost_sats b + pb_market_fee_sats b + TRADE_MINER_FEE_SATS)"
proof -
  let ?T = "MarketFundsPoint mid height False" and ?s1 = "take_funds mid False olds s"
  let ?s2 = "insert_all (sell_outputs env sells) ?s1" and ?s3 = "insert_all (change_outputs env buys) (insert_all (sell_outputs env sells) ?s1)"
  obtain s3 cs where buys: "try_fold (settle_buy env) buys (?s2, []) = Inr (s3, cs)"
    using assms(1) by (auto simp: settle_treasury_def pay_sellers_eq)
  note b = settle_buys_ok [OF buys]
  have s3: "s3 = ?s3" "cs = map fst (change_outputs env buys)" using b by auto
  obtain n where rem: "Option.bind (checked_sub treasury_total payouts) (\<lambda>v. checked_sub v fees) = Some n"
    and res: "(sell_points, s', new_t, changes) = (map (sell_point env) sells,
        if 0 < n then (put_funds env height mid False n ?s3, Some ?T, map fst (change_outputs env buys))
        else (?s3, None, map fst (change_outputs env buys)))"
    using assms(1) buys unfolding settle_treasury_def pay_sellers_eq s3
    by (cases "Option.bind (checked_sub treasury_total payouts) (\<lambda>v. checked_sub v fees)") simp_all
  have n: "payouts + fees + n = treasury_total" using rem by (auto simp: bind_eq_Some_conv)
  have abs1: "absent (insert ?T (set (market_points env sells buys))) ?s1" by (rule absent_take [OF assms(4)])
  have dis: "distinct (map (sell_point env) sells)" "distinct (map fst (change_outputs env buys))"
    "set (map fst (change_outputs env buys)) \<inter> set (map (sell_point env) sells) = {}"
    using assms(3) by (auto simp: market_points_def change_outputs_points distinct_map_filter)
  have "changed {} (fst ` set (sell_outputs env sells)) {} (int (entries_value (sell_outputs env sells))) ?s1 ?s2"
    by (rule changed_insert_all) (use dis abs1 in \<open>auto simp: absent_def market_points_def sell_outputs_def o_def\<close>)
  then have c2: "changed {} (set (map (sell_point env) sells)) {} (int (sum_list (map ps_payout_sats sells))) ?s1 ?s2"
    by (metis image_set sell_outputs_facts)
  have abs2: "absent (insert ?T (set (map fst (change_outputs env buys)))) ?s2"
  proof (rule absent_changed [OF c2])
    show "absent (insert ?T (set (map fst (change_outputs env buys)))) ?s1"
      using abs1 unfolding change_outputs_points by (auto simp: absent_def market_points_def)
    show "insert ?T (set (map fst (change_outputs env buys))) \<inter> set (map (sell_point env) sells) = {}"
      using dis(3) by (auto simp: sell_point_def generate_sell_payout_outpoint_def)
  qed
  have c3: "changed {} (set (map fst (change_outputs env buys))) {} (int (entries_value (change_outputs env buys))) ?s2 ?s3"
    using changed_insert_all [OF dis(2), of ?s2] abs2 by (simp add: absent_def)
  have "absent {?T} ?s3"
    by (rule absent_changed [OF c3])
      (use abs2 in \<open>auto simp: absent_def change_outputs_def change_point_def generate_buy_change_outpoint_def\<close>)
  then have c4: "changed {} {?T} {(mid, False)} (int n) ?s3 (put_funds env height mid False n ?s3)"
    by (intro changed_put) (simp add: absent_def)
  note c13 = changed_trans [OF changed_trans [OF changed_take [OF assms(2), of mid False] c2] c3]
  show ?thesis
  proof (cases "0 < n")
    case True
    then have eqs: "s' = put_funds env height mid False n ?s3" "sell_points = map (sell_point env) sells"
      "changes = map fst (change_outputs env buys)" "new_t = Some ?T" using res by auto
    have "changed (fst ` set olds) (set sell_points \<union> set changes \<union> set_option new_t) {(mid, False)}
        (int n + int (sum_list (map ps_payout_sats sells)) + int (entries_value (change_outputs env buys)) - int (entries_value olds)) s s'"
      unfolding eqs by (rule changed_mono [OF changed_trans [OF c13 c4]]) auto
    then show ?thesis using eqs n b by auto
  next
    case False
    then have eqs: "s' = ?s3" "sell_points = map (sell_point env) sells" "changes = map fst (change_outputs env buys)" "new_t = None" "n = 0"
      using res by auto
    have "changed (fst ` set olds) (set sell_points \<union> set changes \<union> set_option new_t) {(mid, False)}
        (int n + int (sum_list (map ps_payout_sats sells)) + int (entries_value (change_outputs env buys)) - int (entries_value olds)) s s'"
      unfolding eqs by (rule changed_mono [OF c13]) auto
    then show ?thesis using eqs n b by auto
  qed
qed

abbreviation buys_of :: "market_id \<Rightarrow> pending_buy_settlement list \<Rightarrow> pending_buy_settlement list" where
  "buys_of mid \<equiv> filter (\<lambda>b. pb_market b = mid)"

abbreviation sells_of :: "market_id \<Rightarrow> pending_sell_payout list \<Rightarrow> pending_sell_payout list" where
  "sells_of mid \<equiv> filter (\<lambda>p. ps_market p = mid)"

text \<open>The totals of a market fit 64 bits, and there is something in the treasury if there are buys.\<close>

definition totals_fit :: "pending_sell_payout list \<Rightarrow> pending_buy_settlement list \<Rightarrow> market_id \<Rightarrow> settle_state \<Rightarrow> bool" where
  "totals_fit sells buys mid s \<longleftrightarrow>
     entries_value (old_funds mid False s) + sum_list (map pb_lmsr_cost_sats (buys_of mid buys)) < 2 ^ 64
     \<and> entries_value (old_funds mid True s) + sum_list (map pb_market_fee_sats (buys_of mid buys))
         + sum_list (map ps_fee_sats (sells_of mid sells)) < 2 ^ 64
     \<and> sum_list (map ps_payout_sats (sells_of mid sells)) + sum_list (map ps_fee_sats (sells_of mid sells)) < 2 ^ 64
     \<and> (buys_of mid buys = [] \<or> sells_of mid sells \<noteq> []
         \<or> 0 < entries_value (old_funds mid False s) + sum_list (map pb_lmsr_cost_sats (buys_of mid buys)))"

definition entry_old :: "consolidation_undo_entry \<Rightarrow> outpoint set" where
  "entry_old u = fst ` set (cu_old_treasury_utxos u) \<union> fst ` set (cu_old_fee_utxos u)"

definition entry_new :: "consolidation_undo_entry \<Rightarrow> outpoint set" where
  "entry_new u = set_option (cu_new_treasury_utxo u) \<union> set_option (cu_new_fee_utxo u)
     \<union> set (cu_sell_payout_utxos u) \<union> set (cu_buy_change_utxos u)"

definition points_free :: "trade_env \<Rightarrow> nat \<Rightarrow> pending_sell_payout list \<Rightarrow> pending_buy_settlement list \<Rightarrow> market_id \<Rightarrow> settle_state \<Rightarrow> bool" where
  "points_free env height sells buys mid s \<longleftrightarrow> distinct (market_points env (sells_of mid sells) (buys_of mid buys))
     \<and> absent ({MarketFundsPoint mid height False, MarketFundsPoint mid height True}
         \<union> set (market_points env (sells_of mid sells) (buys_of mid buys))) s"

definition entry_of :: "market_id \<Rightarrow> settle_state \<Rightarrow> consolidation_undo_entry \<Rightarrow> bool" where
  "entry_of mid s u \<longleftrightarrow> cu_market u = mid \<and> cu_old_treasury_utxos u = old_funds mid False s \<and> cu_old_fee_utxos u = old_funds mid True s
     \<and> cu_old_treasury_pointer u = get_market_funds_utxo mid False (ss_markets s)
     \<and> cu_old_fee_pointer u = get_market_funds_utxo mid True (ss_markets s)"

lemma wrapping_sum_exact: "sum_list xs < 2 ^ 64 \<Longrightarrow> wrapping_sum xs = sum_list xs"
  using foldl_wrapping_add_exact [of 0 xs] by (simp add: wrapping_sum_def)

lemma old_funds_shape: "old_funds mid b s = [] \<or> (\<exists>op out. old_funds mid b s = [(op, out)] \<and> db_get (utxos s) op = Some out)"
  by (rule old_funds_cases [of mid b s]) auto

definition funds_apart :: "market_id \<Rightarrow> settle_state \<Rightarrow> bool" where
  "funds_apart mid s \<longleftrightarrow> (\<forall>op. get_market_funds_utxo mid False (ss_markets s) = Some op \<longrightarrow> get_market_funds_utxo mid True (ss_markets s) \<noteq> Some op)"

lemma treasury_part:
  fixes sells buys mid s
  defines "old \<equiv> old_funds mid False s" and "bs \<equiv> buys_of mid buys" and "ss \<equiv> sells_of mid sells"
  defines "tot \<equiv> wrapping_sum (map (\<lambda>e. filled_output_value (snd e)) old @ map pb_lmsr_cost_sats bs)"
    and "payouts \<equiv> wrapping_sum (map ps_payout_sats ss)" and "fees \<equiv> wrapping_sum (map ps_fee_sats ss)"
  assumes run: "(if (old \<noteq> [] \<or> ss \<noteq> [] \<or> bs \<noteq> []) \<and> (0 < tot \<or> ss \<noteq> [])
      then settle_treasury env height mid old tot payouts fees ss bs s else Inr ([], s, None, [])) = Inr (sp, s1, nt, ch)"
    and free: "points_free env height sells buys mid s"
  shows "\<exists>d. changed (fst ` set old) (set sp \<union> set ch \<union> set_option nt) {(mid, False)} d s s1
    \<and> set sp \<union> set ch \<subseteq> set (market_points env ss bs) \<and> set_option nt \<subseteq> {MarketFundsPoint mid height False}
    \<and> (totals_fit sells buys mid s \<longrightarrow> d + int (sum_list (map ps_fee_sats ss)) + int (sum_list (map pb_market_fee_sats bs))
          + int (length bs * TRADE_MINER_FEE_SATS) = int (sum_list (map pb_input_value_sats bs)))"
proof (cases "(old \<noteq> [] \<or> ss \<noteq> [] \<or> bs \<noteq> []) \<and> (0 < tot \<or> ss \<noteq> [])")
  case True
  then have run': "settle_treasury env height mid old tot payouts fees ss bs s = Inr (sp, s1, nt, ch)" using run by (simp only: if_True simp_thms)
  have "old = [] \<or> (\<exists>op out. old = [(op, out)] \<and> db_get (utxos s) op = Some out)" unfolding old_def by (rule old_funds_shape)
  moreover have "distinct (market_points env ss bs)" "absent (insert (MarketFundsPoint mid height False) (set (market_points env ss bs))) s"
    using free by (auto simp: points_free_def absent_def ss_def bs_def)
  ultimately obtain n where eff: "sp = map (sell_point env) ss" "ch = map fst (change_outputs env bs)"
      "set_option nt \<subseteq> {MarketFundsPoint mid height False}" "payouts + fees + n = tot"
    and chg: "changed (fst ` set old) (set sp \<union> set ch \<union> set_option nt) {(mid, False)}
        (int n + int (sum_list (map ps_payout_sats ss)) + int (entries_value (change_outputs env bs)) - int (entries_value old)) s s1"
    and inp: "sum_list (map pb_input_value_sats bs) = entries_value (change_outputs env bs)
        + (\<Sum>b \<leftarrow> bs. pb_lmsr_cost_sats b + pb_market_fee_sats b + TRADE_MINER_FEE_SATS)"
    using settle_treasury_effect [OF run'] by blast
  have parts: "(\<Sum>b \<leftarrow> bs. pb_lmsr_cost_sats b + pb_market_fee_sats b + TRADE_MINER_FEE_SATS) =
      sum_list (map pb_lmsr_cost_sats bs) + sum_list (map pb_market_fee_sats bs) + length bs * TRADE_MINER_FEE_SATS"
    by (simp add: sum_list_addf sum_list_triv)
  have "int n + int (sum_list (map ps_payout_sats ss)) + int (entries_value (change_outputs env bs)) - int (entries_value old)
      + int (sum_list (map ps_fee_sats ss)) + int (sum_list (map pb_market_fee_sats bs)) + int (length bs * TRADE_MINER_FEE_SATS)
      = int (sum_list (map pb_input_value_sats bs))" if "totals_fit sells buys mid s"
  proof -
    have "tot = entries_value old + sum_list (map pb_lmsr_cost_sats bs)" "payouts = sum_list (map ps_payout_sats ss)"
      "fees = sum_list (map ps_fee_sats ss)"
      using that unfolding totals_fit_def tot_def payouts_def fees_def old_def bs_def ss_def
      by (auto simp: wrapping_sum_exact entries_value_def)
    then show ?thesis using eff(4) inp unfolding parts by linarith
  qed
  moreover have "set sp \<union> set ch \<subseteq> set (market_points env ss bs)"
    unfolding eff(1,2) change_outputs_points by (auto simp: market_points_def)
  ultimately show ?thesis using chg eff(3) by blast
next
  case False
  then have eq: "sp = []" "s1 = s" "nt = None" "ch = []" using run by auto
  have "bs = [] \<and> ss = []" if "totals_fit sells buys mid s"
  proof -
    have "tot = entries_value old + sum_list (map pb_lmsr_cost_sats bs)"
      using that unfolding totals_fit_def tot_def old_def bs_def by (auto simp: wrapping_sum_exact entries_value_def)
    moreover have "bs = [] \<or> ss \<noteq> [] \<or> 0 < entries_value old + sum_list (map pb_lmsr_cost_sats bs)"
      using that unfolding totals_fit_def old_def bs_def ss_def by (elim conjE)
    ultimately have "bs = [] \<or> ss \<noteq> [] \<or> 0 < tot" by (simp only:)
    then show ?thesis using False by blast
  qed
  then show ?thesis using eq changed_mono [OF changed_refl [of s], of "fst ` set old" "{}" "{(mid, False)}" 0]
    by (intro exI [of _ 0]) auto
qed

lemma fee_part:
  fixes sells buys mid s
  defines "old \<equiv> old_funds mid True s" and "bs \<equiv> buys_of mid buys" and "ss \<equiv> sells_of mid sells"
  defines "fees \<equiv> wrapping_sum (map ps_fee_sats ss)"
  defines "tot \<equiv> wrapping_add 64 (wrapping_sum (map (\<lambda>e. filled_output_value (snd e)) old @ map pb_market_fee_sats bs)) fees"
  defines "work \<equiv> (old \<noteq> [] \<or> 0 < fees \<or> bs \<noteq> []) \<and> 0 < tot"
  assumes kept: "\<forall>e \<in> set old. db_get (utxos s1) (fst e) = db_get (utxos s) (fst e)"
    and fresh: "db_get (utxos s1) (MarketFundsPoint mid height True) = None"
  shows "\<exists>d. changed (fst ` set old) (if work then {MarketFundsPoint mid height True} else {}) {(mid, True)} d s1
      (if work then put_funds env height mid True tot (take_funds mid True old s1) else s1)
    \<and> (totals_fit sells buys mid s \<longrightarrow> d = int (sum_list (map ps_fee_sats ss)) + int (sum_list (map pb_market_fee_sats bs)))"
proof (cases work)
  case True
  have "old = [] \<or> (\<exists>op out. old = [(op, out)] \<and> db_get (utxos s1) op = Some out)"
    using old_funds_shape [of mid True s] kept unfolding old_def by auto
  note taken = changed_take [OF this, of mid True]
  have "absent {MarketFundsPoint mid height True} (take_funds mid True old s1)"
    by (rule absent_take) (simp add: absent_def fresh)
  then have "changed {} {MarketFundsPoint mid height True} {(mid, True)} (int tot) (take_funds mid True old s1)
      (put_funds env height mid True tot (take_funds mid True old s1))" by (intro changed_put) (simp add: absent_def)
  from changed_trans [OF taken this]
  have "changed (fst ` set old) (if work then {MarketFundsPoint mid height True} else {}) {(mid, True)} (int tot - int (entries_value old)) s1
      (if work then put_funds env height mid True tot (take_funds mid True old s1) else s1)" using True by simp
  moreover have "int tot - int (entries_value old) = int (sum_list (map ps_fee_sats ss)) + int (sum_list (map pb_market_fee_sats bs))"
    if "totals_fit sells buys mid s"
  proof -
    have "tot = entries_value old + sum_list (map pb_market_fee_sats bs) + sum_list (map ps_fee_sats ss)"
      using that unfolding totals_fit_def tot_def fees_def old_def bs_def ss_def by (auto simp: wrapping_sum_exact entries_value_def)
    then show ?thesis by linarith
  qed
  ultimately show ?thesis by blast
next
  case False
  define a b where "a = sum_list (map ps_fee_sats ss)" and "b = sum_list (map pb_market_fee_sats bs)"
  have "a + b = 0" if "totals_fit sells buys mid s"
  proof -
    have "tot = entries_value old + sum_list (map pb_market_fee_sats bs) + sum_list (map ps_fee_sats ss)" "fees = sum_list (map ps_fee_sats ss)"
      using that unfolding totals_fit_def tot_def fees_def old_def bs_def ss_def by (auto simp: wrapping_sum_exact entries_value_def)
    then have "tot = entries_value old + b + a" "fees = a" by (simp_all only: a_def b_def)
    moreover have "bs = [] \<Longrightarrow> b = 0" by (simp add: b_def)
    ultimately show ?thesis using False unfolding work_def by (cases "bs = []") auto
  qed
  then show ?thesis using False changed_mono [OF changed_refl [of s1], of "fst ` set old" "{}" "{(mid, True)}" 0]
    unfolding a_def [symmetric] b_def [symmetric] by (intro exI [of _ 0]) auto
qed

lemma old_funds_points: "fst ` set (old_funds mid b s) \<subseteq> set_option (get_market_funds_utxo mid b (ss_markets s))"
  "op \<in> fst ` set (old_funds mid b s) \<Longrightarrow> db_get (utxos s) op \<noteq> None"
  by (rule old_funds_cases [of mid b s]; simp)+

lemma guarded_bind:
  assumes "(if c then Inl e else rbind R (\<lambda>(a, b, x, y). Inr (f b, g a x y))) = Inr (p, q)"
  obtains a b x y where "R = Inr (a, b, x, y)" "p = f b" "q = g a x y"
  using assms by (cases R) (auto split: if_splits)

lemma consolidate_market_effect:
  assumes "consolidate_market env height sells buys mid (s, es) = Inr (s', es')"
    and "points_free env height sells buys mid s" and "funds_apart mid s"
  shows "\<exists>u d. es' = es @ [u] \<and> entry_of mid s u \<and> absent (entry_new u) s
    \<and> entry_new u \<subseteq> {MarketFundsPoint mid height False, MarketFundsPoint mid height True}
        \<union> set (market_points env (sells_of mid sells) (buys_of mid buys))
    \<and> changed (entry_old u) (entry_new u) {(mid, False), (mid, True)} d s s'
    \<and> (totals_fit sells buys mid s \<longrightarrow>
         d + int (length (buys_of mid buys) * TRADE_MINER_FEE_SATS) = int (sum_list (map pb_input_value_sats (buys_of mid buys))))"
proof -
  let ?bs = "buys_of mid buys" and ?ss = "sells_of mid sells" and ?F = "MarketFundsPoint mid height True"
  let ?oldt = "old_funds mid False s" and ?oldf = "old_funds mid True s"
  let ?fees = "wrapping_sum (map ps_fee_sats ?ss)" and ?payouts = "wrapping_sum (map ps_payout_sats ?ss)"
  let ?tot = "wrapping_sum (map (\<lambda>e. filled_output_value (snd e)) ?oldt @ map pb_lmsr_cost_sats ?bs)"
  let ?ftot = "wrapping_add 64 (wrapping_sum (map (\<lambda>e. filled_output_value (snd e)) ?oldf @ map pb_market_fee_sats ?bs)) ?fees"
  let ?work = "(?oldf \<noteq> [] \<or> 0 < ?fees \<or> ?bs \<noteq> []) \<and> 0 < ?ftot"
  let ?R = "if (?oldt \<noteq> [] \<or> ?ss \<noteq> [] \<or> ?bs \<noteq> []) \<and> (0 < ?tot \<or> ?ss \<noteq> [])
      then settle_treasury env height mid ?oldt ?tot ?payouts ?fees ?ss ?bs s else Inr ([], s, None, [])"
  let ?fee = "\<lambda>s1. if ?work then put_funds env height mid True ?ftot (take_funds mid True ?oldf s1) else s1"
  let ?u = "\<lambda>sp nt ch. \<lparr> cu_market = mid, cu_old_treasury_utxos = ?oldt, cu_old_fee_utxos = ?oldf,
      cu_old_treasury_pointer = get_market_funds_utxo mid False (ss_markets s),
      cu_old_fee_pointer = get_market_funds_utxo mid True (ss_markets s),
      cu_new_treasury_utxo = nt, cu_new_fee_utxo = (if ?work then Some ?F else None),
      cu_sell_payout_utxos = sp, cu_buy_change_utxos = ch \<rparr>"
  have eq: "consolidate_market env height sells buys mid (s, es) = (if ?tot < wrapping_add 64 ?payouts ?fees
      then Inl (InvalidTransaction ''Treasury underflow'') else rbind ?R (\<lambda>(sp, s1, nt, ch). Inr (?fee s1, es @ [?u sp nt ch])))"
    by (simp only: consolidate_market_def Let_def fst_conv snd_conv)
  obtain sp s1 nt ch where treasury: "?R = Inr (sp, s1, nt, ch)" and s': "s' = ?fee s1" and es': "es' = es @ [?u sp nt ch]"
    by (rule guarded_bind [OF assms(1) [unfolded eq]])
  obtain d1 where c1: "changed (fst ` set ?oldt) (set sp \<union> set ch \<union> set_option nt) {(mid, False)} d1 s s1"
    and sub: "set sp \<union> set ch \<subseteq> set (market_points env ?ss ?bs)" "set_option nt \<subseteq> {MarketFundsPoint mid height False}"
    and v1: "totals_fit sells buys mid s \<longrightarrow> d1 + int (sum_list (map ps_fee_sats ?ss)) + int (sum_list (map pb_market_fee_sats ?bs))
          + int (length ?bs * TRADE_MINER_FEE_SATS) = int (sum_list (map pb_input_value_sats ?bs))"
    using treasury_part [OF treasury assms(2)] by blast
  have abs: "absent ({MarketFundsPoint mid height False, ?F} \<union> set (market_points env ?ss ?bs)) s"
    using assms(2) by (simp add: points_free_def)
  have off: "op \<notin> fst ` set ?oldt \<union> set sp \<union> set ch \<union> set_option nt" if "op \<in> insert ?F (fst ` set ?oldf)" for op
  proof (cases "op = ?F")
    case True
    have "op \<notin> fst ` set ?oldt" using abs old_funds_points(2) [of op mid False s] True by (auto simp: absent_def)
    moreover have "op \<notin> set sp \<union> set ch" using sub(1) points_payouts True by fastforce
    ultimately show ?thesis using sub(2) True by auto
  next
    case False
    then have "op \<in> fst ` set ?oldf" using that by simp
    then have here: "db_get (utxos s) op \<noteq> None" "get_market_funds_utxo mid True (ss_markets s) = Some op"
      using old_funds_points(1) [of mid True s] old_funds_points(2) [of op mid True s] by auto
    have "op \<notin> fst ` set ?oldt" using here(2) old_funds_points(1) [of mid False s] assms(3) by (auto simp: funds_apart_def)
    moreover have "op \<notin> {MarketFundsPoint mid height False, ?F} \<union> set (market_points env ?ss ?bs)"
      using here(1) abs unfolding absent_def by metis
    then have "op \<notin> set sp \<union> set ch" "op \<notin> set_option nt" using subsetD [OF sub(1), of op] subsetD [OF sub(2), of op] by (simp_all, blast+)
    ultimately show ?thesis by simp
  qed
  have keep: "db_get (utxos s1) op = db_get (utxos s) op" if "op \<in> insert ?F (fst ` set ?oldf)" for op
    using c1 off [OF that] unfolding changed_def by blast
  obtain d2 where c2: "changed (fst ` set ?oldf) (if ?work then {?F} else {}) {(mid, True)} d2 s1 s'"
    and v2: "totals_fit sells buys mid s \<longrightarrow> d2 = int (sum_list (map ps_fee_sats ?ss)) + int (sum_list (map pb_market_fee_sats ?bs))"
    using fee_part [of mid s s1 height sells buys env] keep abs unfolding s' by (auto simp: absent_def)
  have "changed (entry_old (?u sp nt ch)) (entry_new (?u sp nt ch)) {(mid, False), (mid, True)} (d1 + d2) s s'"
    by (rule changed_mono [OF changed_trans [OF c1 c2]]) (auto simp: entry_old_def entry_new_def)
  moreover have "entry_new (?u sp nt ch) \<subseteq> {MarketFundsPoint mid height False, ?F} \<union> set (market_points env ?ss ?bs)"
    using sub by (auto simp: entry_new_def)
  moreover from this have "absent (entry_new (?u sp nt ch)) s" using abs by (auto simp: absent_def)
  moreover have "entry_of mid s (?u sp nt ch)" by (simp add: entry_of_def)
  ultimately show ?thesis using es' v1 v2 by (intro exI [of _ "?u sp nt ch"] exI [of _ "d1 + d2"]) auto
qed


section \<open>Undoing one market\<close>

text \<open>Agreement of two states outside a set of points.\<close>

definition agree :: "outpoint set \<Rightarrow> settle_state \<Rightarrow> settle_state \<Rightarrow> bool" where
  "agree C s t \<longleftrightarrow> index_ok t \<and> (\<forall>q. q \<notin> C \<longrightarrow> db_get (utxos t) q = db_get (utxos s) q)
     \<and> stxos t = stxos s \<and> ss_votes t = ss_votes s \<and> ss_markets t = ss_markets s"

lemma delete_fold:
  "index_ok t \<Longrightarrow> index_ok (fold revert_delete_utxo ops t)"
  "db_get (utxos (fold revert_delete_utxo ops t)) q = (if q \<in> set ops then None else db_get (utxos t) q)"
  "stxos (fold revert_delete_utxo ops t) = stxos t" "ss_votes (fold revert_delete_utxo ops t) = ss_votes t"
  "ss_markets (fold revert_delete_utxo ops t) = ss_markets t"
proof -
  have one: "db_get (utxos (revert_delete_utxo op t)) q = (if q = op then None else db_get (utxos t) q)"
    "stxos (revert_delete_utxo op t) = stxos t" "ss_votes (revert_delete_utxo op t) = ss_votes t"
    "ss_markets (revert_delete_utxo op t) = ss_markets t" for op t
    by (cases "db_get (utxos t) op"; simp add: revert_delete_utxo_def delete_utxo_absent delete_utxo_present)+
  show "index_ok t \<Longrightarrow> index_ok (fold revert_delete_utxo ops t)"
    by (induction ops arbitrary: t) (simp_all add: revert_delete_utxo_def index_ok_delete)
  show "db_get (utxos (fold revert_delete_utxo ops t)) q = (if q \<in> set ops then None else db_get (utxos t) q)"
    by (induction ops arbitrary: t) (auto simp: one)
  show "stxos (fold revert_delete_utxo ops t) = stxos t" "ss_votes (fold revert_delete_utxo ops t) = ss_votes t"
    "ss_markets (fold revert_delete_utxo ops t) = ss_markets t"
    by (induction ops arbitrary: t) (simp_all add: one)
qed

lemma restore_fold:
  assumes "\<forall>e \<in> set es. db_get (utxos s) (fst e) = Some (snd e)"
    and "\<forall>e \<in> set es. db_get (utxos t) (fst e) = None \<or> db_get (utxos t) (fst e) = Some (snd e)"
  shows "(index_ok t \<longrightarrow> index_ok (insert_all es t))
    \<and> (\<forall>q. db_get (utxos (insert_all es t)) q = (if q \<in> fst ` set es then db_get (utxos s) q else db_get (utxos t) q))"
  using assms
proof (induction es arbitrary: t)
  case (Cons e es)
  let ?t = "insert_utxo (fst e) (snd e) t"
  have here: "db_get (utxos ?t) q = (if q = fst e then Some (snd e) else db_get (utxos t) q)" for q
    by (simp add: insert_utxo_def)
  have rest: "\<forall>x \<in> set es. db_get (utxos s) (fst x) = Some (snd x)"
    "\<forall>x \<in> set es. db_get (utxos ?t) (fst x) = None \<or> db_get (utxos ?t) (fst x) = Some (snd x)"
    using Cons.prems by (auto simp: here split: if_splits)
  have "index_ok t \<longrightarrow> index_ok ?t" using Cons.prems(2) by (auto intro: index_ok_insert)
  then show ?case using Cons.IH [OF rest] here Cons.prems(1) by auto
qed simp

lemma restore_pointers_id:
  assumes "ss_markets t = (ss_markets s) \<lparr> market_funds_utxos := f \<rparr>"
    and "\<forall>k. k \<notin> {(mid, False), (mid, True)} \<longrightarrow> db_get f k = db_get (market_funds_utxos (ss_markets s)) k"
  shows "ss_markets (restore_pointer mid True (get_market_funds_utxo mid True (ss_markets s))
      (restore_pointer mid False (get_market_funds_utxo mid False (ss_markets s)) t)) = ss_markets s"
proof -
  let ?r = "\<lambda>b m. case get_market_funds_utxo mid b (ss_markets s) of Some op \<Rightarrow> set_market_funds_utxo mid b op m
    | None \<Rightarrow> clear_market_funds_utxo mid b m"
  have one: "\<exists>g. ?r b ((ss_markets s) \<lparr> market_funds_utxos := f \<rparr>) = (ss_markets s) \<lparr> market_funds_utxos := g \<rparr>
      \<and> (\<forall>k. db_get g k = (if k = (mid, b) then db_get (market_funds_utxos (ss_markets s)) k else db_get f k))" for b f
    by (cases "get_market_funds_utxo mid b (ss_markets s)")
      (auto simp: get_market_funds_utxo_def set_market_funds_utxo_def clear_market_funds_utxo_def)
  obtain g where g: "?r False (ss_markets t) = (ss_markets s) \<lparr> market_funds_utxos := g \<rparr>"
    "\<forall>k. db_get g k = (if k = (mid, False) then db_get (market_funds_utxos (ss_markets s)) k else db_get f k)"
    using one [of False f] unfolding assms(1) by blast
  obtain h where h: "?r True ((ss_markets s) \<lparr> market_funds_utxos := g \<rparr>) = (ss_markets s) \<lparr> market_funds_utxos := h \<rparr>"
    "\<forall>k. db_get h k = (if k = (mid, True) then db_get (market_funds_utxos (ss_markets s)) k else db_get g k)"
    using one [of True g] by blast
  have "h = market_funds_utxos (ss_markets s)" by (rule db_ext) (use h(2) g(2) assms(2) in auto)
  moreover have "ss_markets (restore_pointer mid b (get_market_funds_utxo mid b (ss_markets s)) x) = ?r b (ss_markets x)" for b and x :: settle_state
    by (simp add: restore_pointer_def)
  ultimately show ?thesis using h(1) by (simp only: g(1))  simp
qed

lemma restore_pointer_keeps [simp]:
  "utxos (restore_pointer mid b p s) = utxos s" "utxos_by_address (restore_pointer mid b p s) = utxos_by_address s"
  "stxos (restore_pointer mid b p s) = stxos s" "ss_votes (restore_pointer mid b p s) = ss_votes s"
  by (simp_all add: restore_pointer_def)

lemma old_funds_present: "e \<in> set (old_funds mid b s) \<Longrightarrow> db_get (utxos s) (fst e) = Some (snd e)"
  by (rule old_funds_cases [of mid b s]) auto

lemma unconsolidate_undoes:
  assumes "entry_of mid s u" and "changed (entry_old u) (entry_new u) {(mid, False), (mid, True)} d s t"
    and "absent (entry_new u) s" and "absent C s" and "agree C t t'"
  shows "agree C s (unconsolidate_market u t')"
proof -
  let ?olds = "old_funds mid False s @ old_funds mid True s"
  let ?news = "(case cu_new_treasury_utxo u of Some op \<Rightarrow> [op] | None \<Rightarrow> []) @ (case cu_new_fee_utxo u of Some op \<Rightarrow> [op] | None \<Rightarrow> [])
      @ cu_sell_payout_utxos u @ cu_buy_change_utxos u"
  let ?r = "fold revert_delete_utxo ?news t'"
  have news: "set ?news = entry_new u" by (auto simp: entry_new_def split: option.splits)
  have olds: "fst ` set ?olds = entry_old u" using assms(1) by (auto simp: entry_of_def entry_old_def)
  have un: "unconsolidate_market u t' = restore_pointer mid True (get_market_funds_utxo mid True (ss_markets s))
      (restore_pointer mid False (get_market_funds_utxo mid False (ss_markets s)) (insert_all ?olds ?r))"
    using assms(1) by (simp add: unconsolidate_market_def entry_of_def insert_all_def Let_def)
  have present: "\<forall>e \<in> set ?olds. db_get (utxos s) (fst e) = Some (snd e)" using old_funds_present by auto
  have outside: "fst e \<notin> C \<and> fst e \<notin> entry_new u" if "e \<in> set ?olds" for e
  proof -
    have "db_get (utxos s) (fst e) \<noteq> None" using present that by force
    then show ?thesis using assms(3,4) unfolding absent_def by metis
  qed
  have at_t: "db_get (utxos t) q = db_get (utxos s) q \<or> q \<in> entry_old u \<and> db_get (utxos t) q = None" if "q \<notin> entry_new u" for q
    using assms(2) that unfolding changed_def by blast
  have agr: "index_ok t'" "\<And>q. q \<notin> C \<Longrightarrow> db_get (utxos t') q = db_get (utxos t) q" "stxos t' = stxos t" "ss_votes t' = ss_votes t"
    "ss_markets t' = ss_markets t" using assms(5) by (auto simp: agree_def)
  have r: "db_get (utxos ?r) q = (if q \<in> entry_new u then None else db_get (utxos t') q)" for q
    by (simp only: delete_fold(2) news)
  have ready: "\<forall>e \<in> set ?olds. db_get (utxos ?r) (fst e) = None \<or> db_get (utxos ?r) (fst e) = Some (snd e)"
    using outside at_t present agr(2) unfolding r by metis
  note restored = conjunct1 [OF restore_fold [OF present ready]] conjunct2 [OF restore_fold [OF present ready], rule_format]
  have "db_get (utxos (insert_all ?olds ?r)) q = db_get (utxos s) q" if "q \<notin> C" for q
    using at_t [of q] agr(2) [OF that] assms(3) unfolding restored(2) olds r absent_def by auto
  moreover have "index_ok (insert_all ?olds ?r)" using restored(1) delete_fold(1) [OF agr(1)] by blast
  then have "index_ok (unconsolidate_market u t')" unfolding un by (simp add: index_ok_def)
  moreover have "stxos t = stxos s" "ss_votes t = ss_votes s" using assms(2) by (auto simp: changed_def)
  moreover obtain f where "ss_markets t = (ss_markets s) \<lparr> market_funds_utxos := f \<rparr>"
      "\<forall>k. k \<notin> {(mid, False), (mid, True)} \<longrightarrow> db_get f k = db_get (market_funds_utxos (ss_markets s)) k"
    using assms(2) unfolding changed_def by blast
  then have "ss_markets (unconsolidate_market u t') = ss_markets s"
    unfolding un by (intro restore_pointers_id [where f = f]) (simp_all add: delete_fold(5) agr(5))
  ultimately show ?thesis unfolding agree_def un by (simp add: delete_fold agr)
qed


section \<open>All markets of a block\<close>

text \<open>The points a market may create, and the funds of markets: a pointer names an output of that market.\<close>

definition points_of :: "trade_env \<Rightarrow> nat \<Rightarrow> pending_sell_payout list \<Rightarrow> pending_buy_settlement list \<Rightarrow> market_id \<Rightarrow> outpoint set" where
  "points_of env height sells buys mid = {MarketFundsPoint mid height False, MarketFundsPoint mid height True}
     \<union> set (market_points env (sells_of mid sells) (buys_of mid buys))"

definition funds_ok :: "market_id set \<Rightarrow> settle_state \<Rightarrow> bool" where
  "funds_ok M s \<longleftrightarrow> (\<forall>mid \<in> M. \<forall>b op. get_market_funds_utxo mid b (ss_markets s) = Some op \<longrightarrow>
     (\<exists>out n. db_get (utxos s) op = Some out \<and> fo_content out = FilledMarketFunds mid n b))"

lemma funds_okD:
  assumes "funds_ok M s" and "mid \<in> M" and "get_market_funds_utxo mid b (ss_markets s) = Some op"
  obtains out n where "db_get (utxos s) op = Some out" "fo_content out = FilledMarketFunds mid n b"
  using assms unfolding funds_ok_def by blast

lemma funds_ok_apart:
  assumes "funds_ok M s" and "mid \<in> M" shows "funds_apart mid s"
  unfolding funds_apart_def by (auto elim!: funds_okD [OF assms])

lemma points_of_disjoint:
  assumes "distinct (market_points env sells buys)" and "mid \<noteq> mid'"
  shows "points_of env height sells buys mid \<inter> points_of env height sells buys mid' = {}"
proof -
  have inj: "inj_on (sell_point env) (set sells)" "inj_on (change_point env) (set buys)"
    and apart: "sell_point env ` set sells \<inter> change_point env ` set buys = {}"
    using assms(1) by (auto simp: market_points_def distinct_map)
  have "sell_point env p \<noteq> sell_point env p'" if "p \<in> set (sells_of mid sells)" "p' \<in> set (sells_of mid' sells)" for p p'
    using inj_onD [OF inj(1), of p p'] that assms(2) by auto
  moreover have "change_point env b \<noteq> change_point env b'" if "b \<in> set (buys_of mid buys)" "b' \<in> set (buys_of mid' buys)" for b b'
    using inj_onD [OF inj(2), of b b'] that assms(2) by auto
  ultimately have "set (market_points env (sells_of mid sells) (buys_of mid buys))
      \<inter> set (market_points env (sells_of mid' sells) (buys_of mid' buys)) = {}"
    using apart by (auto simp: market_points_def)
  moreover have "MarketFundsPoint m h b \<notin> set (market_points env ss bs)" for m h b ss bs using points_payouts by blast
  ultimately show ?thesis using assms(2) by (auto simp: points_of_def)
qed

lemma points_free_of: "points_free env height sells buys mid s \<longleftrightarrow>
    distinct (market_points env (sells_of mid sells) (buys_of mid buys)) \<and> absent (points_of env height sells buys mid) s"
  by (simp add: points_free_def points_of_def)

lemma other_market_kept:
  assumes "changed (entry_old u) (entry_new u) {(mid, False), (mid, True)} d s s'" and "entry_of mid s u"
    and "absent (entry_new u) s" and "funds_ok (insert mid M) s" and "mid' \<in> M" "mid' \<noteq> mid"
  shows "get_market_funds_utxo mid' b (ss_markets s') = get_market_funds_utxo mid' b (ss_markets s)"
    and "get_market_funds_utxo mid' b (ss_markets s) = Some op \<Longrightarrow> db_get (utxos s') op = db_get (utxos s) op"
proof -
  obtain f where "ss_markets s' = (ss_markets s) \<lparr> market_funds_utxos := f \<rparr>"
      "\<forall>k. k \<notin> {(mid, False), (mid, True)} \<longrightarrow> db_get f k = db_get (market_funds_utxos (ss_markets s)) k"
    using assms(1) unfolding changed_def by blast
  then show "get_market_funds_utxo mid' b (ss_markets s') = get_market_funds_utxo mid' b (ss_markets s)"
    using assms(6) by (simp add: get_market_funds_utxo_def)
  assume ptr: "get_market_funds_utxo mid' b (ss_markets s) = Some op"
  then obtain out n where out: "db_get (utxos s) op = Some out" "fo_content out = FilledMarketFunds mid' n b"
    using funds_okD [OF assms(4), of mid'] assms(5) by blast
  have "op \<notin> entry_new u" using out(1) assms(3) by (auto simp: absent_def)
  moreover have "op \<notin> entry_old u"
  proof
    assume "op \<in> entry_old u"
    then obtain b' where "op \<in> fst ` set (old_funds mid b' s)" using assms(2) by (auto simp: entry_old_def entry_of_def)
    then have "get_market_funds_utxo mid b' (ss_markets s) = Some op" using old_funds_points(1) [of mid b' s] by auto
    from funds_okD [OF assms(4) _ this] show False using assms(6) out by force
  qed
  ultimately show "db_get (utxos s') op = db_get (utxos s) op" using assms(1) unfolding changed_def by blast
qed

lemma other_market_ready:
  assumes "changed (entry_old u) (entry_new u) {(mid, False), (mid, True)} d s s'" and "entry_of mid s u"
    and "absent (entry_new u) s" and "entry_new u \<subseteq> points_of env height sells buys mid"
    and "funds_ok (insert mid M) s" and "mid \<notin> M" and "distinct (market_points env sells buys)"
    and "\<forall>m \<in> M. points_free env height sells buys m s"
  shows "funds_ok M s'" and "\<forall>m \<in> M. points_free env height sells buys m s'"
    and "\<forall>m \<in> M. totals_fit sells buys m s \<longrightarrow> totals_fit sells buys m s'"
proof -
  have ne: "m \<noteq> mid" if "m \<in> M" for m using that assms(6) by blast
  note kept = other_market_kept [OF assms(1,2,3,5) _ ne]
  have "funds_ok M s" using assms(5) by (simp add: funds_ok_def)
  then show "funds_ok M s'" using kept unfolding funds_ok_def by metis
  show "\<forall>m \<in> M. points_free env height sells buys m s'"
    using assms(4,8) points_of_disjoint [OF assms(7) ne, of _ height]
      absent_changed [OF assms(1), of "points_of env height sells buys _"] unfolding points_free_of by blast
  have "old_funds m b s' = old_funds m b s" if "m \<in> M" for m b
    using kept(1) [OF that that, of b] kept(2) [OF that that, of b]
    by (cases "get_market_funds_utxo m b (ss_markets s)") (simp_all add: old_funds_def funds_utxo_def)
  then show "\<forall>m \<in> M. totals_fit sells buys m s \<longrightarrow> totals_fit sells buys m s'" by (simp add: totals_fit_def)
qed

text \<open>What the trades of markets bring in: the inputs of the buys less the fee of the miner.\<close>

definition bought :: "pending_buy_settlement list \<Rightarrow> market_id \<Rightarrow> int" where
  "bought buys mid = int (sum_list (map pb_input_value_sats (buys_of mid buys))) - int (length (buys_of mid buys) * TRADE_MINER_FEE_SATS)"

lemma consolidate_loop:
  assumes "try_fold (consolidate_market env height sells buys) mids (s, es) = Inr (s', es')" and "distinct mids"
    and "distinct (market_points env sells buys)" and "\<forall>m \<in> set mids. points_free env height sells buys m s"
    and "funds_ok (set mids) s" and "index_ok s"
    and "absent C s" and "\<forall>m \<in> set mids. C \<inter> points_of env height sells buys m = {}"
  shows "\<exists>us d. es' = es @ us \<and> index_ok s' \<and> absent C s' \<and> (\<forall>t. agree C s' t \<longrightarrow> agree C s (fold unconsolidate_market (rev us) t))
    \<and> int (utxo_value s') = int (utxo_value s) + d
    \<and> ((\<forall>m \<in> set mids. totals_fit sells buys m s) \<longrightarrow> d = sum_list (map (bought buys) mids))"
  using assms
proof (induction mids arbitrary: s es)
  case Nil
  then show ?case by (intro exI [of _ "[]"] exI [of _ 0]) simp
next
  case (Cons mid mids)
  obtain s1 es1 where one: "consolidate_market env height sells buys mid (s, es) = Inr (s1, es1)"
    and rest: "try_fold (consolidate_market env height sells buys) mids (s1, es1) = Inr (s', es')"
    using Cons.prems(1) by (auto simp: rbind_eq_Inr)
  have "points_free env height sells buys mid s" "funds_apart mid s"
    using Cons.prems(4) funds_ok_apart [OF Cons.prems(5), of mid] by simp_all
  from consolidate_market_effect [OF one this] obtain u d where eff: "es1 = es @ [u]" "entry_of mid s u" "absent (entry_new u) s"
      "entry_new u \<subseteq> points_of env height sells buys mid" "changed (entry_old u) (entry_new u) {(mid, False), (mid, True)} d s s1"
    and d: "totals_fit sells buys mid s \<longrightarrow> d = bought buys mid"
    unfolding points_of_def [symmetric] bought_def by fastforce
  have nxt: "funds_ok (insert mid (set mids)) s" "mid \<notin> set mids" "\<forall>m \<in> set mids. points_free env height sells buys m s"
    using Cons.prems(2,4,5) by simp_all
  note ready = other_market_ready [OF eff(5,2,3,4) nxt(1,2) Cons.prems(3) nxt(3)]
  have "index_ok s1" using eff(5) Cons.prems(6) by (simp add: changed_def)
  moreover have "absent C s1"
    by (rule absent_changed [OF eff(5) Cons.prems(7)]) (use Cons.prems(8) eff(4) in auto)
  ultimately obtain us e where ih: "es' = es1 @ us" "index_ok s'" "absent C s'"
      "\<forall>t. agree C s' t \<longrightarrow> agree C s1 (fold unconsolidate_market (rev us) t)"
      "int (utxo_value s') = int (utxo_value s1) + e"
      "(\<forall>m \<in> set mids. totals_fit sells buys m s1) \<longrightarrow> e = sum_list (map (bought buys) mids)"
    using Cons.IH [OF rest] Cons.prems(2,3,8) ready(1,2) by auto
  have "agree C s (fold unconsolidate_market (rev (u # us)) t)" if "agree C s' t" for t
    using unconsolidate_undoes [OF eff(2,5,3) Cons.prems(7)] ih(4) that by simp
  moreover have "int (utxo_value s1) = int (utxo_value s) + d" using eff(5) by (simp add: changed_def)
  ultimately show ?case
    using ih(1,2,3,5,6) eff(1) d ready(3) by (intro exI [of _ "u # us"] exI [of _ "d + e"]) auto
qed


definition iterates_once :: "trade_env \<Rightarrow> bool" where
  "iterates_once env \<longleftrightarrow> (\<forall>xs. distinct (te_hash_set env xs) \<and> set (te_hash_set env xs) = set xs)
     \<and> (\<forall>xs. distinct (te_hash_accounts env xs) \<and> set (te_hash_accounts env xs) = set xs)
     \<and> (\<forall>xs. distinct (te_hash_outcomes env xs) \<and> set (te_hash_outcomes env xs) = set xs)"

text \<open>The hashed points of the trades of a block are distinct and, like the new points of the funds, unused.\<close>

definition trade_points_free :: "trade_env \<Rightarrow> nat \<Rightarrow> pending_sell_payout list \<Rightarrow> pending_buy_settlement list
    \<Rightarrow> (address \<times> nat \<times> txid) list \<Rightarrow> settle_state \<Rightarrow> bool" where
  "trade_points_free env height sells buys cs s \<longleftrightarrow>
     distinct (market_points env sells buys @ map fst (input_changes env cs))
     \<and> absent (set (market_points env sells buys @ map fst (input_changes env cs))) s
     \<and> absent {op. \<exists>mid b. mid \<in> set (traded_markets env sells buys) \<and> op = MarketFundsPoint mid height b} s"

lemma trade_points_freeD:
  assumes "trade_points_free env height sells buys cs s"
  shows "distinct (market_points env sells buys)" and "distinct (map fst (input_changes env cs))"
    and "absent (fst ` set (input_changes env cs)) s"
    and "\<forall>m \<in> set (traded_markets env sells buys). points_free env height sells buys m s"
    and "\<forall>m \<in> set (traded_markets env sells buys). fst ` set (input_changes env cs) \<inter> points_of env height sells buys m = {}"
proof -
  let ?P = "market_points env sells buys" and ?C = "map fst (input_changes env cs)"
  have d: "distinct (?P @ ?C)" and free: "absent (set (?P @ ?C)) s"
    and funds: "absent {op. \<exists>mid b. mid \<in> set (traded_markets env sells buys) \<and> op = MarketFundsPoint mid height b} s"
    using assms unfolding trade_points_free_def by blast+
  show "distinct ?P" "distinct ?C" using d by simp_all
  show "absent (fst ` set (input_changes env cs)) s" using free by (simp add: absent_def)
  have sub: "set (market_points env (sells_of m sells) (buys_of m buys)) \<subseteq> set ?P" for m by (auto simp: market_points_def)
  have "distinct (market_points env (sells_of m sells) (buys_of m buys))" for m
    using d by (auto simp: market_points_def distinct_map_filter)
  moreover have "absent (points_of env height sells buys m) s" if "m \<in> set (traded_markets env sells buys)" for m
  proof -
    have "db_get (utxos s) (MarketFundsPoint m height b) = None" for b using funds that unfolding absent_def by blast
    moreover have "db_get (utxos s) q = None" if "q \<in> set ?P" for q using free that unfolding absent_def by simp
    ultimately show ?thesis using subsetD [OF sub [of m]] by (auto simp: absent_def points_of_def)
  qed
  ultimately show "\<forall>m \<in> set (traded_markets env sells buys). points_free env height sells buys m s"
    by (simp add: points_free_of)
  have "MarketFundsPoint m h b \<notin> fst ` set (input_changes env cs)" for m h b
    by (auto simp: input_changes_def generate_sell_input_change_outpoint_def)
  moreover have "fst ` set (input_changes env cs) \<inter> set (market_points env (sells_of m sells) (buys_of m buys)) = {}" for m
    using d subsetD [OF sub [of m]] by auto
  ultimately show "\<forall>m \<in> set (traded_markets env sells buys). fst ` set (input_changes env cs) \<inter> points_of env height sells buys m = {}"
    by (simp add: points_of_def Int_Un_distrib)
qed

lemma consolidation_effect:
  assumes "consolidate_market_utxos env height sells buys cs s = Inr (s', Some undo)" and "iterates_once env"
    and "trade_points_free env height sells buys cs s" and "funds_ok (set (traded_markets env sells buys)) s" and "index_ok s"
  shows "\<exists>s1 d. snd undo = map fst (input_changes env cs) \<and> s' = insert_all (input_changes env cs) s1
    \<and> changed {} (fst ` set (input_changes env cs)) {} (int (entries_value (input_changes env cs))) s1 s' \<and> index_ok s1
    \<and> (\<forall>t. agree (fst ` set (input_changes env cs)) s1 t \<longrightarrow>
          agree (fst ` set (input_changes env cs)) s (fold unconsolidate_market (rev (fst undo)) t))
    \<and> int (utxo_value s1) = int (utxo_value s) + d
    \<and> ((\<forall>m \<in> set (traded_markets env sells buys). totals_fit sells buys m s) \<longrightarrow> d = sum_list (map (bought buys) (traded_markets env sells buys)))"
proof -
  let ?mids = "traded_markets env sells buys" and ?C = "input_changes env cs"
  obtain s1 es where loop: "try_fold (consolidate_market env height sells buys) ?mids (s, []) = Inr (s1, es)"
    and res: "s' = insert_all ?C s1" "undo = (es, map fst ?C)"
    using assms(1) by (auto simp: consolidate_market_utxos_def split: if_splits)
  have "distinct ?mids" using assms(2) by (simp add: traded_markets_def iterates_once_def)
  note free = trade_points_freeD [OF assms(3)]
  obtain d where d: "index_ok s1" "absent (fst ` set ?C) s1" "\<forall>t. agree (fst ` set ?C) s1 t \<longrightarrow> agree (fst ` set ?C) s (fold unconsolidate_market (rev es) t)"
      "int (utxo_value s1) = int (utxo_value s) + d"
      "(\<forall>m \<in> set ?mids. totals_fit sells buys m s) \<longrightarrow> d = sum_list (map (bought buys) ?mids)"
    using consolidate_loop [OF loop \<open>distinct ?mids\<close> free(1,4) assms(4,5) free(3,5)] by auto
  show ?thesis
    using d res changed_insert_all [OF free(2) d(2)] by (intro exI [of _ s1] exI [of _ d]) simp
qed

lemma int_sum_list_map: "int (sum_list (map f xs)) = sum_list (map (\<lambda>x. int (f x)) xs)"
  by (induction xs) simp_all

lemma sum_list_by_key:
  assumes "distinct ks" and "g ` set xs \<subseteq> set ks"
  shows "sum_list (map (\<lambda>k. sum_list (map f (filter (\<lambda>x. g x = k) xs))) ks) = (sum_list (map f xs) :: 'a::comm_monoid_add)"
  using assms(2)
proof (induction xs)
  case (Cons x xs)
  have "sum_list (map (\<lambda>k. sum_list (map f (filter (\<lambda>x. g x = k) (x # xs)))) ks)
      = sum_list (map (\<lambda>k. (if g x = k then f x else 0) + sum_list (map f (filter (\<lambda>x. g x = k) xs))) ks)"
    by (intro arg_cong [where f = sum_list] map_cong) simp_all
  also have "\<dots> = sum_list (map (\<lambda>k. if g x = k then f x else 0) ks) + sum_list (map f xs)"
    using Cons by (simp add: sum_list_addf)
  also have "sum_list (map (\<lambda>k. if g x = k then f x else 0) ks) = f x"
    using Cons.prems assms(1) by (simp add: sum_list_distinct_conv_sum_set sum.delta')
  finally show ?case by simp
qed simp


text \<open>
  C11. Disconnecting a block takes the consolidation of its trades back exactly: from the recorded entries
  \<open>revert_consolidation\<close> restores the whole state, the unspent outputs with their address index and the
  fund pointers of every market. It needs that the hashed points are distinct and unused and that the
  fund pointers of the traded markets name funds of these markets.
\<close>

theorem consolidation_roundtrip:
  assumes "consolidate_market_utxos env height sells buys cs s = Inr (s', Some undo)" and "iterates_once env"
    and "trade_points_free env height sells buys cs s" and "funds_ok (set (traded_markets env sells buys)) s" and "index_ok s"
  shows "revert_consolidation undo s' = s"
proof -
  let ?C = "fst ` set (input_changes env cs)"
  obtain s1 where s1: "snd undo = map fst (input_changes env cs)" "index_ok s1"
      "changed {} ?C {} (int (entries_value (input_changes env cs))) s1 s'"
      "s' = insert_all (input_changes env cs) s1"
      "\<forall>t. agree ?C s1 t \<longrightarrow> agree ?C s (fold unconsolidate_market (rev (fst undo)) t)"
    using consolidation_effect [OF assms] by blast
  have "agree ?C s1 s'" using s1(2,3) unfolding agree_def by (auto simp: changed_def s1(4))
  then have undone: "agree ?C s (fold unconsolidate_market (rev (fst undo)) s')" using s1(5) by blast
  define r where "r = fold unconsolidate_market (rev (fst undo)) s'"
  note r = undone [folded r_def, unfolded agree_def]
  have eq: "revert_consolidation undo s' = fold revert_delete_utxo (snd undo) r" by (simp add: revert_consolidation_def r_def)
  have "index_ok (revert_consolidation undo s')" unfolding eq using r delete_fold(1) by blast
  moreover have "utxos (revert_consolidation undo s') = utxos s"
    by (rule db_ext) (use r trade_points_freeD(3) [OF assms(3)] s1(1) in \<open>auto simp: eq delete_fold(2) absent_def\<close>)
  moreover from calculation have "utxos_by_address (revert_consolidation undo s') = utxos_by_address s"
    using index_determined assms(5) by blast
  ultimately show ?thesis using r by (simp add: eq delete_fold(3-5))
qed

text \<open>
  C10. Consolidating the trades of a block neither creates nor destroys coins: the value of all unspent
  outputs grows by exactly what the buyers brought in less the miner fee of each buy, plus the unused
  inputs of the sellers. Treasuries, fees, payouts and change share out the rest; it holds when the totals
  of every traded market fit 64 bits and no market is bought into for nothing while its treasury is empty.
\<close>

theorem consolidation_conserves_value:
  assumes "consolidate_market_utxos env height sells buys cs s = Inr (s', Some undo)" and "iterates_once env"
    and "trade_points_free env height sells buys cs s" and "funds_ok (set (traded_markets env sells buys)) s" and "index_ok s"
    and "\<forall>m \<in> set (traded_markets env sells buys). totals_fit sells buys m s"
  shows "utxo_value s' + length buys * TRADE_MINER_FEE_SATS =
    utxo_value s + sum_list (map pb_input_value_sats buys) + sum_list (map (\<lambda>(a, n, txid). n) cs)"
proof -
  let ?mids = "traded_markets env sells buys"
  have d: "int (utxo_value s') = int (utxo_value s) + sum_list (map (bought buys) ?mids) + int (entries_value (input_changes env cs))"
    using consolidation_effect [OF assms(1-5)] assms(6) unfolding changed_def by auto
  have mids: "distinct ?mids" "pb_market ` set buys \<subseteq> set ?mids"
    using assms(2) by (auto simp: traded_markets_def iterates_once_def)
  have bought: "bought buys = (\<lambda>m. sum_list (map (\<lambda>b. int (pb_input_value_sats b) - int TRADE_MINER_FEE_SATS) (buys_of m buys)))"
    by (rule ext) (simp add: bought_def sum_list_subtractf sum_list_triv o_def int_sum_list_map)
  have "sum_list (map (bought buys) ?mids) = sum_list (map (\<lambda>b. int (pb_input_value_sats b) - int TRADE_MINER_FEE_SATS) buys)"
    unfolding bought by (rule sum_list_by_key [OF mids])
  also have "\<dots> = int (sum_list (map pb_input_value_sats buys)) - int (length buys * TRADE_MINER_FEE_SATS)"
    by (simp add: sum_list_subtractf sum_list_triv o_def int_sum_list_map)
  finally have "int (utxo_value s') + int (length buys * TRADE_MINER_FEE_SATS) = int (utxo_value s)
      + int (sum_list (map pb_input_value_sats buys)) + int (entries_value (input_changes env cs))" using d by linarith
  moreover have "entries_value (input_changes env cs) = sum_list (map (\<lambda>(a, n, txid). n) cs)"
    by (induction cs) (auto simp: entries_value_def input_changes_def)
  ultimately show ?thesis by linarith
qed


section \<open>An example\<close>

definition example_trade_env :: trade_env where
  "example_trade_env = \<lparr> te_sell_payout = (\<lambda>mid a txid. 4 * txid), te_buy_change = (\<lambda>mid a txid. 4 * txid + 1),
     te_sell_input_change = (\<lambda>a txid. 4 * txid + 2), te_treasury_address = (\<lambda>mid. 1), te_fee_address = (\<lambda>mid. 2),
     te_hash_set = remdups, te_hash_accounts = remdups, te_hash_outcomes = remdups \<rparr>"

definition example_sells :: "pending_sell_payout list" where
  "example_sells = [\<lparr> ps_market = 9, ps_seller = 6, ps_payout_sats = 100, ps_fee_sats = 2, ps_outcome = 0, ps_txid = 2 \<rparr>]"

definition example_buys :: "pending_buy_settlement list" where
  "example_buys = [\<lparr> pb_market = 9, pb_trader = 5, pb_input_value_sats = 2000, pb_lmsr_cost_sats = 300, pb_market_fee_sats = 20,
     pb_txid = 1, pb_is_amplify = False \<rparr>]"

lemma example_traded: "traded_markets example_trade_env example_sells example_buys = [9]"
  by (simp add: traded_markets_def example_trade_env_def example_sells_def example_buys_def)

lemma example_once: "iterates_once example_trade_env"
  by (simp add: iterates_once_def example_trade_env_def)

lemma example_free: "trade_points_free example_trade_env 6 example_sells example_buys [(6, 50, 2)] toss_state"
  by (auto simp: trade_points_free_def example_traded market_points_def example_sells_def example_buys_def input_changes_def absent_def
      sell_point_def change_point_def generate_sell_payout_outpoint_def generate_buy_change_outpoint_def
      generate_sell_input_change_outpoint_def example_trade_env_def toss_state_def)

lemma example_old: "old_funds 9 False toss_state = [(MarketFundsPoint 9 0 False, toss_funds)]" "old_funds 9 True toss_state = []"
  by (simp_all add: old_funds_def funds_utxo_def get_market_funds_utxo_def toss_state_def markets_dbs_new_def)

lemma example_funds: "funds_ok (set (traded_markets example_trade_env example_sells example_buys)) toss_state"
  by (auto simp: example_traded funds_ok_def get_market_funds_utxo_def toss_state_def markets_dbs_new_def toss_funds_def split: if_splits)

lemma example_index: "index_ok toss_state"
  by (auto simp: index_ok_def toss_state_def toss_funds_def split: if_splits)

lemma example_fits: "totals_fit example_sells example_buys 9 toss_state"
  by (simp add: totals_fit_def example_old example_sells_def example_buys_def entries_value_def toss_funds_def filled_output_value_def)

lemma example_consolidates:
  "\<exists>s' undo. consolidate_market_utxos example_trade_env 6 example_sells example_buys [(6, 50, 2)] toss_state = Inr (s', Some undo)"
proof -
  have "filled_output_value toss_funds = 1" by (simp add: toss_funds_def filled_output_value_def)
  then have "\<exists>r. consolidate_market example_trade_env 6 example_sells example_buys 9 (toss_state, []) = Inr r"
    by (simp add: consolidate_market_def example_old example_sells_def example_buys_def settle_treasury_def settle_buy_def buy_change_def
        TRADE_MINER_FEE_SATS_def wrapping_sum_def wrapping_add_def checked_sub_def Let_def)
  then show ?thesis by (auto simp: consolidate_market_utxos_def example_traded)
qed

theorem consolidation_roundtrip_witness:
  "\<exists>s' undo. consolidate_market_utxos example_trade_env 6 example_sells example_buys [(6, 50, 2)] toss_state = Inr (s', Some undo)
     \<and> revert_consolidation undo s' = toss_state"
  using example_consolidates consolidation_roundtrip [OF _ example_once example_free example_funds example_index] by blast

theorem consolidation_conserves_value_witness:
  "\<exists>s' undo. consolidate_market_utxos example_trade_env 6 example_sells example_buys [(6, 50, 2)] toss_state = Inr (s', Some undo)
     \<and> utxo_value s' = utxo_value toss_state + 1050"
proof -
  obtain s' undo where run: "consolidate_market_utxos example_trade_env 6 example_sells example_buys [(6, 50, 2)] toss_state = Inr (s', Some undo)"
    using example_consolidates by blast
  have "utxo_value s' + length example_buys * TRADE_MINER_FEE_SATS =
      utxo_value toss_state + sum_list (map pb_input_value_sats example_buys) + sum_list (map (\<lambda>(a, n, txid). n) [(6 :: address, 50, 2 :: txid)])"
    by (rule consolidation_conserves_value [OF run example_once example_free example_funds example_index])
      (simp add: example_traded example_fits)
  then show ?thesis using run by (auto simp: example_buys_def TRADE_MINER_FEE_SATS_def)
qed

end
