(* ===== verification/Lmsr.thy ===== *)
theory Lmsr
  imports MarketTypes
begin

text \<open>
  The logarithmic market scoring rule (\<open>lib/math/lmsr.rs\<close>) and the functions of \<open>lib/math/trading.rs\<close> that call
  it. The exponential and the logarithm of the \<open>libm\<close> crate are the record \<open>libm\<close>; what the results rely
  on is \<open>exp_nonneg\<close>: the exponential returns a double that is not negative.
\<close>

record libm =
  libm_exp :: "f64 \<Rightarrow> f64"
  libm_log :: "f64 \<Rightarrow> f64"

definition LMSR_PRECISION :: f64 where "LMSR_PRECISION = f_lit (1 / 10 ^ 8)"
definition MAX_BETA :: f64 where "MAX_BETA = f_lit (10 ^ 12)"
definition MIN_BETA :: f64 where "MIN_BETA = f_lit (1 / 10 ^ 6)"

datatype lmsr_error =
    InvalidBeta f64 f64 f64
  | ShareQuantityOverflow
  | InvalidCostCalculation
  | InsufficientTreasury nat nat
  | InvalidOutcomeCount nat nat nat
  | PrecisionLoss
  | DimensionMismatch nat nat
  | InvalidFeeRate f64 string

section \<open>The scoring rule\<close>

definition calculate_core_exp_ln :: "libm \<Rightarrow> f64 \<Rightarrow> f64 list \<Rightarrow> (lmsr_error, f64 \<times> f64 \<times> f64 list) result" where
  "calculate_core_exp_ln lib beta shares =
     (if f_le beta MIN_BETA \<or> f_le MAX_BETA beta then Inl (InvalidBeta beta MIN_BETA MAX_BETA)
      else if shares = [] then Inr (F_Zero False, F_Zero False, [])
      else
        let max_share = foldl f_max (F_Inf True) shares;
            exp_shares = map (\<lambda>x. libm_exp lib (f_div (f_sub x max_share) beta)) shares;
            sum_exp = foldl f_add (F_Zero False) exp_shares;
            cost = f_mul beta (f_add (libm_log lib sum_exp) (f_div max_share beta))
        in if \<not> list_all f_is_finite exp_shares then Inl ShareQuantityOverflow
           else if f_le sum_exp (F_Zero False) \<or> \<not> f_is_finite sum_exp then Inl InvalidCostCalculation
           else if \<not> f_is_finite cost then Inl InvalidCostCalculation
           else Inr (cost, sum_exp, exp_shares))"

definition cost_function :: "libm \<Rightarrow> f64 \<Rightarrow> f64 list \<Rightarrow> (lmsr_error, f64) result" where
  "cost_function lib beta shares = rbind (calculate_core_exp_ln lib beta shares) (\<lambda>(cost, _, _). Inr cost)"

definition sum_off_one :: "f64 list \<Rightarrow> bool" where
  "sum_off_one prices \<longleftrightarrow> f_lt LMSR_PRECISION (f_abs (f_sub (foldl f_add (F_Zero False) prices) (F_Num 1)))"

definition lmsr_prices :: "libm \<Rightarrow> f64 \<Rightarrow> f64 list \<Rightarrow> (lmsr_error, f64 list) result" where
  "lmsr_prices lib beta shares =
     rbind (calculate_core_exp_ln lib beta shares) (\<lambda>(_, sum_exp, exp_shares).
     if f_eq sum_exp (F_Zero False) then Inr []
     else let prices = map (\<lambda>x. f_div x sum_exp) exp_shares
          in if sum_off_one prices then Inl PrecisionLoss else Inr prices)"

definition validate_params :: "libm \<Rightarrow> nat \<Rightarrow> f64 \<Rightarrow> f64 list \<Rightarrow> (lmsr_error, f64 list) result" where
  "validate_params lib max_outcomes beta shares =
     (if f_le beta MIN_BETA \<or> f_le MAX_BETA beta then Inl (InvalidBeta beta MIN_BETA MAX_BETA)
      else if \<not> list_all (\<lambda>x. f_le (F_Zero False) x \<and> f_is_finite x) shares then Inl ShareQuantityOverflow
      else if length shares < MIN_OUTCOMES \<or> max_outcomes < length shares
           then Inl (InvalidOutcomeCount (length shares) MIN_OUTCOMES max_outcomes)
      else rbind (lmsr_prices lib beta shares) (\<lambda>prices.
        if sum_off_one prices then Inl PrecisionLoss else Inr prices))"

section \<open>The service and the functions on shares\<close>

definition lmsr_calculate_treasury :: "libm \<Rightarrow> f64 list \<Rightarrow> f64 \<Rightarrow> (lmsr_error, f64) result" where
  "lmsr_calculate_treasury lib shares beta = cost_function lib beta shares"

definition lmsr_validate_parameters :: "libm \<Rightarrow> f64 \<Rightarrow> f64 list \<Rightarrow> (lmsr_error, unit) result" where
  "lmsr_validate_parameters lib beta shares = rbind (validate_params lib (length shares) beta shares) (\<lambda>_. Inr ())"

definition lmsr_update_cost :: "libm \<Rightarrow> f64 list \<Rightarrow> f64 list \<Rightarrow> f64 \<Rightarrow> (lmsr_error, f64) result" where
  "lmsr_update_cost lib current new beta =
     (if length current \<noteq> length new then Inl (DimensionMismatch (length current) (length new))
      else rbind (cost_function lib beta current) (\<lambda>current_cost.
           rbind (cost_function lib beta new) (\<lambda>new_cost. Inr (f_sub new_cost current_cost))))"

definition shares_to_f64 :: "int list \<Rightarrow> f64 list" where
  "shares_to_f64 shares = map f_of_int shares"

definition calculate_prices :: "libm \<Rightarrow> int list \<Rightarrow> f64 \<Rightarrow> (lmsr_error, f64 list) result" where
  "calculate_prices lib shares beta = lmsr_prices lib beta (shares_to_f64 shares)"

definition calculate_update_cost :: "libm \<Rightarrow> int list \<Rightarrow> int list \<Rightarrow> f64 \<Rightarrow> (lmsr_error, f64) result" where
  "calculate_update_cost lib current new beta = lmsr_update_cost lib (shares_to_f64 current) (shares_to_f64 new) beta"

definition calculate_treasury :: "libm \<Rightarrow> int list \<Rightarrow> f64 \<Rightarrow> (lmsr_error, f64) result" where
  "calculate_treasury lib shares beta = lmsr_calculate_treasury lib (shares_to_f64 shares) beta"

definition validate_lmsr_parameters :: "libm \<Rightarrow> f64 \<Rightarrow> int list \<Rightarrow> (lmsr_error, unit) result" where
  "validate_lmsr_parameters lib beta shares = lmsr_validate_parameters lib beta (shares_to_f64 shares)"

definition DEFAULT_MARKET_BETA :: f64 where "DEFAULT_MARKET_BETA = F_Num 7"

definition calculate_lmsr_liquidity :: "libm \<Rightarrow> f64 \<Rightarrow> nat \<Rightarrow> f64" where
  "calculate_lmsr_liquidity lib beta n = (if n \<le> 1 then F_Zero False else f_mul beta (libm_log lib (f_of_nat n)))"

definition derive_beta_from_liquidity :: "libm \<Rightarrow> nat \<Rightarrow> nat \<Rightarrow> f64" where
  "derive_beta_from_liquidity lib liquidity_sats n =
     (if n \<le> 1 then DEFAULT_MARKET_BETA
      else let ln_outcomes = libm_log lib (f_of_nat n)
           in if f_le ln_outcomes (F_Zero False) then DEFAULT_MARKET_BETA
              else f_div (f_of_nat liquidity_sats) ln_outcomes)"

section \<open>Prices are probabilities\<close>

definition exp_nonneg :: "libm \<Rightarrow> bool" where
  "exp_nonneg lib \<longleftrightarrow> (\<forall>x. is_double (libm_exp lib x) \<and> (f_is_finite (libm_exp lib x) \<longrightarrow> 0 \<le> f_val (libm_exp lib x)))"

lemma core_ok:
  assumes "calculate_core_exp_ln lib beta shares = Inr (cost, sum_exp, es)" and "exp_nonneg lib" and "shares \<noteq> []"
  shows "length es = length shares" and "\<forall>e \<in> set es. nonneg_double e \<and> f_val e \<le> f_val sum_exp"
    and "nonneg_double sum_exp" and "0 < f_val sum_exp"
proof -
  define ms where "ms = foldl f_max (F_Inf True) shares"
  have eqs: "es = map (\<lambda>x. libm_exp lib (f_div (f_sub x ms) beta)) shares" "list_all f_is_finite es"
      "sum_exp = foldl f_add (F_Zero False) es" "\<not> f_le sum_exp (F_Zero False)" "f_is_finite sum_exp"
    using assms(1,3) unfolding calculate_core_exp_ln_def Let_def ms_def [symmetric] by (auto split: if_splits)
  show "length es = length shares" by (simp add: eqs(1))
  have nn: "\<forall>e \<in> set es. nonneg_double e"
  proof
    fix e assume e: "e \<in> set es"
    then obtain y where "e = libm_exp lib y" unfolding eqs(1) by auto
    moreover have "f_is_finite e" using e eqs(2) by (simp add: list_all_iff)
    ultimately show "nonneg_double e" using assms(2) by (simp add: exp_nonneg_def nonneg_double_def)
  qed
  have fin: "f_is_finite (foldl f_add (F_Zero False) es)" using eqs(3,5) by simp
  note b = f_sum_bounds [OF nn zero_nonneg_double fin]
  show "\<forall>e \<in> set es. nonneg_double e \<and> f_val e \<le> f_val sum_exp" "nonneg_double sum_exp" using b nn by (auto simp: eqs(3))
  then show "0 < f_val sum_exp" using eqs(4) by (cases sum_exp) (auto simp: nonneg_double_def f_le_def)
qed

text \<open>
  C12. The prices of a market are probabilities: when \<open>calculate_prices\<close> succeeds on the shares of a market
  with at least one outcome, there is one price per outcome, each is a double between 0 and 1, and their
  sum differs from 1 by at most the precision of the code.
\<close>

theorem prices_are_probabilities:
  assumes "calculate_prices lib shares beta = Inr prices" and "exp_nonneg lib" and "shares \<noteq> []"
  shows "length prices = length shares \<and> (\<forall>p \<in> set prices. nonneg_double p \<and> f_val p \<le> 1) \<and> \<not> sum_off_one prices"
proof -
  have ne: "shares_to_f64 shares \<noteq> []" using assms(3) by (simp add: shares_to_f64_def)
  obtain cost sum_exp es where core: "calculate_core_exp_ln lib beta (shares_to_f64 shares) = Inr (cost, sum_exp, es)"
    using assms(1) by (auto simp: calculate_prices_def lmsr_prices_def)
  note ok = core_ok [OF core assms(2) ne]
  have "\<not> f_eq sum_exp (F_Zero False)" using ok(3,4) by (cases sum_exp) (auto simp: nonneg_double_def)
  then have prices: "prices = map (\<lambda>x. f_div x sum_exp) es" "\<not> sum_off_one prices"
    using assms(1) core by (auto simp: calculate_prices_def lmsr_prices_def Let_def split: if_splits)
  have "\<forall>p \<in> set prices. nonneg_double p \<and> f_val p \<le> 1"
    using f_div_at_most_one [OF _ ok(3) _ ok(4)] ok(2) unfolding prices(1) by auto
  then show ?thesis using prices ok(1) by (simp add: shares_to_f64_def)
qed

definition example_libm :: libm where
  "example_libm = \<lparr> libm_exp = (\<lambda>x. if f_is_zero x then F_Num 1 else F_Num (1 / 2)), libm_log = (\<lambda>x. F_Num (1 / 2)) \<rparr>"

lemma example_exp_nonneg: "exp_nonneg example_libm"
proof -
  have "is_double (F_Num 1)" "is_double (F_Num (1 / 2))" by code_simp+
  then show ?thesis by (simp add: exp_nonneg_def example_libm_def)
qed

lemma f_le_nonneg: "nonneg_double a \<Longrightarrow> nonneg_double b \<Longrightarrow> f_le a b \<longleftrightarrow> f_val a \<le> f_val b"
  by (cases a; cases b) (auto simp: f_le_def nonneg_double_def)

lemma literal_small:
  assumes "0 \<le> q" and "q \<le> 1"
  shows "nonneg_double (f_lit q)" and "f_val (f_lit q) \<le> 1"
  using round_mag_below [OF assms(1) _ one_double, of False] assms by (simp_all add: f_lit_def)

lemma literal_MAX_BETA: "nonneg_double MAX_BETA" "f_val MAX_BETA = 10 ^ 12"
  using f_of_nat_exact [of "10 ^ 12"] by (simp_all add: MAX_BETA_def f_lit_def f_of_nat_def)

lemma example_prices: "calculate_prices example_libm [32, 32] (F_Num 64) = Inr [F_Num (1 / 2), F_Num (1 / 2)]"
proof -
  have sixty: "F_Num 64 = f_of_nat 64" by code_simp
  have beta: "\<not> f_le (F_Num 64) MIN_BETA" "\<not> f_le MAX_BETA (F_Num 64)"
    using literal_small [of "1 / 10 ^ 6"] literal_MAX_BETA f_of_nat_exact [of 64]
    by (simp_all add: f_le_nonneg MIN_BETA_def sixty)
  have "f_of_int 32 = F_Num 32" by code_simp
  moreover have "f_max (F_Inf True) (F_Num 32) = F_Num 32" "f_max (F_Num 32) (F_Num 32) = F_Num 32" by (simp_all add: f_max_def)
  moreover have "f_div (f_sub (F_Num 32) (F_Num 32)) (F_Num 64) = F_Zero False"
    by (simp add: f_sub_def f_div_def round_mag_eq)
  moreover have "f_add (F_Zero False) (F_Num 1) = F_Num 1" by code_simp
  moreover have "f_add (F_Num 1) (F_Num 1) = F_Num 2" by code_simp
  moreover have "f_div (F_Num 1) (F_Num 2) = F_Num (1 / 2)" by code_simp
  moreover have "f_add (F_Zero False) (F_Num (1 / 2)) = F_Num (1 / 2)" by code_simp
  moreover have "f_add (F_Num (1 / 2)) (F_Num (1 / 2)) = F_Num 1" by code_simp
  moreover have "f_div (F_Num 32) (F_Num 64) = F_Num (1 / 2)" by code_simp
  moreover have "f_mul (F_Num 64) (F_Num 1) = F_Num 64" by code_simp
  moreover have "\<not> f_lt LMSR_PRECISION (f_abs (f_sub (F_Num 1) (F_Num 1)))"
    using literal_small [of "1 / 10 ^ 8"]
    by (cases LMSR_PRECISION) (auto simp: f_abs_def f_sub_def nonneg_double_def LMSR_PRECISION_def)
  ultimately show ?thesis
    using beta by (simp add: calculate_prices_def lmsr_prices_def calculate_core_exp_ln_def shares_to_f64_def example_libm_def
        sum_off_one_def f_le_def Let_def del: f_add.simps)
qed

theorem prices_are_probabilities_witness:
  "calculate_prices example_libm [32, 32] (F_Num 64) = Inr [F_Num (1 / 2), F_Num (1 / 2)]
     \<and> \<not> sum_off_one [F_Num (1 / 2), F_Num (1 / 2)]"
  using prices_are_probabilities [OF example_prices example_exp_nonneg] example_prices by simp

end
