(* ===== verification/Trading.thy ===== *)
theory Trading
  imports Consolidation Lmsr
begin

text \<open>
  The trades of a block (\<open>StateUpdate\<close>, \<open>apply_trade\<close>, \<open>apply_amplify_beta\<close> and their reversal in
  \<open>lib/state/block.rs\<close>): trades are priced one after the other against the running shares and collected in
  a state update, which is validated and written at the end of the block.
\<close>

record market_state_update =
  mu_market :: market_id
  mu_share_delta :: "(nat \<times> int) option"
  mu_transaction_id :: "txid option"
  mu_volume_sats :: "nat option"
  mu_fee_sats :: "nat option"

record state_update =
  su_market_updates :: "market_state_update list"
  su_market_creations :: "market list"
  su_share_account_changes :: "(address \<times> market_id, (nat, int) db) db"
  su_vote_submissions :: "vote list"
  su_pending_sell_payouts :: "pending_sell_payout list"
  su_pending_buy_settlements :: "pending_buy_settlement list"
  su_pending_sell_input_changes :: "(address \<times> nat \<times> txid) list"

datatype trade_apply_result = Applied | Skipped string

definition state_update_new :: state_update where
  "state_update_new = \<lparr> su_market_updates = [], su_market_creations = [], su_share_account_changes = db_empty,
     su_vote_submissions = [], su_pending_sell_payouts = [], su_pending_buy_settlements = [], su_pending_sell_input_changes = [] \<rparr>"

section \<open>Validation of an update\<close>

fun no_duplicate_creation :: "market_id list \<Rightarrow> market list \<Rightarrow> (error, market_id list) result" where
  "no_duplicate_creation seen [] = Inr seen"
| "no_duplicate_creation seen (m # ms) =
     (if mk_id m \<in> set seen then Inl (InvalidTransaction ''Duplicate market creation'')
      else no_duplicate_creation (mk_id m # seen) ms)"

definition verify_internal_consistency :: "state_update \<Rightarrow> (error, unit) result" where
  "verify_internal_consistency su =
     rbind (no_duplicate_creation [] (su_market_creations su)) (\<lambda>created.
     ensure (list_all (\<lambda>u. mu_market u \<notin> set created) (su_market_updates su))
       (InvalidTransaction ''Market cannot be both created and updated in same block''))"

definition validate_market_shares :: "int list \<Rightarrow> (error, unit) result" where
  "validate_market_shares shares =
     (if \<exists>q \<in> set shares. q < 0 then Inl (InvalidTransaction ''Share quantity must be non-negative'')
      else if length shares < 2 then Inl (InvalidTransaction ''Market must have at least 2 outcomes'')
      else Inr ())"

definition validate_creation :: "markets_dbs \<Rightarrow> market \<Rightarrow> unit \<Rightarrow> (error, unit) result" where
  "validate_creation dbs m _ =
     (if get_market (mk_id m) dbs \<noteq> None then Inl (InvalidTransaction ''Market already exists'')
      else validate_market_shares (mk_shares m))"

definition validate_all_changes :: "state_update \<Rightarrow> markets_dbs \<Rightarrow> (error, unit) result" where
  "validate_all_changes su dbs =
     rbind (verify_internal_consistency su) (\<lambda>_.
     rbind (ensure (list_all (\<lambda>u. get_market (mu_market u) dbs \<noteq> None) (su_market_updates su))
              (InvalidTransaction ''Market does not exist'')) (\<lambda>_.
     try_fold (validate_creation dbs) (su_market_creations su) ()))"

section \<open>Collecting trades\<close>

definition add_market_update :: "market_state_update \<Rightarrow> state_update \<Rightarrow> state_update" where
  "add_market_update u su = su \<lparr> su_market_updates := su_market_updates su @ [u] \<rparr>"

definition add_share_account_change :: "address \<Rightarrow> market_id \<Rightarrow> nat \<Rightarrow> int \<Rightarrow> state_update \<Rightarrow> state_update" where
  "add_share_account_change a mid i delta su =
     (let outcomes = unwrap_or db_empty (db_get (su_share_account_changes su) (a, mid))
      in su \<lparr> su_share_account_changes := db_put (su_share_account_changes su) (a, mid)
                (db_put outcomes i (wrap_i64 (unwrap_or 0 (db_get outcomes i) + delta))) \<rparr>)"

definition add_pending_sell_payout :: "pending_sell_payout \<Rightarrow> state_update \<Rightarrow> state_update" where
  "add_pending_sell_payout p su = su \<lparr> su_pending_sell_payouts := su_pending_sell_payouts su @ [p] \<rparr>"

definition add_pending_buy_settlement :: "pending_buy_settlement \<Rightarrow> state_update \<Rightarrow> state_update" where
  "add_pending_buy_settlement b su = su \<lparr> su_pending_buy_settlements := su_pending_buy_settlements su @ [b] \<rparr>"

definition add_pending_sell_input_change :: "address \<Rightarrow> nat \<Rightarrow> txid \<Rightarrow> state_update \<Rightarrow> state_update" where
  "add_pending_sell_input_change a n txid su =
     su \<lparr> su_pending_sell_input_changes := su_pending_sell_input_changes su @ [(a, n, txid)] \<rparr>"

text \<open>\<open>xs[i] += d\<close>, which panics out of range and wraps.\<close>

definition add_at :: "nat \<times> int \<Rightarrow> int list \<Rightarrow> (error, int list) result" where
  "add_at e xs = (if fst e < length xs then Inr (xs[fst e := wrap_i64 (xs ! fst e + snd e)])
                  else Inl (Panic ''index out of bounds''))"

definition market_deltas :: "market_id \<Rightarrow> state_update \<Rightarrow> (nat \<times> int) list" where
  "market_deltas mid su = List.map_filter mu_share_delta (filter (\<lambda>u. mu_market u = mid) (su_market_updates su))"

definition market_beta :: "libm \<Rightarrow> market \<Rightarrow> f64" where
  "market_beta lib m = derive_beta_from_liquidity lib (mk_liquidity_base_sats m) (length (mk_shares m))"

definition pending_amplify :: "market_id \<Rightarrow> state_update \<Rightarrow> nat" where
  "pending_amplify mid su = wrapping_sum (map pb_lmsr_cost_sats
     (filter (\<lambda>b. pb_market b = mid \<and> pb_is_amplify b) (su_pending_buy_settlements su)))"

definition running_market_state :: "libm \<Rightarrow> market_id \<Rightarrow> market \<Rightarrow> state_update \<Rightarrow> (error, int list \<times> f64) result" where
  "running_market_state lib mid m su =
     rbind (try_fold add_at (market_deltas mid su) (mk_shares m)) (\<lambda>effective_shares.
     Inr (effective_shares, derive_beta_from_liquidity lib
            (saturating_add 64 (mk_liquidity_base_sats m) (pending_amplify mid su)) (length effective_shares)))"

definition pending_delta :: "address \<Rightarrow> market_id \<Rightarrow> nat \<Rightarrow> state_update \<Rightarrow> int" where
  "pending_delta a mid i su =
     unwrap_or 0 (Option.bind (db_get (su_share_account_changes su) (a, mid)) (\<lambda>outcomes. db_get outcomes i))"

definition owned_shares :: "address \<Rightarrow> market_id \<Rightarrow> nat \<Rightarrow> markets_dbs \<Rightarrow> int" where
  "owned_shares a mid i dbs =
     unwrap_or 0 (Option.bind (get_user_share_account a dbs) (\<lambda>acc. db_get (positions acc) (mid, i)))"

text \<open>The two sides of a trade return what the market update needs, or the reason why the trade is skipped.\<close>

definition buy_side ::
    "libm \<Rightarrow> market \<Rightarrow> txid \<Rightarrow> market_id \<Rightarrow> address \<Rightarrow> nat \<Rightarrow> nat \<Rightarrow> int list \<Rightarrow> int list \<Rightarrow> f64 \<Rightarrow> state_update
       \<Rightarrow> (error, string + nat \<times> nat \<times> state_update) result" where
  "buy_side lib m txid mid trader limit_sats input_value effective new beta su =
     rbind (map_err (\<lambda>_. InvalidTransaction ''Failed to calculate trade cost'') (calculate_update_cost lib effective new beta)) (\<lambda>base_cost.
     rbind (map_err (\<lambda>_. InvalidTransaction ''Buy cost calculation failed'') (calculate_buy_cost base_cost (mk_trading_fee m))) (\<lambda>cost.
     if limit_sats < wrapping_add 64 (total_cost_sats cost) TRADE_MINER_FEE_SATS
     then Inr (Inl ''Buy cost exceeds max cost'')
     else Inr (Inr (total_cost_sats cost, bc_trading_fee_sats cost,
            add_pending_buy_settlement \<lparr> pb_market = mid, pb_trader = trader, pb_input_value_sats = input_value,
              pb_lmsr_cost_sats = base_cost_sats cost, pb_market_fee_sats = bc_trading_fee_sats cost, pb_txid = txid,
              pb_is_amplify = False \<rparr> su))))"

definition sell_side ::
    "libm \<Rightarrow> market \<Rightarrow> txid \<Rightarrow> market_id \<Rightarrow> nat \<Rightarrow> int \<Rightarrow> address \<Rightarrow> nat \<Rightarrow> nat \<Rightarrow> int list \<Rightarrow> int list \<Rightarrow> f64 \<Rightarrow> markets_dbs \<Rightarrow> state_update
       \<Rightarrow> (error, string + nat \<times> nat \<times> state_update) result" where
  "sell_side lib m txid mid i shares trader limit_sats input_value effective new beta dbs su =
     (if wrap_i64 (owned_shares trader mid i dbs + pending_delta trader mid i su) < wrap_i64 \<bar>shares\<bar>
      then Inl (InvalidTransaction ''Insufficient shares'')
      else
        rbind (map_err (\<lambda>_. InvalidTransaction ''Failed to calculate sell proceeds'') (calculate_update_cost lib new effective beta)) (\<lambda>proceeds.
        rbind (map_err (\<lambda>_. InvalidTransaction ''Sell proceeds calculation failed'') (calculate_sell_proceeds proceeds (mk_trading_fee m))) (\<lambda>sp.
        if net_proceeds_sats sp < limit_sats then Inr (Inl ''Sell proceeds below minimum'')
        else
          let su1 = add_pending_sell_payout \<lparr> ps_market = mid, ps_seller = trader, ps_payout_sats = net_proceeds_sats sp,
                ps_fee_sats = sp_trading_fee_sats sp, ps_outcome = i, ps_txid = txid \<rparr> su;
              change = saturating_sub input_value TRADE_MINER_FEE_SATS;
              su2 = (if 0 < change then add_pending_sell_input_change trader change txid su1 else su1)
          in Inr (Inr (net_proceeds_sats sp, sp_trading_fee_sats sp, su2)))))"

definition apply_trade ::
    "libm \<Rightarrow> (transaction \<Rightarrow> txid) \<Rightarrow> markets_dbs \<Rightarrow> filled_transaction \<Rightarrow> state_update \<Rightarrow> (error, trade_apply_result \<times> state_update) result" where
  "apply_trade lib txid_of dbs ftx su =
     (case t_data (ft_transaction ftx) of
        Some (Trade mid i shares trader limit_sats) \<Rightarrow>
          let txid = txid_of (ft_transaction ftx) in
          rbind (ok_or (get_market mid dbs) (InvalidTransaction ''Market does not exist'')) (\<lambda>m.
          if \<not> allows_trading (mk_market_state m) then Inl (InvalidTransaction ''Cannot trade'')
          else
            rbind (running_market_state lib mid m su) (\<lambda>(effective, beta).
            rbind (add_at (i, shares) effective) (\<lambda>new.
            if new ! i < 0 then Inl (InvalidTransaction ''Trade would result in negative market shares'')
            else
              rbind (map_err (\<lambda>_. InvalidTransaction ''Failed to compute input value'') (spent_bitcoin_value ftx)) (\<lambda>input_value.
              rbind (if 0 < shares then buy_side lib m txid mid trader limit_sats input_value effective new beta su
                     else sell_side lib m txid mid i shares trader limit_sats input_value effective new beta dbs su) (\<lambda>side.
              case side of
                Inl reason \<Rightarrow> Inr (Skipped reason, su)
              | Inr (volume, fee, su1) \<Rightarrow>
                  Inr (Applied, add_share_account_change trader mid i shares
                    (add_market_update \<lparr> mu_market = mid, mu_share_delta = Some (i, shares), mu_transaction_id = Some txid,
                       mu_volume_sats = Some volume, mu_fee_sats = Some fee \<rparr> su1)))))))
      | _ \<Rightarrow> Inl (InvalidTransaction ''Not a trade transaction''))"

definition apply_amplify_beta :: "(transaction \<Rightarrow> txid) \<Rightarrow> filled_transaction \<Rightarrow> state_update \<Rightarrow> (error, state_update) result" where
  "apply_amplify_beta txid_of ftx su =
     (case t_data (ft_transaction ftx) of
        Some (AmplifyBeta mid amount author) \<Rightarrow>
          rbind (map_err (\<lambda>_. InvalidTransaction ''Failed to compute input value'') (spent_bitcoin_value ftx)) (\<lambda>input_value.
          Inr (add_pending_buy_settlement \<lparr> pb_market = mid, pb_trader = author, pb_input_value_sats = input_value,
                 pb_lmsr_cost_sats = amount, pb_market_fee_sats = 0, pb_txid = txid_of (ft_transaction ftx), pb_is_amplify = True \<rparr> su))
      | _ \<Rightarrow> Inl (InvalidTransaction ''Not an amplify_beta transaction''))"

section \<open>Writing an update\<close>

definition market_volumes :: "market_id \<Rightarrow> state_update \<Rightarrow> (nat \<times> int \<times> nat option) list" where
  "market_volumes mid su = List.map_filter (\<lambda>u. map_option (\<lambda>(i, d). (i, d, mu_volume_sats u)) (mu_share_delta u))
     (filter (\<lambda>u. mu_market u = mid) (su_market_updates su))"

definition apply_delta :: "nat \<times> int \<times> nat option \<Rightarrow> int list \<times> market \<Rightarrow> (error, int list \<times> market) result" where
  "apply_delta e acc =
     (case e of (i, d, volume) \<Rightarrow>
        rbind (add_at (i, d) (fst acc)) (\<lambda>shares.
        rbind (case volume of None \<Rightarrow> Inr (snd acc)
               | Some vol \<Rightarrow> map_err (\<lambda>_. InvalidTransaction ''Failed to update volume'') (update_trading_volume i vol (snd acc))) (\<lambda>m.
        Inr (shares, m))))"

definition apply_market_deltas :: "nat \<Rightarrow> state_update \<Rightarrow> market_id \<Rightarrow> markets_dbs \<Rightarrow> (error, markets_dbs) result" where
  "apply_market_deltas height su mid dbs =
     rbind (ok_or (get_market mid dbs) (InvalidTransaction ''Market not found'')) (\<lambda>m.
     rbind (try_fold apply_delta (market_volumes mid su) (mk_shares m, m)) (\<lambda>(new_shares, m1).
     rbind (map_err (\<lambda>_. InvalidTransaction ''Failed to update market state'') (update_state height None (Some new_shares) None m1)) (\<lambda>m2.
     rbind (update_market m2 dbs) (\<lambda>dbs1. Inr (clear_mempool_shares mid dbs1)))))"

definition updated_markets :: "trade_env \<Rightarrow> state_update \<Rightarrow> market_id list" where
  "updated_markets env su = te_hash_set env (map mu_market (filter (\<lambda>u. mu_share_delta u \<noteq> None) (su_market_updates su)))"

definition amplify_market :: "state_update \<Rightarrow> market_id \<Rightarrow> markets_dbs \<Rightarrow> (error, markets_dbs) result" where
  "amplify_market su mid dbs =
     rbind (ok_or (get_market mid dbs) (InvalidTransaction ''Market not found'')) (\<lambda>m.
     rbind (ok_or (checked_add 64 (mk_liquidity_base_sats m) (pending_amplify mid su))
              (InvalidTransaction ''Liquidity base overflow'')) (\<lambda>base.
     update_market (m \<lparr> mk_liquidity_base_sats := base \<rparr>) dbs))"

definition amplified_markets :: "trade_env \<Rightarrow> state_update \<Rightarrow> market_id list" where
  "amplified_markets env su = te_hash_set env (map pb_market (filter pb_is_amplify (su_pending_buy_settlements su)))"

definition change_account :: "nat \<Rightarrow> address \<times> market_id \<times> nat \<times> int \<Rightarrow> markets_dbs \<Rightarrow> (error, markets_dbs) result" where
  "change_account height e dbs =
     (case e of (a, mid, i, delta) \<Rightarrow>
        if delta = 0 then Inr dbs
        else if 0 < delta then Inr (add_shares_to_account a mid i delta height dbs)
        else remove_shares_from_account a mid i (wrap_i64 (- delta)) height dbs)"

definition account_changes :: "trade_env \<Rightarrow> (address \<times> market_id, (nat, int) db) db \<Rightarrow> (address \<times> market_id \<times> nat \<times> int) list" where
  "account_changes env changes =
     concat (map (\<lambda>(a, mid).
       let outcomes = unwrap_or db_empty (db_get changes (a, mid))
       in map (\<lambda>i. (a, mid, i, unwrap_or 0 (db_get outcomes i))) (te_hash_outcomes env (db_keys outcomes)))
     (te_hash_accounts env (db_keys changes)))"

definition apply_market_changes :: "trade_env \<Rightarrow> nat \<Rightarrow> state_update \<Rightarrow> markets_dbs \<Rightarrow> (error, markets_dbs) result" where
  "apply_market_changes env height su dbs =
     rbind (try_fold (apply_market_deltas height su) (updated_markets env su) (fold add_market (su_market_creations su) dbs)) (\<lambda>dbs1.
     rbind (try_fold (amplify_market su) (amplified_markets env su) dbs1) (\<lambda>dbs2.
     rbind (try_fold (change_account height) (account_changes env (su_share_account_changes su)) dbs2) (\<lambda>dbs3.
     rbind (try_fold (\<lambda>mid _. verify_share_invariant mid dbs3)
              (te_hash_set env (map snd (db_keys (su_share_account_changes su)))) ()) (\<lambda>_. Inr dbs3))))"

definition put_votes :: "vote list \<Rightarrow> settle_state \<Rightarrow> settle_state" where
  "put_votes vs s = s \<lparr> ss_votes := (ss_votes s) \<lparr> vs_voting := fold put_vote vs (vs_voting (ss_votes s)) \<rparr> \<rparr>"

definition apply_all_changes ::
    "trade_env \<Rightarrow> nat \<Rightarrow> state_update \<Rightarrow> settle_state
       \<Rightarrow> (error, settle_state \<times> (consolidation_undo_entry list \<times> outpoint list) option) result" where
  "apply_all_changes env height su s =
     rbind (apply_market_changes env height su (ss_markets s)) (\<lambda>dbs.
     consolidate_market_utxos env height (su_pending_sell_payouts su) (su_pending_buy_settlements su)
       (su_pending_sell_input_changes su) (put_votes (su_vote_submissions su) (s \<lparr> ss_markets := dbs \<rparr>)))"


section \<open>Reversal\<close>

definition revert_amplify_beta :: "filled_transaction \<Rightarrow> markets_dbs \<Rightarrow> (error, markets_dbs) result" where
  "revert_amplify_beta ftx dbs =
     (case t_data (ft_transaction ftx) of
        Some (AmplifyBeta mid amount author) \<Rightarrow>
          rbind (ok_or (get_market mid dbs) (InvalidTransaction ''Market not found during amplify_beta revert'')) (\<lambda>m.
          rbind (ok_or (checked_sub (mk_liquidity_base_sats m) amount)
                   (InvalidTransaction ''Liquidity base underflow during amplify_beta revert'')) (\<lambda>base.
          update_market (m \<lparr> mk_liquidity_base_sats := base \<rparr>) dbs))
      | _ \<Rightarrow> Inl (InvalidTransaction ''Not an amplify_beta transaction''))"

text \<open>The volume that a trade is taken to have added, recomputed from the shares before and after it.\<close>

definition reverted_volume :: "libm \<Rightarrow> market \<Rightarrow> bool \<Rightarrow> int list \<Rightarrow> (error, nat) result" where
  "reverted_volume lib m is_buy pre =
     (if is_buy then
        rbind (map_err (\<lambda>_. InvalidTransaction ''LMSR calc failed during buy trade revert'')
                 (calculate_update_cost lib pre (mk_shares m) (market_beta lib m))) (\<lambda>base_cost.
        rbind (map_err (\<lambda>_. InvalidTransaction ''Buy cost calc failed during trade revert'')
                 (calculate_buy_cost base_cost (mk_trading_fee m))) (\<lambda>cost. Inr (total_cost_sats cost)))
      else
        rbind (map_err (\<lambda>_. InvalidTransaction ''LMSR calc failed during sell trade revert'')
                 (calculate_update_cost lib (mk_shares m) pre (market_beta lib m))) (\<lambda>base_cost.
        rbind (map_err (\<lambda>_. InvalidTransaction ''Sell proceeds calc failed during trade revert'')
                 (calculate_sell_proceeds base_cost (mk_trading_fee m))) (\<lambda>sp. Inr (gross_proceeds_sats sp))))"

definition revert_trade_market_state ::
    "trade_env \<Rightarrow> libm \<Rightarrow> (transaction \<Rightarrow> txid) \<Rightarrow> nat \<Rightarrow> filled_transaction \<Rightarrow> settle_state
       \<Rightarrow> (error, settle_state \<times> (address \<times> market_id \<times> nat \<times> int)) result" where
  "revert_trade_market_state env lib txid_of height ftx s =
     (case t_data (ft_transaction ftx) of
        Some (Trade mid i n trader limit_sats) \<Rightarrow>
          let is_buy = (0 < n); delta = wrap_i64 \<bar>n\<bar>; txid = txid_of (ft_transaction ftx) in
          rbind (ok_or (get_market mid (ss_markets s)) (InvalidTransaction ''Market not found during trade revert'')) (\<lambda>m.
          rbind (add_at (i, if is_buy then - delta else delta) (mk_shares m)) (\<lambda>pre.
          rbind (reverted_volume lib m is_buy pre) (\<lambda>volume.
          rbind (map_err (\<lambda>_. InvalidTransaction ''Volume revert failed during trade revert'') (revert_trading_volume i volume m)) (\<lambda>m1.
          rbind (map_err (\<lambda>_. InvalidTransaction ''Failed to revert market shares'') (update_shares pre height m1)) (\<lambda>m2.
          rbind (update_market m2 (ss_markets s)) (\<lambda>dbs.
          let s1 = s \<lparr> ss_markets := dbs \<rparr>;
              s2 = (if is_buy then revert_delete_utxo (generate_buy_change_outpoint env mid trader txid) s1
                    else revert_delete_utxo (generate_sell_input_change_outpoint env trader txid)
                           (revert_delete_utxo (generate_sell_payout_outpoint env mid trader txid) s1))
          in Inr (s2, (trader, mid, i, if is_buy then wrap_i64 (- delta) else delta))))))))
      | _ \<Rightarrow> Inl (InvalidTransaction ''Not a trade transaction''))"

text \<open>The share accounts are changed back in one go after all transactions of the block.\<close>

definition batch_delta :: "address \<times> market_id \<times> nat \<times> int \<Rightarrow> (address \<times> market_id, (nat, int) db) db \<Rightarrow> (address \<times> market_id, (nat, int) db) db" where
  "batch_delta e batched =
     (case e of (a, mid, i, n) \<Rightarrow>
        let outcomes = unwrap_or db_empty (db_get batched (a, mid))
        in db_put batched (a, mid) (db_put outcomes i
             (case db_get outcomes i of Some v \<Rightarrow> wrap_i64 (v + n) | None \<Rightarrow> n)))"

definition revert_share_deltas :: "trade_env \<Rightarrow> nat \<Rightarrow> (address \<times> market_id \<times> nat \<times> int) list \<Rightarrow> markets_dbs \<Rightarrow> (error, markets_dbs) result" where
  "revert_share_deltas env height deltas dbs =
     try_fold (change_account height) (account_changes env (fold batch_delta deltas db_empty)) dbs"

text \<open>
  The arms of the loops over the transactions of a block that handle trades: connecting collects them and
  remembers the skipped ones, disconnecting takes the others back in the reverse order.
\<close>

definition apply_trade_tx ::
    "libm \<Rightarrow> (transaction \<Rightarrow> txid) \<Rightarrow> markets_dbs \<Rightarrow> nat \<times> filled_transaction \<Rightarrow> state_update \<times> nat list \<Rightarrow> (error, state_update \<times> nat list) result" where
  "apply_trade_tx lib txid_of dbs e acc =
     rbind (apply_trade lib txid_of dbs (snd e) (fst acc)) (\<lambda>(r, su).
     Inr (su, case r of Applied \<Rightarrow> snd acc | Skipped _ \<Rightarrow> snd acc @ [fst e]))"

definition apply_trades ::
    "libm \<Rightarrow> (transaction \<Rightarrow> txid) \<Rightarrow> markets_dbs \<Rightarrow> filled_transaction list \<Rightarrow> (error, state_update \<times> nat list) result" where
  "apply_trades lib txid_of dbs ftxs = try_fold (apply_trade_tx lib txid_of dbs) (List.enumerate 0 ftxs) (state_update_new, [])"

definition revert_trade_tx ::
    "trade_env \<Rightarrow> libm \<Rightarrow> (transaction \<Rightarrow> txid) \<Rightarrow> nat \<Rightarrow> nat list \<Rightarrow> nat \<times> filled_transaction
       \<Rightarrow> settle_state \<times> (address \<times> market_id \<times> nat \<times> int) list \<Rightarrow> (error, settle_state \<times> (address \<times> market_id \<times> nat \<times> int) list) result" where
  "revert_trade_tx env lib txid_of height skipped e acc =
     (if fst e \<in> set skipped then Inr acc
      else rbind (revert_trade_market_state env lib txid_of height (snd e) (fst acc)) (\<lambda>(s, delta). Inr (s, snd acc @ [delta])))"

definition revert_trades ::
    "trade_env \<Rightarrow> libm \<Rightarrow> (transaction \<Rightarrow> txid) \<Rightarrow> nat \<Rightarrow> nat list \<Rightarrow> filled_transaction list \<Rightarrow> settle_state \<Rightarrow> (error, settle_state) result" where
  "revert_trades env lib txid_of height skipped ftxs s =
     rbind (try_fold (revert_trade_tx env lib txid_of height skipped) (rev (List.enumerate 0 ftxs)) (s, [])) (\<lambda>(s1, deltas).
     rbind (revert_share_deltas env height deltas (ss_markets s1)) (\<lambda>dbs. Inr (s1 \<lparr> ss_markets := dbs \<rparr>)))"

section \<open>Running shares and holdings\<close>

definition i64 :: "int \<Rightarrow> bool" where
  "i64 n \<longleftrightarrow> - (2 ^ 63) \<le> n \<and> n < 2 ^ 63"

fun trade_i64 :: "transaction_data option \<Rightarrow> bool" where
  "trade_i64 (Some (Trade mid i shares trader limit_sats)) = i64 shares"
| "trade_i64 _ = True"

text \<open>
  The share invariant: every holding is a nonnegative 64-bit number and the shares of a market that is open for
  trading are the sums of the holdings of all addresses. It says nothing of the shares of other markets, since
  settlement removes the holdings and leaves the shares of the market. \<open>running_inv\<close> states the same of the
  running shares and holdings of a block.
\<close>

definition trading_market :: "market_id \<Rightarrow> markets_dbs \<Rightarrow> market option" where
  "trading_market mid dbs = Option.bind (get_market mid dbs) (\<lambda>m. if allows_trading (mk_market_state m) then Some m else None)"

lemma trading_market_iff: "trading_market mid dbs = Some m \<longleftrightarrow> get_market mid dbs = Some m \<and> allows_trading (mk_market_state m)"
  by (auto simp: trading_market_def bind_eq_Some_conv)

definition share_inv :: "markets_dbs \<Rightarrow> bool" where
  "share_inv dbs \<longleftrightarrow> (\<forall>a mid i. 0 \<le> owned_shares a mid i dbs \<and> owned_shares a mid i dbs < 2 ^ 63)
     \<and> (\<forall>mid m. trading_market mid dbs = Some m \<longrightarrow> (\<forall>i < length (mk_shares m).
          (\<Sum>a \<in> UNIV. owned_shares a mid i dbs) = mk_shares m ! i \<and> mk_shares m ! i < 2 ^ 63))"

definition running_owned :: "markets_dbs \<Rightarrow> state_update \<Rightarrow> address \<Rightarrow> market_id \<Rightarrow> nat \<Rightarrow> int" where
  "running_owned dbs su a mid i = owned_shares a mid i dbs + pending_delta a mid i su"

definition running_inv :: "markets_dbs \<Rightarrow> state_update \<Rightarrow> bool" where
  "running_inv dbs su \<longleftrightarrow> (\<forall>a mid i. 0 \<le> running_owned dbs su a mid i \<and> running_owned dbs su a mid i < 2 ^ 63)
     \<and> (\<forall>mid m. trading_market mid dbs = Some m \<longrightarrow> (\<exists>xs. try_fold add_at (market_deltas mid su) (mk_shares m) = Inr xs
          \<and> length xs = length (mk_shares m)
          \<and> (\<forall>i < length xs. (\<Sum>a \<in> UNIV. running_owned dbs su a mid i) = xs ! i \<and> xs ! i < 2 ^ 63)))"

lemma owned_holdings: "owned_shares a mid i dbs = unwrap_or 0 (holdings dbs a (mid, i))"
  by (simp add: owned_shares_def holdings_def get_user_share_account_def split: option.split)

lemma running_inv_new: "share_inv dbs \<Longrightarrow> running_inv dbs state_update_new"
proof -
  have new: "running_owned dbs state_update_new = (\<lambda>a mid i. owned_shares a mid i dbs)" "market_deltas mid state_update_new = []" for mid
    by (simp_all add: running_owned_def state_update_new_def pending_delta_def market_deltas_def List.map_filter_def unwrap_or_def fun_eq_iff)
  assume "share_inv dbs"
  then show ?thesis unfolding running_inv_def share_inv_def new by auto
qed

lemma pending_delta_change:
  "pending_delta a mid i (add_share_account_change b mid' j d su) =
     (if (a, mid, i) = (b, mid', j) then wrap_i64 (pending_delta a mid i su + d) else pending_delta a mid i su)"
  by (cases "db_get (su_share_account_changes su) (b, mid')")
    (auto simp: pending_delta_def add_share_account_change_def Let_def unwrap_or_def split: option.split)

lemma market_deltas_add:
  "market_deltas mid (add_share_account_change b m j d su) = market_deltas mid su"
  "market_deltas mid (add_market_update u su) =
     market_deltas mid su @ (if mu_market u = mid then (case mu_share_delta u of None \<Rightarrow> [] | Some e \<Rightarrow> [e]) else [])"
  by (auto simp: market_deltas_def add_share_account_change_def add_market_update_def Let_def List.map_filter_def split: option.split)

text \<open>What both sides of a trade leave alone, and what an applied trade adds.\<close>

definition same_changes :: "state_update \<Rightarrow> state_update \<Rightarrow> bool" where
  "same_changes su su' \<longleftrightarrow> su_market_updates su' = su_market_updates su \<and> su_market_creations su' = su_market_creations su
     \<and> su_share_account_changes su' = su_share_account_changes su
     \<and> filter pb_is_amplify (su_pending_buy_settlements su') = filter pb_is_amplify (su_pending_buy_settlements su)"

lemma buy_side_same: "buy_side lib m txid mid tr limit inp eff new beta su = Inr (Inr (v, f, su')) \<Longrightarrow> same_changes su su'"
  by (auto simp: buy_side_def same_changes_def add_pending_buy_settlement_def split: if_splits)

lemma sell_side_same: "sell_side lib m txid mid i n tr limit inp eff new beta dbs su = Inr (Inr (v, f, su')) \<Longrightarrow>
    same_changes su su' \<and> \<not> wrap_i64 (running_owned dbs su tr mid i) < wrap_i64 \<bar>n\<bar>"
  by (auto simp: sell_side_def same_changes_def add_pending_sell_payout_def add_pending_sell_input_change_def Let_def running_owned_def
      split: if_splits)

lemma same_changes_reads:
  assumes "same_changes su su'"
  shows "pending_delta a mid i su' = pending_delta a mid i su" and "market_deltas mid su' = market_deltas mid su"
  using assms by (simp_all add: same_changes_def pending_delta_def market_deltas_def)

lemma apply_trade_cases:
  assumes "apply_trade lib txid_of dbs ftx su = Inr (r, su')"
  obtains reason where "r = Skipped reason" "su' = su"
  | mid i shares trader limit m effective beta v su1 fee where "t_data (ft_transaction ftx) = Some (Trade mid i shares trader limit)"
      "trading_market mid dbs = Some m" "try_fold add_at (market_deltas mid su) (mk_shares m) = Inr effective" "i < length effective"
      "0 \<le> wrap_i64 (effective ! i + shares)" "same_changes su su1"
      "0 < shares \<or> wrap_i64 \<bar>shares\<bar> \<le> wrap_i64 (running_owned dbs su trader mid i)"
      "su' = add_share_account_change trader mid i shares (add_market_update \<lparr> mu_market = mid, mu_share_delta = Some (i, shares),
         mu_transaction_id = Some (txid_of (ft_transaction ftx)), mu_volume_sats = Some v, mu_fee_sats = Some fee \<rparr> su1)" "r = Applied"
proof (cases "t_data (ft_transaction ftx)")
  case (Some d)
  then obtain mid i shares trader limit where d: "t_data (ft_transaction ftx) = Some (Trade mid i shares trader limit)"
    using assms by (cases d) (auto simp: apply_trade_def)
  obtain m effective beta where m: "get_market mid dbs = Some m" "running_market_state lib mid m su = Inr (effective, beta)"
    using assms by (auto simp: apply_trade_def d Let_def split: if_splits)
  have eff: "try_fold add_at (market_deltas mid su) (mk_shares m) = Inr effective" using m(2) by (auto simp: running_market_state_def)
  let ?new = "effective[i := wrap_i64 (effective ! i + shares)]"
  obtain inp where ok: "i < length effective" "\<not> ?new ! i < 0" and inp: "spent_bitcoin_value ftx = Inr inp"
    using assms m by (auto simp: apply_trade_def d Let_def add_at_def split: if_splits)
  let ?txid = "txid_of (ft_transaction ftx)"
  let ?side = "if 0 < shares then buy_side lib m ?txid mid trader limit inp effective ?new beta su
      else sell_side lib m ?txid mid i shares trader limit inp effective ?new beta dbs su"
  let ?rest = "(\<lambda>side. case side of Inl reason \<Rightarrow> Inr (Skipped reason, su) | Inr (v, fee, su1) \<Rightarrow> Inr (Applied,
        add_share_account_change trader mid i shares (add_market_update \<lparr> mu_market = mid, mu_share_delta = Some (i, shares),
         mu_transaction_id = Some ?txid, mu_volume_sats = Some v, mu_fee_sats = Some fee \<rparr> su1)))
      :: _ \<Rightarrow> (error, trade_apply_result \<times> state_update) result"
  have open_market: "allows_trading (mk_market_state m)" using assms m(1) by (auto simp: apply_trade_def d Let_def split: if_splits)
  then have tm: "trading_market mid dbs = Some m" using m(1) by (simp add: trading_market_iff)
  have eq: "apply_trade lib txid_of dbs ftx su = rbind ?side ?rest"
    using m ok inp open_market by (simp add: apply_trade_def d add_at_def ok_or_def Let_def)
  obtain side where side: "?side = Inr side" and res: "?rest side = Inr (r, su')"
    using assms [unfolded eq rbind_eq_Inr] by (elim exE conjE) (rule that)
  show ?thesis
  proof (cases side)
    case (Inl reason)
    then show ?thesis using res that(1) [of reason] by simp
  next
    case (Inr x)
    obtain v fee su1 where x: "x = (v, fee, su1)" by (cases x)
    have "same_changes su su1 \<and> (0 < shares \<or> wrap_i64 \<bar>shares\<bar> \<le> wrap_i64 (running_owned dbs su trader mid i))"
      using side buy_side_same sell_side_same unfolding Inr x by (fastforce split: if_splits)
    then show ?thesis using that(2) [OF d tm eff ok(1), of su1 v fee] ok res by (simp add: Inr x)
  qed
qed (use assms in \<open>simp add: apply_trade_def\<close>)

lemma wrap_nonneg:
  assumes "0 \<le> x" and "x < 2 ^ 63" and "i64 n" and "0 \<le> wrap_i64 (x + n)"
  shows "wrap_i64 (x + n) = x + n" and "0 \<le> x + n" and "x + n < 2 ^ 63"
proof -
  have "\<not> x + n < 0" using assms wrap_i64_exact [of "x + n"] by (auto simp: i64_def)
  moreover have "\<not> 2 ^ 63 \<le> x + n"
  proof
    assume ge: "2 ^ 63 \<le> x + n"
    have "(x + n + 2 ^ 63) mod 2 ^ 64 = (x + n - 2 ^ 63 + 2 ^ 64) mod 2 ^ 64"
      by (rule arg_cong [where f = "\<lambda>y. y mod 2 ^ 64"]) simp
    also have "\<dots> = (x + n - 2 ^ 63) mod 2 ^ 64" by (rule mod_add_self2)
    also have "\<dots> = x + n - 2 ^ 63" using ge assms(2,3) by (intro mod_pos_pos_trivial) (auto simp: i64_def)
    finally show False using assms(2,3,4) by (simp add: wrap_i64_def i64_def)
  qed
  ultimately show "wrap_i64 (x + n) = x + n" "0 \<le> x + n" "x + n < 2 ^ 63" by (simp_all add: wrap_i64_exact)
qed

lemma owned_at_most:
  assumes "\<forall>a. 0 \<le> f a" shows "f a \<le> (\<Sum>b \<in> (UNIV :: address set). (f b :: int))"
  by (rule member_le_sum) (use assms in auto)

lemma running_step:
  assumes "running_inv dbs su" and "share_inv dbs" and "trading_market mid dbs = Some m" and "i64 shares"
    and "try_fold add_at (market_deltas mid su) (mk_shares m) = Inr effective" and "i < length effective"
    and "0 \<le> wrap_i64 (effective ! i + shares)" and "same_changes su su1"
    and "0 < shares \<or> wrap_i64 \<bar>shares\<bar> \<le> wrap_i64 (running_owned dbs su trader mid i)"
    and "su' = add_share_account_change trader mid i shares (add_market_update u su1)"
    and "mu_market u = mid" "mu_share_delta u = Some (i, shares)"
  shows "running_inv dbs su'" and "effective ! i + shares < 2 ^ 63" and "0 \<le> effective ! i + shares"
    and "pending_delta a k j su' = pending_delta a k j su + (if (a, k, j) = (trader, mid, i) then shares else 0)"
proof -
  let ?e = "running_owned dbs su"
  have nonneg: "0 \<le> ?e a k j" "?e a k j < 2 ^ 63" for a k j using assms(1) by (auto simp: running_inv_def)
  have eff: "(\<Sum>a \<in> UNIV. ?e a mid j) = effective ! j" "effective ! j < 2 ^ 63" if "j < length effective" for j
    using assms(1,3,5) that unfolding running_inv_def by fastforce+
  have len: "length effective = length (mk_shares m)" using assms(1,3,5) unfolding running_inv_def by fastforce
  have e0: "0 \<le> effective ! i" "?e trader mid i \<le> effective ! i"
    using sum_nonneg [of UNIV "\<lambda>a. ?e a mid i"] nonneg(1) eff(1) [OF assms(6)] owned_at_most [of "\<lambda>a. ?e a mid i" trader] by auto
  note exact = wrap_nonneg [OF e0(1) eff(2) [OF assms(6)] assms(4,7)]
  have own: "0 \<le> owned_shares trader mid i dbs" "owned_shares trader mid i dbs < 2 ^ 63" using assms(2) by (auto simp: share_inv_def)
  have sold: "0 \<le> ?e trader mid i + shares"
  proof (cases "0 < shares")
    case False
    have "\<bar>shares\<bar> < 2 ^ 63" using False exact(2) eff(2) [OF assms(6)] by linarith
    then have "\<bar>shares\<bar> \<le> ?e trader mid i"
      using assms(9) False nonneg [of trader mid i] wrap_i64_exact [of "\<bar>shares\<bar>"] wrap_i64_exact [of "?e trader mid i"] by auto
    then show ?thesis using False by linarith
  qed (use nonneg(1) [of trader mid i] in linarith)
  have up: "?e trader mid i + shares < 2 ^ 63" using e0(2) exact(3) by linarith
  have pend: "wrap_i64 (pending_delta trader mid i su + shares) = pending_delta trader mid i su + shares"
    using sold up own by (intro wrap_i64_exact) (auto simp: running_owned_def)
  have su': "pending_delta a k j su' = (if (a, k, j) = (trader, mid, i) then pending_delta a k j su + shares else pending_delta a k j su)"
      "market_deltas k su' = market_deltas k su @ (if k = mid then [(i, shares)] else [])" for a k j
    unfolding assms(10) pending_delta_change market_deltas_add
    using same_changes_reads [OF assms(8)] pend assms(11,12)
    by (auto simp: pending_delta_def add_market_update_def)
  show "effective ! i + shares < 2 ^ 63" "0 \<le> effective ! i + shares" using exact by simp_all
  show "pending_delta a k j su' = pending_delta a k j su + (if (a, k, j) = (trader, mid, i) then shares else 0)" by (simp add: su'(1))
  have e': "running_owned dbs su' a k j = ?e a k j + (if (a, k, j) = (trader, mid, i) then shares else 0)" for a k j
    by (simp add: running_owned_def su'(1))
  have total: "(\<Sum>a \<in> UNIV. running_owned dbs su' a k j) = (\<Sum>a \<in> UNIV. ?e a k j) + (if (k, j) = (mid, i) then shares else 0)" for k j
    by (cases "(k, j) = (mid, i)") (auto simp: e' sum.distrib sum.delta)
  have "\<exists>xs. try_fold add_at (market_deltas k su') (mk_shares m') = Inr xs \<and> length xs = length (mk_shares m')
      \<and> (\<forall>j < length xs. (\<Sum>a \<in> UNIV. running_owned dbs su' a k j) = xs ! j \<and> xs ! j < 2 ^ 63)" if m': "trading_market k dbs = Some m'" for k m'
  proof (cases "k = mid")
    case True
    then have "m' = m" using m' assms(3) by simp
    then have "try_fold add_at (market_deltas k su') (mk_shares m') = Inr (effective[i := effective ! i + shares])"
      using assms(5,6) True exact(1) by (simp add: su'(2) try_fold_append add_at_def)
    then show ?thesis using True \<open>m' = m\<close> len eff exact(3) by (auto simp: total nth_list_update)
  next
    case False
    have "market_deltas k su' = market_deltas k su" using False by (simp add: su'(2))
    moreover have "(\<Sum>a \<in> UNIV. running_owned dbs su' a k j) = (\<Sum>a \<in> UNIV. ?e a k j)" for j using False by (simp add: total)
    ultimately show ?thesis using assms(1) m' unfolding running_inv_def by simp
  qed
  moreover have "0 \<le> running_owned dbs su' a k j \<and> running_owned dbs su' a k j < 2 ^ 63" for a k j
    using sold up nonneg [of a k j] by (auto simp: e')
  ultimately show "running_inv dbs su'" unfolding running_inv_def by blast
qed

text \<open>What is known of an update that collected trades only.\<close>

definition trades_only :: "markets_dbs \<Rightarrow> state_update \<Rightarrow> bool" where
  "trades_only dbs su \<longleftrightarrow> su_market_creations su = [] \<and> filter pb_is_amplify (su_pending_buy_settlements su) = []
     \<and> (\<forall>u \<in> set (su_market_updates su). \<exists>i d v m. mu_share_delta u = Some (i, d) \<and> mu_volume_sats u = Some v
          \<and> trading_market (mu_market u) dbs = Some m \<and> i < length (mk_shares m))
     \<and> (\<forall>a mid. db_get (su_share_account_changes su) (a, mid) \<noteq> None \<longrightarrow> trading_market mid dbs \<noteq> None)"

lemma trades_only_step:
  assumes "trades_only dbs su" and "same_changes su su1" and "trading_market mid dbs = Some m" and "i < length (mk_shares m)"
  shows "trades_only dbs (add_share_account_change trader mid i shares
    (add_market_update \<lparr> mu_market = mid, mu_share_delta = Some (i, shares), mu_transaction_id = t, mu_volume_sats = Some v, mu_fee_sats = f \<rparr> su1))"
  using assms by (auto simp: trades_only_def same_changes_def add_share_account_change_def add_market_update_def Let_def)

lemma apply_trade_inv:
  assumes "apply_trade lib txid_of dbs ftx su = Inr (r, su')" and "share_inv dbs" and "running_inv dbs su" and "trades_only dbs su"
    and "trade_i64 (t_data (ft_transaction ftx))"
  shows "running_inv dbs su' \<and> trades_only dbs su'"
proof (rule apply_trade_cases [OF assms(1)])
  fix mid i shares trader limit m effective v su2 fee
  assume t: "t_data (ft_transaction ftx) = Some (Trade mid i shares trader limit)"
    "trading_market mid dbs = Some m" "try_fold add_at (market_deltas mid su) (mk_shares m) = Inr effective" "i < length effective"
    "0 \<le> wrap_i64 (effective ! i + shares)" "same_changes su su2"
    "0 < shares \<or> wrap_i64 \<bar>shares\<bar> \<le> wrap_i64 (running_owned dbs su trader mid i)"
    "su' = add_share_account_change trader mid i shares (add_market_update \<lparr> mu_market = mid, mu_share_delta = Some (i, shares),
       mu_transaction_id = Some (txid_of (ft_transaction ftx)), mu_volume_sats = Some v, mu_fee_sats = Some fee \<rparr> su2)"
  have "i64 shares" using assms(5) t(1) by simp
  have len: "length effective = length (mk_shares m)" using assms(3) t(2,3) unfolding running_inv_def by fastforce
  show ?thesis
    using running_step(1) [OF assms(3,2) t(2) \<open>i64 shares\<close> t(3-8)] trades_only_step [OF assms(4) t(6,2)] t(4) len by (simp add: t(8))
qed (use assms in simp)

lemma apply_trades_inv:
  assumes "try_fold (apply_trade_tx lib txid_of dbs) es (su, sk) = Inr (su', sk')" and "share_inv dbs" and "running_inv dbs su" and "trades_only dbs su"
    and "\<forall>e \<in> set es. trade_i64 (t_data (ft_transaction (snd e)))"
  shows "running_inv dbs su' \<and> trades_only dbs su'"
  using assms
proof (induction es arbitrary: su sk)
  case (Cons e es)
  obtain acc where acc: "apply_trade_tx lib txid_of dbs e (su, sk) = Inr acc" "try_fold (apply_trade_tx lib txid_of dbs) es acc = Inr (su', sk')"
    using Cons.prems(1) by auto
  obtain r su1 sk1 where one: "apply_trade lib txid_of dbs (snd e) su = Inr (r, su1)" and "acc = (su1, sk1)"
    using acc(1) by (auto simp: apply_trade_tx_def)
  then have rest: "try_fold (apply_trade_tx lib txid_of dbs) es (su1, sk1) = Inr (su', sk')" using acc(2) by simp
  show ?case using Cons.IH [OF rest] apply_trade_inv [OF one] Cons.prems(2-5) by simp
qed simp

lemma trades_only_new: "trades_only dbs state_update_new"
  by (simp add: trades_only_def state_update_new_def)

section \<open>Writing the trades of a block\<close>

text \<open>The shares of the markets.\<close>

lemma market_volumes_deltas: "map (\<lambda>(i, d, v). (i, d)) (market_volumes mid su) = market_deltas mid su"
proof -
  have "map (\<lambda>(i, d, v). (i, d)) (List.map_filter (\<lambda>u. map_option (\<lambda>(i, d). (i, d, mu_volume_sats u)) (mu_share_delta u)) us)
      = List.map_filter mu_share_delta us" for us :: "market_state_update list"
    by (induction us) (auto simp: List.map_filter_def split: option.splits)
  then show ?thesis by (simp add: market_volumes_def market_deltas_def)
qed

definition same_but_volumes :: "market \<Rightarrow> market \<Rightarrow> bool" where
  "same_but_volumes m m' \<longleftrightarrow> (\<exists>vs n. length vs = length (mk_outcome_volumes_sats m)
     \<and> m' = m \<lparr> mk_outcome_volumes_sats := vs, mk_total_volume_sats := n \<rparr>)"

lemma same_but_volumes_refl [simp]: "same_but_volumes m m"
  unfolding same_but_volumes_def by (intro exI [of _ "mk_outcome_volumes_sats m"] exI [of _ "mk_total_volume_sats m"]) simp

lemma same_but_volumes_trans: "same_but_volumes a b \<Longrightarrow> same_but_volumes b c \<Longrightarrow> same_but_volumes a c"
  unfolding same_but_volumes_def
  by (elim exE conjE, rule_tac x = vsa in exI, rule_tac x = na in exI) simp

lemma apply_deltas_ok:
  assumes "try_fold add_at (map (\<lambda>(i, d, v). (i, d)) es) xs = Inr ys" and "length (mk_outcome_volumes_sats m) = length xs"
  shows "\<exists>m'. try_fold apply_delta es (xs, m) = Inr (ys, m') \<and> same_but_volumes m m'"
  using assms
proof (induction es arbitrary: xs m)
  case Nil
  then show ?case by auto
next
  case (Cons e es)
  obtain i d v where e: "e = (i, d, v)" by (cases e)
  have i: "i < length xs" and rest: "try_fold add_at (map (\<lambda>(i, d, v). (i, d)) es) (xs[i := wrap_i64 (xs ! i + d)]) = Inr ys"
    using Cons.prems(1) by (auto simp: e add_at_def [of "(i, d)"] split: if_splits)
  obtain m1 where m1: "(case v of None \<Rightarrow> Inr m | Some vol \<Rightarrow> map_err (\<lambda>_. InvalidTransaction ''Failed to update volume'') (update_trading_volume i vol m)) = Inr m1"
    and s1: "same_but_volumes m m1"
  proof (cases v)
    case None
    then show ?thesis using that [of m] by simp
  next
    case (Some vol)
    let ?vs = "(mk_outcome_volumes_sats m)[i := saturating_add 64 (mk_outcome_volumes_sats m ! i) vol]"
    let ?m = "m \<lparr> mk_outcome_volumes_sats := ?vs, mk_total_volume_sats := saturating_add 64 (mk_total_volume_sats m) vol \<rparr>"
    have "same_but_volumes m ?m" unfolding same_but_volumes_def by (intro exI [of _ ?vs] exI conjI) (simp, rule refl)
    then show ?thesis using that [of ?m] Some i Cons.prems(2) by (simp add: update_trading_volume_def)
  qed
  have "length (mk_outcome_volumes_sats m1) = length (xs[i := wrap_i64 (xs ! i + d)])" using s1 Cons.prems(2) by (auto simp: same_but_volumes_def)
  from Cons.IH [OF rest this] obtain m' where m': "try_fold apply_delta es (xs[i := wrap_i64 (xs ! i + d)], m1) = Inr (ys, m')" "same_but_volumes m1 m'" by blast
  have "apply_delta e (xs, m) = Inr (xs[i := wrap_i64 (xs ! i + d)], m1)" using i m1 by (cases v) (simp_all add: apply_delta_def e add_at_def [of "(i, d)"])
  moreover have "same_but_volumes m m'" by (rule same_but_volumes_trans [OF s1 m'(2)])
  ultimately show ?case using m'(1) by simp
qed

definition market_shaped :: "market_id \<Rightarrow> market \<Rightarrow> bool" where
  "market_shaped mid m \<longleftrightarrow> mk_id m = mid \<and> length (mk_outcome_volumes_sats m) = length (mk_shares m)"

definition same_terms :: "market \<Rightarrow> market \<Rightarrow> bool" where
  "same_terms m m' \<longleftrightarrow> mk_liquidity_base_sats m' = mk_liquidity_base_sats m \<and> mk_trading_fee m' = mk_trading_fee m
     \<and> mk_market_state m' = mk_market_state m"

text \<open>The markets of \<open>r\<close> carry the running shares of the update.\<close>

definition at_running :: "markets_dbs \<Rightarrow> state_update \<Rightarrow> markets_dbs \<Rightarrow> bool" where
  "at_running dbs su r \<longleftrightarrow> (\<forall>mid m. get_market mid dbs = Some m \<longrightarrow> (\<exists>m'. get_market mid r = Some m' \<and> market_shaped mid m'
     \<and> try_fold add_at (market_deltas mid su) (mk_shares m) = Inr (mk_shares m') \<and> same_terms m m'))"

lemma can_stay: "market_can_transition_to st st"
  by (cases st) simp_all

lemma rewrite_market:
  assumes "get_market mid dbs = Some m" and "mk_id m' = mid" and "mk_market_state m' = mk_market_state m"
    and "mk_expires_at_height m' = mk_expires_at_height m" and "mk_decision_ids m' = mk_decision_ids m"
  shows "update_market m' dbs = Inr (dbs \<lparr> md_markets := db_put (md_markets dbs) mid m' \<rparr>)"
  using assms by (simp add: update_market_def write_market_and_indexes_def validate_market_state_transition_def can_stay Let_def)

lemma market_deltas_ok:
  assumes "get_market mid dbs = Some m" and "market_shaped mid m"
    and "try_fold add_at (market_deltas mid su) (mk_shares m) = Inr xs" and "length xs = length (mk_shares m)"
  shows "\<exists>dbs' m'. apply_market_deltas height su mid dbs = Inr dbs' \<and> share_accounts dbs' = share_accounts dbs
    \<and> (\<forall>k. get_market k dbs' = (if k = mid then Some m' else get_market k dbs)) \<and> market_shaped mid m' \<and> mk_shares m' = xs \<and> same_terms m m'"
proof -
  obtain m1 where m1: "try_fold apply_delta (market_volumes mid su) (mk_shares m, m) = Inr (xs, m1)" "same_but_volumes m m1"
    using apply_deltas_ok [of "market_volumes mid su" "mk_shares m" xs m] assms(2,3) market_volumes_deltas [of mid su]
    by (auto simp: market_shaped_def)
  define m2 where "m2 = m1 \<lparr> mk_shares := xs, mk_version := wrapping_add 64 (mk_version m1) 1, mk_last_updated_height := height \<rparr>"
  have sh: "mk_shares m1 = mk_shares m" "mk_id m1 = mid" "length (mk_outcome_volumes_sats m1) = length (mk_shares m)"
    "mk_market_state m1 = mk_market_state m" "mk_expires_at_height m1 = mk_expires_at_height m" "mk_decision_ids m1 = mk_decision_ids m" "same_terms m m1"
    using m1(2) assms(2) by (auto simp: same_but_volumes_def market_shaped_def same_terms_def)
  have "update_state height None (Some xs) None m1 = Inr m2" using assms(4) sh(1) by (simp add: update_state_def m2_def Let_def)
  moreover have "update_market m2 dbs = Inr (dbs \<lparr> md_markets := db_put (md_markets dbs) mid m2 \<rparr>)"
    by (rule rewrite_market [OF assms(1)]) (simp_all add: m2_def sh)
  ultimately have "apply_market_deltas height su mid dbs = Inr (clear_mempool_shares mid (dbs \<lparr> md_markets := db_put (md_markets dbs) mid m2 \<rparr>))"
    using assms(1) m1(1) by (simp add: apply_market_deltas_def ok_or_def)
  moreover have "market_shaped mid m2" "mk_shares m2 = xs" "same_terms m m2"
    using sh assms(4) by (simp_all add: m2_def market_shaped_def same_terms_def)
  ultimately show ?thesis
    by (intro exI [of _ "clear_mempool_shares mid (dbs \<lparr> md_markets := db_put (md_markets dbs) mid m2 \<rparr>)"] exI [of _ m2])
      (simp add: clear_mempool_shares_def get_market_def)
qed

lemma deltas_loop_ok:
  assumes "distinct mids"
    and "\<forall>mid \<in> set mids. \<exists>m xs. get_market mid dbs = Some m \<and> market_shaped mid m
      \<and> try_fold add_at (market_deltas mid su) (mk_shares m) = Inr xs \<and> length xs = length (mk_shares m)"
  shows "\<exists>dbs'. try_fold (apply_market_deltas height su) mids dbs = Inr dbs' \<and> share_accounts dbs' = share_accounts dbs
    \<and> (\<forall>k. k \<notin> set mids \<longrightarrow> get_market k dbs' = get_market k dbs)
    \<and> (\<forall>k \<in> set mids. \<exists>m xs m'. get_market k dbs = Some m \<and> try_fold add_at (market_deltas k su) (mk_shares m) = Inr xs
         \<and> get_market k dbs' = Some m' \<and> market_shaped k m' \<and> mk_shares m' = xs \<and> same_terms m m')"
  using assms
proof (induction mids arbitrary: dbs)
  case (Cons mid mids)
  obtain m xs where m: "get_market mid dbs = Some m" "market_shaped mid m" "try_fold add_at (market_deltas mid su) (mk_shares m) = Inr xs"
    "length xs = length (mk_shares m)" using Cons.prems(2) by auto
  obtain d m' where d: "apply_market_deltas height su mid dbs = Inr d" "share_accounts d = share_accounts dbs"
      "\<forall>k. get_market k d = (if k = mid then Some m' else get_market k dbs)" "market_shaped mid m'" "mk_shares m' = xs" "same_terms m m'"
    using market_deltas_ok [OF m] by blast
  have new: "mid \<notin> set mids" "distinct mids" using Cons.prems(1) by auto
  then have same: "get_market k d = get_market k dbs" if "k \<in> set mids" for k using d(3) that by auto
  have "\<forall>k \<in> set mids. \<exists>m xs. get_market k d = Some m \<and> market_shaped k m
      \<and> try_fold add_at (market_deltas k su) (mk_shares m) = Inr xs \<and> length xs = length (mk_shares m)"
    using Cons.prems(2) same by simp
  from Cons.IH [OF new(2) this] obtain d' where d': "try_fold (apply_market_deltas height su) mids d = Inr d'" "share_accounts d' = share_accounts d"
      "\<forall>k. k \<notin> set mids \<longrightarrow> get_market k d' = get_market k d"
      "\<forall>k \<in> set mids. \<exists>m xs m'. get_market k d = Some m \<and> try_fold add_at (market_deltas k su) (mk_shares m) = Inr xs
         \<and> get_market k d' = Some m' \<and> market_shaped k m' \<and> mk_shares m' = xs \<and> same_terms m m'" by blast
  have "get_market mid d' = Some m'" using d'(3) new(1) d(3) by simp
  then show ?case using d d' m same by (intro exI [of _ d']) auto
qed simp

text \<open>The share accounts.\<close>

lemma change_account_ok:
  assumes "0 \<le> owned_shares a mid i dbs" "owned_shares a mid i dbs < 2 ^ 63"
    and "0 \<le> owned_shares a mid i dbs + n" "owned_shares a mid i dbs + n < 2 ^ 63"
  shows "\<exists>x. change_account height (a, mid, i, n) dbs = Inr (dbs \<lparr> share_accounts := x \<rparr>)
    \<and> (\<forall>b k j. owned_shares b k j (dbs \<lparr> share_accounts := x \<rparr>) = owned_shares b k j dbs + (if (b, k, j) = (a, mid, i) then n else 0))"
proof (cases "n = 0")
  case True
  then show ?thesis by (intro exI [of _ "share_accounts dbs"]) (simp add: change_account_def)
next
  case nz: False
  show ?thesis
  proof (cases "0 < n")
    case True
    let ?acc = "unwrap_or share_account_new (db_get (share_accounts dbs) a)"
    have "wrap_i64 (owned_shares a mid i dbs + n) = owned_shares a mid i dbs + n" using assms by (intro wrap_i64_exact) auto
    then show ?thesis using True
      by (intro exI [of _ "db_put (share_accounts dbs) a (add_shares mid i n height ?acc)"])
        (cases "db_get (share_accounts dbs) a"; auto simp: change_account_def add_shares_to_account_def owned_shares_def get_user_share_account_def
          add_shares_def unwrap_or_def share_account_new_def)
  next
    case False
    then have pos: "0 < owned_shares a mid i dbs" using assms nz by linarith
    then obtain acc where acc: "db_get (share_accounts dbs) a = Some acc"
      by (cases "db_get (share_accounts dbs) a") (auto simp: owned_shares_def get_user_share_account_def)
    have own: "owned_shares a mid i dbs = unwrap_or 0 (db_get (positions acc) (mid, i))"
      by (simp add: owned_shares_def get_user_share_account_def acc)
    have neg: "wrap_i64 (- n) = - n" using False assms by (intro wrap_i64_exact) auto
    let ?q = "unwrap_or 0 (db_get (positions acc) (mid, i)) + n"
    have q: "wrap_i64 ?q = ?q" using assms own by (intro wrap_i64_exact) auto
    define pos where "pos = (if 0 < ?q then db_put (positions acc) (mid, i) ?q else db_delete (positions acc) (mid, i))"
    let ?acc = "acc \<lparr> positions := pos, sa_last_updated := height \<rparr>"
    define x where "x = (if db_entries pos = [] then db_delete (share_accounts dbs) a else db_put (share_accounts dbs) a ?acc)"
    have "remove_shares mid i (- n) height acc = Inr ?acc"
      using assms(3) own q by (simp add: remove_shares_def Let_def pos_def)
    then have run: "change_account height (a, mid, i, n) dbs = Inr (dbs \<lparr> share_accounts := x \<rparr>)"
      using False nz neg by (simp add: change_account_def remove_shares_from_account_def acc ok_or_def x_def)
    have "db_get pos k = None" if "db_entries pos = []" for k
      using that db_get_iff_entries [of pos k] by (cases "db_get pos k") auto
    then have "owned_shares b k j (dbs \<lparr> share_accounts := x \<rparr>) = (if b = a then unwrap_or 0 (db_get pos (k, j)) else owned_shares b k j dbs)" for b k j
      by (simp add: owned_shares_def get_user_share_account_def x_def)
    moreover have "unwrap_or 0 (db_get pos (k, j)) = owned_shares a k j dbs + (if (k, j) = (mid, i) then n else 0)" for k j
      using assms(3) own by (auto simp: owned_shares_def get_user_share_account_def acc pos_def)
    ultimately show ?thesis using run by (intro exI [of _ x]) auto
  qed
qed

lemma change_accounts_ok:
  assumes "distinct (map (\<lambda>(a, mid, i, n). (a, mid, i)) es)"
    and "\<forall>a mid i. 0 \<le> owned_shares a mid i dbs \<and> owned_shares a mid i dbs < 2 ^ 63"
    and "\<forall>(a, mid, i, n) \<in> set es. 0 \<le> owned_shares a mid i dbs + n \<and> owned_shares a mid i dbs + n < 2 ^ 63"
  shows "\<exists>x. try_fold (change_account height) es dbs = Inr (dbs \<lparr> share_accounts := x \<rparr>)
    \<and> (\<forall>a mid i. owned_shares a mid i (dbs \<lparr> share_accounts := x \<rparr>) =
         owned_shares a mid i dbs + unwrap_or 0 (map_of (map (\<lambda>(a, mid, i, n). ((a, mid, i), n)) es) (a, mid, i)))"
  using assms
proof (induction es arbitrary: dbs)
  case Nil
  then show ?case by (intro exI [of _ "share_accounts dbs"]) (simp add: unwrap_or_def)
next
  case (Cons e es)
  obtain a mid i n where e: "e = (a, mid, i, n)" by (cases e)
  have own: "0 \<le> owned_shares a mid i dbs" "owned_shares a mid i dbs < 2 ^ 63" "0 \<le> owned_shares a mid i dbs + n" "owned_shares a mid i dbs + n < 2 ^ 63"
    using Cons.prems(2,3) by (auto simp: e)
  obtain x where x: "change_account height e dbs = Inr (dbs \<lparr> share_accounts := x \<rparr>)"
    "\<forall>b k j. owned_shares b k j (dbs \<lparr> share_accounts := x \<rparr>) = owned_shares b k j dbs + (if (b, k, j) = (a, mid, i) then n else 0)"
    using change_account_ok [OF own, of height] unfolding e by blast
  let ?d = "dbs \<lparr> share_accounts := x \<rparr>"
  have new: "(a, mid, i) \<notin> (\<lambda>(a, mid, i, n). (a, mid, i)) ` set es" "distinct (map (\<lambda>(a, mid, i, n). (a, mid, i)) es)"
    using Cons.prems(1) by (auto simp: e)
  have "\<forall>b k j. 0 \<le> owned_shares b k j ?d \<and> owned_shares b k j ?d < 2 ^ 63" using Cons.prems(2) own x(2) by simp
  moreover have "\<forall>(b, k, j, n) \<in> set es. 0 \<le> owned_shares b k j ?d + n \<and> owned_shares b k j ?d + n < 2 ^ 63"
  proof (intro ballI, clarify)
    fix b k j n' assume mem: "(b, k, j, n') \<in> set es"
    then have "(b, k, j) \<noteq> (a, mid, i)" using new(1) by force
    then have "owned_shares b k j ?d = owned_shares b k j dbs" using x(2) by auto
    then show "0 \<le> owned_shares b k j ?d + n' \<and> owned_shares b k j ?d + n' < 2 ^ 63" using Cons.prems(3) mem by force
  qed
  ultimately obtain y where y: "try_fold (change_account height) es ?d = Inr (?d \<lparr> share_accounts := y \<rparr>)"
    "\<forall>b k j. owned_shares b k j (?d \<lparr> share_accounts := y \<rparr>) =
       owned_shares b k j ?d + unwrap_or 0 (map_of (map (\<lambda>(a, mid, i, n). ((a, mid, i), n)) es) (b, k, j))"
    using Cons.IH [OF new(2), of ?d] by blast
  have none: "map_of (map (\<lambda>(a, mid, i, n). ((a, mid, i), n)) es) (a, mid, i) = None"
    using new(1) by (simp add: map_of_eq_None_iff image_image split_def)
  have "try_fold (change_account height) (e # es) dbs = Inr (dbs \<lparr> share_accounts := y \<rparr>)" using x(1) y(1) by simp
  moreover have "owned_shares b k j (dbs \<lparr> share_accounts := y \<rparr>) =
      owned_shares b k j dbs + unwrap_or 0 (map_of (map (\<lambda>(a, mid, i, n). ((a, mid, i), n)) (e # es)) (b, k, j))" for b k j
    using y(2) x(2) none by (simp add: e unwrap_or_def)
  ultimately show ?case by blast
qed

lemma account_changes_facts:
  assumes "iterates_once env"
  shows "distinct (map (\<lambda>(a, mid, i, n). (a, mid, i)) (account_changes env changes))"
    and "(a, mid, i, n) \<in> set (account_changes env changes) \<longleftrightarrow>
      (\<exists>outcomes. db_get changes (a, mid) = Some outcomes \<and> db_get outcomes i = Some n)"
proof -
  have it: "distinct (te_hash_accounts env xs)" "set (te_hash_accounts env xs) = set xs"
      "distinct (te_hash_outcomes env ys)" "set (te_hash_outcomes env ys) = set ys" for xs ys
    using assms by (simp_all add: iterates_once_def)
  let ?keys = "\<lambda>k. te_hash_outcomes env (db_keys (unwrap_or db_empty (db_get changes k)))"
  have "distinct (concat (map (\<lambda>k. map (\<lambda>i. (fst k, snd k, i)) (?keys k)) ks))" if "distinct ks" for ks
    using that
  proof (induction ks)
    case (Cons k ks)
    have "distinct (map (\<lambda>i. (fst k, snd k, i)) (?keys k))" using it(3) by (simp add: distinct_map inj_on_def)
    moreover have "set (map (\<lambda>i. (fst k, snd k, i)) (?keys k)) \<inter> set (concat (map (\<lambda>k. map (\<lambda>i. (fst k, snd k, i)) (?keys k)) ks)) = {}"
      using Cons.prems by (auto simp: prod_eq_iff)
    ultimately show ?case using Cons by simp
  qed simp
  moreover have "map (\<lambda>(a, mid, i, n). (a, mid, i)) (account_changes env changes) =
      concat (map (\<lambda>k. map (\<lambda>i. (fst k, snd k, i)) (?keys k)) (te_hash_accounts env (db_keys changes)))"
    by (simp add: account_changes_def map_concat o_def split_def Let_def)
  ultimately show "distinct (map (\<lambda>(a, mid, i, n). (a, mid, i)) (account_changes env changes))" using it(1) by simp
  show "(a, mid, i, n) \<in> set (account_changes env changes) \<longleftrightarrow>
      (\<exists>outcomes. db_get changes (a, mid) = Some outcomes \<and> db_get outcomes i = Some n)"
  proof -
    let ?o = "unwrap_or db_empty (db_get changes (a, mid))"
    have "(a, mid, i, n) \<in> set (account_changes env changes) \<longleftrightarrow>
        (a, mid) \<in> set (db_keys changes) \<and> i \<in> set (db_keys ?o) \<and> n = unwrap_or 0 (db_get ?o i)"
      by (auto simp: account_changes_def it Let_def)
    then show ?thesis by (cases "db_get changes (a, mid)") (auto simp: set_db_keys dom_def)
  qed
qed

lemma changes_lookup:
  assumes "iterates_once env"
  shows "unwrap_or 0 (map_of (map (\<lambda>(a, mid, i, n). ((a, mid, i), n)) (account_changes env changes)) (a, mid, i)) =
    unwrap_or 0 (Option.bind (db_get changes (a, mid)) (\<lambda>outcomes. db_get outcomes i))"
proof (cases "map_of (map (\<lambda>(a, mid, i, n). ((a, mid, i), n)) (account_changes env changes)) (a, mid, i)")
  case None
  then have "(a, mid, i, n) \<notin> set (account_changes env changes)" for n by (force simp: map_of_eq_None_iff)
  then show ?thesis using None unfolding account_changes_facts(2) [OF assms]
    by (cases "db_get changes (a, mid)") (auto simp: unwrap_or_def split: option.split)
next
  case (Some n)
  then have "(a, mid, i, n) \<in> set (account_changes env changes)" using map_of_SomeD [OF Some] by auto
  then show ?thesis using Some unfolding account_changes_facts(2) [OF assms] by (auto simp: unwrap_or_def)
qed

text \<open>The totals that the share invariant compares.\<close>

lemma wrap_i64_add: "wrap_i64 (wrap_i64 x + y) = wrap_i64 (x + y)"
proof -
  have "wrap_i64 x + y + 2 ^ 63 = (x + 2 ^ 63) mod 2 ^ 64 + y" by (simp add: wrap_i64_def)
  then have "(wrap_i64 x + y + 2 ^ 63) mod 2 ^ 64 = (x + 2 ^ 63 + y) mod 2 ^ 64" by (simp only: mod_add_left_eq)
  moreover have "x + 2 ^ 63 + y = x + y + 2 ^ 63" by simp
  ultimately show ?thesis unfolding wrap_i64_def [of "wrap_i64 x + y"] wrap_i64_def [of "x + y"] by (simp only:)
qed

lemma fold_positions:
  "length (fold (add_position mid) es ts) = length ts
    \<and> (i < length ts \<longrightarrow> wrap_i64 (ts ! i) = ts ! i \<longrightarrow>
        fold (add_position mid) es ts ! i = wrap_i64 (ts ! i + sum_list (map snd (filter (\<lambda>e. fst e = (mid, i)) es))))"
proof (induction es arbitrary: ts)
  case (Cons e es)
  let ?t = "add_position mid e ts"
  have len: "length ?t = length ts" by (simp add: add_position_def)
  have at_i: "?t ! i = (if fst e = (mid, i) then wrap_i64 (ts ! i + snd e) else ts ! i)" if "i < length ts"
    using that by (cases "fst e") (auto simp: add_position_def)
  have idem: "wrap_i64 (wrap_i64 x) = wrap_i64 x" for x using wrap_i64_add [of x 0] by simp
  show ?case using Cons.IH [of ?t] at_i by (auto simp: len idem wrap_i64_add add.assoc)
qed simp

lemma sum_at_key:
  assumes "distinct (map fst es)"
  shows "sum_list (map snd (filter (\<lambda>e. fst e = k) es)) = unwrap_or (0 :: int) (map_of es k)"
  using assms
proof (induction es)
  case (Cons e es)
  have "filter (\<lambda>x. fst x = fst e) es = []" using Cons.prems by (auto simp: filter_empty_conv image_iff)
  then show ?case using Cons by (cases e) (auto simp: unwrap_or_def)
qed (simp add: unwrap_or_def)

lemma sum_over_keys:
  fixes f :: "'v \<Rightarrow> int" and es :: "('k::finite \<times> 'v) list"
  assumes "distinct (map fst es)"
  shows "sum_list (map (\<lambda>e. f (snd e)) es) = (\<Sum>a \<in> UNIV. case map_of es a of None \<Rightarrow> 0 | Some v \<Rightarrow> f v)"
  using assms
proof (induction es)
  case (Cons e es)
  have none: "map_of es (fst e) = None" using Cons.prems by (simp add: map_of_eq_None_iff)
  have "(case map_of (e # es) a of None \<Rightarrow> 0 | Some v \<Rightarrow> f v) = (if fst e = a then f (snd e) else 0) + (case map_of es a of None \<Rightarrow> 0 | Some v \<Rightarrow> f v)" for a
    using none by (cases e) (auto split: option.split)
  then show ?case using Cons by (simp add: sum.distrib sum.delta')
qed simp

lemma account_totals_length [simp]: "length (account_totals mid n dbs) = n"
proof -
  have "length (fold (\<lambda>(_, acc). fold (add_position mid) (db_entries (positions acc))) es ts) = length ts"
    for es :: "(address \<times> share_account) list" and ts
    by (induction es arbitrary: ts) (auto simp: fold_positions)
  then show ?thesis by (simp add: account_totals_def)
qed

lemma account_totals_nth:
  assumes "i < n"
  shows "account_totals mid n dbs ! i = wrap_i64 (\<Sum>a \<in> UNIV. owned_shares a mid i dbs)"
proof -
  let ?own = "\<lambda>acc. unwrap_or 0 (db_get (positions acc) (mid, i))"
  have acc: "sum_list (map snd (filter (\<lambda>e. fst e = (mid, i)) (db_entries (positions a)))) = ?own a" for a :: share_account
    by (simp add: sum_at_key distinct_entries map_of_db_entries)
  have idem: "wrap_i64 (wrap_i64 x) = wrap_i64 x" for x using wrap_i64_add [of x 0] by simp
  have loop: "length (fold (\<lambda>(_, acc). fold (add_position mid) (db_entries (positions acc))) es ts) = length ts
      \<and> (i < length ts \<longrightarrow> wrap_i64 (ts ! i) = ts ! i \<longrightarrow> fold (\<lambda>(_, acc). fold (add_position mid) (db_entries (positions acc))) es ts ! i
          = wrap_i64 (ts ! i + sum_list (map (\<lambda>e. ?own (snd e)) es)))" for es :: "(address \<times> share_account) list" and ts
  proof (induction es arbitrary: ts)
    case (Cons e es)
    obtain a x where e: "e = (a, x)" by (cases e)
    show ?case using Cons.IH [of "fold (add_position mid) (db_entries (positions x)) ts"] fold_positions [of mid "db_entries (positions x)" ts i]
      by (auto simp: e acc idem wrap_i64_add add.assoc)
  qed simp
  have z: "wrap_i64 0 = 0" by (simp add: wrap_i64_exact)
  have "sum_list (map (\<lambda>e. ?own (snd e)) (db_entries (share_accounts dbs))) = (\<Sum>a \<in> UNIV. owned_shares a mid i dbs)"
    unfolding sum_over_keys [OF distinct_entries, of ?own] map_of_db_entries
    by (intro sum.cong) (auto simp: owned_shares_def get_user_share_account_def unwrap_or_def split: option.split)
  then show "account_totals mid n dbs ! i = wrap_i64 (\<Sum>a \<in> UNIV. owned_shares a mid i dbs)"
    using loop [of "db_entries (share_accounts dbs)" "replicate n 0"] assms z by (simp add: account_totals_def)
qed

lemma share_inv_verified:
  assumes "share_inv dbs" and "trading_market mid dbs = Some m"
  shows "verify_share_invariant mid dbs = Inr ()"
proof -
  have "mk_shares m = account_totals mid (length (mk_shares m)) dbs"
  proof (rule nth_equalityI)
    show "length (mk_shares m) = length (account_totals mid (length (mk_shares m)) dbs)" by simp
    fix i assume i: "i < length (mk_shares m)"
    have "(\<Sum>a \<in> UNIV. owned_shares a mid i dbs) = mk_shares m ! i" "mk_shares m ! i < 2 ^ 63"
      using assms(1,2) i unfolding share_inv_def by blast+
    moreover have "0 \<le> (\<Sum>a \<in> UNIV. owned_shares a mid i dbs)" using assms(1) by (intro sum_nonneg) (simp add: share_inv_def)
    ultimately show "mk_shares m ! i = account_totals mid (length (mk_shares m)) dbs ! i"
      by (simp add: account_totals_nth [OF i] wrap_i64_exact)
  qed
  then show ?thesis using assms(2) by (simp add: verify_share_invariant_def ok_or_def trading_market_iff)
qed

lemma try_fold_checks: "\<forall>x \<in> set xs. f x () = Inr () \<Longrightarrow> try_fold f xs () = Inr ()"
  by (induction xs) simp_all

definition market_inv :: "markets_dbs \<Rightarrow> bool" where
  "market_inv dbs \<longleftrightarrow> share_inv dbs \<and> (\<forall>mid m. get_market mid dbs = Some m \<longrightarrow> market_shaped mid m)"

lemma untraded_deltas:
  assumes "k \<notin> mu_market ` set (su_market_updates su)" shows "market_deltas k su = []"
  using assms by (force simp: market_deltas_def List.map_filter_def filter_empty_conv)

lemma written_shares:
  assumes "running_inv dbs su" and "trades_only dbs su" and "market_inv dbs" and "iterates_once env"
  shows "\<exists>d. try_fold (apply_market_deltas height su) (updated_markets env su) dbs = Inr d \<and> share_accounts d = share_accounts dbs
    \<and> (\<forall>k. get_market k d = None \<longleftrightarrow> get_market k dbs = None) \<and> at_running dbs su d"
proof -
  let ?mids = "updated_markets env su"
  have mids: "distinct ?mids" "set ?mids = mu_market ` set (su_market_updates su)"
    using assms(2,4) by (fastforce simp: updated_markets_def iterates_once_def trades_only_def)+
  have known: "\<exists>m. trading_market k dbs = Some m" if "k \<in> set ?mids" for k using that assms(2) mids(2) by (fastforce simp: trades_only_def)
  have "\<forall>k \<in> set ?mids. \<exists>m xs. get_market k dbs = Some m \<and> market_shaped k m
      \<and> try_fold add_at (market_deltas k su) (mk_shares m) = Inr xs \<and> length xs = length (mk_shares m)"
  proof
    fix k assume "k \<in> set ?mids"
    then obtain m where m: "trading_market k dbs = Some m" using known by blast
    moreover have "\<exists>xs. try_fold add_at (market_deltas k su) (mk_shares m) = Inr xs \<and> length xs = length (mk_shares m)"
      using assms(1) m unfolding running_inv_def by blast
    ultimately show "\<exists>m xs. get_market k dbs = Some m \<and> market_shaped k m
      \<and> try_fold add_at (market_deltas k su) (mk_shares m) = Inr xs \<and> length xs = length (mk_shares m)"
      using assms(3) by (auto simp: market_inv_def trading_market_iff)
  qed
  from deltas_loop_ok [OF mids(1) this, of height] obtain d where d: "try_fold (apply_market_deltas height su) ?mids dbs = Inr d"
      "share_accounts d = share_accounts dbs" "\<forall>k. k \<notin> set ?mids \<longrightarrow> get_market k d = get_market k dbs"
      "\<forall>k \<in> set ?mids. \<exists>m xs m'. get_market k dbs = Some m \<and> try_fold add_at (market_deltas k su) (mk_shares m) = Inr xs
         \<and> get_market k d = Some m' \<and> market_shaped k m' \<and> mk_shares m' = xs \<and> same_terms m m'" by blast
  have "get_market k d = None \<longleftrightarrow> get_market k dbs = None" for k using d(3,4) by (cases "k \<in> set ?mids") fastforce+
  moreover have "at_running dbs su d"
    unfolding at_running_def
  proof (intro allI impI)
    fix k m assume m: "get_market k dbs = Some m"
    show "\<exists>m'. get_market k d = Some m' \<and> market_shaped k m' \<and> try_fold add_at (market_deltas k su) (mk_shares m) = Inr (mk_shares m') \<and> same_terms m m'"
    proof (cases "k \<in> set ?mids")
      case True
      then show ?thesis using d(4) m by fastforce
    next
      case False
      then show ?thesis using d(3) m assms(3) untraded_deltas [of k su] mids(2) by (simp add: market_inv_def same_terms_def)
    qed
  qed
  ultimately show ?thesis using d(1,2) by blast
qed

text \<open>Markets that carry the running shares, with the running holdings, satisfy the invariant.\<close>

lemma at_running_inv:
  assumes "running_inv dbs su" and "at_running dbs su d" and "\<forall>k. get_market k d = None \<longleftrightarrow> get_market k dbs = None"
    and "\<forall>a mid i. owned_shares a mid i d = running_owned dbs su a mid i"
  shows "market_inv d"
proof -
  have old: "\<exists>m. get_market k dbs = Some m \<and> market_shaped k m' \<and> try_fold add_at (market_deltas k su) (mk_shares m) = Inr (mk_shares m')
      \<and> mk_market_state m' = mk_market_state m" if "get_market k d = Some m'" for k m'
  proof -
    have "get_market k dbs \<noteq> None" using assms(3) that by (metis option.distinct(1))
    then obtain m where m: "get_market k dbs = Some m" by blast
    then show ?thesis using assms(2) that unfolding at_running_def same_terms_def by fastforce
  qed
  have "(\<Sum>a \<in> UNIV. owned_shares a k i d) = mk_shares m' ! i \<and> mk_shares m' ! i < 2 ^ 63"
    if m': "trading_market k d = Some m'" and i: "i < length (mk_shares m')" for k m' i
  proof -
    obtain m where m: "get_market k dbs = Some m" "try_fold add_at (market_deltas k su) (mk_shares m) = Inr (mk_shares m')"
      "mk_market_state m' = mk_market_state m" using old m' by (auto simp: trading_market_iff)
    then have "trading_market k dbs = Some m" using m' by (simp add: trading_market_iff)
    then show ?thesis using assms(1,4) m(2) i unfolding running_inv_def by fastforce
  qed
  then have "share_inv d" using assms(1,4) unfolding share_inv_def running_inv_def by simp
  then show ?thesis using old by (auto simp: market_inv_def)
qed

lemma block_written:
  assumes "market_inv dbs" and "apply_trades lib txid_of dbs ftxs = Inr (su, skipped)"
    and "\<forall>ftx \<in> set ftxs. trade_i64 (t_data (ft_transaction ftx))" and "iterates_once env"
  shows "\<exists>dbs'. apply_market_changes env height su dbs = Inr dbs' \<and> market_inv dbs'
    \<and> (\<forall>a mid i. owned_shares a mid i dbs' = running_owned dbs su a mid i) \<and> at_running dbs su dbs' \<and> running_inv dbs su"
proof -
  have sh: "share_inv dbs" using assms(1) by (simp add: market_inv_def)
  have "\<forall>e \<in> set (List.enumerate 0 ftxs). trade_i64 (t_data (ft_transaction (snd e)))"
    using assms(3) by (auto simp: in_set_enumerate_eq)
  then have inv: "running_inv dbs su" "trades_only dbs su"
    using apply_trades_inv [OF assms(2) [unfolded apply_trades_def] sh running_inv_new [OF sh] trades_only_new] by auto
  obtain d where d: "try_fold (apply_market_deltas height su) (updated_markets env su) dbs = Inr d" "share_accounts d = share_accounts dbs"
      "\<forall>k. get_market k d = None \<longleftrightarrow> get_market k dbs = None" "at_running dbs su d"
    using written_shares [OF inv assms(1,4)] by blast
  have own: "owned_shares a mid i d = owned_shares a mid i dbs" for a mid i by (simp add: owned_shares_def get_user_share_account_def d(2))
  let ?es = "account_changes env (su_share_account_changes su)"
  note es = account_changes_facts [OF assms(4), where changes = "su_share_account_changes su"]
  have pend: "n = pending_delta a mid i su" if "(a, mid, i, n) \<in> set ?es" for a mid i n
    using that unfolding es(2) by (auto simp: pending_delta_def unwrap_or_def)
  have range: "\<forall>(a, mid, i, n) \<in> set ?es. 0 \<le> owned_shares a mid i d + n \<and> owned_shares a mid i d + n < 2 ^ 63"
  proof (intro ballI, clarify)
    fix a mid i n assume mem: "(a, mid, i, n) \<in> set ?es"
    show "0 \<le> owned_shares a mid i d + n \<and> owned_shares a mid i d + n < 2 ^ 63"
      using inv(1) unfolding pend [OF mem] own running_inv_def running_owned_def by blast
  qed
  have "\<forall>a mid i. 0 \<le> owned_shares a mid i d \<and> owned_shares a mid i d < 2 ^ 63" using sh by (simp add: share_inv_def own)
  from change_accounts_ok [OF es(1) this range, of height] obtain x where
    x: "try_fold (change_account height) ?es d = Inr (d \<lparr> share_accounts := x \<rparr>)"
      "\<forall>a mid i. owned_shares a mid i (d \<lparr> share_accounts := x \<rparr>) =
         owned_shares a mid i d + unwrap_or 0 (map_of (map (\<lambda>(a, mid, i, n). ((a, mid, i), n)) ?es) (a, mid, i))" by blast
  let ?d = "d \<lparr> share_accounts := x \<rparr>"
  have "unwrap_or 0 (map_of (map (\<lambda>(a, mid, i, n). ((a, mid, i), n)) ?es) (a, mid, i)) = pending_delta a mid i su" for a mid i
    by (simp add: changes_lookup [OF assms(4)] pending_delta_def)
  then have own': "owned_shares a mid i ?d = running_owned dbs su a mid i" for a mid i using x(2) by (simp add: own running_owned_def)
  have at: "at_running dbs su ?d" using d(4) by (simp add: at_running_def get_market_def)
  have inv': "market_inv ?d"
    by (rule at_running_inv [OF inv(1) at]) (use d(3) own' in \<open>simp_all add: get_market_def\<close>)
  have "verify_share_invariant mid ?d = Inr ()" if mem: "mid \<in> set (map snd (db_keys (su_share_account_changes su)))" for mid
  proof -
    obtain a y where "db_get (su_share_account_changes su) (a, mid) = Some y" using mem by (auto simp: set_db_keys)
    then obtain m where m: "trading_market mid dbs = Some m" using inv(2) unfolding trades_only_def by force
    then obtain m' where "get_market mid ?d = Some m'" "mk_market_state m' = mk_market_state m"
      using at unfolding at_running_def same_terms_def trading_market_iff by blast
    then have "trading_market mid ?d = Some m'" using m by (simp add: trading_market_iff)
    then show ?thesis using share_inv_verified inv' by (auto simp: market_inv_def)
  qed
  then have "try_fold (\<lambda>mid _. verify_share_invariant mid ?d) (te_hash_set env (map snd (db_keys (su_share_account_changes su)))) () = Inr ()"
    using assms(4) by (intro try_fold_checks) (simp add: iterates_once_def)
  moreover have "amplified_markets env su = []"
    using inv(2) assms(4) by (metis amplified_markets_def iterates_once_def list.map(1) set_empty trades_only_def)
  moreover have "su_market_creations su = []" using inv(2) by (simp add: trades_only_def)
  ultimately have "apply_market_changes env height su dbs = Inr ?d" using d(1) x(1) by (simp add: apply_market_changes_def)
  then show ?thesis using inv' own' at inv(1) by (intro exI [of _ ?d]) simp
qed

text \<open>
  C8. The trades of a block never create shares and never oversell. Take tables with the market invariant: every
  holding is a nonnegative 64-bit number, the shares of every market that is open for trading are the sums of
  the holdings of all addresses, and every market is stored under its identifier with one volume for each
  outcome. After any sequence of trades that the block accepts one after the other, writing them at the end
  of the block succeeds, so the check of the share invariant passes; every holding is the old holding plus
  the changes of the block and not negative, and the invariant holds again, whether or not other markets
  have been settled before.
\<close>

theorem block_trades_keep_shares:
  assumes "market_inv dbs" and "apply_trades lib txid_of dbs ftxs = Inr (su, skipped)"
    and "\<forall>ftx \<in> set ftxs. trade_i64 (t_data (ft_transaction ftx))" and "iterates_once env"
  shows "\<exists>dbs'. apply_market_changes env height su dbs = Inr dbs' \<and> market_inv dbs'
    \<and> (\<forall>a mid i. owned_shares a mid i dbs' = owned_shares a mid i dbs + pending_delta a mid i su \<and> 0 \<le> owned_shares a mid i dbs')"
  using block_written [OF assms, of height] by (fastforce simp: running_owned_def running_inv_def)

section \<open>The volume that a disconnection takes back\<close>

lemma apply_trade_priced:
  assumes "apply_trade lib txid_of dbs ftx su = Inr (Applied, su')" and "t_data (ft_transaction ftx) = Some (Trade mid i n trader limit)"
  obtains m effective beta new v where "trading_market mid dbs = Some m" "running_market_state lib mid m su = Inr (effective, beta)"
    "add_at (i, n) effective = Inr new" "0 \<le> new ! i" "mu_volume_sats (last (su_market_updates su')) = Some v"
    "market_deltas mid su' = market_deltas mid su @ [(i, n)]" "market_volumes mid su' = market_volumes mid su @ [(i, n, Some v)]"
    "0 < n \<Longrightarrow> \<exists>c bc. calculate_update_cost lib effective new beta = Inr c \<and> calculate_buy_cost c (mk_trading_fee m) = Inr bc \<and> v = total_cost_sats bc"
    "\<not> 0 < n \<Longrightarrow> \<exists>c sp. calculate_update_cost lib new effective beta = Inr c \<and> calculate_sell_proceeds c (mk_trading_fee m) = Inr sp
        \<and> v = net_proceeds_sats sp"
proof -
  obtain m effective beta where m: "get_market mid dbs = Some m" "allows_trading (mk_market_state m)" "running_market_state lib mid m su = Inr (effective, beta)"
    using assms by (auto simp: apply_trade_def Let_def split: if_splits)
  obtain new inp where new: "add_at (i, n) effective = Inr new" "\<not> new ! i < 0" "spent_bitcoin_value ftx = Inr inp"
    using assms m by (auto simp: apply_trade_def Let_def split: if_splits)
  let ?txid = "txid_of (ft_transaction ftx)"
  let ?side = "if 0 < n then buy_side lib m ?txid mid trader limit inp effective new beta su
      else sell_side lib m ?txid mid i n trader limit inp effective new beta dbs su"
  have "rbind ?side (\<lambda>side. case side of Inl reason \<Rightarrow> Inr (Skipped reason, su) | Inr (v, fee, su1) \<Rightarrow> Inr (Applied,
        add_share_account_change trader mid i n (add_market_update \<lparr> mu_market = mid, mu_share_delta = Some (i, n),
         mu_transaction_id = Some ?txid, mu_volume_sats = Some v, mu_fee_sats = Some fee \<rparr> su1))) = Inr (Applied, su')"
    using assms m new by (simp add: apply_trade_def ok_or_def Let_def)
  then obtain v fee su1 where side: "?side = Inr (Inr (v, fee, su1))"
    and su': "su' = add_share_account_change trader mid i n (add_market_update \<lparr> mu_market = mid, mu_share_delta = Some (i, n),
         mu_transaction_id = Some ?txid, mu_volume_sats = Some v, mu_fee_sats = Some fee \<rparr> su1)"
    by (cases ?side) (auto split: sum.splits prod.splits)
  have "same_changes su su1"
    using side conjunct1 [OF sell_side_same] by (cases "0 < n") (simp_all add: buy_side_same)
  then have "market_deltas mid su' = market_deltas mid su @ [(i, n)]" "market_volumes mid su' = market_volumes mid su @ [(i, n, Some v)]"
      "mu_volume_sats (last (su_market_updates su')) = Some v"
    using same_changes_reads(2) by (simp_all add: su' market_deltas_add)
      (simp_all add: add_share_account_change_def add_market_update_def market_volumes_def same_changes_def List.map_filter_def Let_def)
  moreover have "\<exists>c bc. calculate_update_cost lib effective new beta = Inr c \<and> calculate_buy_cost c (mk_trading_fee m) = Inr bc \<and> v = total_cost_sats bc" if "0 < n"
    using side that by (auto simp: buy_side_def split: if_splits)
  moreover have "\<exists>c sp. calculate_update_cost lib new effective beta = Inr c \<and> calculate_sell_proceeds c (mk_trading_fee m) = Inr sp
        \<and> v = net_proceeds_sats sp" if "\<not> 0 < n"
    using side that by (auto simp: sell_side_def Let_def split: if_splits)
  moreover have "trading_market mid dbs = Some m" using m(1,2) by (simp add: trading_market_iff)
  ultimately show ?thesis using that [OF _ m(3) new(1)] new(2) by simp
qed

lemma sell_proceeds_parts: "calculate_sell_proceeds c f = Inr sp \<Longrightarrow>
    gross_proceeds_sats sp = net_proceeds_sats sp + sp_trading_fee_sats sp \<and> MIN_TRADING_FEE_SATS \<le> sp_trading_fee_sats sp"
  by (auto simp: calculate_sell_proceeds_def Let_def split: if_splits)

text \<open>
  What the disconnection of a trade takes off the traded volume is recomputed from the shares after the trade
  and before it. For a buy this is the volume that the trade added; for a sale it is the proceeds before
  the fee, of which the trade added only what was left after the fee.
\<close>

lemma reverted_volume_value:
  assumes "running_market_state lib mid m su = Inr (effective, beta)" and "add_at (i, n) effective = Inr new"
    and "0 < n \<Longrightarrow> \<exists>c bc. calculate_update_cost lib effective new beta = Inr c \<and> calculate_buy_cost c (mk_trading_fee m) = Inr bc
        \<and> v = total_cost_sats bc"
    and "\<not> 0 < n \<Longrightarrow> \<exists>c sp. calculate_update_cost lib new effective beta = Inr c \<and> calculate_sell_proceeds c (mk_trading_fee m) = Inr sp
        \<and> v = net_proceeds_sats sp"
    and "pending_amplify mid su = 0" and "mk_liquidity_base_sats m < 2 ^ 64" and "same_terms m m'" and "mk_shares m' = new"
  shows "\<exists>fee. reverted_volume lib m' (0 < n) effective = Inr (v + fee) \<and> (if 0 < n then fee = 0 else MIN_TRADING_FEE_SATS \<le> fee)"
proof -
  have "length new = length effective" using assms(2) by (auto simp: add_at_def split: if_splits)
  then have "beta = market_beta lib m'"
    using assms(1,5-8) by (auto simp: running_market_state_def market_beta_def saturating_add_def same_terms_def)
  then show ?thesis
    using assms(3,4,7,8) sell_proceeds_parts by (cases "0 < n") (fastforce simp: reverted_volume_def same_terms_def)+
qed

section \<open>An example\<close>

definition sale_market :: market where
  "sale_market = toss_market \<lparr> mk_shares := [2048, 0], mk_liquidity_base_sats := 32, mk_trading_fee := F_Zero False,
     mk_outcome_volumes_sats := [5000, 0], mk_total_volume_sats := 5000 \<rparr>"

definition sale_dbs :: markets_dbs where
  "sale_dbs = markets_dbs_new \<lparr> md_markets := db_put db_empty 9 sale_market,
     share_accounts := db_put db_empty 7 \<lparr> positions = db_put db_empty (9, 0) 2048, sa_last_updated = 2 \<rparr> \<rparr>"

definition sale_tx :: filled_transaction where
  "sale_tx = \<lparr> ft_transaction = \<lparr> t_inputs = [], t_outputs = [], t_memo = [], t_data = Some (Trade 9 0 (- 2048) 7 500) \<rparr>,
     ft_spent_utxos = [bitcoin_output 7 3000], ft_actor_address = None \<rparr>"

lemma sixty_four_in_range: "\<not> f_le (F_Num 64) MIN_BETA" "\<not> f_le MAX_BETA (F_Num 64)"
proof -
  have sixty: "F_Num 64 = f_of_nat 64" by code_simp
  show "\<not> f_le (F_Num 64) MIN_BETA" "\<not> f_le MAX_BETA (F_Num 64)"
    using literal_small [of "1 / 10 ^ 6"] literal_MAX_BETA f_of_nat_exact [of 64]
    by (simp_all add: f_le_nonneg MIN_BETA_def sixty)
qed

lemma sale_cost_after: "cost_function example_libm (F_Num 64) [F_Zero False, F_Zero False] = Inr (F_Num 32)"
proof -
  have "f_max (F_Inf True) (F_Zero False) = F_Zero False" "f_max (F_Zero False) (F_Zero False) = F_Zero False" by (simp_all add: f_max_def)
  moreover have "f_div (f_sub (F_Zero False) (F_Zero False)) (F_Num 64) = F_Zero False" "f_div (F_Zero False) (F_Num 64) = F_Zero False"
    by (simp_all add: f_sub_def f_div_def round_mag_eq)
  moreover have "f_add (F_Zero False) (F_Num 1) = F_Num 1" by code_simp
  moreover have "f_add (F_Num 1) (F_Num 1) = F_Num 2" by code_simp
  moreover have "f_add (F_Num (1 / 2)) (F_Zero False) = F_Num (1 / 2)" by code_simp
  moreover have "f_mul (F_Num 64) (F_Num (1 / 2)) = F_Num 32" by code_simp
  ultimately show ?thesis
    using sixty_four_in_range
    by (simp add: cost_function_def calculate_core_exp_ln_def example_libm_def f_le_def Let_def del: f_add.simps)
qed

lemma sale_cost_before: "cost_function example_libm (F_Num 64) [F_Num 2048, F_Zero False] = Inr (F_Num 2080)"
proof -
  have "f_max (F_Inf True) (F_Num 2048) = F_Num 2048" "f_max (F_Num 2048) (F_Zero False) = F_Num 2048" by (simp_all add: f_max_def)
  moreover have "f_div (f_sub (F_Num 2048) (F_Num 2048)) (F_Num 64) = F_Zero False" by (simp add: f_sub_def f_div_def round_mag_eq)
  moreover have "f_sub (F_Zero False) (F_Num 2048) = F_Num (- 2048)" by code_simp
  moreover have "f_div (F_Num (- 2048)) (F_Num 64) = F_Num (- 32)" by code_simp
  moreover have "f_add (F_Zero False) (F_Num 1) = F_Num 1" by code_simp
  moreover have "f_add (F_Num 1) (F_Num (1 / 2)) = F_Num (3 / 2)" by code_simp
  moreover have "f_div (F_Num 2048) (F_Num 64) = F_Num 32" by code_simp
  moreover have "f_add (F_Num (1 / 2)) (F_Num 32) = F_Num (65 / 2)" by code_simp
  moreover have "f_mul (F_Num 64) (F_Num (65 / 2)) = F_Num 2080" by code_simp
  ultimately show ?thesis
    using sixty_four_in_range
    by (simp add: cost_function_def calculate_core_exp_ln_def example_libm_def f_le_def Let_def del: f_add.simps)
qed

lemma sale_cost: "calculate_update_cost example_libm [0, 0] [2048, 0] (F_Num 64) = Inr (F_Num 2048)"
proof -
  have "f_of_int 2048 = F_Num 2048" by code_simp
  moreover have "f_of_int 0 = F_Zero False" by (simp add: f_of_int_def)
  moreover have "f_sub (F_Num 2080) (F_Num 32) = F_Num 2048" by code_simp
  ultimately show ?thesis by (simp add: calculate_update_cost_def lmsr_update_cost_def shares_to_f64_def sale_cost_after sale_cost_before)
qed

lemma sale_beta: "derive_beta_from_liquidity example_libm 32 (Suc (Suc 0)) = F_Num 64"
proof -
  have "f_of_nat 32 = F_Num 32" by code_simp
  moreover have "f_div (F_Num 32) (F_Num (1 / 2)) = F_Num 64" by code_simp
  ultimately show ?thesis by (simp add: derive_beta_from_liquidity_def example_libm_def f_le_def Let_def)
qed

lemma sale_proceeds: "calculate_sell_proceeds (F_Num 2048) (F_Zero False) =
    Inr \<lparr> gross_proceeds_sats = 2048, sp_trading_fee_sats = 1000, net_proceeds_sats = 1048 \<rparr>"
proof -
  have "to_sats (F_Num 2048) RoundDown = Inr 2048" by (simp add: to_sats_eq round_mode_def)
  moreover have "f_mul (F_Num 2048) (F_Zero False) = F_Zero False" by (simp add: f_mul_def round_mag_eq)
  moreover have "to_sats (F_Zero False) RoundNearest = Inr 0" by (simp add: to_sats_eq round_mode_def)
  ultimately show ?thesis by (simp add: calculate_sell_proceeds_def MIN_TRADING_FEE_SATS_def Let_def)
qed


lemma sale_market_facts: "mk_shares sale_market = [2048, 0]" "mk_liquidity_base_sats sale_market = 32" "mk_trading_fee sale_market = F_Zero False"
  "mk_market_state sale_market = MarketTrading" "get_market k sale_dbs = (if k = 9 then Some sale_market else None)" "market_shaped 9 sale_market"
  by (simp_all add: sale_market_def toss_market_def sale_dbs_def get_market_def market_shaped_def)

lemma sale_owned: "owned_shares a mid i sale_dbs = (if (a, mid, i) = (7, 9, 0) then 2048 else 0)"
  by (auto simp: owned_shares_def get_user_share_account_def sale_dbs_def unwrap_or_def)

lemma sale_inv: "market_inv sale_dbs"
proof -
  have "(\<Sum>a \<in> UNIV. owned_shares a 9 i sale_dbs) = (if i = 0 then 2048 else 0)" for i
    by (cases "i = 0") (auto simp: sale_owned sum.delta)
  then have "share_inv sale_dbs"
    by (auto simp: share_inv_def trading_market_iff sale_owned sale_market_facts nth_Cons' split: if_splits)
  then show ?thesis by (simp add: market_inv_def sale_market_facts)
qed

definition sale_txid :: "transaction \<Rightarrow> txid" where
  "sale_txid t = 3"

lemma sale_applied: "\<exists>su. apply_trade example_libm sale_txid sale_dbs sale_tx state_update_new = Inr (Applied, su)"
proof -
  have "running_market_state example_libm 9 sale_market state_update_new = Inr ([2048, 0], F_Num 64)"
    by (simp add: running_market_state_def market_deltas_def state_update_new_def List.map_filter_def sale_market_facts
        pending_amplify_def wrapping_sum_def saturating_add_def sale_beta)
  moreover have "add_at (0, - 2048) [2048, 0] = Inr [0, 0]" by (simp add: add_at_def wrap_i64_def)
  moreover have "spent_bitcoin_value sale_tx = Inr 3000" 
    by (simp add: spent_bitcoin_value_def sale_tx_def checked_sum_eq)
  moreover have "pending_delta 7 9 0 state_update_new = 0" by (simp add: pending_delta_def state_update_new_def unwrap_or_def)
  then have "\<exists>x. sell_side example_libm sale_market 3 9 0 (- 2048) 7 500 3000 [2048, 0] [0, 0] (F_Num 64) sale_dbs state_update_new = Inr (Inr x)"
    by (simp add: sell_side_def sale_owned sale_cost sale_market_facts sale_proceeds wrap_i64_def Let_def)
  ultimately show ?thesis
    by (auto simp: apply_trade_def sale_tx_def sale_txid_def sale_market_facts ok_or_def allows_trading_def)
qed

theorem block_trades_keep_shares_witness:
  "\<exists>su dbs'. apply_trades example_libm sale_txid sale_dbs [sale_tx] = Inr (su, [])
     \<and> apply_market_changes example_trade_env 5 su sale_dbs = Inr dbs' \<and> market_inv dbs'"
proof -
  obtain su where su: "apply_trade example_libm sale_txid sale_dbs sale_tx state_update_new = Inr (Applied, su)" using sale_applied by blast
  then have "apply_trades example_libm sale_txid sale_dbs [sale_tx] = Inr (su, [])" by (simp add: apply_trades_def apply_trade_tx_def)
  moreover from block_trades_keep_shares [OF sale_inv this _ example_once, of 5]
  have "\<exists>dbs'. apply_market_changes example_trade_env 5 su sale_dbs = Inr dbs' \<and> market_inv dbs'"
    by (auto simp: sale_tx_def i64_def)
  ultimately show ?thesis by blast
qed


end
