(* ===== verification/TradeUndo.thy ===== *)
theory TradeUndo
  imports Trading
begin

text \<open>
  Disconnecting the trades of a block (\<open>revert_trade_market_state\<close> and the batched share changes of
  \<open>disconnect_tip\<close> in \<open>lib/state/block.rs\<close>): in the reverse order of the block every trade finds the running shares
  that it left, so that its cost is recomputed, its shares are taken back and the holdings return.
\<close>

section \<open>One trade\<close>

definition bases_fit :: "markets_dbs \<Rightarrow> bool" where
  "bases_fit dbs \<longleftrightarrow> (\<forall>mid m. get_market mid dbs = Some m \<longrightarrow> mk_liquidity_base_sats m < 2 ^ 64)"

lemma revert_delete_markets [simp]: "ss_markets (revert_delete_utxo op s) = ss_markets s"
  using delete_fold(5) [of "[op]" s] by simp

lemma trades_only_amplify: "trades_only dbs su \<Longrightarrow> pending_amplify mid su = 0"
proof -
  assume "trades_only dbs su"
  then have "filter (\<lambda>b. pb_market b = mid \<and> pb_is_amplify b) (su_pending_buy_settlements su) = []"
    by (auto simp: trades_only_def filter_empty_conv)
  then show ?thesis by (simp add: pending_amplify_def wrapping_sum_def)
qed

lemma apply_trade_data:
  assumes "apply_trade lib txid_of dbs ftx su = Inr (r, su')"
  obtains mid i n trader limit where "t_data (ft_transaction ftx) = Some (Trade mid i n trader limit)"
proof (cases "t_data (ft_transaction ftx)")
  case (Some d)
  then show ?thesis using assms that by (cases d) (auto simp: apply_trade_def)
qed (use assms in \<open>simp add: apply_trade_def\<close>)

lemma skipped_same:
  assumes "apply_trade lib txid_of dbs ftx su = Inr (Skipped reason, su')" shows "su' = su"
  by (rule apply_trade_cases [OF assms]) simp_all

text \<open>An applied trade: where it finds the market, where it leaves it, and what it adds to the holdings.\<close>

lemma applied_step:
  assumes "apply_trade lib txid_of dbs ftx su = Inr (Applied, su')" and "t_data (ft_transaction ftx) = Some (Trade mid i n trader limit)"
    and "share_inv dbs" and "running_inv dbs su" and "i64 n" and "trading_market mid dbs = Some m"
    and "try_fold add_at (market_deltas mid su) (mk_shares m) = Inr xs"
  shows "i < length xs" and "0 \<le> xs ! i + n" and "xs ! i + n < 2 ^ 63" and "0 \<le> xs ! i" and "xs ! i < 2 ^ 63"
    and "try_fold add_at (market_deltas mid su') (mk_shares m) = Inr (xs[i := xs ! i + n])"
    and "\<forall>a k j. pending_delta a k j su' = pending_delta a k j su + (if (a, k, j) = (trader, mid, i) then n else 0)"
    and "\<forall>k. k \<noteq> mid \<longrightarrow> market_deltas k su' = market_deltas k su"
proof -
  have run: "length xs = length (mk_shares m)" "\<forall>j < length xs. (\<Sum>a \<in> UNIV. running_owned dbs su a mid j) = xs ! j \<and> xs ! j < 2 ^ 63"
  proof -
    obtain ys where "try_fold add_at (market_deltas mid su) (mk_shares m) = Inr ys" "length ys = length (mk_shares m)"
        "\<forall>j < length ys. (\<Sum>a \<in> UNIV. running_owned dbs su a mid j) = ys ! j \<and> ys ! j < 2 ^ 63"
      using assms(4,6) unfolding running_inv_def by blast
    moreover from this(1) have "ys = xs" using assms(7) by simp
    ultimately show "length xs = length (mk_shares m)" "\<forall>j < length xs. (\<Sum>a \<in> UNIV. running_owned dbs su a mid j) = xs ! j \<and> xs ! j < 2 ^ 63" by simp_all
  qed
  have "(0 \<le> xs ! i + n \<and> xs ! i + n < 2 ^ 63 \<and> i < length xs \<and> market_deltas mid su' = market_deltas mid su @ [(i, n)]
      \<and> (\<forall>a k j. pending_delta a k j su' = pending_delta a k j su + (if (a, k, j) = (trader, mid, i) then n else 0))
      \<and> (\<forall>k. k \<noteq> mid \<longrightarrow> market_deltas k su' = market_deltas k su))"
  proof (rule apply_trade_cases [OF assms(1)])
    fix reason assume "Applied = Skipped reason"
    then show ?thesis by simp
  next
    fix mid' i' n' trader' limit' m' effective v su1 fee
    assume t: "t_data (ft_transaction ftx) = Some (Trade mid' i' n' trader' limit')"
      "trading_market mid' dbs = Some m'" "try_fold add_at (market_deltas mid' su) (mk_shares m') = Inr effective" "i' < length effective"
      "0 \<le> wrap_i64 (effective ! i' + n')" "same_changes su su1"
      "0 < n' \<or> wrap_i64 \<bar>n'\<bar> \<le> wrap_i64 (running_owned dbs su trader' mid' i')"
      "su' = add_share_account_change trader' mid' i' n' (add_market_update \<lparr> mu_market = mid', mu_share_delta = Some (i', n'),
         mu_transaction_id = Some (txid_of (ft_transaction ftx)), mu_volume_sats = Some v, mu_fee_sats = Some fee \<rparr> su1)"
    have same: "mid' = mid" "i' = i" "n' = n" "trader' = trader" using t(1) assms(2) by simp_all
    then have "effective = xs" using t(2,3) assms(6,7) by simp
    have i64: "i64 n'" using assms(5) same by simp
    note step = running_step [OF assms(4,3) t(2) i64 t(3-8)]
    have "market_deltas k su' = market_deltas k su @ (if k = mid then [(i, n)] else [])" for k
      using same_changes_reads(2) [OF t(6)] by (simp add: t(8) market_deltas_add same)
    then show ?thesis using step(2-) t(4) \<open>effective = xs\<close> same by simp
  qed
  then show "i < length xs" "0 \<le> xs ! i + n" "xs ! i + n < 2 ^ 63"
    "\<forall>a k j. pending_delta a k j su' = pending_delta a k j su + (if (a, k, j) = (trader, mid, i) then n else 0)"
    "\<forall>k. k \<noteq> mid \<longrightarrow> market_deltas k su' = market_deltas k su"
    "try_fold add_at (market_deltas mid su') (mk_shares m) = Inr (xs[i := xs ! i + n])"
    using assms(7) by (auto simp: try_fold_append add_at_def wrap_i64_exact)
  then show "0 \<le> xs ! i" "xs ! i < 2 ^ 63"
    using run(2) assms(4) sum_nonneg [of UNIV "\<lambda>a. running_owned dbs su a mid i"] by (auto simp: running_inv_def)
qed


lemma revert_step:
  assumes "apply_trade lib txid_of dbs ftx su = Inr (Applied, su')" and "t_data (ft_transaction ftx) = Some (Trade mid i n trader limit)"
    and "share_inv dbs" and "running_inv dbs su" and "trades_only dbs su" and "i64 n" and "bases_fit dbs" and "at_running dbs su' (ss_markets s)"
  shows "\<exists>s'. revert_trade_market_state env lib txid_of height ftx s = Inr (s', (trader, mid, i, - n)) \<and> at_running dbs su (ss_markets s')
    \<and> share_accounts (ss_markets s') = share_accounts (ss_markets s)"
proof (rule apply_trade_priced [OF assms(1,2)])
  fix m effective beta new v
  assume tm: "trading_market mid dbs = Some m"
    and run: "running_market_state lib mid m su = Inr (effective, beta)" and add: "add_at (i, n) effective = Inr new"
    and buy: "0 < n \<Longrightarrow> \<exists>c bc. calculate_update_cost lib effective new beta = Inr c \<and> calculate_buy_cost c (mk_trading_fee m) = Inr bc
        \<and> v = total_cost_sats bc"
    and sell: "\<not> 0 < n \<Longrightarrow> \<exists>c sp. calculate_update_cost lib new effective beta = Inr c \<and> calculate_sell_proceeds c (mk_trading_fee m) = Inr sp
        \<and> v = net_proceeds_sats sp"
  note t = conjunct1 [OF tm [unfolded trading_market_iff]] run add
  have eff: "try_fold add_at (market_deltas mid su) (mk_shares m) = Inr effective" using t(2) by (auto simp: running_market_state_def)
  note st = applied_step [OF assms(1-4,6) tm eff]
  have new: "new = effective[i := effective ! i + n]" using t(3) st(1-3) by (simp add: add_at_def wrap_i64_exact)
  obtain m' where m': "get_market mid (ss_markets s) = Some m'" "market_shaped mid m'" "mk_shares m' = new"
      "mk_liquidity_base_sats m' = mk_liquidity_base_sats m" "mk_trading_fee m' = mk_trading_fee m" "mk_market_state m' = mk_market_state m"
    using assms(8) t(1) st(6) unfolding at_running_def new same_terms_def by fastforce
  have n: "wrap_i64 \<bar>n\<bar> = \<bar>n\<bar>" "wrap_i64 (- n) = - n" using st(2-5) assms(6) by (auto simp: wrap_i64_exact i64_def)
  have pre: "add_at (i, - n) (mk_shares m') = Inr effective"
    using st(1,4,5) by (simp add: m'(3) new add_at_def wrap_i64_exact)
  have beta: "beta = market_beta lib m'"
    using t(1,2) eff trades_only_amplify [OF assms(5), of mid] assms(7) by (auto simp: running_market_state_def market_beta_def m' new saturating_add_def bases_fit_def)
  obtain vol where vol: "reverted_volume lib m' (0 < n) effective = Inr vol"
    using buy sell by (cases "0 < n") (auto simp: reverted_volume_def m' beta)
  have len: "i < length (mk_outcome_volumes_sats m')" using st(1) m'(2,3) by (simp add: market_shaped_def new)
  obtain m1 where m1: "revert_trading_volume i vol m' = Inr m1" "same_but_volumes m' m1"
  proof -
    let ?vs = "(mk_outcome_volumes_sats m')[i := saturating_sub (mk_outcome_volumes_sats m' ! i) vol]"
    let ?m = "m' \<lparr> mk_outcome_volumes_sats := ?vs, mk_total_volume_sats := saturating_sub (mk_total_volume_sats m') vol \<rparr>"
    have "same_but_volumes m' ?m" unfolding same_but_volumes_def by (intro exI [of _ ?vs] exI conjI) (simp, rule refl)
    then show ?thesis using that [of ?m] len by (simp add: revert_trading_volume_def)
  qed
  define m2 where "m2 = m1 \<lparr> mk_shares := effective, mk_version := wrapping_add 64 (mk_version m1) 1, mk_last_updated_height := height \<rparr>"
  have sh: "mk_shares m1 = new" "mk_id m1 = mid" "length (mk_outcome_volumes_sats m1) = length new" "mk_market_state m1 = mk_market_state m'"
      "mk_expires_at_height m1 = mk_expires_at_height m'" "mk_decision_ids m1 = mk_decision_ids m'"
      "mk_liquidity_base_sats m1 = mk_liquidity_base_sats m" "mk_trading_fee m1 = mk_trading_fee m" "mk_market_state m1 = mk_market_state m"
    using m1(2) m'(2-6) by (auto simp: same_but_volumes_def market_shaped_def)
  have "update_shares effective height m1 = Inr m2" using sh(1) by (simp add: update_shares_def update_state_def m2_def new Let_def)
  moreover have um: "update_market m2 (ss_markets s) = Inr (ss_markets s \<lparr> md_markets := db_put (md_markets (ss_markets s)) mid m2 \<rparr>)"
    by (rule rewrite_market [OF m'(1)]) (simp_all add: m2_def sh)
  ultimately have "\<exists>s'. revert_trade_market_state env lib txid_of height ftx s = Inr (s', (trader, mid, i, - n))
      \<and> ss_markets s' = ss_markets s \<lparr> md_markets := db_put (md_markets (ss_markets s)) mid m2 \<rparr>"
    using assms(2) m'(1) pre vol m1(1) n by (cases "0 < n") (simp_all add: revert_trade_market_state_def ok_or_def Let_def)
  moreover have "at_running dbs su (ss_markets s \<lparr> md_markets := db_put (md_markets (ss_markets s)) mid m2 \<rparr>)"
    unfolding at_running_def
  proof (intro allI impI)
    fix k mk assume mk: "get_market k dbs = Some mk"
    show "\<exists>x. get_market k (ss_markets s \<lparr> md_markets := db_put (md_markets (ss_markets s)) mid m2 \<rparr>) = Some x \<and> market_shaped k x
        \<and> try_fold add_at (market_deltas k su) (mk_shares mk) = Inr (mk_shares x)
        \<and> same_terms mk x"
    proof (cases "k = mid")
      case True
      then show ?thesis using mk t(1) eff sh by (simp add: get_market_def m2_def market_shaped_def same_terms_def new)
    next
      case False
      then have same: "market_deltas k su' = market_deltas k su" using st(8) by blast
      have "\<exists>x. get_market k (ss_markets s) = Some x \<and> market_shaped k x \<and> try_fold add_at (market_deltas k su') (mk_shares mk) = Inr (mk_shares x)
          \<and> same_terms mk x"
        using assms(8) mk unfolding at_running_def by blast
      then show ?thesis using False unfolding same by (simp add: get_market_def)
    qed
  qed
  ultimately show ?thesis by auto
qed


section \<open>All trades of a block\<close>

definition delta_sum :: "(address \<times> market_id \<times> nat \<times> int) list \<Rightarrow> address \<Rightarrow> market_id \<Rightarrow> nat \<Rightarrow> int" where
  "delta_sum ds a mid i = sum_list (map (\<lambda>(b, k, j, n). if (b, k, j) = (a, mid, i) then n else 0) ds)"

lemma apply_trade_txE:
  assumes "apply_trade_tx lib txid_of dbs e (su, sk) = Inr (su1, sk1)"
  obtains r where "apply_trade lib txid_of dbs (snd e) su = Inr (r, su1)" "sk1 = (case r of Applied \<Rightarrow> sk | Skipped _ \<Rightarrow> sk @ [fst e])"
proof -
  obtain r su2 where r: "apply_trade lib txid_of dbs (snd e) su = Inr (r, su2)" using assms by (auto simp: apply_trade_tx_def)
  then show ?thesis using assms that by (cases r) (simp_all add: apply_trade_tx_def)
qed

lemma skipped_grows:
  assumes "try_fold (apply_trade_tx lib txid_of dbs) es (su, sk) = Inr (su', sk')"
  shows "\<exists>xs. sk' = sk @ xs \<and> set xs \<subseteq> fst ` set es"
  using assms
proof (induction es arbitrary: su sk)
  case (Cons e es)
  obtain su1 sk1 where one: "apply_trade_tx lib txid_of dbs e (su, sk) = Inr (su1, sk1)"
    and rest: "try_fold (apply_trade_tx lib txid_of dbs) es (su1, sk1) = Inr (su', sk')" using Cons.prems by auto
  have "sk1 = sk \<or> sk1 = sk @ [fst e]"
    by (rule apply_trade_txE [OF one]) (auto split: trade_apply_result.splits)
  then show ?case using Cons.IH [OF rest] by auto
qed simp

lemma revert_loop:
  assumes "try_fold (apply_trade_tx lib txid_of dbs) es (su, sk) = Inr (su', sk')" and "distinct (map fst es)" and "fst ` set es \<inter> set sk = {}"
    and "share_inv dbs" and "running_inv dbs su" and "trades_only dbs su" and "\<forall>e \<in> set es. trade_i64 (t_data (ft_transaction (snd e)))"
    and "bases_fit dbs" and "at_running dbs su' (ss_markets s)" and "\<forall>e \<in> set es. fst e \<in> set skipped \<longleftrightarrow> fst e \<in> set sk'"
  shows "\<exists>s' ds. try_fold (revert_trade_tx env lib txid_of height skipped) (rev es) (s, ds0) = Inr (s', ds0 @ ds) \<and> at_running dbs su (ss_markets s')
    \<and> share_accounts (ss_markets s') = share_accounts (ss_markets s) \<and> (\<forall>(a, mid, i, n) \<in> set ds. i64 n)
    \<and> (\<forall>a mid i. delta_sum ds a mid i = pending_delta a mid i su - pending_delta a mid i su')"
  using assms
proof (induction es arbitrary: su sk)
  case Nil
  then show ?case by (auto simp: delta_sum_def)
next
  case (Cons e es)
  obtain su1 sk1 where one: "apply_trade_tx lib txid_of dbs e (su, sk) = Inr (su1, sk1)"
    and rest: "try_fold (apply_trade_tx lib txid_of dbs) es (su1, sk1) = Inr (su', sk')" using Cons.prems(1) by auto
  obtain r where r: "apply_trade lib txid_of dbs (snd e) su = Inr (r, su1)" "sk1 = (case r of Applied \<Rightarrow> sk | Skipped _ \<Rightarrow> sk @ [fst e])"
    by (rule apply_trade_txE [OF one])
  have data: "trade_i64 (t_data (ft_transaction (snd e)))" using Cons.prems(7) by simp
  note inv = apply_trade_inv [OF r(1) Cons.prems(4,5,6) data]
  have es: "distinct (map fst es)" "fst e \<notin> fst ` set es" "fst e \<notin> set sk" using Cons.prems(2,3) by auto
  have "fst ` set es \<inter> set sk1 = {}" using Cons.prems(3) es(2) r(2) by (cases r) auto
  from Cons.IH [OF rest es(1) this Cons.prems(4)] inv Cons.prems(7-10) obtain s1 ds where
    ih: "try_fold (revert_trade_tx env lib txid_of height skipped) (rev es) (s, ds0) = Inr (s1, ds0 @ ds)" "at_running dbs su1 (ss_markets s1)"
      "share_accounts (ss_markets s1) = share_accounts (ss_markets s)" "\<forall>(a, mid, i, n) \<in> set ds. i64 n"
      "\<forall>a mid i. delta_sum ds a mid i = pending_delta a mid i su1 - pending_delta a mid i su'" by auto
  have "fst e \<in> set sk' \<longleftrightarrow> fst e \<in> set sk1" using skipped_grows [OF rest] es(2) by auto
  then have skip: "fst e \<in> set skipped \<longleftrightarrow> r \<noteq> Applied" using Cons.prems(10) r(2) es(3) by (cases r) auto
  show ?case
  proof (cases r)
    case (Skipped reason)
    then have "su1 = su" using skipped_same r(1) by blast
    moreover have "revert_trade_tx env lib txid_of height skipped e (s1, ds0 @ ds) = Inr (s1, ds0 @ ds)"
      using skip Skipped by (simp add: revert_trade_tx_def)
    ultimately show ?thesis using ih by (intro exI [of _ s1] exI [of _ ds]) (simp add: try_fold_append)
  next
    case Applied
    obtain mid i n trader limit where t: "t_data (ft_transaction (snd e)) = Some (Trade mid i n trader limit)" by (rule apply_trade_data [OF r(1)])
    then have n: "i64 n" using data by simp
    note step = revert_step [OF r(1) [unfolded Applied] t Cons.prems(4,5,6) n Cons.prems(8) ih(2), of env height]
    then obtain s2 where s2: "revert_trade_market_state env lib txid_of height (snd e) s1 = Inr (s2, (trader, mid, i, - n))"
      "at_running dbs su (ss_markets s2)" "share_accounts (ss_markets s2) = share_accounts (ss_markets s1)" by blast
    obtain m xs where m: "trading_market mid dbs = Some m" "try_fold add_at (market_deltas mid su) (mk_shares m) = Inr xs"
      by (rule apply_trade_priced [OF r(1) [unfolded Applied] t]) (auto simp: running_market_state_def)
    note st = applied_step [OF r(1) [unfolded Applied] t Cons.prems(4,5) n m]
    have "revert_trade_tx env lib txid_of height skipped e (s1, ds0 @ ds) = Inr (s2, ds0 @ (ds @ [(trader, mid, i, - n)]))"
      using skip Applied s2(1) by (simp add: revert_trade_tx_def)
    moreover have "i64 (- n)" using st(2,5) n by (auto simp: i64_def)
    moreover have "delta_sum (ds @ [(trader, mid, i, - n)]) a k j = pending_delta a k j su - pending_delta a k j su'" for a k j
      using ih(5) st(7) by (auto simp: delta_sum_def)
    ultimately show ?thesis using ih(1,3,4) s2(2,3) by (intro exI [of _ s2] exI [of _ "ds @ [(trader, mid, i, - n)]"]) (auto simp: try_fold_append)
  qed
qed

text \<open>The batched changes of the holdings.\<close>

definition batched_at :: "(address \<times> market_id, (nat, int) db) db \<Rightarrow> address \<Rightarrow> market_id \<Rightarrow> nat \<Rightarrow> int" where
  "batched_at d a mid i = unwrap_or 0 (Option.bind (db_get d (a, mid)) (\<lambda>outcomes. db_get outcomes i))"

lemma i64_wrap: "i64 (wrap_i64 x)"
  by (simp add: i64_def wrap_i64_def)

lemma batch_delta_get:
  assumes "i64 n"
  shows "batched_at (batch_delta (b, k, j, n) d) a mid i =
     (if (a, mid, i) = (b, k, j) then wrap_i64 (batched_at d a mid i + n) else batched_at d a mid i)"
  using assms by (cases "db_get d (b, k)")
    (auto simp: batched_at_def batch_delta_def Let_def unwrap_or_def wrap_i64_exact i64_def split: option.split)

lemma batched_sum:
  assumes "\<forall>(a, mid, i, n) \<in> set ds. i64 n" and "i64 (batched_at d a mid i)"
  shows "batched_at (fold batch_delta ds d) a mid i = wrap_i64 (batched_at d a mid i + delta_sum ds a mid i)"
  using assms
proof (induction ds arbitrary: d)
  case Nil
  then show ?case by (simp add: delta_sum_def wrap_i64_exact i64_def)
next
  case (Cons e ds)
  obtain b k j n where e: "e = (b, k, j, n)" by (cases e)
  have n: "i64 n" using Cons.prems(1) by (simp add: e)
  note get = batch_delta_get [OF n, of b k j d a mid i, folded e]
  have "i64 (batched_at (batch_delta e d) a mid i)" using Cons.prems(2) by (simp add: get i64_wrap)
  moreover have "delta_sum (e # ds) a mid i = (if (a, mid, i) = (b, k, j) then n else 0) + delta_sum ds a mid i"
    by (auto simp: delta_sum_def e)
  ultimately show ?case using Cons.IH [of "batch_delta e d"] Cons.prems(1) by (simp add: get wrap_i64_add add.assoc)
qed

lemma trades_restored:
  assumes "market_inv dbs" and "bases_fit dbs" and "apply_trades lib txid_of dbs ftxs = Inr (su, skipped)"
    and "\<forall>ftx \<in> set ftxs. trade_i64 (t_data (ft_transaction ftx))" and "iterates_once env"
    and "apply_market_changes env height su dbs = Inr (ss_markets s)"
  shows "\<exists>s'. revert_trades env lib txid_of height skipped ftxs s = Inr s'
    \<and> (\<forall>mid m. get_market mid dbs = Some m \<longrightarrow> (\<exists>m'. get_market mid (ss_markets s') = Some m' \<and> mk_shares m' = mk_shares m))
    \<and> (\<forall>a mid i. owned_shares a mid i (ss_markets s') = owned_shares a mid i dbs)"
proof -
  let ?es = "List.enumerate 0 ftxs"
  have sh: "share_inv dbs" using assms(1) by (simp add: market_inv_def)
  have wr: "market_inv (ss_markets s)" "\<forall>a mid i. owned_shares a mid i (ss_markets s) = running_owned dbs su a mid i"
      "at_running dbs su (ss_markets s)" "running_inv dbs su"
    using block_written [OF assms(1,3,4,5), of height] assms(6) by auto
  have i64: "\<forall>e \<in> set ?es. trade_i64 (t_data (ft_transaction (snd e)))" using assms(4) by (auto simp: in_set_enumerate_eq)
  have keys: "distinct (map fst ?es)" "fst ` set ?es \<inter> set [] = {}" "\<forall>e \<in> set ?es. fst e \<in> set skipped \<longleftrightarrow> fst e \<in> set skipped"
    by simp_all
  from revert_loop [OF assms(3) [unfolded apply_trades_def] keys(1,2) sh running_inv_new [OF sh] trades_only_new i64 assms(2) wr(3) keys(3), of env height "[]"]
  obtain s1 ds where loop: "try_fold (revert_trade_tx env lib txid_of height skipped) (rev ?es) (s, []) = Inr (s1, ds)"
      "at_running dbs state_update_new (ss_markets s1)" "share_accounts (ss_markets s1) = share_accounts (ss_markets s)"
      "\<forall>(a, mid, i, n) \<in> set ds. i64 n" "\<forall>a mid i. delta_sum ds a mid i = pending_delta a mid i state_update_new - pending_delta a mid i su" by auto
  let ?d = "ss_markets s1" and ?b = "fold batch_delta ds db_empty"
  have own: "owned_shares a mid i ?d = running_owned dbs su a mid i" for a mid i
    using wr(2) by (simp add: owned_shares_def get_user_share_account_def loop(3))
  have old: "0 \<le> owned_shares a mid i dbs" "owned_shares a mid i dbs < 2 ^ 63" "0 \<le> running_owned dbs su a mid i" "running_owned dbs su a mid i < 2 ^ 63" for a mid i
    using sh wr(4) by (auto simp: share_inv_def running_inv_def)
  have batched: "batched_at ?b a mid i = - pending_delta a mid i su" for a mid i
  proof -
    have "batched_at ?b a mid i = wrap_i64 (- pending_delta a mid i su)"
      using batched_sum [OF loop(4), of db_empty a mid i] loop(5)
      by (simp add: batched_at_def i64_def unwrap_or_def pending_delta_def state_update_new_def)
    also have "\<dots> = - pending_delta a mid i su"
      using old [of a mid i] by (intro wrap_i64_exact) (auto simp: running_owned_def)
    finally show ?thesis .
  qed
  let ?es' = "account_changes env ?b"
  note es = account_changes_facts [OF assms(5), where changes = ?b]
  have val: "n = - pending_delta a mid i su" if "(a, mid, i, n) \<in> set ?es'" for a mid i n
    using that batched [of a mid i] unfolding es(2) batched_at_def by (auto simp: unwrap_or_def)
  have range: "\<forall>(a, mid, i, n) \<in> set ?es'. 0 \<le> owned_shares a mid i ?d + n \<and> owned_shares a mid i ?d + n < 2 ^ 63"
  proof (intro ballI, clarify)
    fix a mid i n assume mem: "(a, mid, i, n) \<in> set ?es'"
    show "0 \<le> owned_shares a mid i ?d + n \<and> owned_shares a mid i ?d + n < 2 ^ 63"
      using old(1,2) [of a mid i] unfolding own val [OF mem] running_owned_def by simp
  qed
  have "\<forall>a mid i. 0 \<le> owned_shares a mid i ?d \<and> owned_shares a mid i ?d < 2 ^ 63" using old(3,4) by (simp add: own)
  from change_accounts_ok [OF es(1) this range, of height] obtain x where
    x: "try_fold (change_account height) ?es' ?d = Inr (?d \<lparr> share_accounts := x \<rparr>)"
      "\<forall>a mid i. owned_shares a mid i (?d \<lparr> share_accounts := x \<rparr>) =
         owned_shares a mid i ?d + unwrap_or 0 (map_of (map (\<lambda>(a, mid, i, n). ((a, mid, i), n)) ?es') (a, mid, i))" by blast
  have "unwrap_or 0 (map_of (map (\<lambda>(a, mid, i, n). ((a, mid, i), n)) ?es') (a, mid, i)) = batched_at ?b a mid i" for a mid i
    using changes_lookup [OF assms(5)] by (simp add: batched_at_def)
  then have "owned_shares a mid i (?d \<lparr> share_accounts := x \<rparr>) = owned_shares a mid i dbs" for a mid i
    using x(2) own batched by (simp add: running_owned_def)
  moreover have "revert_trades env lib txid_of height skipped ftxs s = Inr (s1 \<lparr> ss_markets := ?d \<lparr> share_accounts := x \<rparr> \<rparr>)"
    using loop(1) x(1) by (simp add: revert_trades_def revert_share_deltas_def)
  moreover have "\<exists>m'. get_market mid (?d \<lparr> share_accounts := x \<rparr>) = Some m' \<and> mk_shares m' = mk_shares m" if "get_market mid dbs = Some m" for mid m
  proof -
    have "market_deltas mid state_update_new = []" by (simp add: market_deltas_def state_update_new_def List.map_filter_def)
    moreover obtain m' where "get_market mid ?d = Some m'" "try_fold add_at (market_deltas mid state_update_new) (mk_shares m) = Inr (mk_shares m')"
      using loop(2) \<open>get_market mid dbs = Some m\<close> unfolding at_running_def by blast
    ultimately show ?thesis by (simp add: get_market_def)
  qed
  ultimately show ?thesis by (intro exI [of _ "s1 \<lparr> ss_markets := ?d \<lparr> share_accounts := x \<rparr> \<rparr>"]) simp
qed

text \<open>
  C9. Disconnecting the trades of a block restores the shares. Take tables with the market invariant (in markets open
  for trading the shares are the sums of the holdings; nothing is asked of settled ones) in which the liquidity
  of every market fits 64 bits. When the trades that a block applied and wrote are taken back in the reverse
  order, every step succeeds, the shares of every market, settled or not, are those before the block and
  every address holds what it held before. The skipped trades of the block are skipped again.
\<close>

theorem trades_roundtrip:
  assumes "market_inv dbs" and "bases_fit dbs" and "apply_trades lib txid_of dbs ftxs = Inr (su, skipped)"
    and "\<forall>ftx \<in> set ftxs. trade_i64 (t_data (ft_transaction ftx))" and "iterates_once env"
    and "apply_market_changes env height su dbs = Inr (ss_markets s)"
  shows "\<exists>s'. revert_trades env lib txid_of height skipped ftxs s = Inr s'
    \<and> (\<forall>mid m. get_market mid dbs = Some m \<longrightarrow> (\<exists>m'. get_market mid (ss_markets s') = Some m' \<and> mk_shares m' = mk_shares m))
    \<and> (\<forall>a mid i. owned_shares a mid i (ss_markets s') = owned_shares a mid i dbs)"
  using assms by (rule trades_restored)

theorem trades_roundtrip_witness:
  "\<exists>su dbs' s'. apply_trades example_libm sale_txid sale_dbs [sale_tx] = Inr (su, [])
     \<and> apply_market_changes example_trade_env 5 su sale_dbs = Inr dbs'
     \<and> revert_trades example_trade_env example_libm sale_txid 5 [] [sale_tx] (toss_state \<lparr> ss_markets := dbs' \<rparr>) = Inr s'
     \<and> owned_shares 7 9 0 (ss_markets s') = 2048"
proof -
  obtain su where su: "apply_trade example_libm sale_txid sale_dbs sale_tx state_update_new = Inr (Applied, su)" using sale_applied by blast
  then have trades: "apply_trades example_libm sale_txid sale_dbs [sale_tx] = Inr (su, [])" by (simp add: apply_trades_def apply_trade_tx_def)
  have i64: "\<forall>ftx \<in> set [sale_tx]. trade_i64 (t_data (ft_transaction ftx))" by (simp add: sale_tx_def i64_def)
  have fit: "bases_fit sale_dbs" by (auto simp: bases_fit_def sale_market_facts split: if_splits)
  obtain dbs' where dbs': "apply_market_changes example_trade_env 5 su sale_dbs = Inr dbs'"
    using block_written [OF sale_inv trades i64 example_once, of 5] by blast
  from trades_roundtrip [OF sale_inv fit trades i64 example_once, of 5 "toss_state \<lparr> ss_markets := dbs' \<rparr>"] dbs'
  have "\<exists>s'. revert_trades example_trade_env example_libm sale_txid 5 [] [sale_tx] (toss_state \<lparr> ss_markets := dbs' \<rparr>) = Inr s'
      \<and> owned_shares 7 9 0 (ss_markets s') = 2048" by (auto simp: sale_owned)
  then show ?thesis using trades dbs' by blast
qed

section \<open>The traded volume after a reorganisation\<close>









end
