(* ===== verification/Spec2Isabelle.thy ===== *)
theory Spec2Isabelle
  imports DecisionDb PegBlocks Mempool TradeUndo
begin

text \<open>
  This library models the consensus state of \<open>truthcoin-dc\<close>, a Bitcoin sidechain for prediction markets:
  decisions are claimed and voted on, markets on them are traded and settled, and coins enter and leave
  through the two-way peg. The code is Rust; the paths below are relative to \<open>src/lib\<close>.

  \<^bold>\<open>Conventions.\<close> A \<open>Result\<close> is \<open>('e, 'a) result\<close> with \<open>Inl\<close> for the error, \<open>?\<close> is \<open>rbind\<close>, a \<open>for\<close> loop
  with \<open>?\<close> is \<open>try_fold\<close>. A panic is the error \<open>Panic\<close>. Unsigned integers are natural numbers with
  \<open>checked_\<close>, \<open>saturating_\<close>, \<open>wrapping_\<close> operations and casts that take the width; plain operators wrap,
  as in the release profile. Doubles are the type \<open>f64\<close> of the theory \<open>F64\<close>: exact rational results
  rounded to 53 bits. A database table is a store \<open>('k, 'v) db\<close> sorted by key; the I/O errors of the
  storage engine are not modelled. The state of a component is a record, an operation takes and
  returns it, and undo operations are separate definitions as in the code.

  \<^bold>\<open>Parts, theories and results.\<close>

  \<^item> \<open>Prelude\<close>: results, arithmetic, stores (the locale \<open>store\<close>, interpreted on \<open>db\<close>), and the locale
    \<open>reversible\<close> of loops that a second loop undoes in the reverse order, interpreted on the spending
    and creation of outputs. \<open>F64\<close>, \<open>F64Rounding\<close>: doubles and the monotonicity of rounding.
    \<open>StateTypes\<close>: outpoints, outputs, inpoints and the error type.
  \<^item> Listing fees (\<open>math/decisions.rs\<close>) in \<open>DecisionMath\<close>; decision identifiers, types and histories
    (\<open>state/decisions/types.rs\<close>) in \<open>DecisionTypes\<close>; the clock of the voting periods
    (\<open>state/voting/period_calculator.rs\<close>) in \<open>Periods\<close>; the price of a period
    (\<open>state/decisions/pricing.rs\<close>) in \<open>Pricing\<close>; the decision tables (\<open>state/decisions/database.rs\<close>) in
    \<open>DecisionDb\<close>, with what a block does to them (\<open>connect_prevalidated\<close> of \<open>state/block.rs\<close>). Shown: fees and
    repricing are bounded and monotone, a history follows the life cycle, a validated claim succeeds, on
    the timestamp clock claims never exceed what was minted, pricing undo and rollback restore the tables,
    where the revert of a claim loses a period, and how on the block clock a claim suppresses a mint.
  \<^item> Transactions (\<open>types/transaction\<close>) in \<open>Transactions\<close>, the UTXO set (\<open>state/mod.rs\<close>, \<open>state/block.rs\<close>)
    in \<open>Utxo\<close>. Shown: filling conserves value, the address index is exact, disconnecting a transaction
    undoes connecting it.
  \<^item> Two-way peg (\<open>state/two_way_peg_data.rs\<close>, \<open>types/mod.rs\<close>, \<open>state/rollback.rs\<close>) in \<open>Rollback\<close>,
    \<open>Bundles\<close>, \<open>TwoWayPeg\<close> and \<open>PegBlocks\<close>. Shown: a collected bundle is balanced, spends unspent
    withdrawals and fits the weight limit; every event and a whole block are undone by the
    disconnection, and the case in which they are not.
  \<^item> The mempool (\<open>mempool.rs\<close>, and the loops of \<open>node/net_task.rs\<close>) in \<open>Mempool\<close>. Shown: every reachable
    pool has consistent indexes, a deletion removes exactly the descendants, the order of trades and
    where it breaks, the reorganisation that fails.
  \<^item> Amounts and allocation (\<open>math/safe_math.rs\<close>, \<open>math/allocation.rs\<close>, \<open>math/trading.rs\<close>) in \<open>SafeMath\<close> and
    \<open>Allocation\<close>. Shown: an allocation distributes exactly its pool, a purchase followed by a sale
    costs at least both fees.
  \<^item> Votes, ballots and reputation (\<open>state/voting/database.rs\<close>, \<open>state/reputation.rs\<close>, \<open>validation/vote.rs\<close>)
    in \<open>Votes\<close>; the consensus of a period (\<open>state/voting/mod.rs\<close>, \<open>math/voting/mod.rs\<close>) in \<open>Consensus\<close>. Shown:
    votes, transfers and consensus are undone exactly, the period scan is exact, the vote matrix
    refines a map, and a voter without reputation blocks the consensus.
  \<^item> Markets (\<open>math/markets.rs\<close>, \<open>state/markets\<close>) in \<open>MarketTypes\<close> and \<open>MarketDb\<close>, settlement in
    \<open>Settlement\<close> and its payouts in \<open>Payouts\<close>. Shown: the outcome space has the announced size and order,
    final prices are probabilities, the indexes of the market tables are exact, the treasury and the
    fees of a resolved market are distributed to the last satoshi, and the payouts are undone exactly.
  \<^item> The market maker (\<open>math/lmsr.rs\<close>, \<open>math/trading.rs\<close>) in \<open>Lmsr\<close>. Shown: its prices are probabilities.
  \<^item> Trades of a block (\<open>state/block.rs\<close>): the funds of the traded markets (\<open>consolidate_market_utxos\<close>,
    \<open>revert_consolidation\<close>) in \<open>Consolidation\<close>; \<open>StateUpdate\<close>, \<open>apply_trade\<close>, the writing of the collected
    changes and their revert in \<open>Trading\<close> and \<open>TradeUndo\<close>. Shown: consolidation conserves value and is
    undone exactly; the trades of a block keep the shares of every market open for trading equal to the
    sums of the holdings; disconnection restores shares and holdings; the volume of a sale is not restored.

  \<^bold>\<open>Parameters.\<close> Code outside the repository is an argument of the definitions that use it: the
  transaction identifier \<open>txid_of\<close>, sizes and scripts of the bitcoin crate (\<open>env\<close>), the order in which the
  storage engine iterates a table with non-canonical keys, the consensus oracle \<open>run_consensus\<close>
  (a singular value decomposition of nalgebra), \<open>hex_decode\<close>, the hashes \<open>market_id_of\<close> and
  \<open>payout_hash\<close>, the array sum \<open>array_sum\<close>, the record \<open>trade_env\<close> (the hashes and addresses of a market and
  the iteration orders of the hash sets of a block) and the record \<open>libm\<close> (\<open>exp\<close> and \<open>ln\<close>). Properties that need
  something of a parameter state it as a hypothesis.

  \<^bold>\<open>Loops.\<close> All loops are structural or carry a measure; no fuel is used.

  \<^bold>\<open>Not modelled.\<close> Serialisation and hashing, signatures, network and GUI tasks, the wallet's key
  handling and RPC glue (input, output and third-party code throughout); the chain archive and its
  fork choice; the creation of a market in a block (\<open>apply_market_creation\<close>), whose effects on the market
  tables are the operations of \<open>MarketDb\<close>; the numerical analysis of the oracle, which rests on nalgebra,
  and of \<open>exp\<close> and \<open>ln\<close>.
\<close>

end
